(* ===== verification/Omen_Prelude.thy ===== *)
theory Omen_Prelude
  imports Main "HOL-Library.Word"
begin

text \<open>
  Shared vocabulary of the development: the machine integers of the C code, the
  result type of operations that may panic or spin forever, the collections of
  simplification rules the component theories fill, and generic facts on words,
  loops over words and lists.
\<close>

unbundle bit_operations_syntax

type_synonym u8 = "8 word"
type_synonym u16 = "16 word"
type_synonym u32 = "32 word"
type_synonym u64 = "64 word"

text \<open>
  \<open>panic\<close> (modules/apps/panic/panic.c) prints its message and never returns; a
  \<open>mutex_lock\<close> on a mutex nobody will release never returns either.  An operation that
  may do one of these returns a fault or a value.
\<close>

datatype fault = Panic string | Spin

type_synonym 'a res = "fault + 'a"

definition res_bind :: "'a res \<Rightarrow> ('a \<Rightarrow> 'b res) \<Rightarrow> 'b res" where
  "res_bind r f = (case r of Inl e \<Rightarrow> Inl e | Inr x \<Rightarrow> f x)"

named_theorems bits_simps "reading a bit array after an update"
named_theorems heap_simps "reading the list heap after an update"
named_theorems ring_simps "ring buffer index arithmetic"

lemma res_bind_simps [simp]:
  "res_bind (Inl e) f = Inl e"
  "res_bind (Inr x) f = f x"
  by (simp_all add: res_bind_def)

lemma res_bind_Inr_iff:
  "res_bind r f = Inr y \<longleftrightarrow> (\<exists>x. r = Inr x \<and> f x = Inr y)"
  by (cases r) auto

section \<open>Loops that count up over machine words\<close>

lemma unat_u64_less: "unat (w :: u64) < 2 ^ 64"
  using unsigned_less [of w, where 'a = nat] by simp

lemma unat_ucast_u16 [simp]: "unat (ucast (w :: u16) :: u64) = unat w"
proof -
  have "unat w < 2 ^ 64" using unsigned_less [of w, where 'a = nat] by simp
  then show ?thesis by (simp add: unsigned_ucast_eq take_bit_nat_eq_self)
qed

lemma unat_add_1_less: "unat (i + 1) = Suc (unat i)" if "i < e" for i e :: "'a::len word"
proof -
  have "unat i + 1 < 2 ^ LENGTH('a)"
    using that unsigned_less [of e, where 'a = nat] unfolding word_less_nat_alt by linarith
  then show ?thesis
    by (simp add: unat_word_ariths)
qed

lemma word_loop_measure: "unat e - unat (i + 1) < unat e - unat i" if "i < e"
  for i e :: "'a::len word"
  using that by (simp add: unat_add_1_less word_less_nat_alt)

lemma word_between_Suc: "(i + 1 \<le> k \<and> k < e) \<longleftrightarrow> (i < k \<and> k < e)" if "i < e"
  for i k e :: "'a::len word"
  using that by (auto simp: word_less_nat_alt word_le_nat_alt unat_add_1_less)

lemma word_between_split: "(i \<le> k \<and> k < e) \<longleftrightarrow> (k = i \<or> (i + 1 \<le> k \<and> k < e))" if "i < e"
  for i k e :: "'a::len word"
  using that by (auto simp: word_between_Suc)

lemma word_singleton_range: "{k. i \<le> k \<and> k < i + 1} = {i}" if "i < e" for i e :: "'a::len word"
proof -
  have "k \<le> i" if "k < i + 1" for k
    using that unat_add_1_less [OF \<open>i < e\<close>] by (simp add: word_less_nat_alt word_le_nat_alt)
  moreover have "i < i + 1"
    using unat_add_1_less [OF that] by (simp add: word_less_nat_alt)
  ultimately show ?thesis by (auto intro: order.antisym)
qed

lemma word_mult_div_cancel:
  "(i * p) div p = i" if "unat i * unat p < 2 ^ LENGTH('a)" and "p \<noteq> 0" for i p :: "'a::len word"
proof (rule word_unat_eq_iff [THEN iffD2])
  show "unat (i * p div p) = unat i"
    using that by (simp add: unat_div unat_word_ariths unat_gt_0)
qed

lemma unat_add_no_wrap:
  "unat (i + p) = unat i + unat p" if "unat i + unat p < 2 ^ LENGTH('a)" for i p :: "'a::len word"
  using that by (simp add: unat_word_ariths)

section \<open>Natural numbers below the word size\<close>

lemma unat_of_nat_u64 [simp]: "n < 2 ^ 64 \<Longrightarrow> unat (of_nat n :: u64) = n"
  by (simp add: unat_of_nat)

lemma of_nat_u64_inj: "n < 2 ^ 64 \<Longrightarrow> k < 2 ^ 64 \<Longrightarrow> (of_nat n :: u64) = of_nat k \<longleftrightarrow> n = k"
  by (metis unat_of_nat_u64)

lemma drop_bit_of_nat_u64: "n < 2 ^ 64 \<Longrightarrow> drop_bit k (of_nat n :: u64) = of_nat (n div 2 ^ k)"
proof (rule word_unat_eq_iff [THEN iffD2])
  assume n: "n < 2 ^ 64"
  then have "n div 2 ^ k < 2 ^ 64" by (rule le_less_trans [OF div_le_dividend])
  with n show "unat (drop_bit k (of_nat n :: u64)) = unat (of_nat (n div 2 ^ k) :: u64)"
    unfolding unat_drop_bit_eq by (simp only: unat_of_nat_u64 drop_bit_eq_div)
qed

lemma div_of_nat_u64:
  "n < 2 ^ 64 \<Longrightarrow> d < 2 ^ 64 \<Longrightarrow> (of_nat n :: u64) div of_nat d = of_nat (n div d)"
proof (rule word_unat_eq_iff [THEN iffD2])
  assume n: "n < 2 ^ 64" and d: "d < 2 ^ 64"
  then have "n div d < 2 ^ 64" by (metis div_le_dividend le_less_trans)
  with n d show "unat ((of_nat n :: u64) div of_nat d) = unat (of_nat (n div d) :: u64)"
    by (simp only: unat_div unat_of_nat_u64)
qed

lemma of_nat_pred_u64: "0 < n \<Longrightarrow> (of_nat n :: u64) - 1 = of_nat (n - 1)"
  by (cases n) simp_all

section \<open>Single bits of words\<close>

lemma and_exp_eq_0_iff_bit:
  "(w AND 2 ^ n = 0) \<longleftrightarrow> \<not> bit w n" for w :: "'a::len word"
  by (auto simp: bit_eq_iff [where 'a = "'a word"] bit_simps dest: bit_imp_le_length)

lemma bit_or_exp:
  "bit (w OR 2 ^ n) m \<longleftrightarrow> bit w m \<or> (m = n \<and> n < LENGTH('a))" for w :: "'a::len word"
  by (auto simp: bit_simps)

lemma bit_and_not_exp:
  "bit (w AND NOT (2 ^ n)) m \<longleftrightarrow> bit w m \<and> m \<noteq> n" for w :: "'a::len word"
  by (auto simp: bit_simps dest: bit_imp_le_length)

lemmas bit_exp_simps = and_exp_eq_0_iff_bit bit_or_exp bit_and_not_exp

lemma unat_and_mask: "unat (w AND mask n) = unat w mod 2 ^ n" for w :: "'a::len word"
  unfolding take_bit_eq_mask [symmetric] unsigned_take_bit_eq by (simp only: take_bit_eq_mod)

end
