(* ===== verification/Bitmap.thy ===== *)
theory Bitmap
  imports Omen_Prelude
begin

text \<open>
  The bit arrays of include/omen/libraries/basic/bitmap.h, and the contract of a bit array
  that they share with the page bitmap of the bitfield allocator.  A bitmap is the memory
  behind a pointer to 64-bit words, read by word index; indices are 64-bit.
\<close>

type_synonym bitmap_t = "u64 \<Rightarrow> u64"

definition bitmap_word :: "u64 \<Rightarrow> u64" where
  "bitmap_word index = drop_bit 6 index"

definition bitmap_mask :: "u64 \<Rightarrow> u64" where
  "bitmap_mask index = push_bit (unat (index AND 63)) 1"

definition bitmap_set :: "bitmap_t \<Rightarrow> u64 \<Rightarrow> bitmap_t" where
  "bitmap_set bitmap index =
     bitmap(bitmap_word index := bitmap (bitmap_word index) OR bitmap_mask index)"

definition bitmap_clear :: "bitmap_t \<Rightarrow> u64 \<Rightarrow> bitmap_t" where
  "bitmap_clear bitmap index =
     bitmap(bitmap_word index := bitmap (bitmap_word index) AND NOT (bitmap_mask index))"

definition bitmap_get :: "bitmap_t \<Rightarrow> u64 \<Rightarrow> bool" where
  "bitmap_get bitmap index = (bitmap (bitmap_word index) AND bitmap_mask index \<noteq> 0)"

definition bitmap_toggle :: "bitmap_t \<Rightarrow> u64 \<Rightarrow> bitmap_t" where
  "bitmap_toggle bitmap index =
     (let array_index = bitmap_word index; bit_value = bitmap_mask index in
      if bitmap array_index AND bit_value \<noteq> 0
      then bitmap(array_index := bitmap array_index AND NOT bit_value)
      else bitmap(array_index := bitmap array_index OR bit_value))"

section \<open>Contract of a bit array\<close>

locale bit_array =
  fixes get :: "'m \<Rightarrow> 'i \<Rightarrow> bool"
    and set_bit :: "'m \<Rightarrow> 'i \<Rightarrow> 'm"
    and clear_bit :: "'m \<Rightarrow> 'i \<Rightarrow> 'm"
  assumes get_set: "get (set_bit m i) j \<longleftrightarrow> get m j \<or> i = j"
    and get_clear: "get (clear_bit m i) j \<longleftrightarrow> get m j \<and> i \<noteq> j"
begin

lemma get_set_all: "get (fold (\<lambda>i m. set_bit m i) is m) j \<longleftrightarrow> get m j \<or> j \<in> set is"
  by (induction "is" arbitrary: m) (auto simp: get_set)

lemma get_clear_all: "get (fold (\<lambda>i m. clear_bit m i) is m) j \<longleftrightarrow> get m j \<and> j \<notin> set is"
  by (induction "is" arbitrary: m) (auto simp: get_clear)

lemma clear_set_all:
  "get (fold (\<lambda>i m. clear_bit m i) is (fold (\<lambda>i m. set_bit m i) is m)) j
     \<longleftrightarrow> get m j \<and> j \<notin> set is"
  by (auto simp: get_set_all get_clear_all)

end

section \<open>The bitmap is a bit array\<close>

lemma bitmap_split_inj:
  "bitmap_word i = bitmap_word j \<Longrightarrow> i AND 63 = j AND 63 \<Longrightarrow> i = j" for i j :: u64
proof -
  assume a: "bitmap_word i = bitmap_word j" "i AND 63 = j AND 63"
  have m: "(63 :: u64) = mask 6" by (simp add: mask_eq_exp_minus_1)
  have split: "push_bit 6 (drop_bit 6 k) OR (k AND mask 6) = k" for k :: u64
    by (rule bit_word_eqI) (auto simp: bit_simps)
  show "i = j"
    by (subst split [symmetric], subst (3) split [symmetric])
       (simp only: a(1) [unfolded bitmap_word_def] a(2) [unfolded m])
qed

lemma unat_and_63_less: "unat (i AND 63) < 64" for i :: u64
  using unat_and_mask [of i 6] by (simp add: mask_eq_exp_minus_1)

lemma bitmap_split_unat:
  "bitmap_word i = bitmap_word j \<Longrightarrow> unat (i AND 63) = unat (j AND 63) \<Longrightarrow> i = j" for i j :: u64
  by (rule bitmap_split_inj) (simp_all only: word_unat_eq_iff [of "i AND 63"])

lemma bitmap_get_bit:
  "bitmap_get m i \<longleftrightarrow> bit (m (bitmap_word i)) (unat (i AND 63))"
  by (simp add: bitmap_get_def bitmap_mask_def bit_exp_simps)

lemma bitmap_get_set [bits_simps]: "bitmap_get (bitmap_set m i) j \<longleftrightarrow> bitmap_get m j \<or> i = j"
proof (cases "i = j")
  case False
  with bitmap_split_unat [of i j] show ?thesis
    unfolding bitmap_get_bit bitmap_set_def bitmap_mask_def push_bit_of_1
    by (simp add: bit_or_exp) metis
qed (simp add: bitmap_get_bit bitmap_set_def bitmap_mask_def bit_or_exp unat_and_63_less)

lemma bitmap_get_clear [bits_simps]:
  "bitmap_get (bitmap_clear m i) j \<longleftrightarrow> bitmap_get m j \<and> i \<noteq> j"
proof (cases "i = j")
  case False
  with bitmap_split_unat [of i j] show ?thesis
    unfolding bitmap_get_bit bitmap_clear_def bitmap_mask_def push_bit_of_1
    by (simp add: bit_and_not_exp) metis
qed (simp add: bitmap_get_bit bitmap_clear_def bitmap_mask_def bit_and_not_exp)

lemma bitmap_toggle_alt:
  "bitmap_toggle m i = (if bitmap_get m i then bitmap_clear m i else bitmap_set m i)"
  by (simp add: bitmap_toggle_def bitmap_get_def bitmap_clear_def bitmap_set_def Let_def)

lemma bitmap_get_toggle [bits_simps]:
  "bitmap_get (bitmap_toggle m i) j \<longleftrightarrow> (bitmap_get m j \<noteq> (i = j))"
  by (auto simp: bitmap_toggle_alt bits_simps)

interpretation bmap: bit_array bitmap_get bitmap_set bitmap_clear
  by unfold_locales (auto simp: bits_simps)

end
