(* ===== verification/Concurrency.thy ===== *)
theory Concurrency
  imports Omen_Prelude
begin

text \<open>
  The synchronisation primitives of modules/libraries/concurrency/mutex.c.  The first
  part gives each operation its meaning for a single thread of control: taking a lock that
  is held, or waiting on an exhausted semaphore, spins forever.  The second part is a step
  relation in which any number of threads interleave at the atomic accesses of the code;
  mutual exclusion is proved once from the contract of a test-and-set lock and
  instantiated for the mutex and the spinlock, and the semaphore's accounting is an
  invariant of its own step relation.
\<close>

section \<open>Data and operations, one thread of control\<close>

record mutex_t =
  mx_lock :: bool

record semaphore_t =
  sem_count :: int
  sem_mutex :: mutex_t

record condition_t =
  cond_mutex :: semaphore_t
  cond_wait :: semaphore_t
  cond_wait_count :: int

record barrier_t =
  bar_count :: int
  bar_total :: int
  bar_condition :: condition_t

record spinlock_t =
  spin_flag :: int

definition mutex_init :: "mutex_t \<Rightarrow> mutex_t" where
  "mutex_init m = m\<lparr>mx_lock := False\<rparr>"

definition mutex_lock :: "mutex_t \<Rightarrow> mutex_t res" where
  "mutex_lock m = (if mx_lock m then Inl Spin else Inr (m\<lparr>mx_lock := True\<rparr>))"

definition mutex_unlock :: "mutex_t \<Rightarrow> mutex_t" where
  "mutex_unlock m = m\<lparr>mx_lock := False\<rparr>"

definition semaphore_init :: "semaphore_t \<Rightarrow> int \<Rightarrow> semaphore_t" where
  "semaphore_init s count = s\<lparr>sem_count := count, sem_mutex := mutex_init (sem_mutex s)\<rparr>"

definition semaphore_wait :: "semaphore_t \<Rightarrow> semaphore_t res" where
  "semaphore_wait s = res_bind (mutex_lock (sem_mutex s)) (\<lambda>m.
     if sem_count s \<le> 0 then Inl Spin
     else Inr (s\<lparr>sem_count := sem_count s - 1, sem_mutex := mutex_unlock m\<rparr>))"

definition semaphore_signal :: "semaphore_t \<Rightarrow> semaphore_t res" where
  "semaphore_signal s = res_bind (mutex_lock (sem_mutex s)) (\<lambda>m.
     Inr (s\<lparr>sem_count := sem_count s + 1, sem_mutex := mutex_unlock m\<rparr>))"

definition condition_init :: "condition_t \<Rightarrow> condition_t" where
  "condition_init c = c\<lparr>cond_mutex := semaphore_init (cond_mutex c) 1,
                        cond_wait := semaphore_init (cond_wait c) 0,
                        cond_wait_count := 0\<rparr>"

definition condition_wait :: "condition_t \<Rightarrow> condition_t res" where
  "condition_wait c =
     res_bind (semaphore_wait (cond_mutex c)) (\<lambda>m.
     res_bind (semaphore_signal m) (\<lambda>m'.
     res_bind (semaphore_wait (cond_wait c)) (\<lambda>w.
       Inr (c\<lparr>cond_mutex := m', cond_wait := w,
              cond_wait_count := cond_wait_count c + 1 - 1\<rparr>))))"

definition condition_signal :: "condition_t \<Rightarrow> condition_t res" where
  "condition_signal c =
     res_bind (semaphore_wait (cond_mutex c)) (\<lambda>m.
     res_bind (if cond_wait_count c > 0 then semaphore_signal (cond_wait c)
               else Inr (cond_wait c)) (\<lambda>w.
     res_bind (semaphore_signal m) (\<lambda>m'.
       Inr (c\<lparr>cond_mutex := m', cond_wait := w\<rparr>))))"

primrec broadcast_loop :: "nat \<Rightarrow> semaphore_t \<Rightarrow> semaphore_t res" where
  "broadcast_loop 0 w = Inr w"
| "broadcast_loop (Suc n) w = res_bind (semaphore_signal w) (broadcast_loop n)"

definition condition_broadcast :: "condition_t \<Rightarrow> condition_t res" where
  "condition_broadcast c =
     res_bind (semaphore_wait (cond_mutex c)) (\<lambda>m.
     res_bind (broadcast_loop (nat (cond_wait_count c)) (cond_wait c)) (\<lambda>w.
     res_bind (semaphore_signal m) (\<lambda>m'.
       Inr (c\<lparr>cond_mutex := m', cond_wait := w, cond_wait_count := 0\<rparr>))))"

definition barrier_init :: "barrier_t \<Rightarrow> int \<Rightarrow> barrier_t" where
  "barrier_init b count = b\<lparr>bar_count := count, bar_total := 0,
                            bar_condition := condition_init (bar_condition b)\<rparr>"

definition barrier_wait :: "barrier_t \<Rightarrow> barrier_t res" where
  "barrier_wait b =
     res_bind (semaphore_wait (cond_mutex (bar_condition b))) (\<lambda>m.
     let c = (bar_condition b)\<lparr>cond_mutex := m\<rparr>; total = bar_total b + 1 in
     res_bind (if total = bar_count b
               then res_bind (condition_broadcast c) (\<lambda>c'. Inr (0, c'))
               else res_bind (condition_wait c) (\<lambda>c'. Inr (total, c'))) (\<lambda>(total', c').
     res_bind (semaphore_signal (cond_mutex c')) (\<lambda>m'.
       Inr (b\<lparr>bar_total := total', bar_condition := c'\<lparr>cond_mutex := m'\<rparr>\<rparr>))))"

definition spinlock_init :: "spinlock_t \<Rightarrow> spinlock_t" where
  "spinlock_init l = l\<lparr>spin_flag := 0\<rparr>"

definition spinlock_lock :: "spinlock_t \<Rightarrow> spinlock_t res" where
  "spinlock_lock l = (if spin_flag l \<noteq> 0 then Inl Spin else Inr (l\<lparr>spin_flag := 1\<rparr>))"

definition spinlock_unlock :: "spinlock_t \<Rightarrow> spinlock_t" where
  "spinlock_unlock l = l\<lparr>spin_flag := 0\<rparr>"

section \<open>Interleaved threads around a test-and-set lock\<close>

text \<open>
  A thread is outside, spinning on the lock, or inside the section the lock protects.
  The lock operation is the parameter \<open>acquire\<close>: one atomic attempt, which either fails
  (the thread keeps spinning) or takes the lock.
\<close>

datatype lock_pc = Outside | Acquiring | Inside

record 'l lock_sys =
  ls_lock :: 'l
  ls_pc :: "nat \<Rightarrow> lock_pc"

inductive lock_step :: "('l \<Rightarrow> 'l res) \<Rightarrow> ('l \<Rightarrow> 'l) \<Rightarrow> 'l lock_sys \<Rightarrow> 'l lock_sys \<Rightarrow> bool"
  for acquire release where
  call: "ls_pc s t = Outside \<Longrightarrow>
    lock_step acquire release s (s\<lparr>ls_pc := (ls_pc s)(t := Acquiring)\<rparr>)"
| spin: "ls_pc s t = Acquiring \<Longrightarrow> acquire (ls_lock s) = Inl Spin \<Longrightarrow>
    lock_step acquire release s s"
| take: "ls_pc s t = Acquiring \<Longrightarrow> acquire (ls_lock s) = Inr l \<Longrightarrow>
    lock_step acquire release s (s\<lparr>ls_lock := l, ls_pc := (ls_pc s)(t := Inside)\<rparr>)"
| leave: "ls_pc s t = Inside \<Longrightarrow>
    lock_step acquire release s
      (s\<lparr>ls_lock := release (ls_lock s), ls_pc := (ls_pc s)(t := Outside)\<rparr>)"

inductive lock_reach :: "('l \<Rightarrow> 'l res) \<Rightarrow> ('l \<Rightarrow> 'l) \<Rightarrow> 'l \<Rightarrow> 'l lock_sys \<Rightarrow> bool"
  for acquire release l0 where
  init: "lock_reach acquire release l0 \<lparr>ls_lock = l0, ls_pc = (\<lambda>_. Outside)\<rparr>"
| step: "lock_reach acquire release l0 s \<Longrightarrow> lock_step acquire release s s' \<Longrightarrow>
    lock_reach acquire release l0 s'"

inductive_cases lock_stepE: "lock_step acquire release s s'"

section \<open>Interleaved threads on a semaphore\<close>

text \<open>
  The control points of \<open>semaphore_wait\<close> and \<open>semaphore_signal\<close>, one per atomic access.
  The two counters record how many decrements and increments have been performed.
\<close>

datatype sem_pc = Idle | WLock | WTest | WRelease | WDec | WUnlock | SLock | SInc | SUnlock

record sem_sys =
  ss_sem :: semaphore_t
  ss_pc :: "nat \<Rightarrow> sem_pc"
  ss_waits :: nat
  ss_signals :: nat

abbreviation ss_goto :: "sem_sys \<Rightarrow> nat \<Rightarrow> sem_pc \<Rightarrow> sem_sys" where
  "ss_goto s t p \<equiv> s\<lparr>ss_pc := (ss_pc s)(t := p)\<rparr>"

abbreviation ss_set_mutex :: "sem_sys \<Rightarrow> mutex_t \<Rightarrow> sem_sys" where
  "ss_set_mutex s m \<equiv> s\<lparr>ss_sem := (ss_sem s)\<lparr>sem_mutex := m\<rparr>\<rparr>"

inductive sem_step :: "sem_sys \<Rightarrow> sem_sys \<Rightarrow> bool" where
  call_wait: "ss_pc s t = Idle \<Longrightarrow> sem_step s (ss_goto s t WLock)"
| call_signal: "ss_pc s t = Idle \<Longrightarrow> sem_step s (ss_goto s t SLock)"
| w_lock: "ss_pc s t = WLock \<Longrightarrow> mutex_lock (sem_mutex (ss_sem s)) = Inr m \<Longrightarrow>
    sem_step s (ss_goto (ss_set_mutex s m) t WTest)"
| w_empty: "ss_pc s t = WTest \<Longrightarrow> sem_count (ss_sem s) \<le> 0 \<Longrightarrow> sem_step s (ss_goto s t WRelease)"
| w_avail: "ss_pc s t = WTest \<Longrightarrow> \<not> sem_count (ss_sem s) \<le> 0 \<Longrightarrow> sem_step s (ss_goto s t WDec)"
| w_release: "ss_pc s t = WRelease \<Longrightarrow>
    sem_step s (ss_goto (ss_set_mutex s (mutex_unlock (sem_mutex (ss_sem s)))) t WLock)"
| w_dec: "ss_pc s t = WDec \<Longrightarrow>
    sem_step s (ss_goto (s\<lparr>ss_sem := (ss_sem s)\<lparr>sem_count := sem_count (ss_sem s) - 1\<rparr>,
                           ss_waits := Suc (ss_waits s)\<rparr>) t WUnlock)"
| w_unlock: "ss_pc s t = WUnlock \<Longrightarrow>
    sem_step s (ss_goto (ss_set_mutex s (mutex_unlock (sem_mutex (ss_sem s)))) t Idle)"
| s_lock: "ss_pc s t = SLock \<Longrightarrow> mutex_lock (sem_mutex (ss_sem s)) = Inr m \<Longrightarrow>
    sem_step s (ss_goto (ss_set_mutex s m) t SInc)"
| s_inc: "ss_pc s t = SInc \<Longrightarrow>
    sem_step s (ss_goto (s\<lparr>ss_sem := (ss_sem s)\<lparr>sem_count := sem_count (ss_sem s) + 1\<rparr>,
                           ss_signals := Suc (ss_signals s)\<rparr>) t SUnlock)"
| s_unlock: "ss_pc s t = SUnlock \<Longrightarrow>
    sem_step s (ss_goto (ss_set_mutex s (mutex_unlock (sem_mutex (ss_sem s)))) t Idle)"

inductive sem_reach :: "int \<Rightarrow> sem_sys \<Rightarrow> bool" for c where
  init: "sem_reach c \<lparr>ss_sem = semaphore_init z c, ss_pc = (\<lambda>_. Idle), ss_waits = 0, ss_signals = 0\<rparr>"
| step: "sem_reach c s \<Longrightarrow> sem_step s s' \<Longrightarrow> sem_reach c s'"

definition holds_mutex :: "sem_pc \<Rightarrow> bool" where
  "holds_mutex p \<longleftrightarrow> p \<notin> {Idle, WLock, SLock}"

definition sem_inv :: "int \<Rightarrow> sem_sys \<Rightarrow> bool" where
  "sem_inv c s \<longleftrightarrow>
     (\<forall>t. holds_mutex (ss_pc s t) \<longrightarrow> mx_lock (sem_mutex (ss_sem s))) \<and>
     (\<forall>t u. holds_mutex (ss_pc s t) \<longrightarrow> holds_mutex (ss_pc s u) \<longrightarrow> t = u) \<and>
     (\<forall>t. ss_pc s t = WDec \<longrightarrow> 0 < sem_count (ss_sem s)) \<and>
     0 \<le> sem_count (ss_sem s) \<and>
     sem_count (ss_sem s) = c + int (ss_signals s) - int (ss_waits s)"

section \<open>Contract of a test-and-set lock\<close>

locale tas_lock =
  fixes acquire :: "'l \<Rightarrow> 'l res"
    and release :: "'l \<Rightarrow> 'l"
    and held :: "'l \<Rightarrow> bool"
  assumes acquire_held: "held l \<Longrightarrow> acquire l = Inl Spin"
    and acquire_takes: "acquire l = Inr l' \<Longrightarrow> \<not> held l \<and> held l'"
    and acquire_total: "\<not> held l \<Longrightarrow> \<exists>l'. acquire l = Inr l'"
    and release_frees: "\<not> held (release l)"
begin

lemma lock_inv:
  assumes "lock_reach acquire release l0 s" and "\<not> held l0"
  shows "(\<forall>t. ls_pc s t = Inside \<longrightarrow> held (ls_lock s)) \<and>
         (\<forall>t u. ls_pc s t = Inside \<longrightarrow> ls_pc s u = Inside \<longrightarrow> t = u) \<and>
         (held (ls_lock s) \<longrightarrow> (\<exists>t. ls_pc s t = Inside))"
  using assms(1)
proof (induction rule: lock_reach.induct)
  case init
  then show ?case using assms(2) by simp
next
  case (step s s')
  from step.hyps(2) step.IH show ?case
  proof (cases rule: lock_step.cases)
    case (take t l)
    with step.IH acquire_takes [of "ls_lock s" l] show ?thesis by (auto split: if_splits)
  next
    case (leave t)
    with step.IH release_frees show ?thesis by (auto split: if_splits)
  next
    case (call t)
    with step.IH show ?thesis by (auto split: if_splits) (metis lock_pc.distinct(3))
  qed simp
qed

lemma mutual_exclusion:
  "lock_reach acquire release l0 s \<Longrightarrow> \<not> held l0 \<Longrightarrow>
   ls_pc s t = Inside \<Longrightarrow> ls_pc s u = Inside \<Longrightarrow> t = u"
  using lock_inv by blast

lemma no_deadlock:
  assumes "lock_reach acquire release l0 s" and "\<not> held l0" and "ls_pc s t = Acquiring"
  shows "\<exists>s' u. lock_step acquire release s s' \<and> ls_pc s' u \<noteq> ls_pc s u"
proof (cases "held (ls_lock s)")
  case True
  then obtain u where "ls_pc s u = Inside" using lock_inv [OF assms(1,2)] by blast
  then have "lock_step acquire release s
      (s\<lparr>ls_lock := release (ls_lock s), ls_pc := (ls_pc s)(u := Outside)\<rparr>)"
    by (rule lock_step.leave)
  with \<open>ls_pc s u = Inside\<close> show ?thesis by fastforce
next
  case False
  then obtain l where "acquire (ls_lock s) = Inr l" using acquire_total by blast
  with assms(3) have "lock_step acquire release s
      (s\<lparr>ls_lock := l, ls_pc := (ls_pc s)(t := Inside)\<rparr>)" by (rule lock_step.take)
  with assms(3) show ?thesis by fastforce
qed

end

interpretation mutex: tas_lock mutex_lock mutex_unlock mx_lock
  by unfold_locales (auto simp: mutex_lock_def mutex_unlock_def split: if_splits)

interpretation spinlock: tas_lock spinlock_lock spinlock_unlock "\<lambda>l. spin_flag l \<noteq> 0"
  by unfold_locales (auto simp: spinlock_lock_def spinlock_unlock_def split: if_splits)


section \<open>Properties\<close>

lemma sem_inv_init: "0 \<le> c \<Longrightarrow>
  sem_inv c \<lparr>ss_sem = semaphore_init z c, ss_pc = (\<lambda>_. Idle), ss_waits = 0, ss_signals = 0\<rparr>"
  by (simp add: sem_inv_def holds_mutex_def semaphore_init_def)

lemma holds_mutex_simps [simp]:
  "\<not> holds_mutex Idle" "\<not> holds_mutex WLock" "\<not> holds_mutex SLock"
  "holds_mutex WTest" "holds_mutex WRelease" "holds_mutex WDec" "holds_mutex WUnlock"
  "holds_mutex SInc" "holds_mutex SUnlock"
  by (simp_all add: holds_mutex_def)

lemma sem_inv_step: "sem_step s s' \<Longrightarrow> sem_inv c s \<Longrightarrow> sem_inv c s'"
  unfolding sem_inv_def
  by (induction rule: sem_step.induct)
     (auto simp: mutex_lock_def mutex_unlock_def split: if_splits,
      (metis holds_mutex_simps(4,6,8))+)

lemma sem_reach_inv: "sem_reach c s \<Longrightarrow> 0 \<le> c \<Longrightarrow> sem_inv c s"
  by (induction rule: sem_reach.induct) (auto intro: sem_inv_init sem_inv_step)

lemma broadcast_loop_count:
  "\<not> mx_lock (sem_mutex w) \<Longrightarrow>
   broadcast_loop n w = Inr (w\<lparr>sem_count := sem_count w + int n,
                                sem_mutex := if n = 0 then sem_mutex w else (sem_mutex w)\<lparr>mx_lock := False\<rparr>\<rparr>)"
  by (induction n arbitrary: w)
     (auto simp: semaphore_signal_def mutex_lock_def mutex_unlock_def)



lemma mutex_reach_inside:
  "lock_reach mutex_lock mutex_unlock (mutex_init \<lparr>mx_lock = True\<rparr>)
     \<lparr>ls_lock = \<lparr>mx_lock = True\<rparr>, ls_pc = (\<lambda>_. Outside)(0 := Inside)\<rparr>"
proof -
  let ?i = "\<lparr>ls_lock = mutex_init \<lparr>mx_lock = True\<rparr>, ls_pc = (\<lambda>_. Outside)\<rparr>"
  note r0 = lock_reach.init [of mutex_lock mutex_unlock "mutex_init \<lparr>mx_lock = True\<rparr>"]
  have "lock_step mutex_lock mutex_unlock ?i (?i\<lparr>ls_pc := (ls_pc ?i)(0 := Acquiring)\<rparr>)"
    by (rule lock_step.call) simp
  note r1 = lock_reach.step [OF r0 this]
  show ?thesis
    by (rule lock_reach.step [OF r1])
       (use lock_step.take [of "?i\<lparr>ls_pc := (ls_pc ?i)(0 := Acquiring)\<rparr>" 0 mutex_lock
              "\<lparr>mx_lock = True\<rparr>" mutex_unlock] in
         \<open>simp add: mutex_init_def mutex_lock_def\<close>)
qed



lemma sem_reach_goto:
  "sem_reach c s \<Longrightarrow> ss_pc s t = Idle \<Longrightarrow> sem_reach c (ss_goto s t WLock)"
  by (rule sem_reach.step) (assumption, rule sem_step.call_wait)

lemma sem_reach_one_wait:
  assumes "sem_reach c s" and "ss_pc s t = Idle" and "0 < sem_count (ss_sem s)"
    and "\<not> mx_lock (sem_mutex (ss_sem s))"
  shows "\<exists>s'. sem_reach c s' \<and> ss_waits s' = Suc (ss_waits s) \<and> ss_signals s' = ss_signals s"
proof -
  note r1 = sem_reach_goto [OF assms(1,2)]
  let ?m = "(sem_mutex (ss_sem s))\<lparr>mx_lock := True\<rparr>"
  let ?s1 = "ss_goto s t WLock"
  let ?s2 = "ss_goto (ss_set_mutex ?s1 ?m) t WTest"
  let ?s3 = "ss_goto ?s2 t WDec"
  have "sem_step ?s1 ?s2"
    using assms(4) by (intro sem_step.w_lock) (simp_all add: mutex_lock_def)
  with r1 have r2: "sem_reach c ?s2" by (rule sem_reach.step)
  have "sem_step ?s2 ?s3" using assms(3) by (intro sem_step.w_avail) simp_all
  with r2 have r3: "sem_reach c ?s3" by (rule sem_reach.step)
  have "ss_pc ?s3 t = WDec" by simp
  from sem_reach.step [OF r3 sem_step.w_dec [OF this]] show ?thesis
    by (intro exI conjI) (assumption, simp_all)
qed


lemma semaphore_wait_blocked: "sem_count s \<le> 0 \<Longrightarrow> semaphore_wait s = Inl Spin"
  by (simp add: semaphore_wait_def mutex_lock_def)

lemma semaphore_wait_cases:
  "semaphore_wait s = Inl Spin \<or> semaphore_wait s =
     Inr (s\<lparr>sem_count := sem_count s - 1, sem_mutex := (sem_mutex s)\<lparr>mx_lock := False\<rparr>\<rparr>)"
  by (simp add: semaphore_wait_def mutex_lock_def mutex_unlock_def)

text \<open>Self-deadlock of the barrier.  \<open>barrier_wait\<close> takes the semaphore
  \<open>condition.mutex\<close> and then calls \<open>condition_broadcast\<close> or \<open>condition_wait\<close>, which
  take the same semaphore again: a thread that calls \<open>barrier_wait\<close> on a barrier whose
  \<open>condition.mutex\<close> has at most one unit, as \<open>barrier_init\<close> leaves it, never returns.\<close>

theorem barrier_wait_never_returns:
  assumes "sem_count (cond_mutex (bar_condition b)) \<le> 1"
  shows "barrier_wait b = Inl Spin"
  using assms semaphore_wait_cases [of "cond_mutex (bar_condition b)"]
  by (auto simp: Let_def barrier_wait_def condition_broadcast_def condition_wait_def
        semaphore_wait_blocked)

theorem barrier_wait_never_returns_witness:
  "barrier_wait (barrier_init \<lparr>bar_count = 0, bar_total = 0, bar_condition =
       \<lparr>cond_mutex = \<lparr>sem_count = 0, sem_mutex = \<lparr>mx_lock = False\<rparr>\<rparr>,
        cond_wait = \<lparr>sem_count = 0, sem_mutex = \<lparr>mx_lock = False\<rparr>\<rparr>,
        cond_wait_count = 0\<rparr>\<rparr> 1) = Inl Spin"
  by (rule barrier_wait_never_returns)
     (simp add: barrier_init_def condition_init_def semaphore_init_def)

text \<open>Broadcast hands out one unit of \<open>wait\<close> per registered waiter.  On a
  condition whose semaphores are idle, \<open>condition_broadcast\<close> returns with the \<open>wait\<close>
  semaphore raised by exactly \<open>wait_count\<close>, the waiter count reset and
  \<open>condition.mutex\<close> given back.\<close>

theorem condition_broadcast_effect:
  assumes "0 < sem_count (cond_mutex c)" and "0 \<le> cond_wait_count c"
    and "\<not> mx_lock (sem_mutex (cond_mutex c))" and "\<not> mx_lock (sem_mutex (cond_wait c))"
  shows "\<exists>c'. condition_broadcast c = Inr c' \<and>
           sem_count (cond_wait c') = sem_count (cond_wait c) + cond_wait_count c \<and>
           cond_wait_count c' = 0 \<and> sem_count (cond_mutex c') = sem_count (cond_mutex c)"
  using assms
  by (simp add: condition_broadcast_def semaphore_wait_def semaphore_signal_def mutex_lock_def
        mutex_unlock_def broadcast_loop_count)

theorem condition_broadcast_effect_witness:
  "\<exists>c'. condition_broadcast
      \<lparr>cond_mutex = \<lparr>sem_count = 1, sem_mutex = \<lparr>mx_lock = False\<rparr>\<rparr>,
       cond_wait = \<lparr>sem_count = 0, sem_mutex = \<lparr>mx_lock = False\<rparr>\<rparr>,
       cond_wait_count = 3\<rparr> = Inr c' \<and> sem_count (cond_wait c') = 3"
  using condition_broadcast_effect [of
      "\<lparr>cond_mutex = \<lparr>sem_count = 1, sem_mutex = \<lparr>mx_lock = False\<rparr>\<rparr>,
        cond_wait = \<lparr>sem_count = 0, sem_mutex = \<lparr>mx_lock = False\<rparr>\<rparr>,
        cond_wait_count = 3\<rparr>"] by auto

end
