(* ===== verification/Block_Allocator.thy ===== *)
theory Block_Allocator
  imports Omen_Prelude
begin

text \<open>
  The contract every allocator of the kernel library promises its clients, and what a
  client may rely on.  A state is related to the set of cells it considers used; a block is
  a set of cells determined by the returned address and the requested size.  \<open>alloc s n p s'\<close>
  says that a request \<open>n\<close> in state \<open>s\<close> succeeds with address \<open>p\<close> and state \<open>s'\<close>,
  \<open>free s p n s'\<close> that giving back that block leads to \<open>s'\<close>.  The client is any sequence of allocations and of frees of live blocks.
\<close>

inductive alloc_run ::
  "('s \<Rightarrow> 'n \<Rightarrow> 'p \<Rightarrow> 's \<Rightarrow> bool) \<Rightarrow> ('s \<Rightarrow> 'p \<Rightarrow> 'n \<Rightarrow> 's \<Rightarrow> bool) \<Rightarrow> ('n \<Rightarrow> bool) \<Rightarrow> 's \<Rightarrow>
   's \<Rightarrow> ('p \<times> 'n) list \<Rightarrow> bool"
  for alloc free valid s0 where
  start: "alloc_run alloc free valid s0 s0 []"
| alloc: "alloc_run alloc free valid s0 s live \<Longrightarrow> valid n \<Longrightarrow> alloc s n p s' \<Longrightarrow>
    alloc_run alloc free valid s0 s' ((p, n) # live)"
| free: "alloc_run alloc free valid s0 s live \<Longrightarrow> (p, n) \<in> set live \<Longrightarrow> free s p n s' \<Longrightarrow>
    alloc_run alloc free valid s0 s' (remove1 (p, n) live)"

definition live_cells :: "('p \<Rightarrow> 'n \<Rightarrow> 'c set) \<Rightarrow> ('p \<times> 'n) list \<Rightarrow> 'c set" where
  "live_cells block live = (\<Union>(p, n) \<in> set live. block p n)"

lemma sorted_wrt_remove1: "sorted_wrt R xs \<Longrightarrow> sorted_wrt R (remove1 x xs)"
  by (induction xs) (auto dest: notin_set_remove1 in_set_remove1 set_mp [OF set_remove1_subset])

lemma set_insert_remove1: "x \<in> set xs \<Longrightarrow> set xs = insert x (set (remove1 x xs))"
  by (induction xs) auto

lemma sorted_wrt_disjoint_remove1:
  assumes "sorted_wrt (\<lambda>x y. f x \<inter> f y = {}) xs" and "x \<in> set xs" and "y \<in> set (remove1 x xs)"
  shows "f x \<inter> f y = {}"
  using assms by (induction xs) (auto split: if_splits)

locale block_allocator =
  fixes alloc :: "'s \<Rightarrow> 'n \<Rightarrow> 'p \<Rightarrow> 's \<Rightarrow> bool"
    and free :: "'s \<Rightarrow> 'p \<Rightarrow> 'n \<Rightarrow> 's \<Rightarrow> bool"
    and valid :: "'n \<Rightarrow> bool"
    and used :: "'s \<Rightarrow> 'c set"
    and block :: "'s \<Rightarrow> 'p \<Rightarrow> 'n \<Rightarrow> 'c set"
    and freeable :: "'s \<Rightarrow> 'p \<Rightarrow> 'n \<Rightarrow> bool"
    and inv :: "'s \<Rightarrow> bool"
  assumes alloc_ok: "inv s \<Longrightarrow> valid n \<Longrightarrow> alloc s n p s' \<Longrightarrow>
      inv s' \<and> block s p n \<noteq> {} \<and> block s p n \<inter> used s = {} \<and>
      used s' = used s \<union> block s p n \<and> block s' = block s"
    and alloc_freeable: "inv s \<Longrightarrow> valid n \<Longrightarrow> alloc s n p s' \<Longrightarrow>
      freeable s' p n \<and> (\<forall>q k. freeable s q k \<longrightarrow> freeable s' q k)"
    and free_ok: "inv s \<Longrightarrow> valid n \<Longrightarrow> freeable s p n \<Longrightarrow> free s p n s' \<Longrightarrow>
      inv s' \<and> used s' = used s - block s p n \<and> block s' = block s"
    and free_freeable: "inv s \<Longrightarrow> valid n \<Longrightarrow> freeable s p n \<Longrightarrow> free s p n s' \<Longrightarrow> freeable s q k \<Longrightarrow>
      block s q k \<inter> block s p n = {} \<Longrightarrow> block s q k \<noteq> {} \<Longrightarrow> freeable s' q k"
begin

lemma run_inv:
  assumes "alloc_run alloc free valid s0 s live" and "inv s0"
  shows "inv s \<and> block s = block s0 \<and>
         (\<forall>(p, n) \<in> set live. valid n \<and> block s0 p n \<noteq> {} \<and> freeable s p n) \<and>
         sorted_wrt (\<lambda>(p, n) (q, m). block s0 p n \<inter> block s0 q m = {}) live \<and>
         used s = used s0 \<union> live_cells (block s0) live \<and> used s0 \<inter> live_cells (block s0) live = {}"
  using assms(1)
proof (induction rule: alloc_run.induct)
  case start
  then show ?case using assms(2) by (simp add: live_cells_def)
next
  case (alloc s live n p s')
  from alloc.IH have "inv s" and b: "block s = block s0" by auto
  from alloc_ok [OF this(1) alloc.hyps(2,3)] alloc_freeable [OF this(1) alloc.hyps(2,3)]
    alloc.IH alloc.hyps(2) b show ?case
    by (auto simp: live_cells_def)
next
  case (free s live p n s')
  let ?f = "\<lambda>(p, n). block s0 p n"
  let ?rest = "remove1 (p, n) live"
  from free.IH have i: "inv s" and b: "block s = block s0"
    and srt: "sorted_wrt (\<lambda>x y. ?f x \<inter> ?f y = {}) live" by (auto simp: case_prod_unfold)
  from free.IH free.hyps(2) have v: "valid n" and fr: "freeable s p n" by auto
  note f = free_ok [OF i v fr free.hyps(3)]
  have d: "?f (p, n) \<inter> ?f y = {}" if "y \<in> set ?rest" for y
    by (rule sorted_wrt_disjoint_remove1 [OF srt free.hyps(2) that])
  have sub: "set live = insert (p, n) (set ?rest)"
    by (rule set_insert_remove1 [OF free.hyps(2)])
  have "live_cells (block s0) live = block s0 p n \<union> live_cells (block s0) ?rest"
    by (simp add: live_cells_def sub)
  moreover have "block s0 p n \<inter> live_cells (block s0) ?rest = {}"
    using d by (auto simp: live_cells_def)
  moreover have "valid k \<and> block s0 q k \<noteq> {} \<and> freeable s' q k" if "(q, k) \<in> set ?rest" for q k
  proof -
    from that set_remove1_subset have "(q, k) \<in> set live" by fast
    with free.IH have "valid k" "block s0 q k \<noteq> {}" "freeable s q k" by auto
    with free_freeable [OF i v fr free.hyps(3)] d [OF that] b show ?thesis by (simp add: Int_commute)
  qed
  ultimately show ?case
    using f free.IH b sorted_wrt_remove1 [OF srt, of "(p, n)"]
    by (auto simp: case_prod_unfold)
qed

lemma live_blocks_disjoint:
  assumes "alloc_run alloc free valid s0 s live" and "inv s0"
  shows "i < j \<Longrightarrow> j < length live \<Longrightarrow>
         block s0 (fst (live ! i)) (snd (live ! i)) \<inter> block s0 (fst (live ! j)) (snd (live ! j)) = {}"
    and "used s - used s0 = live_cells (block s0) live"
  using run_inv [OF assms] by (auto simp: sorted_wrt_iff_nth_less case_prod_unfold)

end

end
