(* ===== verification/Bitfield_Allocator.thy ===== *)
theory Bitfield_Allocator
  imports Bitmap Concurrency Block_Allocator
begin

text \<open>
  The page allocator of modules/libraries/allocators/bitfield_allocator.c.  The bytes
  behind \<open>bf->bitmap\<close> are a function of their index; as in the code no access to them is
  bounds checked.  The theory gives the allocator the contract of a block allocator (a
  block handed out was free, nothing else changes, freeing gives back exactly the block)
  and derives from it that live blocks never overlap.
\<close>

record bitfield =
  bf_data_address :: u64
  bf_data_size :: u64
  bf_available_address :: u64
  bf_available_size :: u64
  bf_page_size :: u16
  bf_bitmap :: "u64 \<Rightarrow> u8"
  bf_bitmap_size :: u64
  bf_next_index :: u64
  bf_lock :: mutex_t

definition sizeof_bitfield :: u64 where
  "sizeof_bitfield = 72"

definition BYTES_TO_PAGES :: "u64 \<Rightarrow> u64 \<Rightarrow> u64" where
  "BYTES_TO_PAGES bytes page_size =
     bytes div page_size + (if bytes mod page_size \<noteq> 0 then 1 else 0)"

abbreviation bf_page :: "bitfield \<Rightarrow> u64" where
  "bf_page bf \<equiv> ucast (bf_page_size bf)"

definition is_free :: "bitfield \<Rightarrow> u64 \<Rightarrow> bool" where
  "is_free bf index = (bf_bitmap bf (index div 8) AND push_bit (unat (index mod 8)) 1 = 0)"

function fits_loop :: "bitfield \<Rightarrow> u64 \<Rightarrow> u64 \<Rightarrow> bool" where
  "fits_loop bf i e =
     (if i < e then if \<not> is_free bf i then False else fits_loop bf (i + 1) e else True)"
  by auto
termination by (relation "measure (\<lambda>(bf, i, e). unat e - unat i)") (auto simp: word_loop_measure)

definition fits :: "bitfield \<Rightarrow> u64 \<Rightarrow> u64 \<Rightarrow> bool" where
  "fits bf index pages = fits_loop bf index (index + pages)"

function free_index_loop :: "bitfield \<Rightarrow> u64 \<Rightarrow> u64 \<Rightarrow> u64 \<Rightarrow> u64 option" where
  "free_index_loop bf pages i e =
     (if i < e then if fits bf i pages then Some i else free_index_loop bf pages (i + 1) e
      else None)"
  by auto
termination by (relation "measure (\<lambda>(bf, p, i, e). unat e - unat i)") (auto simp: word_loop_measure)

definition get_free_index :: "bitfield \<Rightarrow> u64 \<Rightarrow> u64" where
  "get_free_index bf pages =
     (case free_index_loop bf pages (bf_next_index bf) (bf_bitmap_size bf) of
        Some i \<Rightarrow> i
      | None \<Rightarrow> (case free_index_loop bf pages 0 (bf_next_index bf) of Some i \<Rightarrow> i | None \<Rightarrow> 0))"

definition lock_bit :: "(u64 \<Rightarrow> u8) \<Rightarrow> u64 \<Rightarrow> u64 \<Rightarrow> u8" where
  "lock_bit m i = m(i div 8 := m (i div 8) OR push_bit (unat (i mod 8)) 1)"

definition unlock_bit :: "(u64 \<Rightarrow> u8) \<Rightarrow> u64 \<Rightarrow> u64 \<Rightarrow> u8" where
  "unlock_bit m i = m(i div 8 := m (i div 8) AND NOT (push_bit (unat (i mod 8)) 1))"

function lock_loop :: "(u64 \<Rightarrow> u8) \<Rightarrow> u64 \<Rightarrow> u64 \<Rightarrow> u64 \<Rightarrow> u8" where
  "lock_loop m i e = (if i < e then lock_loop (lock_bit m i) (i + 1) e else m)"
  by auto
termination by (relation "measure (\<lambda>(m, i, e). unat e - unat i)") (auto simp: word_loop_measure)

function unlock_loop :: "(u64 \<Rightarrow> u8) \<Rightarrow> u64 \<Rightarrow> u64 \<Rightarrow> u64 \<Rightarrow> u8" where
  "unlock_loop m i e = (if i < e then unlock_loop (unlock_bit m i) (i + 1) e else m)"
  by auto
termination by (relation "measure (\<lambda>(m, i, e). unat e - unat i)") (auto simp: word_loop_measure)

definition lock_index :: "bitfield \<Rightarrow> u64 \<Rightarrow> u64 \<Rightarrow> bitfield" where
  "lock_index bf index pages = bf\<lparr>bf_bitmap := lock_loop (bf_bitmap bf) index (index + pages)\<rparr>"

definition un_lock_index :: "bitfield \<Rightarrow> u64 \<Rightarrow> u64 \<Rightarrow> bitfield" where
  "un_lock_index bf index pages = bf\<lparr>bf_bitmap := unlock_loop (bf_bitmap bf) index (index + pages)\<rparr>"

definition alloc_pages :: "bitfield \<Rightarrow> u64 \<Rightarrow> u64" where
  "alloc_pages bf sz =
     BYTES_TO_PAGES (if sz < bf_page bf then bf_page bf else sz) (bf_page bf)"

definition allocate :: "bitfield \<Rightarrow> u64 \<Rightarrow> (u64 \<times> bitfield) res" where
  "allocate bf sz = res_bind (mutex_lock (bf_lock bf)) (\<lambda>l.
     if sz > bf_available_size bf then Inl (Panic ''Size is bigger than the available size'')
     else let pages = alloc_pages bf sz;
              index = get_free_index bf pages in
          if index = 0 then Inl (Panic ''No available pages'')
          else let bf1 = lock_index bf index pages;
                   bf2 = (if index = bf_next_index bf1
                          then bf1\<lparr>bf_next_index := index + pages\<rparr> else bf1)
               in Inr (bf_available_address bf2 + index * bf_page bf2,
                       bf2\<lparr>bf_lock := mutex_unlock l\<rparr>))"

definition deallocate :: "bitfield \<Rightarrow> u64 \<Rightarrow> u64 \<Rightarrow> bitfield res" where
  "deallocate bf address sz = res_bind (mutex_lock (bf_lock bf)) (\<lambda>l.
     if address < bf_available_address bf
        \<or> address \<ge> bf_available_address bf + bf_available_size bf
     then Inl (Panic ''Address is out of range'')
     else let index = (address - bf_available_address bf) div bf_page bf;
              pages = BYTES_TO_PAGES sz (bf_page bf);
              bf1 = un_lock_index bf index pages;
              bf2 = (if index < bf_next_index bf1 then bf1\<lparr>bf_next_index := index\<rparr> else bf1)
          in Inr (bf2\<lparr>bf_lock := mutex_unlock l\<rparr>))"

function fill_loop :: "(u64 \<Rightarrow> u8) \<Rightarrow> u8 \<Rightarrow> u64 \<Rightarrow> u64 \<Rightarrow> u64 \<Rightarrow> u8" where
  "fill_loop m v i e = (if i < e then fill_loop (m(i := v)) v (i + 1) e else m)"
  by auto
termination by (relation "measure (\<lambda>(m, v, i, e). unat e - unat i)") (auto simp: word_loop_measure)

text \<open>
  \<open>init\<close> places the structure and its bitmap at the start of the managed memory; \<open>mem\<close>
  is what the bytes behind the bitmap pointer held before.
\<close>

definition bitfield_init :: "(u64 \<Rightarrow> u8) \<Rightarrow> u64 \<Rightarrow> u64 \<Rightarrow> u16 \<Rightarrow> bitfield option" where
  "bitfield_init mem data_address data_size page_size =
     (let ps = ucast page_size in
      if data_size < sizeof_bitfield \<or> page_size = 0 \<or> data_size < ps then None
      else let bitmap_size = BYTES_TO_PAGES data_size ps div 8;
               locked_pages = BYTES_TO_PAGES (sizeof_bitfield + bitmap_size) ps;
               mem1 = fill_loop mem 1 0 locked_pages;
               mem2 = fill_loop mem1 0 locked_pages bitmap_size
           in Some \<lparr>bf_data_address = data_address, bf_data_size = data_size,
                    bf_available_address =
                      (data_address + sizeof_bitfield + bitmap_size + ps) AND NOT (ps - 1),
                    bf_available_size = data_size - sizeof_bitfield - bitmap_size,
                    bf_page_size = page_size, bf_bitmap = mem2, bf_bitmap_size = bitmap_size,
                    bf_next_index = locked_pages, bf_lock = mutex_init \<lparr>mx_lock = True\<rparr>\<rparr>)"

text \<open>\<open>debug_bitfield\<close> reports the space its walk over the bitmap finds allocated and free.\<close>

definition byte_counts :: "u8 \<Rightarrow> u64 \<Rightarrow> u64 \<times> u64 \<Rightarrow> u64 \<times> u64" where
  "byte_counts b ps acc =
     fold (\<lambda>j (a, f). if b AND push_bit j 1 \<noteq> 0 then (a + ps, f) else (a, f + ps)) [0..<8] acc"

definition debug_bitfield :: "bitfield \<Rightarrow> u64 \<times> u64 \<times> u64" where
  "debug_bitfield bf =
     (bf_data_size bf,
      fold (\<lambda>i. byte_counts (bf_bitmap bf (of_nat i)) (bf_page bf))
        [0..<unat (bf_bitmap_size bf)] (0, 0))"

declare fits_loop.simps [simp del] free_index_loop.simps [simp del]
  lock_loop.simps [simp del] unlock_loop.simps [simp del] fill_loop.simps [simp del]

section \<open>The page bitmap is a bit array\<close>

definition page_bit :: "(u64 \<Rightarrow> u8) \<Rightarrow> u64 \<Rightarrow> bool" where
  "page_bit m i = bit (m (i div 8)) (unat (i mod 8))"

lemma is_free_page_bit: "is_free bf i \<longleftrightarrow> \<not> page_bit (bf_bitmap bf) i"
  by (simp add: is_free_def page_bit_def bit_exp_simps)

lemma div8_mod8_inj: "i div 8 = j div 8 \<Longrightarrow> unat (i mod 8) = unat (j mod 8) \<Longrightarrow> i = j" for i j :: u64
  by (metis div_mult_mod_eq word_unat_eq_iff)

lemma unat_mod8_less: "unat (i mod 8) < 8" for i :: u64
  by (simp add: unat_mod)

lemma page_bit_lock [bits_simps]: "page_bit (lock_bit m i) j \<longleftrightarrow> page_bit m j \<or> i = j"
proof (cases "i = j")
  case False
  with div8_mod8_inj [of i j] show ?thesis
    by (simp add: page_bit_def lock_bit_def bit_exp_simps) metis
qed (simp add: page_bit_def lock_bit_def bit_exp_simps unat_mod8_less)

lemma page_bit_unlock [bits_simps]: "page_bit (unlock_bit m i) j \<longleftrightarrow> page_bit m j \<and> i \<noteq> j"
proof (cases "i = j")
  case False
  with div8_mod8_inj [of i j] show ?thesis
    by (simp add: page_bit_def unlock_bit_def bit_exp_simps) metis
qed (simp add: page_bit_def unlock_bit_def bit_exp_simps)

interpretation pages: bit_array page_bit lock_bit unlock_bit
  by unfold_locales (auto simp: bits_simps)

section \<open>What the loops compute\<close>

lemma fits_loop_iff: "fits_loop bf i e \<longleftrightarrow> (\<forall>k. i \<le> k \<and> k < e \<longrightarrow> is_free bf k)"
proof (induction bf i e rule: fits_loop.induct)
  case (1 bf i e)
  then show ?case
    by (subst fits_loop.simps) (auto simp: word_between_split [of i e])
qed

lemma lock_loop_bit:
  "page_bit (lock_loop m i e) k \<longleftrightarrow> page_bit m k \<or> (i \<le> k \<and> k < e)"
proof (induction m i e rule: lock_loop.induct)
  case (1 m i e)
  then show ?case
    using word_between_split [of i e k]
    by (subst lock_loop.simps) (auto simp: bits_simps)
qed

lemma unlock_loop_bit:
  "page_bit (unlock_loop m i e) k \<longleftrightarrow> page_bit m k \<and> \<not> (i \<le> k \<and> k < e)"
proof (induction m i e rule: unlock_loop.induct)
  case (1 m i e)
  then show ?case
    using word_between_split [of i e k]
    by (subst unlock_loop.simps) (auto simp: bits_simps)
qed

lemma fill_loop_apply: "fill_loop m v i e k = (if i \<le> k \<and> k < e then v else m k)"
proof (induction m v i e rule: fill_loop.induct)
  case (1 m v i e)
  then show ?case
    using word_between_split [of i e k]
    by (subst fill_loop.simps) (auto simp: fun_upd_def)
qed

lemma free_index_loop_Some:
  "free_index_loop bf pages i e = Some j \<Longrightarrow> i \<le> j \<and> j < e \<and> fits bf j pages"
proof (induction bf pages i e rule: free_index_loop.induct)
  case (1 bf pages i e)
  then show ?case
    using word_between_split [of i e j] free_index_loop.simps [of bf pages i e]
    by (auto split: if_splits)
qed

lemma free_index_loop_None:
  "free_index_loop bf pages i e = None \<Longrightarrow> i \<le> j \<Longrightarrow> j < e \<Longrightarrow> \<not> fits bf j pages"
proof (induction bf pages i e rule: free_index_loop.induct)
  case (1 bf pages i e)
  then show ?case
    using word_between_split [of i e j] free_index_loop.simps [of bf pages i e]
    by (auto split: if_splits)
qed

section \<open>Arithmetic of pages\<close>

lemma unat_BYTES_TO_PAGES:
  assumes "p \<noteq> 0"
  shows "unat (BYTES_TO_PAGES b p) = unat b div unat p + (if unat b mod unat p \<noteq> 0 then 1 else 0)"
proof (cases "b mod p = 0")
  case True
  then show ?thesis by (simp add: BYTES_TO_PAGES_def unat_div flip: unat_mod)
next
  case False
  have p: "2 \<le> unat p"
  proof (rule ccontr)
    assume "\<not> 2 \<le> unat p"
    with assms have "unat p = 1" by (simp add: unat_eq_zero less_2_cases_iff not_le)
    then have "p = 1" by (simp add: word_unat_eq_iff)
    with False show False by simp
  qed
  then have "unat b div unat p \<le> unat b div 2" by (simp add: div_le_mono2)
  moreover have "unat b < 2 ^ 64" by (rule unat_u64_less)
  ultimately have "unat (b div p) + 1 < 2 ^ 64" by (simp add: unat_div)
  then have "unat (b div p + 1) = unat (b div p) + 1" by (simp add: unat_word_ariths)
  moreover have "unat b mod unat p \<noteq> 0"
    using False unfolding unat_mod [symmetric] unat_eq_zero .
  ultimately show ?thesis
    using False by (simp add: BYTES_TO_PAGES_def unat_div)
qed

lemma ceil_div_pos: "0 < m \<Longrightarrow> 0 < m div n + (if m mod n \<noteq> 0 then 1 else 0)" for m n :: nat
  using div_mult_mod_eq [of m n] by (cases "m mod n = 0") auto

lemma BYTES_TO_PAGES_pos: "p \<noteq> 0 \<Longrightarrow> b \<noteq> 0 \<Longrightarrow> 0 < unat (BYTES_TO_PAGES b p)"
  using ceil_div_pos [of "unat b" "unat p"] by (simp add: unat_BYTES_TO_PAGES unat_gt_0)

lemma ceil_div_self: "0 < n \<Longrightarrow> 0 < m \<Longrightarrow> m < n \<Longrightarrow>
  m div n + (if m mod n \<noteq> 0 then 1 else 0) = n div n + (if n mod n \<noteq> 0 then 1 else 0)"
  for m n :: nat
  by simp

lemma alloc_pages_nonzero_size:
  "bf_page bf \<noteq> 0 \<Longrightarrow> sz \<noteq> 0 \<Longrightarrow> alloc_pages bf sz = BYTES_TO_PAGES sz (bf_page bf)"
  using ceil_div_self [of "unat (bf_page bf)" "unat sz"]
  by (auto simp: alloc_pages_def word_unat_eq_iff [of "BYTES_TO_PAGES _ _"] unat_BYTES_TO_PAGES
        word_less_nat_alt unat_gt_0)

section \<open>The bitfield allocator is a block allocator\<close>

definition bf_limit :: "bitfield \<Rightarrow> nat" where
  "bf_limit bf = unat (bf_bitmap_size bf) + unat (bf_available_size bf) div unat (bf_page bf) + 1"

definition bf_inv :: "bitfield \<Rightarrow> bool" where
  "bf_inv bf \<longleftrightarrow> \<not> mx_lock (bf_lock bf) \<and> bf_page_size bf \<noteq> 0 \<and>
     unat (bf_next_index bf) \<le> bf_limit bf \<and> 2 * bf_limit bf * unat (bf_page bf) < 2 ^ 64"

definition bf_used :: "bitfield \<Rightarrow> u64 set" where
  "bf_used bf = {k. \<not> is_free bf k}"

definition bf_block :: "bitfield \<Rightarrow> u64 \<Rightarrow> u64 \<Rightarrow> u64 set" where
  "bf_block bf address sz =
     (let index = (address - bf_available_address bf) div bf_page bf
      in {k. index \<le> k \<and> k < index + alloc_pages bf sz})"

lemma bf_page_nonzero: "bf_page_size bf \<noteq> 0 \<Longrightarrow> bf_page bf \<noteq> 0"
  using unat_gt_0 [of "bf_page bf"] unat_gt_0 [of "bf_page_size bf"] by simp

lemma bf_page_pos: "bf_inv bf \<Longrightarrow> bf_page bf \<noteq> 0 \<and> 0 < unat (bf_page bf)"
  using bf_page_nonzero [of bf] by (auto simp: bf_inv_def unat_gt_0)

lemma bf_limit_bound: "bf_inv bf \<Longrightarrow> 2 * bf_limit bf < 2 ^ 64"
  using mult_le_mono2 [of 1 "unat (bf_page bf)" "2 * bf_limit bf"] bf_page_pos [of bf]
  unfolding bf_inv_def by linarith

lemma alloc_pages_bound:
  assumes "bf_inv bf" and "sz \<le> bf_available_size bf"
  shows "0 < unat (alloc_pages bf sz)"
    and "unat (alloc_pages bf sz) \<le> unat (bf_available_size bf) div unat (bf_page bf) + 1"
proof -
  from bf_page_pos [OF assms(1)] have p: "bf_page bf \<noteq> 0" and p': "0 < unat (bf_page bf)" by auto
  let ?s = "if sz < bf_page bf then bf_page bf else sz"
  have "?s \<noteq> 0" using p by (auto simp: word_less_nat_alt unat_gt_0)
  then show "0 < unat (alloc_pages bf sz)"
    unfolding alloc_pages_def by (rule BYTES_TO_PAGES_pos [OF p])
  have "unat sz div unat (bf_page bf) \<le> unat (bf_available_size bf) div unat (bf_page bf)"
    using assms(2) by (simp add: div_le_mono word_le_nat_alt)
  with p' show "unat (alloc_pages bf sz) \<le> unat (bf_available_size bf) div unat (bf_page bf) + 1"
    by (auto simp: alloc_pages_def unat_BYTES_TO_PAGES [OF p])
qed

lemma get_free_index_fits:
  "get_free_index bf pages \<noteq> 0 \<Longrightarrow>
   fits bf (get_free_index bf pages) pages \<and>
   (bf_next_index bf \<le> get_free_index bf pages \<and> get_free_index bf pages < bf_bitmap_size bf \<or>
    get_free_index bf pages < bf_next_index bf)"
  by (auto simp: get_free_index_def dest: free_index_loop_Some split: option.splits)

lemma get_free_index_finds:
  assumes "\<not> is_free bf 0" and "0 < unat pages" and "fits bf i pages"
    and "i < bf_bitmap_size bf \<or> i < bf_next_index bf"
  shows "get_free_index bf pages \<noteq> 0"
proof -
  have z: "\<not> fits bf 0 pages"
    using assms(1,2) by (auto simp: fits_def fits_loop_iff word_less_nat_alt intro!: exI [of _ 0])
  have "j \<noteq> 0" if "fits bf j pages" for j using that z by auto
  moreover have "free_index_loop bf pages (bf_next_index bf) (bf_bitmap_size bf) \<noteq> None \<or>
    free_index_loop bf pages 0 (bf_next_index bf) \<noteq> None"
    using assms(3,4) free_index_loop_None [of bf pages "bf_next_index bf" "bf_bitmap_size bf" i]
      free_index_loop_None [of bf pages 0 "bf_next_index bf" i] by force
  ultimately show ?thesis
    by (auto simp: get_free_index_def dest: free_index_loop_Some split: option.splits)
qed

lemma is_free_lock_index:
  "is_free (lock_index bf i n) k \<longleftrightarrow> is_free bf k \<and> \<not> (i \<le> k \<and> k < i + n)"
  by (auto simp: is_free_page_bit lock_index_def lock_loop_bit)

lemma is_free_un_lock_index:
  "is_free (un_lock_index bf i n) k \<longleftrightarrow> is_free bf k \<or> (i \<le> k \<and> k < i + n)"
  by (auto simp: is_free_page_bit un_lock_index_def unlock_loop_bit)

lemma is_free_cong: "bf_bitmap bf = bf_bitmap bf' \<Longrightarrow> is_free bf = is_free bf'"
  by (simp add: is_free_def fun_eq_iff)

lemma lock_index_fields [simp]:
  "bf_next_index (lock_index bf i n) = bf_next_index bf"
  "bf_page_size (lock_index bf i n) = bf_page_size bf"
  "bf_available_address (lock_index bf i n) = bf_available_address bf"
  "bf_available_size (lock_index bf i n) = bf_available_size bf"
  "bf_bitmap_size (lock_index bf i n) = bf_bitmap_size bf"
  "bf_lock (lock_index bf i n) = bf_lock bf"
  by (simp_all add: lock_index_def)

lemma un_lock_index_fields [simp]:
  "bf_next_index (un_lock_index bf i n) = bf_next_index bf"
  "bf_page_size (un_lock_index bf i n) = bf_page_size bf"
  "bf_available_address (un_lock_index bf i n) = bf_available_address bf"
  "bf_available_size (un_lock_index bf i n) = bf_available_size bf"
  "bf_bitmap_size (un_lock_index bf i n) = bf_bitmap_size bf"
  "bf_lock (un_lock_index bf i n) = bf_lock bf"
  by (simp_all add: un_lock_index_def)

lemma allocate_Inr:
  assumes "allocate bf sz = Inr (address, bf')"
  obtains i where "sz \<le> bf_available_size bf" "i = get_free_index bf (alloc_pages bf sz)" "i \<noteq> 0"
    "address = bf_available_address bf + i * bf_page bf"
    "bf' = (lock_index bf i (alloc_pages bf sz))
       \<lparr>bf_next_index := if i = bf_next_index bf then i + alloc_pages bf sz else bf_next_index bf,
        bf_lock := (bf_lock bf)\<lparr>mx_lock := False\<rparr>\<rparr>" "\<not> mx_lock (bf_lock bf)"
proof
  let ?i = "get_free_index bf (alloc_pages bf sz)"
  show "sz \<le> bf_available_size bf" "?i \<noteq> 0" "\<not> mx_lock (bf_lock bf)"
    "address = bf_available_address bf + ?i * bf_page bf"
    using assms by (auto simp: allocate_def Let_def mutex_lock_def split: if_splits)
  show "bf' = (lock_index bf ?i (alloc_pages bf sz))
       \<lparr>bf_next_index := if ?i = bf_next_index bf then ?i + alloc_pages bf sz else bf_next_index bf,
        bf_lock := (bf_lock bf)\<lparr>mx_lock := False\<rparr>\<rparr>"
    using assms
    by (auto simp: allocate_def Let_def mutex_lock_def mutex_unlock_def lock_index_def split: if_splits)
qed simp

lemma alloc_index_bound:
  assumes "bf_inv bf" and "sz \<le> bf_available_size bf"
    and "i = get_free_index bf (alloc_pages bf sz)" and "i \<noteq> 0"
  shows "unat i < bf_limit bf"
    and "unat (i + alloc_pages bf sz) = unat i + unat (alloc_pages bf sz)"
    and "bf_next_index bf \<le> i \<Longrightarrow> unat (i + alloc_pages bf sz) \<le> bf_limit bf"
    and "(i * bf_page bf) div bf_page bf = i"
proof -
  have f: "bf_next_index bf \<le> i \<and> i < bf_bitmap_size bf \<or> i < bf_next_index bf"
    using get_free_index_fits [of bf "alloc_pages bf sz"] assms(3,4) by simp
  then show l: "unat i < bf_limit bf"
    using assms(1) by (auto simp: bf_inv_def bf_limit_def word_less_nat_alt)
  note p = alloc_pages_bound [OF assms(1,2)]
  show n: "unat (i + alloc_pages bf sz) = unat i + unat (alloc_pages bf sz)"
    using l p(2) bf_limit_bound [OF assms(1)]
    by (intro unat_add_no_wrap) (simp add: bf_limit_def)
  show "unat (i + alloc_pages bf sz) \<le> bf_limit bf" if "bf_next_index bf \<le> i"
    using that f n p(2) by (auto simp: bf_limit_def word_less_nat_alt word_le_nat_alt)
  have "unat i * unat (bf_page bf) \<le> 2 * bf_limit bf * unat (bf_page bf)"
    using l by (intro mult_le_mono1) simp
  then have "unat i * unat (bf_page bf) < 2 ^ 64"
    using assms(1) unfolding bf_inv_def by linarith
  then show "(i * bf_page bf) div bf_page bf = i"
    using bf_page_pos [OF assms(1)] by (intro word_mult_div_cancel) auto
qed

lemma allocate_ok:
  assumes inv: "bf_inv bf" and al: "allocate bf sz = Inr (address, bf')"
  shows "bf_inv bf' \<and> bf_block bf address sz \<noteq> {} \<and> bf_block bf address sz \<inter> bf_used bf = {} \<and>
         bf_used bf' = bf_used bf \<union> bf_block bf address sz \<and> bf_block bf' = bf_block bf"
proof -
  from allocate_Inr [OF al] obtain i where i: "sz \<le> bf_available_size bf"
      "i = get_free_index bf (alloc_pages bf sz)" "i \<noteq> 0"
      "address = bf_available_address bf + i * bf_page bf"
    and bf': "bf' = (lock_index bf i (alloc_pages bf sz))
       \<lparr>bf_next_index := if i = bf_next_index bf then i + alloc_pages bf sz else bf_next_index bf,
        bf_lock := (bf_lock bf)\<lparr>mx_lock := False\<rparr>\<rparr>" by metis
  note b = alloc_index_bound [OF inv i(1,2,3)]
  have blk: "bf_block bf address sz = {k. i \<le> k \<and> k < i + alloc_pages bf sz}"
    by (simp add: bf_block_def i(4) b(4))
  have "i \<in> bf_block bf address sz"
    using b(2) alloc_pages_bound(1) [OF inv i(1)] by (simp add: blk word_less_nat_alt)
  moreover have "bf_block bf address sz \<inter> bf_used bf = {}"
    using get_free_index_fits [of bf "alloc_pages bf sz"] i(2,3)
    by (auto simp: blk bf_used_def fits_def fits_loop_iff)
  moreover have "is_free bf' = is_free (lock_index bf i (alloc_pages bf sz))"
    by (rule is_free_cong) (simp add: bf')
  then have "bf_used bf' = bf_used bf \<union> bf_block bf address sz"
    by (auto simp: bf_used_def blk is_free_lock_index)
  moreover have "bf_block bf' = bf_block bf"
    by (simp add: bf' bf_block_def alloc_pages_def fun_eq_iff)
  moreover have "bf_inv bf'"
    using inv b(3) by (auto simp: bf_inv_def bf' bf_limit_def)
  ultimately show ?thesis by blast
qed

lemma deallocate_Inr:
  assumes "deallocate bf address sz = Inr bf'"
  obtains i where "i = (address - bf_available_address bf) div bf_page bf"
    "bf' = (un_lock_index bf i (BYTES_TO_PAGES sz (bf_page bf)))
       \<lparr>bf_next_index := if i < bf_next_index bf then i else bf_next_index bf,
        bf_lock := (bf_lock bf)\<lparr>mx_lock := False\<rparr>\<rparr>"
proof
  let ?i = "(address - bf_available_address bf) div bf_page bf"
  show "bf' = (un_lock_index bf ?i (BYTES_TO_PAGES sz (bf_page bf)))
       \<lparr>bf_next_index := if ?i < bf_next_index bf then ?i else bf_next_index bf,
        bf_lock := (bf_lock bf)\<lparr>mx_lock := False\<rparr>\<rparr>"
    using assms by (auto simp: deallocate_def Let_def mutex_lock_def mutex_unlock_def
        un_lock_index_def split: if_splits)
qed simp

lemma deallocate_ok:
  assumes inv: "bf_inv bf" and "sz \<noteq> 0" and de: "deallocate bf address sz = Inr bf'"
  shows "bf_inv bf' \<and> bf_used bf' = bf_used bf - bf_block bf address sz \<and> bf_block bf' = bf_block bf"
proof -
  let ?i = "(address - bf_available_address bf) div bf_page bf"
  have bf': "bf' = (un_lock_index bf ?i (BYTES_TO_PAGES sz (bf_page bf)))
       \<lparr>bf_next_index := if ?i < bf_next_index bf then ?i else bf_next_index bf,
        bf_lock := (bf_lock bf)\<lparr>mx_lock := False\<rparr>\<rparr>"
    using deallocate_Inr [OF de] by metis
  have pg: "alloc_pages bf sz = BYTES_TO_PAGES sz (bf_page bf)"
    using alloc_pages_nonzero_size [of bf sz] bf_page_pos [OF inv] assms(2) by simp
  have "is_free bf' = is_free (un_lock_index bf ?i (BYTES_TO_PAGES sz (bf_page bf)))"
    by (rule is_free_cong) (simp add: bf')
  then have "bf_used bf' = bf_used bf - bf_block bf address sz"
    by (auto simp: bf_used_def bf_block_def Let_def pg is_free_un_lock_index)
  moreover have "bf_block bf' = bf_block bf"
    by (simp add: bf' bf_block_def alloc_pages_def fun_eq_iff)
  moreover have "bf_inv bf'"
    using inv by (auto simp: bf_inv_def bf' bf_limit_def word_less_nat_alt)
  ultimately show ?thesis by blast
qed

abbreviation bf_allocates :: "bitfield \<Rightarrow> u64 \<Rightarrow> u64 \<Rightarrow> bitfield \<Rightarrow> bool" where
  "bf_allocates bf sz address bf' \<equiv> allocate bf sz = Inr (address, bf')"

abbreviation bf_frees :: "bitfield \<Rightarrow> u64 \<Rightarrow> u64 \<Rightarrow> bitfield \<Rightarrow> bool" where
  "bf_frees bf address sz bf' \<equiv> deallocate bf address sz = Inr bf'"

interpretation bfa: block_allocator bf_allocates bf_frees "\<lambda>sz. sz \<noteq> 0" bf_used bf_block
    "\<lambda>bf address sz. bf_block bf address sz \<subseteq> bf_used bf" bf_inv
proof (unfold_locales, goal_cases)
  case (1 bf sz address bf')
  then show ?case using allocate_ok by blast
next
  case (2 bf sz address bf')
  then show ?case using allocate_ok [OF 2(1,3)] by auto
next
  case (3 bf sz address bf')
  then show ?case using deallocate_ok by blast
next
  case (4 bf sz address bf' q k)
  then show ?case using deallocate_ok [OF 4(1,2,4)] by auto
qed

section \<open>Initialisation\<close>

lemma init_sizes:
  assumes "4096 \<le> unat ds" and "unat ds < 2 ^ 60"
    and bs: "bs = BYTES_TO_PAGES ds 4096 div 8"
    and lk: "lk = BYTES_TO_PAGES (sizeof_bitfield + bs) 4096"
    and av: "av = ds - sizeof_bitfield - bs"
  shows "unat bs = (unat ds div 4096 + (if unat ds mod 4096 \<noteq> 0 then 1 else 0)) div 8"
    and "unat lk \<le> unat bs + 1" and "unat av \<le> unat ds"
proof -
  have p: "unat (BYTES_TO_PAGES b 4096) = unat b div 4096 + (if unat b mod 4096 \<noteq> 0 then 1 else 0)" for b
    using unat_BYTES_TO_PAGES [of 4096 b] by simp
  show b: "unat bs = (unat ds div 4096 + (if unat ds mod 4096 \<noteq> 0 then 1 else 0)) div 8"
    by (simp add: bs unat_div p)
  have q: "unat ds div 4096 < 2 ^ 48"
    using assms(2) by (intro less_mult_imp_div_less) simp
  have bb: "unat bs \<le> unat ds div 4096 + 1"
    unfolding b by (rule le_trans [OF div_le_dividend]) simp
  with q bb have bl: "unat bs \<le> 2 ^ 48" by simp
  then have s: "unat (sizeof_bitfield + bs) = 72 + unat bs"
    by (subst unat_add_no_wrap) (simp_all add: sizeof_bitfield_def)
  show "unat lk \<le> unat bs + 1"
    unfolding lk p s by (cases "unat bs") auto
  have "unat sizeof_bitfield + unat bs \<le> unat ds"
    using assms(1) bb div_times_less_eq_dividend [of "unat ds" 4096]
    by (simp add: sizeof_bitfield_def)
  then show "unat av \<le> unat ds"
    unfolding av by (simp add: unat_sub word_le_nat_alt sizeof_bitfield_def)
qed

lemma bitfield_init_Some:
  assumes "4096 \<le> unat ds" and "unat ds < 2 ^ 60"
  obtains bf where "bitfield_init mem a ds 4096 = Some bf" and "bf_inv bf"
    and "bf_bitmap_size bf = BYTES_TO_PAGES ds 4096 div 8"
    and "bf_next_index bf = BYTES_TO_PAGES (sizeof_bitfield + bf_bitmap_size bf) 4096"
    and "\<And>j. j < bf_bitmap_size bf \<Longrightarrow> bf_bitmap bf j = (if j < bf_next_index bf then 1 else 0)"
proof
  let ?bf = "the (bitfield_init mem a ds 4096)"
  have ns: "\<not> (ds < sizeof_bitfield \<or> (4096 :: u16) = 0 \<or> ds < 4096)"
    using assms(1) by (simp add: sizeof_bitfield_def word_less_nat_alt)
  then show "bitfield_init mem a ds 4096 = Some ?bf"
    by (simp add: bitfield_init_def Let_def)
  show bs: "bf_bitmap_size ?bf = BYTES_TO_PAGES ds 4096 div 8"
    and ni: "bf_next_index ?bf = BYTES_TO_PAGES (sizeof_bitfield + bf_bitmap_size ?bf) 4096"
    using ns by (simp_all add: bitfield_init_def Let_def)
  show "bf_bitmap ?bf j = (if j < bf_next_index ?bf then 1 else 0)" if "j < bf_bitmap_size ?bf" for j
    using ns that by (auto simp: bitfield_init_def Let_def fill_loop_apply)
  have av: "bf_available_size ?bf = ds - sizeof_bitfield - bf_bitmap_size ?bf"
    and pg: "bf_page_size ?bf = 4096" and lk: "\<not> mx_lock (bf_lock ?bf)"
    using ns by (simp_all add: bitfield_init_def Let_def mutex_init_def)
  note z = init_sizes [OF assms bs ni av]
  have q: "unat (bf_available_size ?bf) div 4096 < 2 ^ 48" "unat ds div 4096 < 2 ^ 48"
    using z(3) assms(2) by (auto intro!: less_mult_imp_div_less)
  have "unat (bf_bitmap_size ?bf) \<le> unat ds div 4096 + 1"
    unfolding z(1) by (rule le_trans [OF div_le_dividend]) simp
  with q z(2) pg lk show "bf_inv ?bf"
    by (simp add: bf_inv_def bf_limit_def)
qed

section \<open>Properties\<close>

lemma allocate_geometry:
  assumes "allocate bf sz = Inr (address, bf')"
  shows "bf_available_address bf' = bf_available_address bf \<and>
         bf_available_size bf' = bf_available_size bf"
  by (rule allocate_Inr [OF assms]) simp

text \<open>C1: Live blocks of the page allocator never overlap.  Start from any well-formed
  allocator state and perform any sequence of \<open>allocate\<close> calls with non-zero sizes and
  \<open>deallocate\<close> calls on blocks that are live, with the size they were requested with: the
  page ranges of any two live blocks are disjoint, and the pages marked used beyond those of
  the start state are exactly the pages of the live blocks.\<close>

theorem bitfield_live_blocks_disjoint:
  assumes "alloc_run bf_allocates bf_frees (\<lambda>sz. sz \<noteq> 0) bf0 bf live" and "bf_inv bf0"
  shows "(\<forall>i j. i < j \<and> j < length live \<longrightarrow>
            bf_block bf0 (fst (live ! i)) (snd (live ! i))
              \<inter> bf_block bf0 (fst (live ! j)) (snd (live ! j)) = {}) \<and>
         bf_used bf - bf_used bf0 = live_cells (bf_block bf0) live"
  using bfa.live_blocks_disjoint [OF assms] by blast

text \<open>C7: First-fit search is complete.  In a well-formed state in which page 0 is marked
  used, \<open>allocate\<close> for a size within \<open>available_size\<close> returns an address exactly when some
  run of free pages of the required length starts below \<open>bitmap_size\<close> or below
  \<open>next_index\<close>; otherwise it panics.\<close>

theorem allocate_complete:
  assumes "bf_inv bf" and "\<not> is_free bf 0" and "sz \<le> bf_available_size bf"
  shows "if \<exists>i. fits bf i (alloc_pages bf sz) \<and> (i < bf_bitmap_size bf \<or> i < bf_next_index bf)
         then \<exists>r. allocate bf sz = Inr r
         else allocate bf sz = Inl (Panic ''No available pages'')"
proof -
  have a: "get_free_index bf (alloc_pages bf sz) = 0 \<Longrightarrow>
      allocate bf sz = Inl (Panic ''No available pages'')"
    and b: "get_free_index bf (alloc_pages bf sz) \<noteq> 0 \<Longrightarrow> \<exists>r. allocate bf sz = Inr r"
    using assms(1,3) by (auto simp: allocate_def Let_def mutex_lock_def bf_inv_def)
  have c: "(\<exists>i. fits bf i (alloc_pages bf sz) \<and> (i < bf_bitmap_size bf \<or> i < bf_next_index bf))
      \<longleftrightarrow> get_free_index bf (alloc_pages bf sz) \<noteq> 0"
    using get_free_index_fits [of bf "alloc_pages bf sz"]
      get_free_index_finds [OF assms(2) alloc_pages_bound(1) [OF assms(1,3)]] by blast
  show ?thesis unfolding c using a b by auto
qed

text \<open>C8: Freeing undoes allocating.  If \<open>allocate\<close> of a non-zero size returns an
  address that lies in the range \<open>deallocate\<close> accepts, then \<open>deallocate\<close> with the same size
  returns and the set of used pages is what it was before.\<close>

theorem allocate_deallocate:
  assumes "bf_inv bf" and "sz \<noteq> 0" and "allocate bf sz = Inr (address, bf1)"
    and "bf_available_address bf \<le> address"
    and "address < bf_available_address bf + bf_available_size bf"
  shows "\<exists>bf2. deallocate bf1 address sz = Inr bf2 \<and> bf_inv bf2 \<and> bf_used bf2 = bf_used bf"
proof -
  note a = allocate_ok [OF assms(1,3)]
  have "\<not> mx_lock (bf_lock bf1)" using a by (simp add: bf_inv_def)
  then have "\<exists>bf2. deallocate bf1 address sz = Inr bf2"
    using assms(4,5) allocate_geometry [OF assms(3)]
    by (simp add: deallocate_def Let_def mutex_lock_def leD linorder_not_le)
  then obtain bf2 where d: "deallocate bf1 address sz = Inr bf2" ..
  with deallocate_ok [of bf1 sz address bf2] a assms(2) show ?thesis by auto
qed

text \<open>State after \<open>init\<close> with the page size the kernel uses.  The structure is
  well-formed; the first \<open>locked_pages\<close> \<^bold>\<open>bytes\<close> of the bitmap hold 1, so below
  \<open>8 * bitmap_size\<close> the used pages are exactly the multiples of 8 below
  \<open>8 * locked_pages\<close>, and not the first \<open>locked_pages\<close> pages.\<close>

theorem bitfield_init_state:
  assumes "4096 \<le> unat ds" and "unat ds < 2 ^ 60"
  shows "\<exists>bf. bitfield_init mem a ds 4096 = Some bf \<and> bf_inv bf \<and>
           (\<forall>k. k div 8 < bf_bitmap_size bf \<longrightarrow>
              (\<not> is_free bf k \<longleftrightarrow> k mod 8 = 0 \<and> k div 8 < bf_next_index bf))"
proof (rule bitfield_init_Some [OF assms, of mem a])
  fix bf
  assume bf: "bitfield_init mem a ds 4096 = Some bf" "bf_inv bf"
    and m: "\<And>j. j < bf_bitmap_size bf \<Longrightarrow> bf_bitmap bf j = (if j < bf_next_index bf then 1 else 0)"
  have "\<not> is_free bf k \<longleftrightarrow> k mod 8 = 0 \<and> k div 8 < bf_next_index bf"
    if "k div 8 < bf_bitmap_size bf" for k
    using m [OF that] by (simp add: is_free_page_bit page_bit_def bit_1_iff unat_eq_zero)
  with bf show ?thesis by blast
qed

section \<open>A concrete allocator\<close>

text \<open>One megabyte at address 0: 256 pages, a bitmap of 32 bytes and one locked page.\<close>

definition demo_bf :: bitfield where
  "demo_bf = the (bitfield_init (\<lambda>_. 0) 0 0x100000 4096)"

lemma demo_bf_inv: "bf_inv demo_bf"
  by (rule bitfield_init_Some [of "0x100000" "\<lambda>_. 0" 0]) (simp_all add: demo_bf_def)

lemma demo_bf_sizes:
  "bf_available_size demo_bf = 0xFFF98" "bf_available_address demo_bf = 0x1000"
  "bf_bitmap_size demo_bf = 32" "bf_next_index demo_bf = 1" "\<not> is_free demo_bf 0"
  by code_simp+

lemma demo_allocate_eval:
  "case allocate demo_bf 0x2000 of Inl _ \<Rightarrow> False | Inr (a, bf1) \<Rightarrow> a = 0x2000 \<and>
     (case allocate bf1 0x1000 of Inl _ \<Rightarrow> False | Inr (b, bf2) \<Rightarrow> b = 0x4000)"
  by code_simp

lemma demo_allocate:
  obtains bf1 bf2 where "allocate demo_bf 0x2000 = Inr (0x2000, bf1)"
    and "allocate bf1 0x1000 = Inr (0x4000, bf2)"
proof -
  obtain a bf1 where 1: "allocate demo_bf 0x2000 = Inr (a, bf1)" "a = 0x2000"
      "case allocate bf1 0x1000 of Inl _ \<Rightarrow> False | Inr (b, bf2) \<Rightarrow> b = 0x4000"
    using demo_allocate_eval by (cases "allocate demo_bf 0x2000") auto
  from 1(3) obtain bf2 where "allocate bf1 0x1000 = Inr (0x4000, bf2)"
    by (cases "allocate bf1 0x1000") auto
  with 1(1,2) that show thesis by simp
qed

theorem bitfield_live_blocks_disjoint_witness:
  "\<exists>bf. alloc_run bf_allocates bf_frees (\<lambda>sz. sz \<noteq> 0) demo_bf bf [(0x4000, 0x1000), (0x2000, 0x2000)] \<and>
        bf_block demo_bf 0x4000 0x1000 \<inter> bf_block demo_bf 0x2000 0x2000 = {}"
proof (rule demo_allocate)
  fix bf1 bf2
  assume a: "allocate demo_bf 0x2000 = Inr (0x2000, bf1)" and b: "allocate bf1 0x1000 = Inr (0x4000, bf2)"
  have r: "alloc_run bf_allocates bf_frees (\<lambda>sz. sz \<noteq> 0) demo_bf bf2 [(0x4000, 0x1000), (0x2000, 0x2000)]"
    by (intro alloc_run.alloc [where alloc = bf_allocates, OF _ _ b]
          alloc_run.alloc [where alloc = bf_allocates, OF _ _ a] alloc_run.start) simp_all
  from bitfield_live_blocks_disjoint [OF r demo_bf_inv]
  have "bf_block demo_bf 0x4000 0x1000 \<inter> bf_block demo_bf 0x2000 0x2000 = {}" by force
  with r show ?thesis by blast
qed

lemma demo_fits: "fits demo_bf 1 (alloc_pages demo_bf 0x2000)"
  by code_simp

theorem allocate_complete_witness: "\<exists>r. allocate demo_bf 0x2000 = Inr r"
proof -
  have "\<exists>i. fits demo_bf i (alloc_pages demo_bf 0x2000) \<and>
      (i < bf_bitmap_size demo_bf \<or> i < bf_next_index demo_bf)"
    using demo_fits by (intro exI [of _ 1]) (simp add: demo_bf_sizes)
  with allocate_complete [OF demo_bf_inv demo_bf_sizes(5), of "0x2000"] show ?thesis
    by (simp add: demo_bf_sizes)
qed

theorem allocate_deallocate_witness:
  "\<exists>bf1 bf2. allocate demo_bf 0x2000 = Inr (0x2000, bf1) \<and>
     deallocate bf1 0x2000 0x2000 = Inr bf2 \<and> bf_used bf2 = bf_used demo_bf"
proof (rule demo_allocate)
  fix bf1 bf2
  assume a: "allocate demo_bf 0x2000 = Inr (0x2000, bf1)"
  have "\<exists>bf2. deallocate bf1 0x2000 0x2000 = Inr bf2 \<and> bf_inv bf2 \<and> bf_used bf2 = bf_used demo_bf"
    by (rule allocate_deallocate [OF demo_bf_inv _ a]) (simp_all add: demo_bf_sizes)
  with a show ?thesis by blast
qed

theorem bitfield_init_state_witness:
  "\<exists>bf. bitfield_init (\<lambda>_. 0) 0 0x100000 4096 = Some bf \<and> bf_inv bf"
  using bitfield_init_state [of "0x100000" "\<lambda>_. 0" 0] by auto

end
