(* ===== verification/Pmm.thy ===== *)
theory Pmm
  imports Bitfield_Allocator
begin

text \<open>
  The physical memory manager of modules/managers/mem/pmm.c: it picks the largest usable
  entry of the memory map the boot loader hands over and runs the bitfield allocator on it.
  The memory map is a list of entries, the bytes found where the bitmap is placed are the
  parameter \<open>mem\<close>.  The addresses of the allocator structure and of its bitmap are kept
  beside their contents, because \<open>remap_bitfield\<close> moves the addresses only.
\<close>

record pmm_block =
  pb_base :: u64
  pb_size :: u64
  pb_type :: u64

record pmm =
  pmm_main_memory :: pmm_block
  pmm_bf :: bitfield
  pmm_bf_ptr :: u64
  pmm_bitmap_ptr :: u64
  pmm_ready :: bool

definition PAGE_SIZE :: u64 where
  "PAGE_SIZE = 0x1000"

definition BOOTLOADER_MEMMAP_USABLE :: u64 where
  "BOOTLOADER_MEMMAP_USABLE = 0"

fun biggest_loop :: "pmm_block list \<Rightarrow> int \<Rightarrow> u64 \<Rightarrow> int \<Rightarrow> int" where
  "biggest_loop [] i biggest biggest_index = biggest_index"
| "biggest_loop (e # es) i biggest biggest_index =
     (if pb_type e = BOOTLOADER_MEMMAP_USABLE \<and> pb_size e > biggest
      then biggest_loop es (i + 1) (pb_size e) i
      else biggest_loop es (i + 1) biggest biggest_index)"

definition pmm_init :: "(u64 \<Rightarrow> u8) \<Rightarrow> pmm_block list \<Rightarrow> pmm \<Rightarrow> pmm" where
  "pmm_init mem memmap s =
     (if pmm_ready s then s
      else let biggest_index = biggest_loop memmap 0 0 (- 1) in
           if biggest_index = - 1 then s
           else let s1 = s\<lparr>pmm_main_memory := memmap ! nat biggest_index\<rparr> in
                (case bitfield_init mem (pb_base (pmm_main_memory s1)) (pb_size (pmm_main_memory s1))
                        (ucast PAGE_SIZE) of
                   None \<Rightarrow> s1\<lparr>pmm_bf_ptr := 0, pmm_ready := False\<rparr>
                 | Some bf \<Rightarrow> s1\<lparr>pmm_bf := bf, pmm_bf_ptr := pb_base (pmm_main_memory s1),
                                pmm_bitmap_ptr := pb_base (pmm_main_memory s1) + sizeof_bitfield,
                                pmm_ready := True\<rparr>))"

definition get_main_memory :: "pmm \<Rightarrow> pmm_block" where
  "get_main_memory s = pmm_main_memory s"

definition remap_bitfield :: "u64 \<Rightarrow> pmm \<Rightarrow> pmm" where
  "remap_bitfield off s =
     (if \<not> pmm_ready s then s
      else s\<lparr>pmm_bf_ptr := pmm_bf_ptr s + off, pmm_bitmap_ptr := pmm_bitmap_ptr s + off\<rparr>)"

definition pmm_round :: "u64 \<Rightarrow> u64" where
  "pmm_round sz = (if sz mod PAGE_SIZE \<noteq> 0 then sz + (PAGE_SIZE - sz mod PAGE_SIZE) else sz)"

definition pmm_alloc :: "pmm \<Rightarrow> u64 \<Rightarrow> (u64 \<times> pmm) res" where
  "pmm_alloc s sz =
     (if \<not> pmm_ready s then Inr (0, s)
      else res_bind (allocate (pmm_bf s) (pmm_round sz)) (\<lambda>(ptr, bf). Inr (ptr, s\<lparr>pmm_bf := bf\<rparr>)))"

definition pmm_alloc_page :: "pmm \<Rightarrow> (u64 \<times> pmm) res" where
  "pmm_alloc_page s =
     (if \<not> pmm_ready s then Inr (0, s)
      else res_bind (allocate (pmm_bf s) PAGE_SIZE) (\<lambda>(ptr, bf). Inr (ptr, s\<lparr>pmm_bf := bf\<rparr>)))"

definition pmm_free :: "pmm \<Rightarrow> u64 \<Rightarrow> pmm res" where
  "pmm_free s ptr =
     (if \<not> pmm_ready s then Inr s
      else res_bind (deallocate (pmm_bf s) ptr PAGE_SIZE) (\<lambda>bf. Inr (s\<lparr>pmm_bf := bf\<rparr>)))"

section \<open>Choosing the memory region\<close>

abbreviation usable :: "pmm_block \<Rightarrow> bool" where
  "usable e \<equiv> pb_type e = BOOTLOADER_MEMMAP_USABLE"

lemma biggest_loop_spec:
  "biggest_loop es i b bi = bi \<and> (\<forall>e \<in> set es. usable e \<longrightarrow> pb_size e \<le> b) \<or>
   (\<exists>k < length es. biggest_loop es i b bi = i + int k \<and> usable (es ! k) \<and> b < pb_size (es ! k) \<and>
      (\<forall>e \<in> set es. usable e \<longrightarrow> pb_size e \<le> pb_size (es ! k)))"
proof (induction es arbitrary: i b bi)
  case (Cons e es)
  show ?case
  proof (cases "usable e \<and> b < pb_size e")
    case True
    from Cons.IH [of "i + 1" "pb_size e" i] show ?thesis
    proof (elim disjE exE conjE)
      assume "biggest_loop es (i + 1) (pb_size e) i = i"
        and "\<forall>e'\<in>set es. usable e' \<longrightarrow> pb_size e' \<le> pb_size e"
      with True show ?thesis by (intro disjI2 exI [of _ 0]) auto
    next
      fix k
      assume "k < length es" "biggest_loop es (i + 1) (pb_size e) i = i + 1 + int k"
        "usable (es ! k)" "pb_size e < pb_size (es ! k)"
        "\<forall>e\<in>set es. usable e \<longrightarrow> pb_size e \<le> pb_size (es ! k)"
      with True show ?thesis by (intro disjI2 exI [of _ "Suc k"]) auto
    qed
  next
    case False
    from Cons.IH [of "i + 1" b bi] show ?thesis
    proof (elim disjE exE conjE)
      assume "biggest_loop es (i + 1) b bi = bi" "\<forall>e\<in>set es. usable e \<longrightarrow> pb_size e \<le> b"
      with False show ?thesis by (intro disjI1) auto
    next
      fix k
      assume "k < length es" "biggest_loop es (i + 1) b bi = i + 1 + int k"
        "usable (es ! k)" "b < pb_size (es ! k)"
        "\<forall>e\<in>set es. usable e \<longrightarrow> pb_size e \<le> pb_size (es ! k)"
      with False show ?thesis by (intro disjI2 exI [of _ "Suc k"]) auto
    qed
  qed
qed simp

lemma page_size_ucast: "ucast PAGE_SIZE = (4096 :: u16)" "PAGE_SIZE = 4096"
  by (simp_all add: PAGE_SIZE_def)

section \<open>Properties\<close>

text \<open>C9: \<open>pmm_init\<close> manages a largest usable region.  If the memory map has a usable entry
  and the largest one is between one page and \<open>2^60\<close> bytes, then after \<open>pmm_init\<close> the manager
  is ready, its main memory is a usable entry no smaller than any other usable entry, and the
  page allocator on it is well-formed.\<close>

theorem pmm_init_largest:
  assumes "\<not> pmm_ready s" and "e \<in> set memmap" and "usable e" and "4096 \<le> unat (pb_size e)"
    and "\<forall>e' \<in> set memmap. unat (pb_size e') < 2 ^ 60"
  shows "let s' = pmm_init mem memmap s in
           pmm_ready s' \<and> bf_inv (pmm_bf s') \<and> get_main_memory s' \<in> set memmap \<and>
           usable (get_main_memory s') \<and>
           (\<forall>e' \<in> set memmap. usable e' \<longrightarrow> pb_size e' \<le> pb_size (get_main_memory s'))"
proof -
  have "0 < pb_size e" using assms(4) by (simp add: word_less_nat_alt)
  then obtain k where k: "k < length memmap" "biggest_loop memmap 0 0 (- 1) = int k"
      "usable (memmap ! k)" "\<forall>e' \<in> set memmap. usable e' \<longrightarrow> pb_size e' \<le> pb_size (memmap ! k)"
    using biggest_loop_spec [of memmap 0 0 "- 1"] assms(2,3) by force
  then have "4096 \<le> unat (pb_size (memmap ! k))"
    using assms(2,3,4) by (fastforce simp: word_le_nat_alt)
  moreover have "unat (pb_size (memmap ! k)) < 2 ^ 60" using k(1) assms(5) by simp
  ultimately show ?thesis
  proof (rule bitfield_init_Some [of "pb_size (memmap ! k)" mem "pb_base (memmap ! k)"])
    fix bf
    assume "bitfield_init mem (pb_base (memmap ! k)) (pb_size (memmap ! k)) 4096 = Some bf" "bf_inv bf"
    with k assms(1) show ?thesis
      by (simp add: pmm_init_def Let_def page_size_ucast get_main_memory_def)
  qed
qed

text \<open>\<open>pmm_free\<close> gives back only the first page of a block.  If \<open>pmm_alloc\<close> returns a
  block of pages starting at page \<open>i\<close> of the managed memory, then after \<open>pmm_free\<close> of its
  address all pages of the block except \<open>i\<close> are still marked used: a block of more than one
  page is leaked.\<close>

theorem pmm_free_leaks_tail:
  assumes "pmm_ready s" and "bf_inv (pmm_bf s)" and "bf_page_size (pmm_bf s) = 4096"
    and "pmm_alloc s sz = Inr (ptr, s1)" and "pmm_free s1 ptr = Inr s2"
  shows "let i = (ptr - bf_available_address (pmm_bf s)) div 4096 in
           i \<in> bf_block (pmm_bf s) ptr (pmm_round sz) \<and>
           bf_used (pmm_bf s2) = bf_used (pmm_bf s) \<union> (bf_block (pmm_bf s) ptr (pmm_round sz) - {i})"
proof -
  let ?i = "(ptr - bf_available_address (pmm_bf s)) div 4096"
  from assms(1,4) obtain bf1 where a: "allocate (pmm_bf s) (pmm_round sz) = Inr (ptr, bf1)"
    and s1: "s1 = s\<lparr>pmm_bf := bf1\<rparr>"
    by (auto simp: pmm_alloc_def res_bind_Inr_iff)
  note al = allocate_ok [OF assms(2) a]
  from assms(1,5) s1 obtain bf2 where d: "deallocate bf1 ptr 4096 = Inr bf2" and s2: "pmm_bf s2 = bf2"
    by (auto simp: pmm_free_def res_bind_Inr_iff page_size_ucast)
  have dl: "bf_used bf2 = bf_used bf1 - bf_block bf1 ptr 4096"
    using deallocate_ok [of bf1 4096 ptr bf2] al d by simp
  have blk: "bf_block (pmm_bf s) ptr n = {k. ?i \<le> k \<and> k < ?i + alloc_pages (pmm_bf s) n}" for n
    by (simp add: bf_block_def Let_def assms(3))
  have lt: "?i < ?i + alloc_pages (pmm_bf s) (pmm_round sz)"
    using al unfolding blk by (auto intro: le_less_trans)
  have one: "alloc_pages (pmm_bf s) 4096 = 1"
    by (simp add: alloc_pages_def BYTES_TO_PAGES_def assms(3))
  have "bf_block (pmm_bf s) ptr 4096 = {?i}"
    unfolding blk one by (rule word_singleton_range [OF lt])
  with al dl lt show ?thesis
    by (auto simp: Let_def s2 blk)
qed

section \<open>A concrete manager\<close>

definition demo_pmm :: pmm where
  "demo_pmm = pmm_init (\<lambda>_. 0)
     [\<lparr>pb_base = 0, pb_size = 0x9000, pb_type = 1\<rparr>, \<lparr>pb_base = 0x10000, pb_size = 0x4000, pb_type = 0\<rparr>,
      \<lparr>pb_base = 0, pb_size = 0x100000, pb_type = 0\<rparr>]
     \<lparr>pmm_main_memory = \<lparr>pb_base = 0, pb_size = 0, pb_type = 0\<rparr>, pmm_bf = demo_bf, pmm_bf_ptr = 0,
      pmm_bitmap_ptr = 0, pmm_ready = False\<rparr>"

theorem pmm_init_largest_witness:
  "pmm_ready demo_pmm \<and> bf_inv (pmm_bf demo_pmm) \<and>
   (0x4000 :: u64) \<le> pb_size (get_main_memory demo_pmm)"
  using pmm_init_largest [where e = "\<lparr>pb_base = 0x10000, pb_size = 0x4000, pb_type = 0\<rparr>"
      and memmap = "[\<lparr>pb_base = 0, pb_size = 0x9000, pb_type = 1\<rparr>,
        \<lparr>pb_base = 0x10000, pb_size = 0x4000, pb_type = 0\<rparr>,
        \<lparr>pb_base = 0, pb_size = 0x100000, pb_type = 0\<rparr>]" and mem = "\<lambda>_. 0"
      and s = "\<lparr>pmm_main_memory = \<lparr>pb_base = 0, pb_size = 0, pb_type = 0\<rparr>, pmm_bf = demo_bf,
        pmm_bf_ptr = 0, pmm_bitmap_ptr = 0, pmm_ready = False\<rparr>"]
  by (simp add: demo_pmm_def Let_def BOOTLOADER_MEMMAP_USABLE_def)

lemma demo_pmm_eval:
  "case pmm_alloc demo_pmm 0x1800 of Inl _ \<Rightarrow> False | Inr (ptr, s1) \<Rightarrow> ptr = 0x2000 \<and>
     (case pmm_free s1 ptr of Inl _ \<Rightarrow> False | Inr s2 \<Rightarrow> True)"
  by code_simp

lemma demo_pmm_fields: "pmm_ready demo_pmm" "bf_page_size (pmm_bf demo_pmm) = 4096"
  "bf_available_address (pmm_bf demo_pmm) = 0x1000"
  "alloc_pages (pmm_bf demo_pmm) (pmm_round 0x1800) = 2"
  by code_simp+

theorem pmm_free_leaks_tail_witness:
  "\<exists>s1 s2. pmm_alloc demo_pmm 0x1800 = Inr (0x2000, s1) \<and> pmm_free s1 0x2000 = Inr s2 \<and>
     2 \<in> bf_used (pmm_bf s2)"
proof -
  obtain s1 where 1: "pmm_alloc demo_pmm 0x1800 = Inr (0x2000, s1)"
      "case pmm_free s1 0x2000 of Inl _ \<Rightarrow> False | Inr s2 \<Rightarrow> True"
    using demo_pmm_eval by (cases "pmm_alloc demo_pmm 0x1800") auto
  from 1(2) obtain s2 where 2: "pmm_free s1 0x2000 = Inr s2"
    by (cases "pmm_free s1 0x2000") auto
  have "bf_inv (pmm_bf demo_pmm)"
    unfolding demo_pmm_def pmm_init_def
    by (rule bitfield_init_Some [of "0x100000" "\<lambda>_. 0" 0])
       (simp_all add: BOOTLOADER_MEMMAP_USABLE_def page_size_ucast)
  from pmm_free_leaks_tail [OF demo_pmm_fields(1) this demo_pmm_fields(2) 1(1) 2]
  have "2 \<in> bf_used (pmm_bf s2)"
    by (simp add: Let_def demo_pmm_fields bf_block_def)
  with 1(1) 2 show ?thesis by blast
qed

end
