(* ===== verification/Linked_List.thy ===== *)
theory Linked_List
  imports Omen_Prelude
begin

text \<open>
  The circular doubly linked lists of include/omen/libraries/basic/linked_list.h.  The
  nodes live in a heap from addresses to \<open>struct list_head\<close>; every operation is the
  sequence of pointer writes of the code.  \<open>dlist h head xs\<close> says that the list with head
  \<open>head\<close> holds the nodes \<open>xs\<close> in order; the operations are shown to refine operations on
  that list.  The contract of an intrusive list is a locale, in which families of disjoint
  lists (arrays of list heads) are treated once for all clients.
\<close>

record list_head =
  lh_prev :: u64
  lh_next :: u64

type_synonym heap = "u64 \<Rightarrow> list_head"

definition LIST_POISON1 :: u64 where "LIST_POISON1 = 0x00100100"

definition LIST_POISON2 :: u64 where "LIST_POISON2 = 0x00200200"

definition set_prev :: "u64 \<Rightarrow> u64 \<Rightarrow> heap \<Rightarrow> heap" where
  "set_prev p v h = h(p := (h p)\<lparr>lh_prev := v\<rparr>)"

definition set_next :: "u64 \<Rightarrow> u64 \<Rightarrow> heap \<Rightarrow> heap" where
  "set_next p v h = h(p := (h p)\<lparr>lh_next := v\<rparr>)"

definition INIT_LIST_HEAD :: "u64 \<Rightarrow> heap \<Rightarrow> heap" where
  "INIT_LIST_HEAD head h = set_next head head (set_prev head head h)"

definition list_add_between :: "u64 \<Rightarrow> u64 \<Rightarrow> u64 \<Rightarrow> heap \<Rightarrow> heap" where
  "list_add_between new prev next h =
     set_next prev new (set_prev new prev (set_next new next (set_prev next new h)))"

definition list_add :: "u64 \<Rightarrow> u64 \<Rightarrow> heap \<Rightarrow> heap" where
  "list_add new head h = list_add_between new head (lh_next (h head)) h"

definition list_add_tail :: "u64 \<Rightarrow> u64 \<Rightarrow> heap \<Rightarrow> heap" where
  "list_add_tail new head h = list_add_between new (lh_prev (h head)) head h"

definition list_del_between :: "u64 \<Rightarrow> u64 \<Rightarrow> heap \<Rightarrow> heap" where
  "list_del_between prev next h = set_next prev next (set_prev next prev h)"

definition list_del :: "u64 \<Rightarrow> heap \<Rightarrow> heap" where
  "list_del node h =
     set_next node LIST_POISON2 (set_prev node LIST_POISON1
       (list_del_between (lh_prev (h node)) (lh_next (h node)) h))"

definition list_del_init :: "u64 \<Rightarrow> heap \<Rightarrow> heap" where
  "list_del_init node h =
     INIT_LIST_HEAD node (list_del_between (lh_prev (h node)) (lh_next (h node)) h)"

definition list_move :: "u64 \<Rightarrow> u64 \<Rightarrow> heap \<Rightarrow> heap" where
  "list_move node head h = list_add node head (list_del node h)"

definition list_move_tail :: "u64 \<Rightarrow> u64 \<Rightarrow> heap \<Rightarrow> heap" where
  "list_move_tail node head h = list_add_tail node head (list_del node h)"

definition list_empty :: "heap \<Rightarrow> u64 \<Rightarrow> bool" where
  "list_empty h head = (lh_next (h head) = head)"

definition splice_between :: "u64 \<Rightarrow> u64 \<Rightarrow> heap \<Rightarrow> heap" where
  "splice_between l head h =
     (let first = lh_next (h l); tail = lh_prev (h l); at = lh_next (h head) in
      set_prev at tail (set_next tail at (set_next head first (set_prev first head h))))"

definition splice_tail_between :: "u64 \<Rightarrow> u64 \<Rightarrow> heap \<Rightarrow> heap" where
  "splice_tail_between l head h =
     (let first = lh_next (h l); tail = lh_prev (h l); at = lh_prev (h head) in
      set_prev head tail (set_next tail head (set_next at first (set_prev first at h))))"

definition list_splice :: "u64 \<Rightarrow> u64 \<Rightarrow> heap \<Rightarrow> heap" where
  "list_splice l head h = (if list_empty h l then h else splice_between l head h)"

definition list_splice_tail :: "u64 \<Rightarrow> u64 \<Rightarrow> heap \<Rightarrow> heap" where
  "list_splice_tail l head h = (if list_empty h l then h else splice_tail_between l head h)"

definition list_splice_init :: "u64 \<Rightarrow> u64 \<Rightarrow> heap \<Rightarrow> heap" where
  "list_splice_init l head h = (if list_empty h l then h else INIT_LIST_HEAD l (splice_between l head h))"

definition list_splice_tail_init :: "u64 \<Rightarrow> u64 \<Rightarrow> heap \<Rightarrow> heap" where
  "list_splice_tail_init l head h =
     (if list_empty h l then h else INIT_LIST_HEAD l (splice_tail_between l head h))"

text \<open>
  \<open>list_for_each\<close>: the nodes visited from \<open>node\<close> until the head is met again; \<open>None\<close> when
  the walk never comes back.
\<close>

partial_function (option) list_for_each :: "heap \<Rightarrow> u64 \<Rightarrow> u64 \<Rightarrow> u64 list option" where
  "list_for_each h head node =
     (if node = head then Some []
      else Option.bind (list_for_each h head (lh_next (h node))) (\<lambda>ns. Some (node # ns)))"

section \<open>Lists in the heap\<close>

fun dpath :: "heap \<Rightarrow> u64 \<Rightarrow> u64 list \<Rightarrow> u64 \<Rightarrow> bool" where
  "dpath h p [] e \<longleftrightarrow> lh_next (h p) = e \<and> lh_prev (h e) = p"
| "dpath h p (x # xs) e \<longleftrightarrow> lh_next (h p) = x \<and> lh_prev (h x) = p \<and> dpath h x xs e"

definition dlist :: "heap \<Rightarrow> u64 \<Rightarrow> u64 list \<Rightarrow> bool" where
  "dlist h head xs \<longleftrightarrow> dpath h head xs head \<and> distinct (head # xs)"

lemma set_fields [heap_simps]:
  "lh_prev (set_prev p v h q) = (if q = p then v else lh_prev (h q))"
  "lh_next (set_prev p v h q) = lh_next (h q)"
  "lh_next (set_next p v h q) = (if q = p then v else lh_next (h q))"
  "lh_prev (set_next p v h q) = lh_prev (h q)"
  by (auto simp: set_prev_def set_next_def)

lemma set_other [heap_simps]: "q \<noteq> p \<Longrightarrow> set_prev p v h q = h q" "q \<noteq> p \<Longrightarrow> set_next p v h q = h q"
  by (auto simp: set_prev_def set_next_def)

lemma dpath_append:
  "dpath h p (xs @ y # ys) e \<longleftrightarrow> dpath h p xs y \<and> dpath h y ys e"
  by (induction xs arbitrary: p) auto

lemma dpath_cong:
  "(\<And>a. a \<in> set (p # xs) \<Longrightarrow> lh_next (h a) = lh_next (h' a)) \<Longrightarrow>
   (\<And>a. a \<in> set (e # xs) \<Longrightarrow> lh_prev (h a) = lh_prev (h' a)) \<Longrightarrow>
   dpath h p xs e = dpath h' p xs e"
  by (induction xs arbitrary: p) auto

lemma dpath_set_next [simp]: "a \<notin> set (p # xs) \<Longrightarrow> dpath (set_next a v h) p xs e = dpath h p xs e"
  by (rule dpath_cong) (auto simp: heap_simps)

lemma dpath_set_prev [simp]: "a \<notin> set (e # xs) \<Longrightarrow> dpath (set_prev a v h) p xs e = dpath h p xs e"
  by (rule dpath_cong) (auto simp: heap_simps)

lemma dpath_next: "dpath h p xs e \<Longrightarrow> lh_next (h p) = (case xs of [] \<Rightarrow> e | x # _ \<Rightarrow> x)"
  by (cases xs) auto

lemma dpath_prev: "dpath h p xs e \<Longrightarrow> lh_prev (h e) = (if xs = [] then p else last xs)"
  by (induction xs arbitrary: p) auto

lemma dlist_cong: "(\<And>a. a \<in> set (head # xs) \<Longrightarrow> h a = h' a) \<Longrightarrow> dlist h head xs = dlist h' head xs"
  unfolding dlist_def using dpath_cong [of head xs h h' head] by auto

lemma dlist_init: "dlist (INIT_LIST_HEAD head h) head []"
  by (simp add: dlist_def INIT_LIST_HEAD_def heap_simps)

lemma dlist_empty: "dlist h head xs \<Longrightarrow> list_empty h head \<longleftrightarrow> xs = []"
  by (cases xs) (auto simp: dlist_def list_empty_def)

lemma dlist_first: "dlist h head (x # xs) \<Longrightarrow> lh_next (h head) = x"
  by (simp add: dlist_def)

lemma dlist_add:
  assumes "dlist h head xs" and "n \<notin> set (head # xs)"
  shows "dlist (list_add n head h) head (n # xs)"
  using assms
  by (cases xs) (auto simp: dlist_def list_add_def list_add_between_def heap_simps)

lemma dlist_add_tail:
  assumes "dlist h head xs" and "n \<notin> set (head # xs)"
  shows "dlist (list_add_tail n head h) head (xs @ [n])"
proof (cases xs rule: rev_cases)
  case Nil
  with assms show ?thesis
    by (auto simp: dlist_def list_add_tail_def list_add_between_def heap_simps)
next
  case (snoc ys y)
  with assms show ?thesis
    by (auto simp: dlist_def list_add_tail_def list_add_between_def dpath_append heap_simps
          dest: dpath_prev)
qed

lemma dlist_neighbours:
  assumes "dlist h head (xs @ n # ys)"
  shows "lh_prev (h n) = last (head # xs)" and "lh_next (h n) = hd (ys @ [head])"
  using assms by (auto simp: dlist_def dpath_append dest: dpath_prev dpath_next split: list.splits)

lemma dpath_del:
  assumes "dpath h p xs n" and "dpath h n ys e" and "distinct (p # xs @ n # ys)"
    and "e \<notin> set (xs @ n # ys)"
  shows "dpath (list_del_between (lh_prev (h n)) (lh_next (h n)) h) p (xs @ ys) e"
proof (cases xs rule: rev_cases)
  case Nil
  with assms show ?thesis
    by (cases ys) (auto simp: list_del_between_def heap_simps)
next
  case (snoc zs z)
  with assms show ?thesis
    by (cases ys) (auto simp: list_del_between_def heap_simps dpath_append)
qed

lemma dlist_del_between:
  assumes "dlist h head (xs @ n # ys)"
  shows "dlist (list_del_between (lh_prev (h n)) (lh_next (h n)) h) head (xs @ ys)"
  using assms dpath_del [of h head xs n ys head] by (auto simp: dlist_def dpath_append)

lemma dlist_del:
  assumes "dlist h head xs" and "n \<in> set xs"
  shows "dlist (list_del n h) head (remove1 n xs)"
proof -
  from assms(2) obtain ys zs where xs: "xs = ys @ n # zs" "n \<notin> set ys"
    by (meson split_list_first)
  have "dlist (list_del_between (lh_prev (h n)) (lh_next (h n)) h) head (ys @ zs)"
    using assms(1) xs by (simp add: dlist_del_between)
  moreover have "n \<notin> set (head # ys @ zs)" using assms(1) xs by (auto simp: dlist_def)
  ultimately have "dlist (list_del n h) head (ys @ zs)"
    by (simp add: dlist_def list_del_def)
  with xs show ?thesis by (simp add: remove1_append)
qed

lemma dlist_del_init:
  assumes "dlist h head xs" and "n \<in> set xs"
  shows "dlist (list_del_init n h) head (remove1 n xs)" and "dlist (list_del_init n h) n []"
proof -
  from assms(2) obtain ys zs where xs: "xs = ys @ n # zs" "n \<notin> set ys"
    by (meson split_list_first)
  have "dlist (list_del_between (lh_prev (h n)) (lh_next (h n)) h) head (ys @ zs)"
    using assms(1) xs by (simp add: dlist_del_between)
  moreover have "n \<notin> set (head # ys @ zs)" using assms(1) xs by (auto simp: dlist_def)
  ultimately have "dlist (list_del_init n h) head (ys @ zs)"
    by (simp add: dlist_def list_del_init_def INIT_LIST_HEAD_def)
  with xs show "dlist (list_del_init n h) head (remove1 n xs)" by (simp add: remove1_append)
  show "dlist (list_del_init n h) n []" by (simp add: list_del_init_def dlist_init)
qed

lemma list_add_frame:
  "a \<notin> {n, head, lh_next (h head)} \<Longrightarrow> list_add n head h a = h a"
  by (simp add: list_add_def list_add_between_def heap_simps)

lemma list_del_frame:
  "a \<notin> {n, lh_prev (h n), lh_next (h n)} \<Longrightarrow> list_del n h a = h a"
  by (simp add: list_del_def list_del_between_def heap_simps)

lemma dlist_next_in: "dlist h head xs \<Longrightarrow> lh_next (h head) \<in> set (head # xs)"
  by (cases xs) (auto simp: dlist_def)

lemma dlist_node_neighbours_in:
  assumes "dlist h head xs" and "n \<in> set xs"
  shows "lh_prev (h n) \<in> set (head # xs)" and "lh_next (h n) \<in> set (head # xs)"
proof -
  from assms(2) obtain ys zs where "xs = ys @ n # zs" by (meson split_list)
  with assms(1) dlist_neighbours [of h head ys n zs]
  show "lh_prev (h n) \<in> set (head # xs)" "lh_next (h n) \<in> set (head # xs)"
    by (cases zs; auto)+
qed

lemma dlist_add_other:
  assumes "dlist h head xs" and "dlist h g ys" and "set (g # ys) \<inter> set (n # head # xs) = {}"
  shows "dlist (list_add n head h) g ys"
  using assms(2)
  by (subst dlist_cong [of _ _ _ h])
     (use assms(3) dlist_next_in [OF assms(1)] in \<open>auto intro!: list_add_frame\<close>)

lemma dlist_del_other:
  assumes "dlist h head xs" and "n \<in> set xs" and "dlist h g ys" and "set (g # ys) \<inter> set (head # xs) = {}"
  shows "dlist (list_del n h) g ys"
  using assms(3)
  by (subst dlist_cong [of _ _ _ h])
     (use assms(2,4) dlist_node_neighbours_in [OF assms(1,2)] in \<open>auto intro!: list_del_frame\<close>)

lemma dlist_splice:
  assumes "dlist h l xs" and "dlist h head ys" and "set (l # xs) \<inter> set (head # ys) = {}"
  shows "dlist (list_splice l head h) head (xs @ ys)"
proof (cases xs rule: rev_cases)
  case Nil
  with assms show ?thesis by (simp add: list_splice_def dlist_empty [OF assms(1)])
next
  case (snoc zs z)
  have ne: "\<not> list_empty h l" using dlist_empty [OF assms(1)] snoc by simp
  have nx: "lh_next (h l) = hd (zs @ [z])" and pv: "lh_prev (h l) = z"
    using assms(1) snoc by (auto simp: dlist_def dest: dpath_prev dpath_next split: list.splits)
  show ?thesis
    using assms snoc ne
    by (cases zs; cases ys)
       (auto simp: list_splice_def splice_between_def Let_def dlist_def dpath_append heap_simps nx pv)
qed

lemma dlist_splice_tail:
  assumes "dlist h l xs" and "dlist h head ys" and "set (l # xs) \<inter> set (head # ys) = {}"
  shows "dlist (list_splice_tail l head h) head (ys @ xs)"
proof (cases xs rule: rev_cases)
  case Nil
  with assms show ?thesis by (simp add: list_splice_tail_def dlist_empty [OF assms(1)])
next
  case (snoc zs z)
  have ne: "\<not> list_empty h l" using dlist_empty [OF assms(1)] snoc by simp
  have nx: "lh_next (h l) = hd (zs @ [z])" and pv: "lh_prev (h l) = z"
    using assms(1) snoc by (auto simp: dlist_def dest: dpath_prev dpath_next split: list.splits)
  show ?thesis
    using assms snoc ne
    by (cases zs; cases ys rule: rev_cases)
       (auto simp: list_splice_tail_def splice_tail_between_def Let_def dlist_def dpath_append
          heap_simps nx pv)
qed

lemma dlist_splice_init:
  assumes "dlist h l xs" and "dlist h head ys" and "set (l # xs) \<inter> set (head # ys) = {}" and "xs \<noteq> []"
  shows "dlist (list_splice_init l head h) head (xs @ ys) \<and> dlist (list_splice_init l head h) l []"
proof -
  have e: "list_splice_init l head h = INIT_LIST_HEAD l (list_splice l head h)"
    using assms(4) by (simp add: list_splice_init_def list_splice_def dlist_empty [OF assms(1)])
  have "l \<notin> set (head # xs @ ys)" using assms(1,3) by (auto simp: dlist_def)
  with dlist_splice [OF assms(1-3)] show ?thesis
    unfolding e by (simp add: dlist_init) (simp add: INIT_LIST_HEAD_def dlist_def)
qed

lemma list_for_each_dpath:
  "dpath h p xs head \<Longrightarrow> head \<notin> set xs \<Longrightarrow> list_for_each h head (hd (xs @ [head])) = Some xs"
proof (induction xs arbitrary: p)
  case Nil
  then show ?case by (simp add: list_for_each.simps)
next
  case (Cons x xs)
  from Cons.prems have "lh_next (h x) = hd (xs @ [head])"
    by (auto dest: dpath_next split: list.splits)
  with Cons show ?case by (subst list_for_each.simps) auto
qed

lemma list_for_each_dlist:
  assumes "dlist h head xs"
  shows "list_for_each h head (lh_next (h head)) = Some xs"
proof -
  have "lh_next (h head) = hd (xs @ [head])"
    using assms by (auto simp: dlist_def dest: dpath_next split: list.splits)
  with assms list_for_each_dpath [of h head xs head] show ?thesis by (simp add: dlist_def)
qed

section \<open>Contract of intrusive lists; families of lists\<close>

definition family :: "('s \<Rightarrow> 'a \<Rightarrow> 'a list \<Rightarrow> bool) \<Rightarrow> 's \<Rightarrow> nat \<Rightarrow> (nat \<Rightarrow> 'a) \<Rightarrow> (nat \<Rightarrow> 'a list) \<Rightarrow> bool" where
  "family rep s n H F \<longleftrightarrow> (\<forall>i<n. rep s (H i) (F i)) \<and>
     (\<forall>i<n. \<forall>j<n. i \<noteq> j \<longrightarrow> set (H i # F i) \<inter> set (H j # F j) = {})"

locale intrusive_list =
  fixes rep :: "'s \<Rightarrow> 'a \<Rightarrow> 'a list \<Rightarrow> bool"
    and add :: "'a \<Rightarrow> 'a \<Rightarrow> 's \<Rightarrow> 's"
    and del :: "'a \<Rightarrow> 's \<Rightarrow> 's"
    and is_empty :: "'s \<Rightarrow> 'a \<Rightarrow> bool"
    and first :: "'s \<Rightarrow> 'a \<Rightarrow> 'a"
  assumes rep_distinct: "rep s h xs \<Longrightarrow> distinct (h # xs)"
    and rep_empty: "rep s h xs \<Longrightarrow> is_empty s h \<longleftrightarrow> xs = []"
    and rep_first: "rep s h (x # xs) \<Longrightarrow> first s h = x"
    and rep_add: "rep s h xs \<Longrightarrow> n \<notin> set (h # xs) \<Longrightarrow> rep (add n h s) h (n # xs)"
    and rep_add_other: "rep s h xs \<Longrightarrow> rep s g ys \<Longrightarrow> set (g # ys) \<inter> set (n # h # xs) = {} \<Longrightarrow>
           rep (add n h s) g ys"
    and rep_del: "rep s h xs \<Longrightarrow> n \<in> set xs \<Longrightarrow> rep (del n s) h (remove1 n xs)"
    and rep_del_other: "rep s h xs \<Longrightarrow> n \<in> set xs \<Longrightarrow> rep s g ys \<Longrightarrow>
           set (g # ys) \<inter> set (h # xs) = {} \<Longrightarrow> rep (del n s) g ys"
begin

lemma family_add:
  assumes "family rep s n H F" and "i < n" and "\<forall>j<n. x \<notin> set (H j # F j)"
  shows "family rep (add x (H i) s) n H (F(i := x # F i))"
  unfolding family_def
proof (intro conjI allI impI)
  fix j
  assume "j < n"
  show "rep (add x (H i) s) (H j) ((F(i := x # F i)) j)"
  proof (cases "j = i")
    case True
    then show ?thesis using assms by (auto simp: family_def intro!: rep_add)
  next
    case False
    have "rep (add x (H i) s) (H j) (F j)"
    proof (rule rep_add_other)
      show "rep s (H i) (F i)" "rep s (H j) (F j)" using assms \<open>j < n\<close> by (auto simp: family_def)
      show "set (H j # F j) \<inter> set (x # H i # F i) = {}"
        using assms \<open>j < n\<close> False unfolding family_def by (metis Int_insert_right_if0 list.simps(15))
    qed
    with False show ?thesis by simp
  qed
next
  fix j k
  assume "j < n" "k < n" "j \<noteq> k"
  then have "set (H j # F j) \<inter> set (H k # F k) = {}" "x \<notin> set (H j # F j)" "x \<notin> set (H k # F k)"
    using assms by (auto simp: family_def)
  then show "set (H j # (F(i := x # F i)) j) \<inter> set (H k # (F(i := x # F i)) k) = {}"
    by auto
qed

lemma family_del:
  assumes "family rep s n H F" and "i < n" and "x \<in> set (F i)"
  shows "family rep (del x s) n H (F(i := remove1 x (F i)))"
  unfolding family_def
proof (intro conjI allI impI)
  fix j
  assume "j < n"
  show "rep (del x s) (H j) ((F(i := remove1 x (F i))) j)"
  proof (cases "j = i")
    case True
    then show ?thesis using assms by (auto simp: family_def intro!: rep_del)
  next
    case False
    have "rep (del x s) (H j) (F j)"
    proof (rule rep_del_other)
      show "rep s (H i) (F i)" "rep s (H j) (F j)" using assms \<open>j < n\<close> by (auto simp: family_def)
      show "set (H j # F j) \<inter> set (H i # F i) = {}"
        using assms(1,2) \<open>j < n\<close> False unfolding family_def by metis
    qed (rule assms(3))
    with False show ?thesis by simp
  qed
next
  fix j k
  assume "j < n" "k < n" "j \<noteq> k"
  then have "set (H j # F j) \<inter> set (H k # F k) = {}"
    using assms by (auto simp: family_def)
  then show "set (H j # (F(i := remove1 x (F i))) j) \<inter> set (H k # (F(i := remove1 x (F i))) k) = {}"
    using set_remove1_subset [of x "F i"] by auto
qed

lemma family_empty: "family rep s n H F \<Longrightarrow> i < n \<Longrightarrow> is_empty s (H i) \<longleftrightarrow> F i = []"
  using rep_empty by (auto simp: family_def)

lemma family_first: "family rep s n H F \<Longrightarrow> i < n \<Longrightarrow> F i \<noteq> [] \<Longrightarrow> first s (H i) = hd (F i)"
  using rep_first by (cases "F i") (auto simp: family_def)

lemma family_distinct: "family rep s n H F \<Longrightarrow> i < n \<Longrightarrow> distinct (F i)"
  using rep_distinct [of s "H i" "F i"] by (auto simp: family_def)

end

interpretation ll: intrusive_list dlist list_add list_del list_empty "\<lambda>h head. lh_next (h head)"
  by unfold_locales
     (simp add: dlist_def, erule dlist_empty, erule dlist_first, erule (1) dlist_add,
      erule (2) dlist_add_other, erule (1) dlist_del, erule (3) dlist_del_other)

section \<open>Properties\<close>


definition demo_heap :: heap where
  "demo_heap = list_add_tail 0x30 0x10 (list_add 0x20 0x10 (INIT_LIST_HEAD 0x10 (\<lambda>_. \<lparr>lh_prev = 0, lh_next = 0\<rparr>)))"

lemma demo_heap_dlist: "dlist demo_heap 0x10 [0x20, 0x30]"
  by (simp add: dlist_def demo_heap_def list_add_def list_add_tail_def list_add_between_def
        INIT_LIST_HEAD_def heap_simps)


text \<open>Splicing concatenates.  For two well-formed lists that share no node,
  \<open>list_splice\<close> inserts all nodes of the first in order before those of the second,
  \<open>list_splice_tail\<close> after them, and \<open>list_splice_init\<close> of a non-empty list also leaves the
  first list empty.\<close>

theorem list_splice_concatenates:
  assumes "dlist h l xs" and "dlist h head ys" and "set (l # xs) \<inter> set (head # ys) = {}"
  shows "dlist (list_splice l head h) head (xs @ ys) \<and>
         dlist (list_splice_tail l head h) head (ys @ xs) \<and>
         (xs \<noteq> [] \<longrightarrow> dlist (list_splice_init l head h) head (xs @ ys) \<and>
                     dlist (list_splice_init l head h) l [])"
  using dlist_splice [OF assms] dlist_splice_tail [OF assms] dlist_splice_init [OF assms] by blast

theorem list_splice_concatenates_witness:
  "dlist (list_splice 0x10 0x50 (INIT_LIST_HEAD 0x50 demo_heap)) 0x50 [0x20, 0x30]"
proof -
  let ?h = "INIT_LIST_HEAD 0x50 demo_heap"
  have "dlist ?h 0x10 [0x20, 0x30]"
    using demo_heap_dlist by (simp add: dlist_def INIT_LIST_HEAD_def heap_simps)
  from list_splice_concatenates [OF this dlist_init [of "0x50" demo_heap]]
  show ?thesis by simp
qed

end
