(* ===== verification/Buddy_Tree.thy ===== *)
theory Buddy_Tree
  imports Omen_Prelude
begin

text \<open>
  The abstract state of the buddy allocator: a complete binary tree of blocks in heap
  numbering (the root is 0, the halves of block \<open>n\<close> are \<open>2n+1\<close> and \<open>2n+2\<close>) in which every
  block is free, used, split into its halves, or absent because it lies inside a block that
  is not split.  With \<open>L\<close> levels the managed region has \<open>2^(L-1)\<close> pages.  The theory gives
  the local well-formedness of such a tree, the pages each block covers, and the effect of
  splitting, merging and marking blocks on the pages in use.
\<close>

datatype nstat = Absent | FreeBlk | UsedBlk | SplitBlk

definition tree_ok :: "nat \<Rightarrow> (nat \<Rightarrow> nstat) \<Rightarrow> bool" where
  "tree_ok L st \<longleftrightarrow> 0 < L \<and> st 0 \<noteq> Absent \<and>
     (\<forall>n < 2 ^ (L - 1) - 1.
        (st n = SplitBlk \<longrightarrow> st (2 * n + 1) \<noteq> Absent \<and> st (2 * n + 2) \<noteq> Absent) \<and>
        (st n \<noteq> SplitBlk \<longrightarrow> st (2 * n + 1) = Absent \<and> st (2 * n + 2) = Absent)) \<and>
     (\<forall>n \<ge> 2 ^ (L - 1) - 1. st n \<noteq> SplitBlk)"

definition path_node :: "nat \<Rightarrow> nat \<Rightarrow> nat \<Rightarrow> nat" where
  "path_node L x l = 2 ^ l + x div 2 ^ (L - 1 - l) - 1"

definition node_pages :: "nat \<Rightarrow> nat \<Rightarrow> nat set" where
  "node_pages L n = {x. x < 2 ^ (L - 1) \<and> (\<exists>l < L. path_node L x l = n)}"

definition used_pages :: "nat \<Rightarrow> (nat \<Rightarrow> nstat) \<Rightarrow> nat set" where
  "used_pages L st = {x. x < 2 ^ (L - 1) \<and> (\<exists>l < L. st (path_node L x l) = UsedBlk)}"

abbreviation live :: "nstat \<Rightarrow> bool" where
  "live s \<equiv> s = FreeBlk \<or> s = UsedBlk"

section \<open>Paths from the root to a page\<close>

lemma path_node_Suc:
  assumes "Suc l < L"
  shows "path_node L x (Suc l) = 2 * path_node L x l + 1 + (x div 2 ^ (L - 1 - Suc l)) mod 2"
proof -
  let ?y = "x div 2 ^ (L - 1 - Suc l)"
  have "L - 1 - l = Suc (L - 1 - Suc l)" using assms by simp
  then have "x div 2 ^ (L - 1 - l) = ?y div 2" by (simp only: power_Suc2 div_mult2_eq)
  then have "path_node L x l = 2 ^ l + ?y div 2 - 1" by (simp add: path_node_def)
  moreover have "path_node L x (Suc l) = 2 * 2 ^ l + ?y - 1" by (simp add: path_node_def)
  moreover have "?y = 2 * (?y div 2) + ?y mod 2" by simp
  moreover have "(1::nat) \<le> 2 ^ l" by simp
  ultimately show ?thesis by linarith
qed

lemma path_node_child:
  "Suc l < L \<Longrightarrow> path_node L x (Suc l) = 2 * path_node L x l + 1 \<or>
                 path_node L x (Suc l) = 2 * path_node L x l + 2"
  using path_node_Suc [of l L x] by (cases "even (x div 2 ^ (L - 1 - Suc l))") (auto simp: even_iff_mod_2_eq_zero odd_iff_mod_2_eq_one)

lemma path_node_0: "x < 2 ^ (L - 1) \<Longrightarrow> path_node L x 0 = 0"
  by (simp add: path_node_def)

lemma path_node_bounds:
  assumes "x < 2 ^ (L - 1)" and "l < L"
  shows "2 ^ l - 1 \<le> path_node L x l" and "path_node L x l < 2 ^ Suc l - 1"
proof -
  show "2 ^ l - 1 \<le> path_node L x l" by (simp add: path_node_def)
  have "(2::nat) ^ (L - 1) = 2 ^ l * 2 ^ (L - 1 - l)" using assms(2) by (simp flip: power_add)
  then have "x div 2 ^ (L - 1 - l) < 2 ^ l"
    using assms(1) by (simp add: less_mult_imp_div_less)
  moreover have "(1::nat) \<le> 2 ^ l" by simp
  ultimately show "path_node L x l < 2 ^ Suc l - 1"
    unfolding path_node_def power_Suc by linarith
qed

lemma pow2_mono_minus: "a \<le> b \<Longrightarrow> (2::nat) ^ a - 1 \<le> 2 ^ b - 1"
  by (rule diff_le_mono) (rule power_increasing, simp_all)

lemma path_node_level:
  assumes "x < 2 ^ (L - 1)" "y < 2 ^ (L - 1)" and "l < L" "k < L" and "path_node L x l = path_node L y k"
  shows "l = k"
proof (rule ccontr)
  assume "l \<noteq> k"
  then have "Suc l \<le> k \<or> Suc k \<le> l" by linarith
  with path_node_bounds [OF assms(1,3)] path_node_bounds [OF assms(2,4)] assms(5)
    pow2_mono_minus [of "Suc l" k] pow2_mono_minus [of "Suc k" l]
  show False by linarith
qed

lemma path_node_internal: "x < 2 ^ (L - 1) \<Longrightarrow> Suc l < L \<Longrightarrow> path_node L x l < 2 ^ (L - 1) - 1"
  using path_node_bounds(2) [of x L l] pow2_mono_minus [of "Suc l" "L - 1"] by linarith

lemma tree_split_children:
  "tree_ok L st \<Longrightarrow> n < 2 ^ (L - 1) - 1 \<Longrightarrow> st n = SplitBlk \<Longrightarrow> st (2 * n + 1) \<noteq> Absent \<and> st (2 * n + 2) \<noteq> Absent"
  unfolding tree_ok_def by blast

lemma tree_other_children:
  "tree_ok L st \<Longrightarrow> n < 2 ^ (L - 1) - 1 \<Longrightarrow> st n \<noteq> SplitBlk \<Longrightarrow> st (2 * n + 1) = Absent \<and> st (2 * n + 2) = Absent"
  unfolding tree_ok_def by blast

lemma path_below_live:
  assumes "tree_ok L st" and "x < 2 ^ (L - 1)" and "st (path_node L x l) \<noteq> SplitBlk"
  shows "l + Suc d < L \<Longrightarrow> st (path_node L x (l + Suc d)) = Absent"
proof (induction d)
  case 0
  then have "path_node L x l < 2 ^ (L - 1) - 1" using path_node_internal [OF assms(2), of l] by simp
  from tree_other_children [OF assms(1) this assms(3)] show ?case
    using path_node_child [of l L x] 0 by auto
next
  case (Suc d)
  then have a: "st (path_node L x (l + Suc d)) = Absent" by simp
  have "path_node L x (l + Suc d) < 2 ^ (L - 1) - 1"
    using path_node_internal [OF assms(2), of "l + Suc d"] Suc.prems by simp
  from tree_other_children [OF assms(1) this] a show ?case
    using path_node_child [of "l + Suc d" L x] Suc.prems by auto
qed

lemma path_live_unique:
  assumes "tree_ok L st" and "x < 2 ^ (L - 1)" and "l < L" "k < L"
    and "live (st (path_node L x l))" and "live (st (path_node L x k))"
  shows "l = k"
proof (rule ccontr)
  assume "l \<noteq> k"
  then consider d where "k = l + Suc d" | d where "l = k + Suc d"
    by (metis less_imp_Suc_add linorder_neqE_nat add_Suc_right)
  then show False
    using path_below_live [OF assms(1,2), of l] path_below_live [OF assms(1,2), of k] assms(3-6)
    by cases auto
qed

lemma path_live_exists:
  assumes "tree_ok L st" and "x < 2 ^ (L - 1)"
  shows "\<exists>l < L. live (st (path_node L x l))"
proof (rule ccontr)
  assume n: "\<not> ?thesis"
  have "k < L \<Longrightarrow> st (path_node L x k) = SplitBlk" for k
  proof (induction k)
    case 0
    have p: "path_node L x 0 = 0" by (rule path_node_0 [OF assms(2)])
    have "st 0 \<noteq> Absent" using assms(1) by (simp add: tree_ok_def)
    moreover have "\<not> live (st 0)" using n 0 p by metis
    ultimately show ?case unfolding p by (cases "st 0") auto
  next
    case (Suc k)
    then have "st (path_node L x k) = SplitBlk" by simp
    from tree_split_children [OF assms(1) path_node_internal [OF assms(2)] this] Suc.prems
    have "st (path_node L x (Suc k)) \<noteq> Absent" using path_node_child [of k L x] by auto
    moreover have "\<not> live (st (path_node L x (Suc k)))" using n Suc.prems by blast
    ultimately show ?case by (cases "st (path_node L x (Suc k))") auto
  qed
  then have "st (path_node L x (L - 1)) = SplitBlk" using assms(1) by (simp add: tree_ok_def)
  moreover have "2 ^ (L - 1) - 1 \<le> path_node L x (L - 1)" by (simp add: path_node_def)
  ultimately show False using assms(1) by (simp add: tree_ok_def)
qed

section \<open>Pages of blocks\<close>

lemma node_pages_disjoint:
  assumes "tree_ok L st" and "live (st n)" and "live (st m)" and "n \<noteq> m"
  shows "node_pages L n \<inter> node_pages L m = {}"
proof (rule equals0I)
  fix x
  assume "x \<in> node_pages L n \<inter> node_pages L m"
  then obtain l k where x: "x < 2 ^ (L - 1)" "l < L" "k < L" "path_node L x l = n" "path_node L x k = m"
    by (auto simp: node_pages_def)
  with path_live_unique [OF assms(1) x(1-3)] assms(2-4) show False by auto
qed

lemma used_pages_UN: "used_pages L st = (\<Union>n \<in> {n. st n = UsedBlk}. node_pages L n)"
  by (auto simp: used_pages_def node_pages_def)

lemma node_pages_children:
  assumes "n < 2 ^ (L - 1) - 1"
  shows "node_pages L n = node_pages L (2 * n + 1) \<union> node_pages L (2 * n + 2)"
    and "node_pages L (2 * n + 1) \<inter> node_pages L (2 * n + 2) = {}"
proof -
  have up: "\<exists>k. l = Suc k \<and> path_node L x k = n"
    if "x < 2 ^ (L - 1)" "l < L" "path_node L x l = 2 * n + 1 \<or> path_node L x l = 2 * n + 2" for x l
  proof (cases l)
    case 0
    with that path_node_0 [OF that(1)] show ?thesis by simp
  next
    case (Suc k)
    with path_node_Suc [of k L x] that have "2 * path_node L x k + 1 + (x div 2 ^ (L - 1 - Suc k)) mod 2 \<in> {2 * n + 1, 2 * n + 2}"
      by auto
    then have "path_node L x k = n" by auto
    with Suc show ?thesis by simp
  qed
  have down: "\<exists>k < L. path_node L x k = 2 * n + 1 \<or> path_node L x k = 2 * n + 2"
    if "x < 2 ^ (L - 1)" "l < L" "path_node L x l = n" for x l
  proof -
    have "Suc l < L"
    proof (rule ccontr)
      assume "\<not> Suc l < L"
      with that(2) have "l = L - 1" by simp
      with that(3) assms path_node_bounds(1) [OF that(1,2)] show False by simp
    qed
    with path_node_child [of l L x] that(3) show ?thesis by blast
  qed
  show "node_pages L n = node_pages L (2 * n + 1) \<union> node_pages L (2 * n + 2)"
    unfolding node_pages_def using up down by (auto; metis Suc_lessD)
  show "node_pages L (2 * n + 1) \<inter> node_pages L (2 * n + 2) = {}"
  proof (rule equals0I)
    fix x
    assume "x \<in> node_pages L (2 * n + 1) \<inter> node_pages L (2 * n + 2)"
    then obtain l k where x: "x < 2 ^ (L - 1)" "l < L" "k < L" "path_node L x l = 2 * n + 1"
        "path_node L x k = 2 * n + 2" by (auto simp: node_pages_def)
    from up [OF x(1,2)] up [OF x(1,3)] x(4,5) obtain l' k' where
      "l = Suc l'" "path_node L x l' = n" "k = Suc k'" "path_node L x k' = n" by metis
    with path_node_level [OF x(1) x(1), of l' k'] x show False by simp
  qed
qed

section \<open>Marking, splitting and merging blocks\<close>

lemma tree_okI:
  assumes "0 < L" and "st 0 \<noteq> Absent"
    and "\<And>n. n < 2 ^ (L - 1) - 1 \<Longrightarrow> st n = SplitBlk \<Longrightarrow> st (2 * n + 1) \<noteq> Absent \<and> st (2 * n + 2) \<noteq> Absent"
    and "\<And>n. n < 2 ^ (L - 1) - 1 \<Longrightarrow> st n \<noteq> SplitBlk \<Longrightarrow> st (2 * n + 1) = Absent \<and> st (2 * n + 2) = Absent"
    and "\<And>n. 2 ^ (L - 1) - 1 \<le> n \<Longrightarrow> st n \<noteq> SplitBlk"
  shows "tree_ok L st"
  unfolding tree_ok_def using assms by blast

lemma tree_okD:
  assumes "tree_ok L st"
  shows "0 < L" and "st 0 \<noteq> Absent" and "2 ^ (L - 1) - 1 \<le> n \<Longrightarrow> st n \<noteq> SplitBlk"
  using assms unfolding tree_ok_def by blast+

lemma tree_ok_mark:
  assumes "tree_ok L st" and "live (st n)" and "live c"
  shows "tree_ok L (st(n := c))"
proof (rule tree_okI)
  show "0 < L" by (rule tree_okD [OF assms(1)])
  show "(st(n := c)) 0 \<noteq> Absent" using tree_okD(2) [OF assms(1)] assms(3) by auto
  fix m
  show "(st(n := c)) (2 * m + 1) \<noteq> Absent \<and> (st(n := c)) (2 * m + 2) \<noteq> Absent"
    if "m < 2 ^ (L - 1) - 1" "(st(n := c)) m = SplitBlk"
    using tree_split_children [OF assms(1) that(1)] that(2) assms(3) by (cases "m = n") auto
  show "(st(n := c)) (2 * m + 1) = Absent \<and> (st(n := c)) (2 * m + 2) = Absent"
    if "m < 2 ^ (L - 1) - 1" "(st(n := c)) m \<noteq> SplitBlk"
  proof -
    have "st m \<noteq> SplitBlk" using that(2) assms(2) by (cases "m = n") auto
    note ab = tree_other_children [OF assms(1) that(1) this]
    have "2 * m + 1 \<noteq> n" "2 * m + 2 \<noteq> n" using ab assms(2) by auto
    with ab show ?thesis by simp
  qed
  show "(st(n := c)) m \<noteq> SplitBlk" if "2 ^ (L - 1) - 1 \<le> m"
    using tree_okD(3) [OF assms(1) that] assms(3) by auto
qed

lemma tree_ok_split:
  assumes "tree_ok L st" and "live (st n)" and "n < 2 ^ (L - 1) - 1" and "live a" and "live b"
  shows "tree_ok L (st(n := SplitBlk, 2 * n + 1 := a, 2 * n + 2 := b))"
    (is "tree_ok L ?st")
proof (rule tree_okI)
  have c: "st (2 * n + 1) = Absent" "st (2 * n + 2) = Absent"
    using tree_other_children [OF assms(1,3)] assms(2) by auto
  have ne: "?st m \<noteq> Absent" if "st m \<noteq> Absent" for m using that assms(4,5) by auto
  show "0 < L" by (rule tree_okD [OF assms(1)])
  show "?st 0 \<noteq> Absent" by (rule ne) (rule tree_okD(2) [OF assms(1)])
  fix m
  show "?st (2 * m + 1) \<noteq> Absent \<and> ?st (2 * m + 2) \<noteq> Absent"
    if "m < 2 ^ (L - 1) - 1" "?st m = SplitBlk"
  proof (cases "m = n")
    case True
    then show ?thesis using assms(4,5) by auto
  next
    case False
    with that(2) have "st m = SplitBlk" using assms(4,5) by (auto split: if_splits)
    from tree_split_children [OF assms(1) that(1) this] ne show ?thesis by blast
  qed
  show "?st (2 * m + 1) = Absent \<and> ?st (2 * m + 2) = Absent"
    if "m < 2 ^ (L - 1) - 1" "?st m \<noteq> SplitBlk"
  proof -
    from that(2) have "m \<noteq> n" by auto
    moreover have sm: "st m \<noteq> SplitBlk"
      using that(2) c \<open>m \<noteq> n\<close> by (auto split: if_splits)
    note ab = tree_other_children [OF assms(1) that(1) sm]
    have "2 * m + 1 \<noteq> n" "2 * m + 2 \<noteq> n" using ab assms(2) by auto
    moreover have "2 * m + 1 \<noteq> 2 * n + 1" "2 * m + 2 \<noteq> 2 * n + 2" "2 * m + 1 \<noteq> 2 * n + 2"
      "2 * m + 2 \<noteq> 2 * n + 1" using \<open>m \<noteq> n\<close> by presburger+
    ultimately show ?thesis using ab by simp
  qed
  show "?st m \<noteq> SplitBlk" if "2 ^ (L - 1) - 1 \<le> m"
    using tree_okD(3) [OF assms(1) that] that assms(3,4,5) by auto
qed

lemma tree_ok_merge:
  assumes "tree_ok L st" and "st n = SplitBlk" and "n < 2 ^ (L - 1) - 1"
    and "live (st (2 * n + 1))" and "live (st (2 * n + 2))" and "live a"
  shows "tree_ok L (st(n := a, 2 * n + 1 := Absent, 2 * n + 2 := Absent))"
    (is "tree_ok L ?st")
proof (rule tree_okI)
  show "0 < L" by (rule tree_okD [OF assms(1)])
  show "?st 0 \<noteq> Absent" using tree_okD(2) [OF assms(1)] assms(6) by auto
  have ch: "2 * m + 1 \<noteq> 2 * n + 1" "2 * m + 2 \<noteq> 2 * n + 2" "2 * m + 1 \<noteq> 2 * n + 2"
      "2 * m + 2 \<noteq> 2 * n + 1" if "m \<noteq> n" for m using that by presburger+
  fix m
  show "?st (2 * m + 1) \<noteq> Absent \<and> ?st (2 * m + 2) \<noteq> Absent"
    if "m < 2 ^ (L - 1) - 1" "?st m = SplitBlk"
  proof -
    from that(2) have "m \<noteq> n" "st m = SplitBlk" using assms(6) by (auto split: if_splits)
    with tree_split_children [OF assms(1) that(1)] ch [of m] assms(6) show ?thesis by auto
  qed
  show "?st (2 * m + 1) = Absent \<and> ?st (2 * m + 2) = Absent"
    if "m < 2 ^ (L - 1) - 1" "?st m \<noteq> SplitBlk"
  proof (cases "m = n")
    case True
    then show ?thesis by simp
  next
    case False
    with that(2) assms(4,5) have "st m \<noteq> SplitBlk" by (auto split: if_splits)
    note ab = tree_other_children [OF assms(1) that(1) this]
    have "2 * m + 1 \<noteq> n" "2 * m + 2 \<noteq> n" using ab assms(2) by auto
    with ab ch [OF False] show ?thesis by simp
  qed
  show "?st m \<noteq> SplitBlk" if "2 ^ (L - 1) - 1 \<le> m"
    using tree_okD(3) [OF assms(1) that] assms(6) by auto
qed

lemma used_pages_upd:
  assumes "tree_ok L st" and "live (st n)"
  shows "used_pages L (st(n := UsedBlk)) = used_pages L st \<union> node_pages L n"
    and "used_pages L (st(n := FreeBlk)) = used_pages L st - node_pages L n"
    and "st n = FreeBlk \<Longrightarrow> used_pages L st \<inter> node_pages L n = {}"
proof -
  have d: "node_pages L m \<inter> node_pages L n = {}" if "st m = UsedBlk" "m \<noteq> n" for m
    using node_pages_disjoint [OF assms(1) _ assms(2)] that by blast
  show "used_pages L (st(n := UsedBlk)) = used_pages L st \<union> node_pages L n"
    by (auto simp: used_pages_UN)
  show "used_pages L (st(n := FreeBlk)) = used_pages L st - node_pages L n"
  proof -
    have "{m. (st(n := FreeBlk)) m = UsedBlk} = {m. st m = UsedBlk} - {n}" by auto
    then show ?thesis unfolding used_pages_UN using d by blast
  qed
  show "used_pages L st \<inter> node_pages L n = {}" if "st n = FreeBlk"
    using d that by (fastforce simp: used_pages_UN)
qed

lemma used_pages_split:
  assumes "tree_ok L st" and "st n = UsedBlk" and "n < 2 ^ (L - 1) - 1"
  shows "used_pages L (st(n := SplitBlk, 2 * n + 1 := UsedBlk, 2 * n + 2 := FreeBlk))
         = used_pages L st - node_pages L (2 * n + 2)" (is "used_pages L ?st = _")
proof -
  have c: "st (2 * n + 1) = Absent" "st (2 * n + 2) = Absent"
    using tree_other_children [OF assms(1,3)] assms(2) by auto
  have "{m. ?st m = UsedBlk} = ({m. st m = UsedBlk} - {n}) \<union> {2 * n + 1}"
    using c by auto
  then have "used_pages L ?st = (\<Union>m \<in> {m. st m = UsedBlk} - {n}. node_pages L m) \<union> node_pages L (2 * n + 1)"
    by (simp add: used_pages_UN Un_commute)
  moreover have "used_pages L st = (\<Union>m \<in> {m. st m = UsedBlk} - {n}. node_pages L m) \<union> node_pages L n"
    using assms(2) by (auto simp: used_pages_UN)
  moreover have "(\<Union>m \<in> {m. st m = UsedBlk} - {n}. node_pages L m) \<inter> node_pages L n = {}"
    using node_pages_disjoint [OF assms(1)] assms(2) by blast
  ultimately show ?thesis using node_pages_children [OF assms(3)] by auto
qed

lemma used_pages_merge:
  assumes "tree_ok L st" and "st n = SplitBlk" and "n < 2 ^ (L - 1) - 1"
    and "{st (2 * n + 1), st (2 * n + 2)} = {UsedBlk, FreeBlk}"
  shows "used_pages L (st(n := UsedBlk, 2 * n + 1 := Absent, 2 * n + 2 := Absent))
         = used_pages L st \<union> node_pages L n" (is "used_pages L ?st = _")
proof -
  have "{m. ?st m = UsedBlk} = ({m. st m = UsedBlk} - {2 * n + 1, 2 * n + 2}) \<union> {n}"
    by (auto split: if_splits)
  then have "used_pages L ?st = (\<Union>m \<in> {m. st m = UsedBlk} - {2 * n + 1, 2 * n + 2}. node_pages L m) \<union> node_pages L n"
    by (simp add: used_pages_UN Un_commute)
  moreover have "used_pages L st \<union> node_pages L n =
      (\<Union>m \<in> {m. st m = UsedBlk} - {2 * n + 1, 2 * n + 2}. node_pages L m) \<union> node_pages L n"
    using node_pages_children(1) [OF assms(3)] by (auto simp: used_pages_UN)
  ultimately show ?thesis by simp
qed

end
