(* ===== verification/Buddy.thy ===== *)
theory Buddy
  imports Bitmap Linked_List Buddy_Tree Block_Allocator
begin

text \<open>
  The buddy allocator of modules/libraries/allocators/buddy_allocator.c over the list heap
  and the bitmap.  Levels are natural numbers (they are at most 63), addresses, sizes and
  block indices are 64-bit words.  The correctness statement is a relation between the
  concrete state and the block tree of \<open>Buddy_Tree\<close>: the free lists hold exactly the free
  blocks of each level, a split bit is set exactly for split blocks, and the bit of a pair of
  halves is set exactly when one of the two is free.
\<close>

record buddy =
  bd_address :: u64
  bd_size :: u64
  bd_page_size :: u64
  bd_num_levels :: nat
  bd_free_blocks :: u64
  bd_block_info :: bitmap_t
  bd_heap :: heap

primrec clz_from :: "nat \<Rightarrow> u64 \<Rightarrow> nat" where
  "clz_from 0 w = 0"
| "clz_from (Suc n) w = (if bit w n then 0 else Suc (clz_from n w))"

definition clzl :: "u64 \<Rightarrow> nat" where
  "clzl w = clz_from 64 w"

definition POW2 :: "nat \<Rightarrow> u64" where
  "POW2 n = push_bit n 1"

definition IS_POW2 :: "u64 \<Rightarrow> bool" where
  "IS_POW2 n \<longleftrightarrow> n > 0 \<and> n AND (n - 1) = 0"

definition ILOG2 :: "u64 \<Rightarrow> nat" where
  "ILOG2 v = 63 - clzl v"

definition free_head :: "buddy \<Rightarrow> nat \<Rightarrow> u64" where
  "free_head a l = bd_free_blocks a + of_nat (16 * l)"

definition buddy_page_index :: "buddy \<Rightarrow> u64 \<Rightarrow> u64" where
  "buddy_page_index a ptr = (ptr - bd_address a) div bd_page_size a"

definition buddy_block_index :: "buddy \<Rightarrow> u64 \<Rightarrow> nat \<Rightarrow> u64" where
  "buddy_block_index a ptr level =
     POW2 level + drop_bit (bd_num_levels a - 1 - level) (buddy_page_index a ptr) - 1"

definition free_bit :: "u64 \<Rightarrow> u64" where
  "free_bit block_index = drop_bit 1 (block_index - 1)"

definition split_bit :: "buddy \<Rightarrow> u64 \<Rightarrow> u64" where
  "split_bit a index = index + drop_bit 1 (POW2 (bd_num_levels a))"

definition to_buddy :: "buddy \<Rightarrow> u64 \<Rightarrow> nat \<Rightarrow> u64" where
  "to_buddy a ptr level = ((ptr - bd_address a) XOR drop_bit level (bd_size a)) + bd_address a"

text \<open>The shift in \<open>size_to_level\<close> is of an \<open>int\<close>: the x86 shift takes its count modulo 32.\<close>

definition int_shl_1 :: "nat \<Rightarrow> u64" where
  "int_shl_1 s = scast (push_bit (s mod 32) (1 :: u32))"

definition size_to_level :: "buddy \<Rightarrow> u64 \<Rightarrow> nat" where
  "size_to_level a sz =
     (if sz < bd_page_size a then bd_num_levels a - 1
      else unat (of_nat (ILOG2 (bd_size a)) - of_nat (ILOG2 (int_shl_1 (64 - clzl (sz - 1)))) :: u64))"

fun find_free_level :: "buddy \<Rightarrow> nat \<Rightarrow> nat option" where
  "find_free_level a 0 = (if \<not> list_empty (bd_heap a) (free_head a 0) then Some 0 else None)"
| "find_free_level a (Suc l) =
     (if \<not> list_empty (bd_heap a) (free_head a (Suc l)) then Some (Suc l) else find_free_level a l)"

function split_loop :: "buddy \<Rightarrow> u64 \<Rightarrow> u64 \<Rightarrow> nat \<Rightarrow> nat \<Rightarrow> buddy \<times> u64" where
  "split_loop a block_ptr block_index block_level level =
     (if block_level < level then
        let info1 = bitmap_set (bd_block_info a) (split_bit a block_index);
            info2 = (if block_level > 0 then bitmap_toggle info1 (free_bit block_index) else info1);
            buddy_ptr = to_buddy a block_ptr (block_level + 1);
            heap1 = list_add buddy_ptr (free_head a (block_level + 1)) (bd_heap a)
        in split_loop (a\<lparr>bd_block_info := info2, bd_heap := heap1\<rparr>) block_ptr
             (push_bit 1 block_index + 1) (block_level + 1) level
      else (a, block_index))"
  by auto
termination by (relation "measure (\<lambda>(a, p, i, bl, l). l - bl)") auto

declare split_loop.simps [simp del]

definition buddy_level_alloc :: "buddy \<Rightarrow> nat \<Rightarrow> u64 \<times> buddy" where
  "buddy_level_alloc a level =
     (case find_free_level a level of
        None \<Rightarrow> (0, a)
      | Some block_level \<Rightarrow>
          let block_ptr = lh_next (bd_heap a (free_head a block_level));
              a1 = a\<lparr>bd_heap := list_del block_ptr (bd_heap a)\<rparr>
          in if block_ptr = 0 then (0, a1)
             else let (a2, block_index) = split_loop a1 block_ptr
                        (buddy_block_index a1 block_ptr block_level) block_level level
                  in (block_ptr,
                      if level > 0
                      then a2\<lparr>bd_block_info := bitmap_toggle (bd_block_info a2) (free_bit block_index)\<rparr>
                      else a2))"

fun merge_loop :: "buddy \<Rightarrow> u64 \<Rightarrow> u64 \<Rightarrow> u64 \<Rightarrow> nat \<Rightarrow> buddy \<times> u64 \<times> u64 \<times> nat" where
  "merge_loop a ptr buddy_ptr block_index 0 = (a, ptr, block_index, 0)"
| "merge_loop a ptr buddy_ptr block_index (Suc level) =
     (if \<not> bitmap_get (bd_block_info a) (free_bit block_index) then
        let info1 = bitmap_clear (bd_block_info a) (split_bit a block_index);
            heap1 = list_del buddy_ptr (bd_heap a);
            block_index1 = drop_bit 1 (block_index - 1);
            ptr1 = (if buddy_ptr < ptr then buddy_ptr else ptr);
            buddy_ptr1 = to_buddy a ptr1 level;
            info2 = (if level > 0 then bitmap_toggle info1 (free_bit block_index1) else info1)
        in merge_loop (a\<lparr>bd_block_info := info2, bd_heap := heap1\<rparr>) ptr1 buddy_ptr1 block_index1 level
      else (a, ptr, block_index, Suc level))"

definition buddy_level_free :: "buddy \<Rightarrow> u64 \<Rightarrow> nat \<Rightarrow> buddy" where
  "buddy_level_free a ptr level =
     (let buddy_ptr = to_buddy a ptr level;
          block_index = buddy_block_index a ptr level;
          info1 = (if level > 0 then bitmap_toggle (bd_block_info a) (free_bit block_index)
                   else bd_block_info a);
          (a2, ptr2, block_index2, level2) =
            merge_loop (a\<lparr>bd_block_info := info1\<rparr>) ptr buddy_ptr block_index level
      in a2\<lparr>bd_block_info := bitmap_clear (bd_block_info a2) (split_bit a2 block_index2),
            bd_heap := list_add ptr2 (free_head a2 level2) (bd_heap a2)\<rparr>)"

definition num_levels_of :: "u64 \<Rightarrow> u64 \<Rightarrow> nat" where
  "num_levels_of sz page_size = unat (of_nat (ILOG2 sz) - of_nat (ILOG2 page_size) + 1 :: u64)"

definition sizeof_buddy :: u64 where
  "sizeof_buddy = 48"

definition BUDDY_BLOCK_INFO_LEN :: "nat \<Rightarrow> u64" where
  "BUDDY_BLOCK_INFO_LEN num_levels = POW2 num_levels + (64 - 1) div 64"

definition buddy_sizeof_metadata :: "nat \<Rightarrow> u64" where
  "buddy_sizeof_metadata num_levels =
     sizeof_buddy + of_nat (16 * num_levels) + BUDDY_BLOCK_INFO_LEN num_levels * 8"

text \<open>\<open>buddy_init\<close> at address \<open>self\<close>; \<open>info\<close> and \<open>h\<close> are the memory it finds.\<close>

definition buddy_init :: "u64 \<Rightarrow> bitmap_t \<Rightarrow> heap \<Rightarrow> u64 \<Rightarrow> u64 \<Rightarrow> u64 \<Rightarrow> buddy" where
  "buddy_init self info h address sz page_size =
     (let num_levels = num_levels_of sz page_size;
          a = \<lparr>bd_address = address, bd_size = sz, bd_page_size = page_size,
               bd_num_levels = num_levels, bd_free_blocks = self + sizeof_buddy,
               bd_block_info = info, bd_heap = h\<rparr>;
          h1 = fold (\<lambda>i. INIT_LIST_HEAD (free_head a i)) [0..<num_levels] h;
          h2 = list_add address (free_head a 0) h1
      in a\<lparr>bd_heap := h2,
           bd_block_info := (\<lambda>i. if i < BUDDY_BLOCK_INFO_LEN num_levels then 0 else info i)\<rparr>)"

definition BUDDY_NUM_PAGES :: "u64 \<Rightarrow> u64 \<Rightarrow> u64" where
  "BUDDY_NUM_PAGES sz page_size = (sz + (page_size - 1)) div page_size"

text \<open>
  \<open>buddy_create\<close> runs a temporary allocator at the end of the region to reserve the pages
  of the metadata, then moves its lists and bits to the start of the region.
\<close>

definition buddy_create :: "bitmap_t \<Rightarrow> bitmap_t \<Rightarrow> heap \<Rightarrow> u64 \<Rightarrow> u64 \<Rightarrow> u64 \<Rightarrow> buddy option" where
  "buddy_create tmp_info info h address sz page_size =
     (if address = 0 \<or> \<not> IS_POW2 sz \<or> \<not> IS_POW2 page_size then None
      else let num_levels = num_levels_of sz page_size;
               metadata_size = buddy_sizeof_metadata num_levels;
               tmp0 = buddy_init (address + sz - metadata_size) tmp_info h address sz page_size;
               tmp = ((\<lambda>t. snd (buddy_level_alloc t (bd_num_levels t - 1))) ^^
                        unat (BUDDY_NUM_PAGES metadata_size (bd_page_size tmp0))) tmp0;
               a = \<lparr>bd_address = address, bd_size = bd_size tmp, bd_page_size = bd_page_size tmp,
                    bd_num_levels = bd_num_levels tmp, bd_free_blocks = address + sizeof_buddy,
                    bd_block_info = (\<lambda>i. if i < BUDDY_BLOCK_INFO_LEN num_levels
                                         then bd_block_info tmp i else info i),
                    bd_heap = bd_heap tmp\<rparr>
           in Some (a\<lparr>bd_heap :=
                fold (\<lambda>i hp. list_splice (free_head tmp i) (free_head a i)
                               (INIT_LIST_HEAD (free_head a i) hp)) [0..<num_levels] (bd_heap a)\<rparr>))"

definition buddy_alloc :: "buddy \<Rightarrow> u64 \<Rightarrow> u64 \<times> buddy" where
  "buddy_alloc a sz =
     (if sz > bd_size a then (0, a) else buddy_level_alloc a (size_to_level a sz))"

fun find_split_level :: "buddy \<Rightarrow> u64 \<Rightarrow> nat \<Rightarrow> nat option" where
  "find_split_level a block_index 0 = None"
| "find_split_level a block_index (Suc level) =
     (let parent = drop_bit 1 (block_index - 1) in
      if bitmap_get (bd_block_info a) (split_bit a parent) then Some level
      else find_split_level a parent level)"

definition buddy_free :: "buddy \<Rightarrow> u64 \<Rightarrow> buddy" where
  "buddy_free a ptr =
     (if ptr = 0 then a
      else if ptr < bd_address a \<or> ptr > bd_address a + bd_size a then a
      else (case find_split_level a (buddy_block_index a ptr (bd_num_levels a - 1)) (bd_num_levels a) of
              Some level \<Rightarrow> buddy_level_free a ptr level
            | None \<Rightarrow> buddy_level_free a ptr 0))"

definition buddy_largest_available :: "buddy \<Rightarrow> u64" where
  "buddy_largest_available a =
     (case filter (\<lambda>l. \<not> list_empty (bd_heap a) (free_head a l)) [0..<bd_num_levels a] of
        [] \<Rightarrow> 0 | level # _ \<Rightarrow> drop_bit level (bd_size a))"

definition level_available :: "buddy \<Rightarrow> nat \<Rightarrow> u64 option" where
  "level_available a level =
     map_option (\<lambda>nodes. of_nat (length nodes) * drop_bit level (bd_size a))
       (list_for_each (bd_heap a) (free_head a level) (lh_next (bd_heap a (free_head a level))))"

definition buddy_available :: "buddy \<Rightarrow> u64 option" where
  "buddy_available a =
     fold (\<lambda>level sum. Option.bind sum (\<lambda>s. map_option (\<lambda>v. s + v) (level_available a level)))
       [0..<bd_num_levels a] (Some 0)"

definition buddy_used :: "buddy \<Rightarrow> u64 option" where
  "buddy_used a = map_option (\<lambda>av. bd_size a - av) (buddy_available a)"

end
