(* ===== verification/Buddy_Relation.thy ===== *)
theory Buddy_Relation
  imports Buddy
begin

text \<open>
  The representation relation of the buddy allocator: the arithmetic of block addresses and
  indices, what the split bits, the pair bits and the free lists say about the block tree,
  and the effect of taking a block from a list, splitting a block and toggling a bit on that
  relation.
\<close>

section \<open>Addresses and indices of blocks\<close>

definition geom :: "nat \<Rightarrow> nat \<Rightarrow> buddy \<Rightarrow> bool" where
  "geom m q a \<longleftrightarrow> q \<le> m \<and> m < 60 \<and> bd_num_levels a = m - q + 1 \<and>
     bd_size a = 2 ^ m \<and> bd_page_size a = 2 ^ q \<and>
     0 < unat (bd_address a) \<and> unat (bd_address a) + 2 ^ m < 2 ^ 64"

definition blk :: "nat \<Rightarrow> buddy \<Rightarrow> nat \<Rightarrow> nat \<Rightarrow> u64" where
  "blk m a l j = bd_address a + of_nat (j * 2 ^ (m - l))"

definition sibling :: "nat \<Rightarrow> nat" where
  "sibling j = (if even j then j + 1 else j - 1)"

lemma geom_level: "geom m q a \<Longrightarrow> l < bd_num_levels a \<Longrightarrow> l \<le> m \<and> l \<le> m - q"
  by (simp add: geom_def)

lemma blk_offset:
  assumes "l \<le> m" and "j < 2 ^ l"
  shows "j * 2 ^ (m - l) < (2 :: nat) ^ m"
proof -
  have "j * 2 ^ (m - l) < 2 ^ l * 2 ^ (m - l)" using assms(2) by simp
  also have "\<dots> = 2 ^ m" using assms(1) by (simp flip: power_add)
  finally show ?thesis .
qed

lemma pow_less_64: "m < 60 \<Longrightarrow> n < 2 ^ m \<Longrightarrow> n < (2 :: nat) ^ 64"
  by (erule less_trans) (rule power_strict_increasing, simp_all)

lemma unat_blk:
  assumes "geom m q a" and "l \<le> m" and "j < 2 ^ l"
  shows "unat (blk m a l j) = unat (bd_address a) + j * 2 ^ (m - l)"
proof -
  note o = blk_offset [OF assms(2,3)]
  have "m < 60" using assms(1) by (simp add: geom_def)
  then have "unat (of_nat (j * 2 ^ (m - l)) :: u64) = j * 2 ^ (m - l)"
    using o by (intro unat_of_nat_u64 pow_less_64)
  moreover have "unat (bd_address a) + j * 2 ^ (m - l) < 2 ^ 64"
    using o assms(1) unfolding geom_def by linarith
  ultimately show ?thesis unfolding blk_def by (subst unat_add_no_wrap) simp_all
qed

lemma blk_inj:
  assumes "geom m q a" and "l \<le> m" and "i < 2 ^ l" and "j < 2 ^ l" and "blk m a l i = blk m a l j"
  shows "i = j"
proof -
  have "unat (bd_address a) + i * 2 ^ (m - l) = unat (bd_address a) + j * 2 ^ (m - l)"
    unfolding unat_blk [OF assms(1-3), symmetric] unat_blk [OF assms(1,2,4), symmetric] assms(5) ..
  then show ?thesis by simp
qed

lemma blk_left: "Suc l \<le> m \<Longrightarrow> blk m a (Suc l) (2 * j) = blk m a l j"
proof -
  assume "Suc l \<le> m"
  then have "m - l = Suc (m - Suc l)" by simp
  then show ?thesis by (simp add: blk_def)
qed

lemma buddy_page_index_blk:
  assumes "geom m q a" and "l < bd_num_levels a" and "j < 2 ^ l"
  shows "buddy_page_index a (blk m a l j) = of_nat (j * 2 ^ (bd_num_levels a - 1 - l))"
proof -
  have l: "l \<le> m - q" and q: "q \<le> m" and m: "m < 60"
    and L: "bd_num_levels a - 1 = m - q" and ps: "bd_page_size a = of_nat (2 ^ q)"
    using assms by (auto simp: geom_def)
  have "m - l = (m - q - l) + q" using l q by simp
  then have e: "j * 2 ^ (m - l) = (j * 2 ^ (m - q - l)) * 2 ^ q"
    by (simp add: power_add)
  have "j * 2 ^ (m - l) < 2 ^ m" by (rule blk_offset) (use l assms(3) in auto)
  then have "j * 2 ^ (m - l) < 2 ^ 64" by (rule pow_less_64 [OF m])
  moreover have "(2 :: nat) ^ q < 2 ^ 64" using q m by (intro power_strict_increasing) auto
  ultimately have "of_nat (j * 2 ^ (m - l)) div (of_nat (2 ^ q) :: u64) = of_nat (j * 2 ^ (m - l) div 2 ^ q)"
    by (rule div_of_nat_u64)
  also have "j * 2 ^ (m - l) div 2 ^ q = j * 2 ^ (m - q - l)" unfolding e by simp
  finally show ?thesis unfolding buddy_page_index_def blk_def ps L by (simp only: add_diff_cancel_left')
qed

lemma buddy_block_index_blk:
  assumes "geom m q a" and "l < bd_num_levels a" and "j < 2 ^ l"
  shows "buddy_block_index a (blk m a l j) l = of_nat (2 ^ l + j - 1)"
proof -
  have m: "m < 60" and l: "l \<le> m - q" and L: "bd_num_levels a - 1 = m - q" using assms by (auto simp: geom_def)
  have "j * 2 ^ (m - q - l) < 2 ^ (m - q)" by (rule blk_offset [OF l assms(3)])
  then have "j * 2 ^ (m - q - l) < 2 ^ 64" by (rule pow_less_64 [rotated]) (use m in simp)
  then have "drop_bit (m - q - l) (of_nat (j * 2 ^ (m - q - l)) :: u64) = of_nat j"
    by (subst drop_bit_of_nat_u64) simp_all
  then have "buddy_block_index a (blk m a l j) l = of_nat (2 ^ l + j) - 1"
    unfolding buddy_block_index_def buddy_page_index_blk [OF assms] L by (simp add: POW2_def)
  also have "\<dots> = of_nat (2 ^ l + j - 1)" by (rule of_nat_pred_u64) simp
  finally show ?thesis .
qed

lemma xor_pow2:
  "(j * 2 ^ k) XOR 2 ^ k = sibling j * (2 :: nat) ^ k"
proof -
  have "push_bit k j XOR push_bit k 1 = push_bit k (j XOR 1)" by (simp only: push_bit_xor)
  moreover have "j XOR 1 = sibling j" unfolding sibling_def xor_one_eq by simp
  ultimately show ?thesis by (simp add: push_bit_eq_mult)
qed

lemma to_buddy_blk:
  assumes "geom m q a" and "l \<le> m" and "j < 2 ^ l"
  shows "to_buddy a (blk m a l j) l = blk m a l (sibling j)"
proof -
  have m: "m < 60" and s: "bd_size a = of_nat (2 ^ m)" using assms(1) by (auto simp: geom_def)
  have "(2 :: nat) ^ m < 2 ^ 64" using m by (intro power_strict_increasing) auto
  then have "drop_bit l (bd_size a) = of_nat (2 ^ m div 2 ^ l)" unfolding s by (rule drop_bit_of_nat_u64)
  also have "(2 :: nat) ^ m div 2 ^ l = 2 ^ (m - l)" using assms(2) by (simp add: power_diff)
  finally have "to_buddy a (blk m a l j) l =
      of_nat ((j * 2 ^ (m - l)) XOR 2 ^ (m - l)) + bd_address a"
    by (simp add: to_buddy_def blk_def of_nat_xor_eq)
  then show ?thesis by (simp add: xor_pow2 blk_def)
qed

lemma free_bit_of_nat: "0 < n \<Longrightarrow> n < 2 ^ 64 \<Longrightarrow> free_bit (of_nat n) = of_nat ((n - 1) div 2)"
  unfolding free_bit_def
  by (subst of_nat_pred_u64, assumption, subst drop_bit_of_nat_u64) (linarith, simp only: power_one_right)

lemma split_bit_of_nat:
  assumes "geom m q a"
  shows "split_bit a (of_nat n) = of_nat (n + 2 ^ (bd_num_levels a - 1))"
proof -
  have "bd_num_levels a < 62" and p: "bd_num_levels a = Suc (bd_num_levels a - 1)" using assms by (auto simp: geom_def)
  then have "(2 :: nat) ^ bd_num_levels a < 2 ^ 64" by (intro power_strict_increasing) auto
  from drop_bit_of_nat_u64 [OF this, of 1]
  have "drop_bit 1 (POW2 (bd_num_levels a)) = of_nat (2 ^ bd_num_levels a div 2)"
    by (simp add: POW2_def)
  also have "(2 :: nat) ^ bd_num_levels a div 2 = 2 ^ (bd_num_levels a - 1)" by (subst p) simp
  finally show ?thesis by (simp add: split_bit_def)
qed

section \<open>Split bits and pair bits\<close>

definition split_of :: "nat \<Rightarrow> bitmap_t \<Rightarrow> nat \<Rightarrow> bool" where
  "split_of L info n = bitmap_get info (of_nat (n + 2 ^ (L - 1)))"

definition pair_of :: "bitmap_t \<Rightarrow> nat \<Rightarrow> bool" where
  "pair_of info p = bitmap_get info (of_nat p)"

lemma index_bound:
  assumes "L < 62" and "n < 2 ^ L"
  shows "n + 2 ^ (L - 1) < (2 :: nat) ^ 64"
proof -
  have "(2 :: nat) ^ (L - 1) \<le> 2 ^ L" by (rule power_increasing) simp_all
  with assms(2) have "n + 2 ^ (L - 1) < 2 ^ L + 2 ^ L" by linarith
  also have "\<dots> = 2 ^ Suc L" by simp
  also have "\<dots> < 2 ^ 64" using assms(1) by (intro power_strict_increasing) simp_all
  finally show ?thesis .
qed

lemma pair_bound:
  assumes "L < 62" and "p < 2 ^ (L - 1)"
  shows "p < (2 :: nat) ^ 64"
proof -
  have "(2 :: nat) ^ (L - 1) \<le> 2 ^ 64" using assms(1) by (intro power_increasing) simp_all
  with assms(2) show ?thesis by linarith
qed

lemma split_of_set:
  assumes "L < 62" and "n < 2 ^ L" and "k < 2 ^ L"
  shows "split_of L (bitmap_set info (of_nat (n + 2 ^ (L - 1)))) k \<longleftrightarrow> split_of L info k \<or> k = n"
    and "split_of L (bitmap_clear info (of_nat (n + 2 ^ (L - 1)))) k \<longleftrightarrow> split_of L info k \<and> k \<noteq> n"
  using of_nat_u64_inj [OF index_bound [OF assms(1,2)] index_bound [OF assms(1,3)]]
  by (auto simp: split_of_def bits_simps simp del: of_nat_add)

lemma pair_of_set:
  assumes "L < 62" and "n < 2 ^ L" and "p < 2 ^ (L - 1)"
  shows "pair_of (bitmap_set info (of_nat (n + 2 ^ (L - 1)))) p \<longleftrightarrow> pair_of info p"
    and "pair_of (bitmap_clear info (of_nat (n + 2 ^ (L - 1)))) p \<longleftrightarrow> pair_of info p"
  using of_nat_u64_inj [OF index_bound [OF assms(1,2)] pair_bound [OF assms(1,3)]] assms(3)
  by (auto simp: pair_of_def bits_simps simp del: of_nat_add)

lemma split_of_toggle:
  assumes "L < 62" and "k < 2 ^ L" and "p < 2 ^ (L - 1)"
  shows "split_of L (bitmap_toggle info (of_nat p)) k \<longleftrightarrow> split_of L info k"
  using of_nat_u64_inj [OF pair_bound [OF assms(1,3)] index_bound [OF assms(1,2)]] assms(3)
  by (auto simp: split_of_def bits_simps simp del: of_nat_add)

lemma pair_of_toggle:
  assumes "L < 62" and "k < 2 ^ (L - 1)" and "p < 2 ^ (L - 1)"
  shows "pair_of (bitmap_toggle info (of_nat p)) k \<longleftrightarrow> (pair_of info k \<noteq> (k = p))"
  using of_nat_u64_inj [OF pair_bound [OF assms(1,3)] pair_bound [OF assms(1,2)]]
  by (auto simp: pair_of_def bits_simps)

definition one_free :: "(nat \<Rightarrow> nstat) \<Rightarrow> nat \<Rightarrow> bool" where
  "one_free st p \<longleftrightarrow> (st (2 * p + 1) = FreeBlk) \<noteq> (st (2 * p + 2) = FreeBlk)"

text \<open>
  \<open>bits_rel L info st X Y\<close>: the bits agree with the tree, except that the bits of the pairs in
  \<open>X\<close> are inverted and the split bits of the blocks in \<open>Y\<close> are arbitrary.
\<close>

definition bits_rel :: "nat \<Rightarrow> bitmap_t \<Rightarrow> (nat \<Rightarrow> nstat) \<Rightarrow> nat set \<Rightarrow> nat set \<Rightarrow> bool" where
  "bits_rel L info st X Y \<longleftrightarrow>
     (\<forall>n < 2 ^ L - 1. n \<notin> Y \<longrightarrow> (split_of L info n \<longleftrightarrow> st n = SplitBlk)) \<and>
     (\<forall>p < 2 ^ (L - 1) - 1. pair_of info p \<longleftrightarrow> (one_free st p \<noteq> (p \<in> X)))"

definition flip :: "nat set \<Rightarrow> nat \<Rightarrow> nat set" where
  "flip X p = (if p \<in> X then X - {p} else insert p X)"

lemma in_flip [simp]: "k \<in> flip X p \<longleftrightarrow> ((k \<in> X) \<noteq> (k = p))"
  by (auto simp: flip_def)

lemma flip_flip [simp]: "flip (flip X p) p = X" "flip {} p = {p}" "flip {p} p = {}"
  by auto

lemma bits_relI:
  assumes "\<And>n. n < 2 ^ L - 1 \<Longrightarrow> n \<notin> Y \<Longrightarrow> split_of L info n \<longleftrightarrow> st n = SplitBlk"
    and "\<And>p. p < 2 ^ (L - 1) - 1 \<Longrightarrow> pair_of info p \<longleftrightarrow> (one_free st p \<noteq> (p \<in> X))"
  shows "bits_rel L info st X Y"
  using assms unfolding bits_rel_def by blast

lemma bits_relD:
  assumes "bits_rel L info st X Y"
  shows "n < 2 ^ L - 1 \<Longrightarrow> n \<notin> Y \<Longrightarrow> split_of L info n \<longleftrightarrow> st n = SplitBlk"
    and "p < 2 ^ (L - 1) - 1 \<Longrightarrow> pair_of info p \<longleftrightarrow> (one_free st p \<noteq> (p \<in> X))"
  using assms unfolding bits_rel_def by blast+

lemma bits_toggle:
  assumes "L < 62" and "p < 2 ^ (L - 1) - 1" and "bits_rel L info st X Y"
  shows "bits_rel L (bitmap_toggle info (of_nat p)) st (flip X p) Y"
proof (rule bits_relI)
  fix n
  assume "n < 2 ^ L - 1" "n \<notin> Y"
  with assms split_of_toggle [of L n p info] bits_relD(1) [OF assms(3), of n]
  show "split_of L (bitmap_toggle info (of_nat p)) n \<longleftrightarrow> st n = SplitBlk" by simp
next
  fix k :: nat
  assume "k < 2 ^ (L - 1) - 1"
  with assms pair_of_toggle [of L k p info] bits_relD(2) [OF assms(3), of k]
  show "pair_of (bitmap_toggle info (of_nat p)) k \<longleftrightarrow> (one_free st k \<noteq> (k \<in> flip X p))" by auto
qed

lemma bits_clear:
  assumes "L < 62" and "n < 2 ^ L - 1" and "bits_rel L info st X Y" and "st n \<noteq> SplitBlk"
  shows "bits_rel L (bitmap_clear info (of_nat (n + 2 ^ (L - 1)))) st X (Y - {n})"
proof (rule bits_relI)
  fix k :: nat
  assume "k < 2 ^ L - 1" "k \<notin> Y - {n}"
  with assms split_of_set(2) [of L n k info] bits_relD(1) [OF assms(3), of k]
  show "split_of L (bitmap_clear info (of_nat (n + 2 ^ (L - 1)))) k \<longleftrightarrow> st k = SplitBlk"
    by (cases "k = n") simp_all
next
  fix k :: nat
  assume "k < 2 ^ (L - 1) - 1"
  with assms pair_of_set(2) [of L n k info] bits_relD(2) [OF assms(3), of k]
  show "pair_of (bitmap_clear info (of_nat (n + 2 ^ (L - 1)))) k \<longleftrightarrow> (one_free st k \<noteq> (k \<in> X))"
    by simp
qed

lemma bits_set:
  assumes "L < 62" and "n < 2 ^ L - 1" and "bits_rel L info st X Y" and "st n = SplitBlk"
  shows "bits_rel L (bitmap_set info (of_nat (n + 2 ^ (L - 1)))) st X (Y - {n})"
proof (rule bits_relI)
  fix k :: nat
  assume "k < 2 ^ L - 1" "k \<notin> Y - {n}"
  with assms split_of_set(1) [of L n k info] bits_relD(1) [OF assms(3), of k]
  show "split_of L (bitmap_set info (of_nat (n + 2 ^ (L - 1)))) k \<longleftrightarrow> st k = SplitBlk"
    by (cases "k = n") simp_all
next
  fix k :: nat
  assume "k < 2 ^ (L - 1) - 1"
  with assms pair_of_set(1) [of L n k info] bits_relD(2) [OF assms(3), of k]
  show "pair_of (bitmap_set info (of_nat (n + 2 ^ (L - 1)))) k \<longleftrightarrow> (one_free st k \<noteq> (k \<in> X))"
    by simp
qed

lemma bits_weaken: "bits_rel L info st X Y \<Longrightarrow> Y \<subseteq> Z \<Longrightarrow> bits_rel L info st X Z"
  unfolding bits_rel_def by blast

lemma one_free_upd:
  "one_free (st(n := c)) p \<longleftrightarrow>
     (one_free st p \<noteq> (0 < n \<and> p = (n - 1) div 2 \<and> (st n = FreeBlk) \<noteq> (c = FreeBlk)))"
proof -
  have "2 * p + 1 = n \<or> 2 * p + 2 = n \<longleftrightarrow> 0 < n \<and> p = (n - 1) div 2" by presburger
  then show ?thesis unfolding one_free_def by (cases "2 * p + 1 = n"; cases "2 * p + 2 = n") auto
qed

lemma bits_upd:
  assumes "bits_rel L info st X Y"
  shows "bits_rel L info (st(n := c))
           (if 0 < n \<and> (st n = FreeBlk) \<noteq> (c = FreeBlk) then flip X ((n - 1) div 2) else X)
           (if (st n = SplitBlk) \<noteq> (c = SplitBlk) then insert n Y else Y)"
proof (rule bits_relI)
  fix k :: nat
  assume "k < 2 ^ L - 1" "k \<notin> (if (st n = SplitBlk) \<noteq> (c = SplitBlk) then insert n Y else Y)"
  with bits_relD(1) [OF assms, of k]
  show "split_of L info k \<longleftrightarrow> (st(n := c)) k = SplitBlk" by (auto split: if_splits)
next
  fix k :: nat
  assume "k < 2 ^ (L - 1) - 1"
  with bits_relD(2) [OF assms, of k]
  show "pair_of info k \<longleftrightarrow> (one_free (st(n := c)) k \<noteq>
      (k \<in> (if 0 < n \<and> (st n = FreeBlk) \<noteq> (c = FreeBlk) then flip X ((n - 1) div 2) else X)))"
    unfolding one_free_upd by auto
qed

section \<open>Free lists\<close>

definition free_addrs :: "nat \<Rightarrow> buddy \<Rightarrow> (nat \<Rightarrow> nstat) \<Rightarrow> nat \<Rightarrow> u64 set" where
  "free_addrs m a st l = blk m a l ` {j. j < 2 ^ l \<and> st (2 ^ l + j - 1) = FreeBlk}"

definition lists_rel :: "nat \<Rightarrow> buddy \<Rightarrow> (nat \<Rightarrow> nstat) \<Rightarrow> bool" where
  "lists_rel m a st \<longleftrightarrow> (\<exists>F. family dlist (bd_heap a) (bd_num_levels a) (free_head a) F \<and>
     (\<forall>l < bd_num_levels a. set (F l) = free_addrs m a st l))"

definition heads_outside :: "nat \<Rightarrow> buddy \<Rightarrow> bool" where
  "heads_outside m a \<longleftrightarrow> (\<forall>l < bd_num_levels a. unat (free_head a l) < unat (bd_address a) \<or>
     unat (bd_address a) + 2 ^ m \<le> unat (free_head a l))"

lemma node_inj:
  assumes "j < 2 ^ l" "i < 2 ^ k" "2 ^ l + j - 1 = 2 ^ k + i - (1 :: nat)"
  shows "l = k \<and> j = i"
proof -
  have e: "2 ^ l + j = 2 ^ k + i" using assms(3) zero_less_power [of "2::nat" l] zero_less_power [of "2::nat" k] by linarith
  have "\<not> l < k"
  proof
    assume "l < k"
    then have "(2 :: nat) ^ Suc l \<le> 2 ^ k" by (intro power_increasing) simp_all
    with e assms(1) show False by simp
  qed
  moreover have "\<not> k < l"
  proof
    assume "k < l"
    then have "(2 :: nat) ^ Suc k \<le> 2 ^ l" by (intro power_increasing) simp_all
    with e assms(2) show False by simp
  qed
  ultimately show ?thesis using e by simp
qed

lemma free_addrs_other:
  assumes "j < 2 ^ l" and "k \<noteq> l"
  shows "free_addrs m a (st(2 ^ l + j - 1 := c)) k = free_addrs m a st k"
proof -
  have "(st(2 ^ l + j - 1 := c)) (2 ^ k + i - 1) = st (2 ^ k + i - 1)" if "i < 2 ^ k" for i
    using node_inj [OF assms(1) that] assms(2) by auto
  then have "{i. i < 2 ^ k \<and> (st(2 ^ l + j - 1 := c)) (2 ^ k + i - 1) = FreeBlk}
      = {i. i < 2 ^ k \<and> st (2 ^ k + i - 1) = FreeBlk}"
    by (intro Collect_cong) (simp del: fun_upd_apply cong: conj_cong)
  then show ?thesis unfolding free_addrs_def by simp
qed

lemma free_set_upd:
  fixes j :: nat
  assumes "j < 2 ^ l"
  shows "{i. i < 2 ^ l \<and> (st(2 ^ l + j - 1 := c)) (2 ^ l + i - 1) = FreeBlk} =
         (if c = FreeBlk then insert j {i. i < 2 ^ l \<and> st (2 ^ l + i - 1) = FreeBlk}
          else {i. i < 2 ^ l \<and> st (2 ^ l + i - 1) = FreeBlk} - {j})"
proof -
  have "(0 :: nat) < 2 ^ l" by simp
  then have "2 ^ l + i - 1 = 2 ^ l + j - 1 \<longleftrightarrow> i = j" for i :: nat by (intro iffI; linarith)
  with assms show ?thesis by auto
qed

lemma free_addrs_add:
  assumes "j < 2 ^ l"
  shows "free_addrs m a (st(2 ^ l + j - 1 := FreeBlk)) l = insert (blk m a l j) (free_addrs m a st l)"
  unfolding free_addrs_def free_set_upd [OF assms] by simp

lemma free_addrs_del:
  assumes "geom m q a" and "l \<le> m" and "j < 2 ^ l" and "c \<noteq> FreeBlk"
  shows "free_addrs m a (st(2 ^ l + j - 1 := c)) l = free_addrs m a st l - {blk m a l j}"
proof -
  have "inj_on (blk m a l) {i. i < 2 ^ l}" using blk_inj [OF assms(1,2)] by (auto simp: inj_on_def)
  then have "blk m a l ` ({i. i < 2 ^ l \<and> st (2 ^ l + i - 1) = FreeBlk} - {j})
      = blk m a l ` {i. i < 2 ^ l \<and> st (2 ^ l + i - 1) = FreeBlk} - blk m a l ` {j}"
    by (rule inj_on_image_set_diff) (use assms(3) in auto)
  then show ?thesis unfolding free_addrs_def free_set_upd [OF assms(3)] using assms(4) by simp
qed

lemma free_addrs_heap [simp]:
  "free_addrs m (a\<lparr>bd_heap := h\<rparr>) st l = free_addrs m a st l"
  "free_addrs m (a\<lparr>bd_block_info := i\<rparr>) st l = free_addrs m a st l"
  by (simp_all add: free_addrs_def blk_def)

lemma free_head_upd [simp]:
  "free_head (a\<lparr>bd_heap := h\<rparr>) = free_head a" "free_head (a\<lparr>bd_block_info := i\<rparr>) = free_head a"
  by (simp_all add: free_head_def fun_eq_iff)

lemma lists_rel_info [simp]: "lists_rel m (a\<lparr>bd_block_info := i\<rparr>) st = lists_rel m a st"
  by (simp add: lists_rel_def)

lemma lists_rel_cong:
  "(\<And>n. (st n = FreeBlk) = (st' n = FreeBlk)) \<Longrightarrow> lists_rel m a st \<Longrightarrow> lists_rel m a st'"
  by (simp add: lists_rel_def free_addrs_def)

lemma lists_del:
  assumes "lists_rel m a st" and "geom m q a" and "l < bd_num_levels a" and "j < 2 ^ l"
    and "st (2 ^ l + j - 1) = FreeBlk" and "c \<noteq> FreeBlk"
  shows "lists_rel m (a\<lparr>bd_heap := list_del (blk m a l j) (bd_heap a)\<rparr>) (st(2 ^ l + j - 1 := c))"
proof -
  from assms(1) obtain F where F: "family dlist (bd_heap a) (bd_num_levels a) (free_head a) F"
    and S: "\<And>l. l < bd_num_levels a \<Longrightarrow> set (F l) = free_addrs m a st l" by (auto simp: lists_rel_def)
  have mem: "blk m a l j \<in> set (F l)" using S [OF assms(3)] assms(4,5) by (auto simp: free_addrs_def)
  have "l \<le> m" using geom_level [OF assms(2,3)] by simp
  note del = free_addrs_del [OF assms(2) this assms(4,6)]
  have "set ((F(l := remove1 (blk m a l j) (F l))) k) = free_addrs m a (st(2 ^ l + j - 1 := c)) k"
    if "k < bd_num_levels a" for k
    using S [OF that] del [of st] free_addrs_other [OF assms(4), of k m a st c] ll.family_distinct [OF F assms(3)]
    by (cases "k = l") auto
  with ll.family_del [OF F assms(3) mem] show ?thesis
    unfolding lists_rel_def by (simp del: fun_upd_apply) blast
qed

lemma lists_add:
  assumes "lists_rel m a st" and "geom m q a" and "heads_outside m a" and "l < bd_num_levels a"
    and "j < 2 ^ l" and "\<And>k. k < bd_num_levels a \<Longrightarrow> blk m a l j \<notin> free_addrs m a st k"
  shows "lists_rel m (a\<lparr>bd_heap := list_add (blk m a l j) (free_head a l) (bd_heap a)\<rparr>)
           (st(2 ^ l + j - 1 := FreeBlk))"
proof -
  from assms(1) obtain F where F: "family dlist (bd_heap a) (bd_num_levels a) (free_head a) F"
    and S: "\<And>l. l < bd_num_levels a \<Longrightarrow> set (F l) = free_addrs m a st l" by (auto simp: lists_rel_def)
  have l: "l \<le> m" using geom_level [OF assms(2,4)] by simp
  have "unat (blk m a l j) < unat (bd_address a) + 2 ^ m" "unat (bd_address a) \<le> unat (blk m a l j)"
    using unat_blk [OF assms(2) l assms(5)] blk_offset [OF l assms(5)] by simp_all
  then have "free_head a k \<noteq> blk m a l j" if "k < bd_num_levels a" for k
    using assms(3) that unfolding heads_outside_def by fastforce
  then have "\<forall>k < bd_num_levels a. blk m a l j \<notin> set (free_head a k # F k)"
    using assms(6) S by (metis set_ConsD)
  from ll.family_add [OF F assms(4) this]
  have "family dlist (list_add (blk m a l j) (free_head a l) (bd_heap a)) (bd_num_levels a)
      (free_head a) (F(l := blk m a l j # F l))" .
  moreover have "set ((F(l := blk m a l j # F l)) k) = free_addrs m a (st(2 ^ l + j - 1 := FreeBlk)) k"
    if "k < bd_num_levels a" for k
    using S [OF that] free_addrs_add [OF assms(5), of m a st] free_addrs_other [OF assms(5), of k m a st FreeBlk]
    by (cases "k = l") auto
  ultimately show ?thesis
    unfolding lists_rel_def by (simp del: fun_upd_apply) blast
qed

lemma live_addr_not_free:
  assumes "geom m q a" and "tree_ok (bd_num_levels a) st" and "l < bd_num_levels a" and "j < 2 ^ l"
    and "i < bd_num_levels a" and "st (path_node (bd_num_levels a) (j * 2 ^ (bd_num_levels a - 1 - l)) i) = UsedBlk"
    and "k < bd_num_levels a"
  shows "blk m a l j \<notin> free_addrs m a st k"
proof
  let ?L = "bd_num_levels a"
  let ?x = "j * 2 ^ (?L - 1 - l)"
  assume "blk m a l j \<in> free_addrs m a st k"
  then obtain r where r: "blk m a l j = blk m a k r" "r < 2 ^ k" "st (2 ^ k + r - 1) = FreeBlk"
    by (auto simp: free_addrs_def)
  have x: "?x < 2 ^ (?L - 1)" using blk_offset [of l "?L - 1" j] assms(3,4) by simp
  have y: "r * 2 ^ (?L - 1 - k) < 2 ^ (?L - 1)" using blk_offset [of k "?L - 1" r] assms(7) r(2) by simp
  have eq: "(of_nat ?x :: u64) = of_nat (r * 2 ^ (?L - 1 - k))"
    using buddy_page_index_blk [OF assms(1,3,4)] buddy_page_index_blk [OF assms(1,7) r(2)] r(1) by simp
  have b: "?L - 1 < 60" using assms(1) by (auto simp: geom_def)
  have e: "?x = r * 2 ^ (?L - 1 - k)"
    by (rule of_nat_u64_inj [OF pow_less_64 [OF b x] pow_less_64 [OF b y], THEN iffD1, OF eq])
  have "path_node ?L ?x k = 2 ^ k + r - 1" unfolding e by (simp add: path_node_def)
  with path_live_unique [OF assms(2) x assms(5,7)] assms(6) r(3) show False by auto
qed

section \<open>The relation to the block tree\<close>

definition buddy_rel :: "nat \<Rightarrow> nat \<Rightarrow> buddy \<Rightarrow> (nat \<Rightarrow> nstat) \<Rightarrow> nat set \<Rightarrow> nat set \<Rightarrow> bool" where
  "buddy_rel m q a st X Y \<longleftrightarrow> geom m q a \<and> heads_outside m a \<and> tree_ok (bd_num_levels a) st \<and>
     bits_rel (bd_num_levels a) (bd_block_info a) st X Y \<and> lists_rel m a st"

definition stale :: "nat \<Rightarrow> nat set" where
  "stale n = (if 0 < n then {(n - 1) div 2} else {})"

lemma geom_upd [simp]:
  "geom m q (a\<lparr>bd_heap := h\<rparr>) = geom m q a" "geom m q (a\<lparr>bd_block_info := i\<rparr>) = geom m q a"
  "heads_outside m (a\<lparr>bd_heap := h\<rparr>) = heads_outside m a"
  "heads_outside m (a\<lparr>bd_block_info := i\<rparr>) = heads_outside m a"
  by (simp_all add: geom_def heads_outside_def)

lemma geom_L: "geom m q a \<Longrightarrow> bd_num_levels a < 62"
  by (auto simp: geom_def)

lemma node_bound:
  assumes "l < L" and "j < 2 ^ l"
  shows "2 ^ l + j - 1 < 2 ^ L - (1 :: nat)"
proof -
  have "(2 :: nat) ^ Suc l \<le> 2 ^ L" using assms(1) by (intro power_increasing) simp_all
  moreover have "(1 :: nat) \<le> 2 ^ l" by simp
  ultimately show ?thesis using assms(2) by simp
qed

lemma node_internal:
  assumes "Suc l < L" and "j < 2 ^ l"
  shows "2 ^ l + j - 1 < 2 ^ (L - 1) - (1 :: nat)"
  using node_bound [of l "L - 1" j] assms by simp

lemma parent_internal:
  assumes "n < 2 ^ L - 1" and "0 < n" and "0 < L"
  shows "(n - 1) div 2 < 2 ^ (L - 1) - (1 :: nat)"
proof -
  obtain k where L: "L = Suc k" using assms(3) by (cases L) auto
  have "n < 2 * 2 ^ k - 1" using assms(1) unfolding L by simp
  then show ?thesis unfolding L using assms(2) by simp
qed

lemma node_pos: "0 < 2 ^ l + j - (1 :: nat) \<longleftrightarrow> 0 < l \<or> 0 < j"
proof (cases l)
  case (Suc k)
  have "(1 :: nat) \<le> 2 ^ k" by simp
  then have "0 < 2 * 2 ^ k + j - (1 :: nat)" by linarith
  with Suc show ?thesis by simp
qed simp

lemma node_left: "2 * (2 ^ l + j - 1) + 1 = 2 ^ Suc l + 2 * j - (1 :: nat)"
proof -
  have "(1 :: nat) \<le> 2 ^ l" by simp
  then show ?thesis unfolding power_Suc by linarith
qed

lemma node_right: "2 * (2 ^ l + j - 1) + 2 = 2 ^ Suc l + (2 * j + 1) - (1 :: nat)"
proof -
  have "(1 :: nat) \<le> 2 ^ l" by simp
  then show ?thesis unfolding power_Suc by linarith
qed

lemma node_path:
  assumes "l < L" and "j < 2 ^ l"
  shows "path_node L (j * 2 ^ (L - 1 - l)) l = 2 ^ l + j - 1"
  by (simp add: path_node_def)

lemma rel_toggle:
  assumes "buddy_rel m q a st X Y" and "p < 2 ^ (bd_num_levels a - 1) - 1"
  shows "buddy_rel m q (a\<lparr>bd_block_info := bitmap_toggle (bd_block_info a) (of_nat p)\<rparr>) st (flip X p) Y"
proof -
  from assms(1) have "geom m q a" "bits_rel (bd_num_levels a) (bd_block_info a) st X Y"
    by (auto simp: buddy_rel_def)
  from bits_toggle [OF geom_L [OF this(1)] assms(2) this(2)] assms(1) show ?thesis
    by (simp add: buddy_rel_def)
qed

lemma rel_take:
  assumes "buddy_rel m q a st {} {}" and "l < bd_num_levels a" and "j < 2 ^ l"
    and n: "n = 2 ^ l + j - 1" and f: "st n = FreeBlk"
  shows "buddy_rel m q (a\<lparr>bd_heap := list_del (blk m a l j) (bd_heap a)\<rparr>) (st(n := UsedBlk)) (stale n) {}"
proof -
  from assms(1) have g: "geom m q a" and t: "tree_ok (bd_num_levels a) st"
    and b: "bits_rel (bd_num_levels a) (bd_block_info a) st {} {}" and ls: "lists_rel m a st"
    and h: "heads_outside m a" by (auto simp: buddy_rel_def)
  have "lists_rel m (a\<lparr>bd_heap := list_del (blk m a l j) (bd_heap a)\<rparr>) (st(n := UsedBlk))"
    unfolding n by (rule lists_del [OF ls g assms(2,3)]) (use n f in simp_all)
  moreover have "tree_ok (bd_num_levels a) (st(n := UsedBlk))"
    by (rule tree_ok_mark [OF t]) (simp_all add: f)
  moreover have "bits_rel (bd_num_levels a) (bd_block_info a) (st(n := UsedBlk)) (stale n) {}"
    using bits_upd [OF b, of n UsedBlk] f by (simp add: stale_def split: if_splits)
  ultimately show ?thesis using g h by (simp add: buddy_rel_def)
qed

lemma rel_split:
  fixes j :: nat
  assumes "buddy_rel m q a st X {}" and "Suc l < bd_num_levels a" and "j < 2 ^ l"
    and "n = 2 ^ l + j - 1" and "st n = UsedBlk"
  shows "buddy_rel m q
           (a\<lparr>bd_block_info := bitmap_set (bd_block_info a) (split_bit a (of_nat n)),
              bd_heap := list_add (blk m a (Suc l) (2 * j + 1)) (free_head a (Suc l)) (bd_heap a)\<rparr>)
           (st(n := SplitBlk, 2 * n + 1 := UsedBlk, 2 * n + 2 := FreeBlk)) (flip X n) {}"
    (is "buddy_rel m q ?a ?st (flip X n) {}")
proof -
  let ?L = "bd_num_levels a"
  from assms(1) have g: "geom m q a" and t: "tree_ok ?L st"
    and b: "bits_rel ?L (bd_block_info a) st X {}" and ls: "lists_rel m a st"
    and h: "heads_outside m a" by (auto simp: buddy_rel_def)
  have ni: "n < 2 ^ (?L - 1) - 1" using node_internal [OF assms(2,3)] assms(4) by simp
  have nb: "n < 2 ^ ?L - 1" using node_bound [of l ?L j] assms(2-4) by simp
  have c: "st (2 * n + 1) = Absent" "st (2 * n + 2) = Absent"
    using tree_other_children [OF t ni] assms(5) by auto
  let ?st1 = "st(n := SplitBlk)" and ?st2 = "st(n := SplitBlk, 2 * n + 1 := UsedBlk)"
  have "bits_rel ?L (bd_block_info a) ?st1 X {n}"
    using bits_upd [OF b, of n SplitBlk] assms(5) by simp
  from bits_upd [OF this, of "2 * n + 1" UsedBlk] c(1)
  have "bits_rel ?L (bd_block_info a) ?st2 X {n}" by simp
  from bits_upd [OF this, of "2 * n + 2" FreeBlk] c(2)
  have "bits_rel ?L (bd_block_info a) ?st (flip X n) {n}" by simp
  then have "bits_rel ?L (bitmap_set (bd_block_info a) (of_nat (n + 2 ^ (?L - 1)))) ?st (flip X n) ({n} - {n})"
    by (rule bits_set [OF geom_L [OF g] nb]) simp
  then have bb: "bits_rel ?L (bitmap_set (bd_block_info a) (split_bit a (of_nat n))) ?st (flip X n) {}"
    by (simp add: split_bit_of_nat [OF g] del: of_nat_add)
  have r: "2 * j + 1 < 2 ^ Suc l" using assms(3) by simp
  have ln: "2 ^ Suc l + (2 * j + 1) - 1 = 2 * n + 2" unfolding assms(4) node_right ..
  have "blk m a (Suc l) (2 * j + 1) \<notin> free_addrs m a st k" if "k < ?L" for k
  proof (rule live_addr_not_free [OF g t assms(2) r _ _ that, where i = l])
    show "l < ?L" using assms(2) by simp
    have "?L - 1 - l = Suc (?L - 1 - Suc l)" using assms(2) by simp
    then have "(2 * j + 1) * 2 ^ (?L - 1 - Suc l) div 2 ^ (?L - 1 - l) = (2 * j + 1) div 2"
      by (simp only: power_Suc2 div_mult2_eq nonzero_mult_div_cancel_right power_not_zero zero_neq_numeral [symmetric])
         simp
    then have "path_node ?L ((2 * j + 1) * 2 ^ (?L - 1 - Suc l)) l = n"
      by (simp add: path_node_def assms(4))
    with assms(5) show "st (path_node ?L ((2 * j + 1) * 2 ^ (?L - 1 - Suc l)) l) = UsedBlk" by simp
  qed
  from lists_add [OF ls g h assms(2) r this]
  have "lists_rel m (a\<lparr>bd_heap := list_add (blk m a (Suc l) (2 * j + 1)) (free_head a (Suc l)) (bd_heap a)\<rparr>)
      (st(2 * n + 2 := FreeBlk))" unfolding ln .
  then have "lists_rel m (a\<lparr>bd_heap := list_add (blk m a (Suc l) (2 * j + 1)) (free_head a (Suc l)) (bd_heap a)\<rparr>) ?st"
    by (rule lists_rel_cong [rotated]) (use c assms(5) in auto)
  then have "lists_rel m ?a ?st" by (simp add: lists_rel_def free_addrs_def blk_def free_head_def [abs_def])
  moreover have "tree_ok ?L ?st" by (rule tree_ok_split [OF t _ ni]) (simp_all add: assms(5))
  ultimately show ?thesis using g h bb by (simp add: buddy_rel_def geom_def heads_outside_def free_head_def)
qed

end
