(* ===== verification/Buddy_Refinement.thy ===== *)
theory Buddy_Refinement
  imports Buddy_Relation
begin

text \<open>
  Correctness of the buddy allocator: the representation relation is preserved by every
  loop iteration of \<open>buddy_level_alloc\<close> and \<open>buddy_level_free\<close>, and the contract of a block
  allocator follows from it.
\<close>

section \<open>Allocation\<close>

definition same_geometry :: "buddy \<Rightarrow> buddy \<Rightarrow> bool" where
  "same_geometry a a' \<longleftrightarrow> bd_num_levels a' = bd_num_levels a \<and> bd_address a' = bd_address a \<and>
     bd_size a' = bd_size a \<and> bd_page_size a' = bd_page_size a \<and> bd_free_blocks a' = bd_free_blocks a"

lemma same_geometry_simps [simp]:
  "same_geometry a a" "same_geometry a (a\<lparr>bd_heap := h\<rparr>)" "same_geometry a (a\<lparr>bd_block_info := i\<rparr>)"
  "same_geometry a (a\<lparr>bd_block_info := i, bd_heap := h\<rparr>)"
  by (simp_all add: same_geometry_def)

lemma same_geometry_trans [trans]: "same_geometry a b \<Longrightarrow> same_geometry b c \<Longrightarrow> same_geometry a c"
  by (simp add: same_geometry_def)

lemma same_geometry_blk: "same_geometry a b \<Longrightarrow> blk m b = blk m a"
  by (simp add: same_geometry_def blk_def fun_eq_iff)

lemma heap_info_commute: "a\<lparr>bd_heap := h, bd_block_info := i\<rparr> = a\<lparr>bd_block_info := i, bd_heap := h\<rparr>"
  by (cases a) simp

lemma stale_child: "stale (2 * n + 1) = {n}"
  by (simp add: stale_def)

lemma parent_neq: "0 < n \<Longrightarrow> (n - 1) div 2 \<noteq> (n :: nat)"
  by linarith

lemma split_step:
  assumes rel: "buddy_rel m q a st (stale n) {}" and n: "n = 2 ^ bl + j - 1" and j: "j < 2 ^ bl"
    and u: "st n = UsedBlk" and L: "Suc bl < bd_num_levels a"
  shows "buddy_rel m q
      (a\<lparr>bd_block_info := (let info1 = bitmap_set (bd_block_info a) (split_bit a (of_nat n))
           in if bl > 0 then bitmap_toggle info1 (free_bit (of_nat n)) else info1),
         bd_heap := list_add (to_buddy a (blk m a bl j) (bl + 1)) (free_head a (bl + 1)) (bd_heap a)\<rparr>)
      (st(n := SplitBlk, 2 * n + 1 := UsedBlk, 2 * n + 2 := FreeBlk)) (stale (2 * n + 1)) {}"
proof -
  have g: "geom m q a" using rel by (simp add: buddy_rel_def)
  have lm: "Suc bl \<le> m" using geom_level [OF g L] by simp
  have "to_buddy a (blk m a bl j) (Suc bl) = blk m a (Suc bl) (2 * j + 1)"
    using to_buddy_blk [OF g lm, of "2 * j"] j unfolding blk_left [OF lm] by (simp add: sibling_def)
  note r = rel_split [OF rel L j n u, folded this]
  show ?thesis
  proof (cases "bl = 0")
    case True
    with n j have "n = 0" by simp
    with r True show ?thesis by (simp add: stale_def)
  next
    case False
    then have n0: "0 < n" using n node_pos [of bl j] by simp
    have nb: "n < 2 ^ bd_num_levels a - 1" using node_bound [of bl "bd_num_levels a" j] j L n by simp
    then have "n < 2 ^ 64" using index_bound [OF geom_L [OF g], of n] by linarith
    note fb = free_bit_of_nat [OF n0 this]
    have pi: "(n - 1) div 2 < 2 ^ (bd_num_levels a - 1) - 1"
      by (rule parent_internal [OF nb n0]) (use L in simp)
    have fl: "flip (flip (stale n) n) ((n - 1) div 2) = stale (2 * n + 1)"
      unfolding stale_child using n0 parent_neq [OF n0] by (auto simp: stale_def)
    have "0 < bl" using False by simp
    show ?thesis
      using rel_toggle [OF r, of "(n - 1) div 2", unfolded fl, folded fb] pi
      by (simp add: Let_def \<open>0 < bl\<close> heap_info_commute)
  qed
qed

lemma split_loop_rel:
  assumes "buddy_rel m q a st (stale n) {}" and "n = 2 ^ bl + j - 1" and "j < 2 ^ bl"
    and "st n = UsedBlk" and "bl + d < bd_num_levels a"
  shows "\<exists>a' st' n'. n' = 2 ^ (bl + d) + j * 2 ^ d - 1 \<and>
           split_loop a (blk m a bl j) (of_nat n) bl (bl + d) = (a', of_nat n') \<and>
           buddy_rel m q a' st' (stale n') {} \<and> st' n' = UsedBlk \<and> same_geometry a a' \<and>
           used_pages (bd_num_levels a) st' =
             (used_pages (bd_num_levels a) st - node_pages (bd_num_levels a) n) \<union> node_pages (bd_num_levels a) n' \<and>
           node_pages (bd_num_levels a) n' \<subseteq> node_pages (bd_num_levels a) n \<and>
           (\<forall>k. st k = UsedBlk \<longrightarrow> k \<noteq> n \<longrightarrow> st' k = UsedBlk)"
  using assms
proof (induction d arbitrary: a st n bl j)
  case 0
  have "node_pages (bd_num_levels a) n \<subseteq> used_pages (bd_num_levels a) st"
    using 0(4) by (auto simp: used_pages_UN)
  with 0 show ?case by (intro exI [of _ a] exI [of _ st] exI [of _ n]) (auto simp: split_loop.simps)
next
  case (Suc d)
  let ?L = "bd_num_levels a"
  let ?st = "st(n := SplitBlk, 2 * n + 1 := UsedBlk, 2 * n + 2 := FreeBlk)"
  let ?a = "a\<lparr>bd_block_info := (let info1 = bitmap_set (bd_block_info a) (split_bit a (of_nat n))
           in if bl > 0 then bitmap_toggle info1 (free_bit (of_nat n)) else info1),
         bd_heap := list_add (to_buddy a (blk m a bl j) (bl + 1)) (free_head a (bl + 1)) (bd_heap a)\<rparr>"
  have L: "Suc bl < ?L" using Suc.prems(5) by simp
  have g: "geom m q a" and t: "tree_ok ?L st" using Suc.prems(1) by (auto simp: buddy_rel_def)
  have lm: "Suc bl \<le> m" using geom_level [OF g L] by simp
  note r = split_step [OF Suc.prems(1-4) L]
  have ni: "n < 2 ^ (?L - 1) - 1" using node_internal [OF L Suc.prems(3)] Suc.prems(2) by simp
  have c: "st (2 * n + 1) = Absent" "st (2 * n + 2) = Absent"
    using tree_other_children [OF t ni] Suc.prems(4) by auto
  have n1: "2 * n + 1 = 2 ^ Suc bl + 2 * j - 1" unfolding Suc.prems(2) by (rule node_left)
  have u1: "?st (2 * n + 1) = UsedBlk" by simp
  have j1: "2 * j < 2 ^ Suc bl" using Suc.prems(3) by simp
  have L1: "Suc bl + d < bd_num_levels ?a" using Suc.prems(5) by simp
  have La: "bd_num_levels ?a = ?L" by simp
  from Suc.IH [OF r n1 j1 u1 L1, unfolded La] obtain a' st' n' where ih:
      "n' = 2 ^ (Suc bl + d) + 2 * j * 2 ^ d - 1"
      "split_loop ?a (blk m ?a (Suc bl) (2 * j)) (of_nat (2 * n + 1)) (Suc bl) (Suc bl + d) = (a', of_nat n')"
      "buddy_rel m q a' st' (stale n') {}" "st' n' = UsedBlk" "same_geometry ?a a'"
      "used_pages ?L st' = (used_pages ?L ?st - node_pages ?L (2 * n + 1)) \<union> node_pages ?L n'"
      "node_pages ?L n' \<subseteq> node_pages ?L (2 * n + 1)"
      "\<forall>k. ?st k = UsedBlk \<longrightarrow> k \<noteq> 2 * n + 1 \<longrightarrow> st' k = UsedBlk"
    by (elim exE conjE) (rule that)
  have p1: "blk m ?a (Suc bl) (2 * j) = blk m a bl j"
    using blk_left [OF lm, of a j] by (simp add: blk_def)
  have p2: "push_bit 1 (of_nat n) + 1 = (of_nat (2 * n + 1) :: u64)"
    by (simp add: push_bit_eq_mult)
  have "split_loop a (blk m a bl j) (of_nat n) bl (bl + Suc d) =
      split_loop ?a (blk m a bl j) (push_bit 1 (of_nat n) + 1) (Suc bl) (Suc bl + d)"
    by (subst split_loop.simps) (simp add: Let_def)
  then have e: "split_loop a (blk m a bl j) (of_nat n) bl (bl + Suc d) = (a', of_nat n')"
    unfolding p2 using ih(2) [unfolded p1] by (rule trans)
  have up: "used_pages ?L st' = (used_pages ?L st - node_pages ?L n) \<union> node_pages ?L n'"
    using ih(6) used_pages_split [OF t Suc.prems(4) ni] node_pages_children(1) [OF ni] by auto
  have sg: "same_geometry a a'" using ih(5) by (simp add: same_geometry_def)
  have sub: "node_pages ?L n' \<subseteq> node_pages ?L n" using ih(7) node_pages_children(1) [OF ni] by blast
  have keep: "\<forall>k. st k = UsedBlk \<longrightarrow> k \<noteq> n \<longrightarrow> st' k = UsedBlk"
    using ih(8) c by (metis fun_upd_other nstat.distinct(3))
  have "n' = 2 ^ (bl + Suc d) + j * 2 ^ Suc d - 1" using ih(1) by (simp add: mult.commute mult.left_commute)
  then show ?case using e ih(3,4) sg up sub keep by blast
qed

lemma lists_head:
  assumes "lists_rel m a st" and "l < bd_num_levels a"
  shows "list_empty (bd_heap a) (free_head a l) \<longleftrightarrow> (\<forall>j < 2 ^ l. st (2 ^ l + j - 1) \<noteq> FreeBlk)"
    and "\<not> list_empty (bd_heap a) (free_head a l) \<Longrightarrow>
           \<exists>j < 2 ^ l. st (2 ^ l + j - 1) = FreeBlk \<and> lh_next (bd_heap a (free_head a l)) = blk m a l j"
proof -
  from assms(1) obtain F where F: "family dlist (bd_heap a) (bd_num_levels a) (free_head a) F"
    and S: "set (F l) = free_addrs m a st l" using assms(2) by (auto simp: lists_rel_def)
  have e: "list_empty (bd_heap a) (free_head a l) \<longleftrightarrow> free_addrs m a st l = {}"
    using ll.family_empty [OF F assms(2)] S by (metis set_empty)
  then show "list_empty (bd_heap a) (free_head a l) \<longleftrightarrow> (\<forall>j < 2 ^ l. st (2 ^ l + j - 1) \<noteq> FreeBlk)"
    by (auto simp: free_addrs_def)
  assume ne: "\<not> list_empty (bd_heap a) (free_head a l)"
  then have "F l \<noteq> []" using ll.family_empty [OF F assms(2)] by simp
  then have "lh_next (bd_heap a (free_head a l)) \<in> free_addrs m a st l"
    using ll.family_first [OF F assms(2)] S hd_in_set by metis
  then show "\<exists>j < 2 ^ l. st (2 ^ l + j - 1) = FreeBlk \<and> lh_next (bd_heap a (free_head a l)) = blk m a l j"
    by (auto simp: free_addrs_def)
qed

lemma find_free_level_Some:
  "find_free_level a level = Some k \<Longrightarrow> k \<le> level \<and> \<not> list_empty (bd_heap a) (free_head a k)"
  by (induction level) (auto split: if_splits)

lemma find_free_level_None:
  "find_free_level a level = None \<Longrightarrow> k \<le> level \<Longrightarrow> list_empty (bd_heap a) (free_head a k)"
  by (induction level) (auto split: if_splits simp: le_Suc_eq)

lemma blk_nonzero:
  assumes "geom m q a" and "l \<le> m" and "j < 2 ^ l"
  shows "blk m a l j \<noteq> 0"
proof -
  have "0 < unat (blk m a l j)" using unat_blk [OF assms] assms(1) by (simp add: geom_def)
  then show ?thesis by (simp add: unat_gt_0)
qed

lemma rel_settle:
  assumes rel: "buddy_rel m q a st (stale n) {}" and n: "n = 2 ^ l + i - 1" and i: "i < 2 ^ l"
    and L: "l < bd_num_levels a"
  shows "buddy_rel m q (if 0 < l then a\<lparr>bd_block_info := bitmap_toggle (bd_block_info a) (free_bit (of_nat n))\<rparr>
           else a) st {} {}"
proof (cases "l = 0")
  case True
  with n i have "n = 0" by simp
  with rel True show ?thesis by (simp add: stale_def)
next
  case False
  have g: "geom m q a" using rel by (simp add: buddy_rel_def)
  have n0: "0 < n" using n node_pos [of l i] False by simp
  have nb: "n < 2 ^ bd_num_levels a - 1" using node_bound [OF L i] n by simp
  then have "n < 2 ^ 64" using index_bound [OF geom_L [OF g], of n] by linarith
  note fb = free_bit_of_nat [OF n0 this]
  have pi: "(n - 1) div 2 < 2 ^ (bd_num_levels a - 1) - 1"
    by (rule parent_internal [OF nb n0]) (use L in simp)
  have fl: "flip (stale n) ((n - 1) div 2) = {}" using n0 by (simp add: stale_def)
  show ?thesis using rel_toggle [OF rel pi, unfolded fl, folded fb] False by simp
qed

lemma buddy_level_alloc_rel:
  assumes rel: "buddy_rel m q a st {} {}" and L: "level < bd_num_levels a"
  shows "(\<forall>k \<le> level. \<forall>j < 2 ^ k. st (2 ^ k + j - 1) \<noteq> FreeBlk) \<and> buddy_level_alloc a level = (0, a) \<or>
    (\<exists>a' st' i n. i < 2 ^ level \<and> n = 2 ^ level + i - 1 \<and> buddy_level_alloc a level = (blk m a level i, a') \<and>
       blk m a level i \<noteq> 0 \<and> buddy_rel m q a' st' {} {} \<and> st' n = UsedBlk \<and> same_geometry a a' \<and>
       used_pages (bd_num_levels a) st' = used_pages (bd_num_levels a) st \<union> node_pages (bd_num_levels a) n \<and>
       used_pages (bd_num_levels a) st \<inter> node_pages (bd_num_levels a) n = {} \<and>
       (\<forall>k. st k = UsedBlk \<longrightarrow> st' k = UsedBlk))"
proof (cases "find_free_level a level")
  case None
  have ls: "lists_rel m a st" using rel by (simp add: buddy_rel_def)
  have "\<forall>k \<le> level. \<forall>j < 2 ^ k. st (2 ^ k + j - 1) \<noteq> FreeBlk"
    using find_free_level_None [OF None] lists_head(1) [OF ls] L by auto
  with None show ?thesis by (intro disjI1) (simp add: buddy_level_alloc_def)
next
  case (Some k)
  let ?L = "bd_num_levels a"
  from rel have g: "geom m q a" and ls: "lists_rel m a st" and t: "tree_ok ?L st"
    by (auto simp: buddy_rel_def)
  note k = find_free_level_Some [OF Some]
  have kL: "k < ?L" using k L by simp
  from lists_head(2) [OF ls kL] k obtain j where j: "j < 2 ^ k" "st (2 ^ k + j - 1) = FreeBlk"
    and nx: "lh_next (bd_heap a (free_head a k)) = blk m a k j" by blast
  define n where n: "n = 2 ^ k + j - 1"
  let ?a1 = "a\<lparr>bd_heap := list_del (blk m a k j) (bd_heap a)\<rparr>"
  let ?st1 = "st(n := UsedBlk)"
  have f: "st n = FreeBlk" using j(2) n by simp
  note r1 = rel_take [OF rel kL j(1) n f]
  obtain d where d: "level = k + d" using k le_Suc_ex by blast
  have L1: "k + d < bd_num_levels ?a1" using L d by simp
  have La: "bd_num_levels ?a1 = ?L" by simp
  have ba: "blk m ?a1 = blk m a" by (simp add: blk_def fun_eq_iff)
  have u1: "?st1 n = UsedBlk" by simp
  from split_loop_rel [OF r1 n j(1) u1 L1, unfolded La ba]
  obtain a' st' n' where sl: "n' = 2 ^ (k + d) + j * 2 ^ d - 1"
      "split_loop ?a1 (blk m a k j) (of_nat n) k (k + d) = (a', of_nat n')"
      "buddy_rel m q a' st' (stale n') {}" "st' n' = UsedBlk" "same_geometry ?a1 a'"
      "used_pages ?L st' = (used_pages ?L ?st1 - node_pages ?L n) \<union> node_pages ?L n'"
      "node_pages ?L n' \<subseteq> node_pages ?L n"
      "\<forall>k. ?st1 k = UsedBlk \<longrightarrow> k \<noteq> n \<longrightarrow> st' k = UsedBlk"
    by (elim exE conjE) (rule that)
  define i where i: "i = j * 2 ^ d"
  have il: "i < 2 ^ level" using j(1) unfolding i d power_add by simp
  have pt: "blk m a k j = blk m a level i"
  proof -
    have "m - k = d + (m - level)" using geom_level [OF g L] d by simp
    then show ?thesis unfolding blk_def i by (simp add: power_add)
  qed
  have bi: "buddy_block_index ?a1 (blk m a k j) k = of_nat n"
    using buddy_block_index_blk [OF g kL j(1)] n by (simp add: buddy_block_index_def buddy_page_index_def)
  have nz: "blk m a level i \<noteq> 0" by (rule blk_nonzero [OF g _ il]) (use geom_level [OF g L] in simp)
  let ?a2 = "if 0 < level then a'\<lparr>bd_block_info := bitmap_toggle (bd_block_info a') (free_bit (of_nat n'))\<rparr> else a'"
  have al: "buddy_level_alloc a level = (blk m a level i, ?a2)"
    using Some nx sl(2) nz bi unfolding buddy_level_alloc_def pt d by (simp add: Let_def)
  have n': "n' = 2 ^ level + i - 1" using sl(1) by (simp add: i d)
  have lv: "level < bd_num_levels a'" using sl(5) L by (simp add: same_geometry_def)
  note r2 = rel_settle [OF sl(3) n' il lv]
  have sg: "same_geometry a ?a2" using sl(5) by (simp add: same_geometry_def)
  have us: "used_pages ?L st \<inter> node_pages ?L n = {}" "used_pages ?L ?st1 = used_pages ?L st \<union> node_pages ?L n"
    using used_pages_upd(1,3) [OF t, of n] f by auto
  have "used_pages ?L st' = used_pages ?L st \<union> node_pages ?L n'" "used_pages ?L st \<inter> node_pages ?L n' = {}"
    using sl(6,7) us by auto
  moreover have "st' k = UsedBlk" if "st k = UsedBlk" for k
  proof -
    have "k \<noteq> n" using that f by auto
    with that sl(8) show ?thesis by simp
  qed
  ultimately show ?thesis using il n' al nz r2 sl(4) sg by blast
qed

section \<open>Release\<close>

lemma sibling_props:
  assumes "j < 2 ^ Suc l" and "n = 2 ^ Suc l + j - 1" and "b = 2 ^ Suc l + sibling j - 1"
    and "p = 2 ^ l + j div 2 - 1"
  shows "sibling j < 2 ^ Suc l" and "(n - 1) div 2 = p" and "{n, b} = {2 * p + 1, 2 * p + 2}"
    and "n \<noteq> b" and "j div 2 < 2 ^ l" and "0 < n" and "0 < b" and "(b - 1) div 2 = p"
proof -
  define y where "y = j div 2"
  have P: "(1 :: nat) \<le> 2 ^ l" by simp
  show "j div 2 < 2 ^ l" using assms(1) by simp
  then have y: "y < 2 ^ l" by (simp add: y_def)
  have "even j \<and> j = 2 * y \<or> odd j \<and> j = 2 * y + 1" unfolding y_def by presburger
  then consider "even j" "j = 2 * y" "sibling j = 2 * y + 1" | "odd j" "j = 2 * y + 1" "sibling j = 2 * y"
    by (auto simp: sibling_def)
  then have all: "sibling j < 2 ^ Suc l \<and> (n - 1) div 2 = p \<and> {n, b} = {2 * p + 1, 2 * p + 2} \<and>
      n \<noteq> b \<and> 0 < n \<and> 0 < b \<and> (b - 1) div 2 = p"
  proof cases
    case 1
    with assms P y have "n = 2 * p + 1" "b = 2 * p + 2" "sibling j < 2 ^ Suc l"
      by (simp_all add: y_def [symmetric])
    then show ?thesis by auto
  next
    case 2
    with assms P y have "n = 2 * p + 2" "b = 2 * p + 1" "sibling j < 2 ^ Suc l"
      by (simp_all add: y_def [symmetric])
    then show ?thesis by auto
  qed
  then show "sibling j < 2 ^ Suc l" "(n - 1) div 2 = p" "{n, b} = {2 * p + 1, 2 * p + 2}"
    "n \<noteq> b" "0 < n" "0 < b" "(b - 1) div 2 = p" by blast+
qed

lemma merge_ptr:
  assumes "geom m q a" and "Suc l \<le> m" and "j < 2 ^ Suc l"
  shows "(if blk m a (Suc l) (sibling j) < blk m a (Suc l) j then blk m a (Suc l) (sibling j)
          else blk m a (Suc l) j) = blk m a l (j div 2)"
proof -
  have s: "sibling j < 2 ^ Suc l" using sibling_props(1) [OF assms(3) refl refl refl] .
  have lt: "blk m a (Suc l) (sibling j) < blk m a (Suc l) j \<longleftrightarrow> sibling j < j"
    unfolding word_less_nat_alt unat_blk [OF assms(1,2) s] unat_blk [OF assms(1,2,3)] by simp
  have "even j \<or> odd j" by simp
  then show ?thesis
  proof
    assume "even j"
    then have "2 * (j div 2) = j" "\<not> sibling j < j" by (simp_all add: sibling_def)
    with lt blk_left [OF assms(2), of a "j div 2"] show ?thesis by simp
  next
    assume "odd j"
    then have "2 * (j div 2) = sibling j" "sibling j < j" by (simp_all add: sibling_def odd_pos)
    with lt blk_left [OF assms(2), of a "j div 2"] show ?thesis by simp
  qed
qed

lemma merge_step:
  assumes rel: "buddy_rel m q a st (stale n) Y" and Y: "Y \<subseteq> {n}" and n: "n = 2 ^ Suc l + j - 1"
    and j: "j < 2 ^ Suc l" and u: "st n = UsedBlk" and L: "Suc l < bd_num_levels a"
    and bit: "\<not> bitmap_get (bd_block_info a) (free_bit (of_nat n))" and p: "p = 2 ^ l + j div 2 - 1"
  shows "buddy_rel m q
      (a\<lparr>bd_block_info := (let info1 = bitmap_clear (bd_block_info a) (split_bit a (of_nat n))
           in if l > 0 then bitmap_toggle info1 (free_bit (of_nat p)) else info1),
         bd_heap := list_del (blk m a (Suc l) (sibling j)) (bd_heap a)\<rparr>)
      (st(p := UsedBlk, 2 * p + 1 := Absent, 2 * p + 2 := Absent)) (stale p) {p}" (is "buddy_rel m q ?a ?st _ _")
    and "st p = SplitBlk" and "{st (2 * p + 1), st (2 * p + 2)} = {UsedBlk, FreeBlk}"
    and "p < 2 ^ (bd_num_levels a - 1) - 1"
proof -
  let ?L = "bd_num_levels a"
  define b where b: "b = 2 ^ Suc l + sibling j - 1"
  note sp = sibling_props [OF j n b p]
  from rel have g: "geom m q a" and t: "tree_ok ?L st" and ls: "lists_rel m a st"
    and bt: "bits_rel ?L (bd_block_info a) st (stale n) Y" and h: "heads_outside m a"
    by (auto simp: buddy_rel_def)
  have nb: "n < 2 ^ ?L - 1" using node_bound [OF L j] n by simp
  then have "n < 2 ^ 64" using index_bound [OF geom_L [OF g], of n] by linarith
  note fb = free_bit_of_nat [OF sp(6) this, unfolded sp(2)]
  show pi: "p < 2 ^ (?L - 1) - 1" using parent_internal [OF nb sp(6)] sp(2) L by simp
  have "one_free st p"
    using bits_relD(2) [OF bt pi] bit sp(2,6) by (simp add: pair_of_def fb stale_def)
  then have sb: "st b = FreeBlk" using u sp(3,4) unfolding one_free_def by (auto simp: doubleton_eq_iff)
  then show c: "{st (2 * p + 1), st (2 * p + 2)} = {UsedBlk, FreeBlk}"
    using u sp(3) by (auto simp: doubleton_eq_iff)
  have "st (2 * p + 1) \<noteq> Absent" using c by (auto simp: doubleton_eq_iff)
  then show s: "st p = SplitBlk" using tree_other_children [OF t pi] by blast
  \<comment> \<open>bits\<close>
  have st_eq: "?st = st(n := Absent, b := Absent, p := UsedBlk)"
  proof -
    have "p \<noteq> n" "p \<noteq> b" using sp(2,6,7,8) parent_neq [of n] parent_neq [of b] by auto
    with sp(3) show ?thesis by (auto simp: doubleton_eq_iff fun_eq_iff)
  qed
  have ne: "b \<noteq> n" "p \<noteq> n" "p \<noteq> b" using sp(2,4,6,7,8) parent_neq [of n] parent_neq [of b] by auto
  have "bits_rel ?L (bitmap_clear (bd_block_info a) (of_nat (n + 2 ^ (?L - 1)))) st (stale n) (Y - {n})"
    by (rule bits_clear [OF geom_L [OF g] nb bt]) (simp add: u)
  then have "bits_rel ?L (bitmap_clear (bd_block_info a) (split_bit a (of_nat n))) st {p} {}"
    using Y sp(2,6) by (simp add: split_bit_of_nat [OF g] stale_def subset_singleton_iff del: of_nat_add) auto
  note b1 = this
  from bits_upd [OF b1, of n Absent] u
  have "bits_rel ?L (bitmap_clear (bd_block_info a) (split_bit a (of_nat n))) (st(n := Absent)) {p} {}" by simp
  from bits_upd [OF this, of b Absent] sb ne sp(7,8)
  have "bits_rel ?L (bitmap_clear (bd_block_info a) (split_bit a (of_nat n))) (st(n := Absent, b := Absent)) {} {}"
    by simp
  from bits_upd [OF this, of p UsedBlk] s ne
  have b2: "bits_rel ?L (bitmap_clear (bd_block_info a) (split_bit a (of_nat n))) ?st {} {p}"
    unfolding st_eq by simp
  \<comment> \<open>lists\<close>
  have "lists_rel m (a\<lparr>bd_heap := list_del (blk m a (Suc l) (sibling j)) (bd_heap a)\<rparr>) (st(b := Absent))"
    unfolding b by (rule lists_del [OF ls g L sp(1)]) (use sb b in simp_all)
  then have l1: "lists_rel m (a\<lparr>bd_heap := list_del (blk m a (Suc l) (sibling j)) (bd_heap a)\<rparr>) ?st"
    unfolding st_eq by (rule lists_rel_cong [rotated]) (use u s ne in auto)
  have t1: "tree_ok ?L ?st"
    by (rule tree_ok_merge [OF t s pi]) (use c in \<open>auto simp: doubleton_eq_iff\<close>)
  have r: "buddy_rel m q
      (a\<lparr>bd_block_info := bitmap_clear (bd_block_info a) (split_bit a (of_nat n)),
         bd_heap := list_del (blk m a (Suc l) (sibling j)) (bd_heap a)\<rparr>) ?st {} {p}" (is "buddy_rel m q ?b _ _ _")
    using g h t1 b2 l1
    by (simp add: buddy_rel_def geom_def heads_outside_def free_head_def lists_rel_def free_addrs_def blk_def)
  show "buddy_rel m q ?a ?st (stale p) {p}"
  proof (cases "l = 0")
    case True
    with p j have "p = 0" by (auto simp: less_2_cases_iff)
    with r True show ?thesis by (simp add: stale_def)
  next
    case False
    then have p0: "0 < p" using p node_pos [of l "j div 2"] by simp
    have pb: "p < 2 ^ ?L - 1" using pi pow2_mono_minus [of "?L - 1" ?L] by linarith
    then have "p < 2 ^ 64" using index_bound [OF geom_L [OF g], of p] by linarith
    note fp = free_bit_of_nat [OF p0 this]
    have "(p - 1) div 2 < 2 ^ (bd_num_levels ?b - 1) - 1"
      using parent_internal [OF pb p0] L by simp
    from rel_toggle [OF r this, folded fp] False p0 show ?thesis
      by (simp add: Let_def heap_info_commute stale_def)
  qed
qed

lemma merge_loop_rel:
  assumes "buddy_rel m q a st (stale n) Y" and "Y \<subseteq> {n}" and "n = 2 ^ l + j - 1" and "j < 2 ^ l"
    and "st n = UsedBlk" and "l < bd_num_levels a" and "0 < l \<longrightarrow> bp = blk m a l (sibling j)"
  shows "\<exists>a' st' n' l' j' Y'. merge_loop a (blk m a l j) bp (of_nat n) l = (a', blk m a l' j', of_nat n', l') \<and>
           buddy_rel m q a' st' (stale n') Y' \<and> Y' \<subseteq> {n'} \<and> n' = 2 ^ l' + j' - 1 \<and> j' < 2 ^ l' \<and>
           st' n' = UsedBlk \<and> l' \<le> l \<and> same_geometry a a' \<and>
           used_pages (bd_num_levels a) st' - node_pages (bd_num_levels a) n' =
             used_pages (bd_num_levels a) st - node_pages (bd_num_levels a) n \<and>
           (\<forall>k. st k = UsedBlk \<longrightarrow> k \<noteq> n \<longrightarrow> st' k = UsedBlk \<and> k \<noteq> n')"
  using assms
proof (induction l arbitrary: a st n j Y bp)
  case 0
  then show ?case
    by (intro exI [of _ a] exI [of _ st] exI [of _ n] exI [of _ 0] exI [of _ j] exI [of _ Y]) simp
next
  case (Suc l)
  let ?L = "bd_num_levels a"
  have g: "geom m q a" and t: "tree_ok ?L st" using Suc.prems(1) by (auto simp: buddy_rel_def)
  have lm: "Suc l \<le> m" using geom_level [OF g Suc.prems(6)] by simp
  show ?case
  proof (cases "bitmap_get (bd_block_info a) (free_bit (of_nat n))")
    case True
    with Suc.prems show ?thesis
      by (intro exI [of _ a] exI [of _ st] exI [of _ n] exI [of _ "Suc l"] exI [of _ j] exI [of _ Y]) simp
  next
    case False
    define p where p: "p = 2 ^ l + j div 2 - 1"
    define b where b: "b = 2 ^ Suc l + sibling j - 1"
    note sp = sibling_props [OF Suc.prems(4,3) b p]
    note ms = merge_step [OF Suc.prems(1-6) False p]
    let ?st = "st(p := UsedBlk, 2 * p + 1 := Absent, 2 * p + 2 := Absent)"
    let ?a = "a\<lparr>bd_block_info := (let info1 = bitmap_clear (bd_block_info a) (split_bit a (of_nat n))
           in if l > 0 then bitmap_toggle info1 (free_bit (of_nat p)) else info1),
         bd_heap := list_del (blk m a (Suc l) (sibling j)) (bd_heap a)\<rparr>"
    have bp: "bp = blk m a (Suc l) (sibling j)" using Suc.prems(7) by simp
    have La: "bd_num_levels ?a = ?L" by simp
    have ba: "blk m ?a = blk m a" by (simp add: blk_def fun_eq_iff)
    have up: "?st p = UsedBlk" by simp
    have lL: "l < bd_num_levels ?a" using Suc.prems(6) by simp
    have tb: "0 < l \<longrightarrow> to_buddy a (blk m a l (j div 2)) l = blk m ?a l (sibling (j div 2))"
      unfolding ba using to_buddy_blk [OF g _ sp(5)] lm by simp
    from Suc.IH [OF ms(1) subset_refl p sp(5) up lL tb, unfolded La ba]
    obtain a' st' n' l' j' Y' where ih:
        "merge_loop ?a (blk m a l (j div 2)) (to_buddy a (blk m a l (j div 2)) l) (of_nat p) l
           = (a', blk m a l' j', of_nat n', l')"
        "buddy_rel m q a' st' (stale n') Y'" "Y' \<subseteq> {n'}" "n' = 2 ^ l' + j' - 1" "j' < 2 ^ l'"
        "st' n' = UsedBlk" "l' \<le> l" "same_geometry ?a a'"
        "used_pages ?L st' - node_pages ?L n' = used_pages ?L ?st - node_pages ?L p"
        "\<forall>k. ?st k = UsedBlk \<longrightarrow> k \<noteq> p \<longrightarrow> st' k = UsedBlk \<and> k \<noteq> n'"
      by (elim exE conjE) (rule that)
    have nb: "n < 2 ^ 64"
      using node_bound [OF Suc.prems(6,4)] Suc.prems(3) index_bound [OF geom_L [OF g], of n] by linarith
    have fi: "drop_bit 1 (of_nat n - 1) = (of_nat p :: u64)"
      using free_bit_of_nat [OF sp(6) nb] sp(2) by (simp add: free_bit_def)
    have e: "merge_loop a (blk m a (Suc l) j) bp (of_nat n) (Suc l) = (a', blk m a l' j', of_nat n', l')"
      using ih(1) False merge_ptr [OF g lm Suc.prems(4)] fi unfolding bp by (simp add: Let_def)
    have u: "used_pages ?L ?st - node_pages ?L p = used_pages ?L st - node_pages ?L n"
    proof -
      have "used_pages ?L ?st = used_pages ?L st \<union> node_pages ?L p"
        by (rule used_pages_merge [OF t ms(2) ms(4) ms(3)])
      moreover have "node_pages ?L p = node_pages ?L n \<union> node_pages ?L b"
        using node_pages_children(1) [OF ms(4)] sp(3) by (auto simp: doubleton_eq_iff)
      moreover have "st b = FreeBlk" using ms(3) sp(3) Suc.prems(5) by (auto simp: doubleton_eq_iff)
      then have "used_pages ?L st \<inter> node_pages ?L b = {}" using used_pages_upd(3) [OF t] by blast
      ultimately show ?thesis by blast
    qed
    have k: "st' k = UsedBlk \<and> k \<noteq> n'" if "st k = UsedBlk" "k \<noteq> n" for k
    proof -
      have "k \<noteq> p" using that(1) ms(2) by auto
      moreover have "k \<noteq> 2 * p + 1" "k \<noteq> 2 * p + 2"
        using that ms(3) sp(3) Suc.prems(5) by (auto simp: doubleton_eq_iff)
      ultimately show ?thesis using ih(10) that(1) by simp
    qed
    have sg: "same_geometry a a'" using ih(8) by (simp add: same_geometry_def)
    show ?thesis
      by (intro exI [of _ a'] exI [of _ st'] exI [of _ n'] exI [of _ l'] exI [of _ j'] exI [of _ Y'])
         (use e ih(2-7,9) u k sg in auto)
  qed
qed

lemma buddy_level_free_rel:
  assumes rel: "buddy_rel m q a st {} {}" and n: "n = 2 ^ level + j - 1" and j: "j < 2 ^ level"
    and u: "st n = UsedBlk" and L: "level < bd_num_levels a"
  shows "\<exists>st'. buddy_rel m q (buddy_level_free a (blk m a level j) level) st' {} {} \<and>
           same_geometry a (buddy_level_free a (blk m a level j) level) \<and>
           used_pages (bd_num_levels a) st' = used_pages (bd_num_levels a) st - node_pages (bd_num_levels a) n \<and>
           (\<forall>k. st k = UsedBlk \<longrightarrow> k \<noteq> n \<longrightarrow> st' k = UsedBlk)"
proof -
  let ?L = "bd_num_levels a"
  from rel have g: "geom m q a" by (simp add: buddy_rel_def)
  let ?info = "if level > 0 then bitmap_toggle (bd_block_info a) (free_bit (of_nat n)) else bd_block_info a"
  let ?a1 = "a\<lparr>bd_block_info := ?info\<rparr>"
  have r1: "buddy_rel m q ?a1 st (stale n) {}"
  proof (cases "level = 0")
    case True
    then have "n = 0" using n j by simp
    with rel True show ?thesis by (simp add: stale_def)
  next
    case False
    have n0: "0 < n" using n node_pos [of level j] False by simp
    have nb: "n < 2 ^ ?L - 1" using node_bound [OF L j] n by simp
    then have "n < 2 ^ 64" using index_bound [OF geom_L [OF g], of n] by linarith
    note fb = free_bit_of_nat [OF n0 this]
    have "(n - 1) div 2 < 2 ^ (?L - 1) - 1" by (rule parent_internal [OF nb n0]) (use L in simp)
    from rel_toggle [OF rel this, folded fb] False n0 show ?thesis by (simp add: stale_def)
  qed
  have L1: "level < bd_num_levels ?a1" using L by simp
  have La: "bd_num_levels ?a1 = ?L" and ba: "blk m ?a1 = blk m a" by (simp_all add: blk_def fun_eq_iff)
  have tb: "0 < level \<longrightarrow> to_buddy a (blk m a level j) level = blk m ?a1 level (sibling j)"
    unfolding ba using to_buddy_blk [OF g _ j] geom_level [OF g L] by simp
  from merge_loop_rel [OF r1 empty_subsetI n j u L1 tb, unfolded La ba]
  obtain a' st' n' l' j' Y' where ml:
      "merge_loop ?a1 (blk m a level j) (to_buddy a (blk m a level j) level) (of_nat n) level
         = (a', blk m a l' j', of_nat n', l')"
      "buddy_rel m q a' st' (stale n') Y'" "Y' \<subseteq> {n'}" "n' = 2 ^ l' + j' - 1" "j' < 2 ^ l'"
      "st' n' = UsedBlk" "l' \<le> level" "same_geometry ?a1 a'"
      "used_pages ?L st' - node_pages ?L n' = used_pages ?L st - node_pages ?L n"
      "\<forall>k. st k = UsedBlk \<longrightarrow> k \<noteq> n \<longrightarrow> st' k = UsedBlk \<and> k \<noteq> n'"
    by (elim exE conjE) (rule that)
  have sg: "same_geometry a a'" using ml(8) by (simp add: same_geometry_def)
  then have L': "bd_num_levels a' = ?L" and ba': "blk m a' = blk m a" and lL: "l' < bd_num_levels a'"
    using L ml(7) by (auto simp: same_geometry_def blk_def fun_eq_iff)
  from ml(2) have g': "geom m q a'" and t': "tree_ok ?L st'" and ls': "lists_rel m a' st'"
    and bt': "bits_rel ?L (bd_block_info a') st' (stale n') Y'" and h': "heads_outside m a'"
    by (auto simp: buddy_rel_def L')
  let ?a2 = "a'\<lparr>bd_block_info := bitmap_clear (bd_block_info a') (split_bit a' (of_nat n')),
                bd_heap := list_add (blk m a l' j') (free_head a' l') (bd_heap a')\<rparr>"
  have f: "buddy_level_free a (blk m a level j) level = ?a2"
    unfolding buddy_level_free_def Let_def buddy_block_index_blk [OF g L j] n [symmetric] ml(1) by simp
  have nb': "n' < 2 ^ ?L - 1" using node_bound [of l' ?L j'] ml(4,5) lL L' by simp
  have "bits_rel ?L (bitmap_clear (bd_block_info a') (of_nat (n' + 2 ^ (?L - 1)))) st' (stale n') (Y' - {n'})"
    by (rule bits_clear [OF geom_L [OF g] nb' bt']) (simp add: ml(6))
  then have "bits_rel ?L (bitmap_clear (bd_block_info a') (split_bit a' (of_nat n'))) st' (stale n') {}"
    using ml(3) by (simp add: split_bit_of_nat [OF g'] L' subset_singleton_iff del: of_nat_add) auto
  from bits_upd [OF this, of n' FreeBlk] ml(6)
  have bf: "bits_rel ?L (bitmap_clear (bd_block_info a') (split_bit a' (of_nat n'))) (st'(n' := FreeBlk)) {} {}"
    by (simp add: stale_def split: if_splits)
  have "blk m a' l' j' \<notin> free_addrs m a' st' k" if "k < bd_num_levels a'" for k
    by (rule live_addr_not_free [OF g' _ lL ml(5) lL _ that])
       (use t' L' ml(4,6) node_path [OF lL ml(5)] in simp_all)
  from lists_add [OF ls' g' h' lL ml(5) this]
  have "lists_rel m (a'\<lparr>bd_heap := list_add (blk m a l' j') (free_head a' l') (bd_heap a')\<rparr>) (st'(n' := FreeBlk))"
    unfolding ba' ml(4) .
  then have "lists_rel m ?a2 (st'(n' := FreeBlk))"
    by (simp add: lists_rel_def free_addrs_def blk_def free_head_def [abs_def])
  moreover have "tree_ok ?L (st'(n' := FreeBlk))" by (rule tree_ok_mark [OF t']) (simp_all add: ml(6))
  ultimately have "buddy_rel m q ?a2 (st'(n' := FreeBlk)) {} {}"
    using g' h' bf by (simp add: buddy_rel_def geom_def heads_outside_def free_head_def L')
  moreover have "used_pages ?L (st'(n' := FreeBlk)) = used_pages ?L st - node_pages ?L n"
    using used_pages_upd(2) [OF t', of n'] ml(6,9) by simp
  moreover have "same_geometry a ?a2" using sg by (simp add: same_geometry_def)
  ultimately show ?thesis unfolding f using ml(10) by (intro exI [of _ "st'(n' := FreeBlk)"]) auto
qed

end
