(* ===== verification/Buddy_Contract.thy ===== *)
theory Buddy_Contract
  imports Buddy_Refinement
begin

text \<open>
  The contract of the buddy allocator.  The block tree that \<open>buddy_rel\<close> ascribes to a concrete
  allocator is unique, so the pages in use are a function of the concrete state and the level
  interface is an instance of the block allocator contract.  Built on it: what \<open>buddy_init\<close>
  establishes, the size interface \<open>buddy_alloc\<close> and \<open>buddy_free\<close>, and the round trips.
\<close>

section \<open>The block tree is determined by the concrete state\<close>

lemma dlist_unique: "dlist h head xs \<Longrightarrow> dlist h head ys \<Longrightarrow> xs = ys"
  using list_for_each_dlist [of h head xs] list_for_each_dlist [of h head ys] by simp

lemma node_exists: "n < 2 ^ L - (1 :: nat) \<Longrightarrow> \<exists>l < L. \<exists>j < 2 ^ l. n = 2 ^ l + j - 1"
proof (induction L)
  case (Suc L)
  show ?case
  proof (cases "n < 2 ^ L - 1")
    case True
    with Suc.IH show ?thesis by (metis less_SucI)
  next
    case False
    have "(1 :: nat) \<le> 2 ^ L" by simp
    with False Suc.prems have "n + 1 - 2 ^ L < 2 ^ L" "n = 2 ^ L + (n + 1 - 2 ^ L) - 1" by auto
    then show ?thesis by blast
  qed
qed simp

lemma pow2_u64_inj:
  assumes "m < 60" and "k < 60" and "(2 :: u64) ^ m = 2 ^ k"
  shows "m = k"
proof -
  have "(of_nat (2 ^ m) :: u64) = of_nat (2 ^ k)" using assms(3) by simp
  moreover have "(2 :: nat) ^ i < 2 ^ 64" if "i < 60" for i
    using that by (intro power_strict_increasing) simp_all
  ultimately have "(2 :: nat) ^ m = 2 ^ k" using of_nat_u64_inj assms(1,2) by blast
  then show ?thesis by simp
qed

lemma free_determined:
  assumes "lists_rel m a st" and "lists_rel m a st'" and g: "geom m q a" and l: "l < bd_num_levels a"
    and j: "j < 2 ^ l"
  shows "st (2 ^ l + j - 1) = FreeBlk \<longleftrightarrow> st' (2 ^ l + j - 1) = FreeBlk"
proof -
  from assms(1) obtain F where F: "dlist (bd_heap a) (free_head a l) (F l)" "set (F l) = free_addrs m a st l"
    using l by (auto simp: lists_rel_def family_def)
  from assms(2) obtain F' where F': "dlist (bd_heap a) (free_head a l) (F' l)" "set (F' l) = free_addrs m a st' l"
    using l by (auto simp: lists_rel_def family_def)
  have "free_addrs m a st l = free_addrs m a st' l" using dlist_unique [OF F(1) F'(1)] F(2) F'(2) by simp
  moreover have "blk m a l j \<in> free_addrs m a s l \<longleftrightarrow> s (2 ^ l + j - 1) = FreeBlk" for s
    using blk_inj [OF g _ _ j] geom_level [OF g l] j by (auto simp: free_addrs_def)
  ultimately show ?thesis by metis
qed

lemma tree_absent_iff:
  assumes "tree_ok L st" and "n < 2 ^ L - 1"
  shows "st n = Absent \<longleftrightarrow> 0 < n \<and> st ((n - 1) div 2) \<noteq> SplitBlk"
proof (cases "n = 0")
  case True
  then show ?thesis using tree_okD(2) [OF assms(1)] by simp
next
  case False
  let ?p = "(n - 1) div 2"
  have p: "?p < 2 ^ (L - 1) - 1" using parent_internal [OF assms(2)] False tree_okD(1) [OF assms(1)] by simp
  have "n = 2 * ?p + 1 \<or> n = 2 * ?p + 2" using False by presburger
  then show ?thesis
    using tree_split_children [OF assms(1) p] tree_other_children [OF assms(1) p] False by (metis gr0I)
qed

lemma buddy_rel_unique:
  assumes r: "buddy_rel m q a st {} {}" and r': "buddy_rel m' q' a st' {} {}"
  shows "m = m'" and "q = q'" and "n < 2 ^ bd_num_levels a - 1 \<Longrightarrow> st n = st' n"
proof -
  let ?L = "bd_num_levels a"
  from r r' have g: "geom m q a" and g': "geom m' q' a" and t: "tree_ok ?L st" "tree_ok ?L st'"
    and b: "bits_rel ?L (bd_block_info a) st {} {}" "bits_rel ?L (bd_block_info a) st' {} {}"
    and ls: "lists_rel m a st" "lists_rel m' a st'" by (auto simp: buddy_rel_def)
  show m: "m = m'" using g g' pow2_u64_inj [of m m'] by (simp add: geom_def)
  show "q = q'" using g g' pow2_u64_inj [of q q'] by (simp add: geom_def)
  have s: "st k = SplitBlk \<longleftrightarrow> st' k = SplitBlk" if "k < 2 ^ ?L - 1" for k
    using bits_relD(1) [OF b(1) that] bits_relD(1) [OF b(2) that] by simp
  assume n: "n < 2 ^ ?L - 1"
  from node_exists [OF n] obtain l j where l: "l < ?L" "j < 2 ^ l" "n = 2 ^ l + j - 1" by blast
  have f: "st n = FreeBlk \<longleftrightarrow> st' n = FreeBlk"
    using free_determined [OF ls(1) _ g l(1,2)] ls(2) m l(3) by simp
  have pa: "(n - 1) div 2 < 2 ^ ?L - 1" using n by linarith
  have ab: "st n = Absent \<longleftrightarrow> st' n = Absent"
    unfolding tree_absent_iff [OF t(1) n] tree_absent_iff [OF t(2) n] using s [OF pa] by simp
  show "st n = st' n" using s [OF n] f ab by (cases "st n"; cases "st' n") auto
qed

definition buddy_used_pages :: "buddy \<Rightarrow> nat set" where
  "buddy_used_pages a = {x. \<exists>m q st. buddy_rel m q a st {} {} \<and> x \<in> used_pages (bd_num_levels a) st}"

definition buddy_block :: "buddy \<Rightarrow> u64 \<Rightarrow> nat \<Rightarrow> nat set" where
  "buddy_block a ptr level = node_pages (bd_num_levels a) (unat (buddy_block_index a ptr level))"

definition buddy_owned :: "buddy \<Rightarrow> u64 \<Rightarrow> nat \<Rightarrow> bool" where
  "buddy_owned a ptr level \<longleftrightarrow> (\<exists>m q st j. buddy_rel m q a st {} {} \<and> level < bd_num_levels a \<and>
     j < 2 ^ level \<and> ptr = blk m a level j \<and> st (2 ^ level + j - 1) = UsedBlk)"

definition buddy_inv :: "nat \<Rightarrow> buddy \<Rightarrow> bool" where
  "buddy_inv K a \<longleftrightarrow> bd_num_levels a = K \<and> (\<exists>m q st. buddy_rel m q a st {} {})"

lemma used_pages_cong:
  assumes "\<And>n. n < 2 ^ L - 1 \<Longrightarrow> st n = st' n"
  shows "used_pages L st = used_pages L st'"
proof -
  have "path_node L x l < 2 ^ L - 1" if "x < 2 ^ (L - 1)" "l < L" for x l
    using path_node_bounds(2) [OF that] pow2_mono_minus [of "Suc l" L] that by linarith
  with assms show ?thesis unfolding used_pages_def by auto
qed

lemma buddy_used_pages_rel:
  assumes "buddy_rel m q a st {} {}"
  shows "buddy_used_pages a = used_pages (bd_num_levels a) st"
  unfolding buddy_used_pages_def
  using assms used_pages_cong [of "bd_num_levels a"] buddy_rel_unique(3) [OF assms] by blast

lemma buddy_block_blk:
  assumes "geom m q a" and "l < bd_num_levels a" and "j < 2 ^ l" and "n = 2 ^ l + j - 1"
  shows "buddy_block a (blk m a l j) l = node_pages (bd_num_levels a) n"
proof -
  have "n < 2 ^ 64"
    using node_bound [OF assms(2,3)] assms(4) index_bound [OF geom_L [OF assms(1)], of n] by linarith
  then show ?thesis using buddy_block_index_blk [OF assms(1-3)] assms(4) by (simp add: buddy_block_def)
qed

lemma node_pages_nonempty:
  assumes "l < L" and "j < 2 ^ l"
  shows "node_pages L (2 ^ l + j - 1) \<noteq> {}"
proof -
  have "j * 2 ^ (L - 1 - l) < 2 ^ (L - 1)" by (rule blk_offset) (use assms in auto)
  with node_path [OF assms] assms(1) show ?thesis unfolding node_pages_def by blast
qed

section \<open>Freeing by address finds the level of the block\<close>

lemma find_split_level_path:
  assumes rel: "buddy_rel m q a st {} {}" and x: "x < 2 ^ (bd_num_levels a - 1)"
    and l: "l < bd_num_levels a" and u: "live (st (path_node (bd_num_levels a) x l))" and k: "l \<le> k" "k < bd_num_levels a"
  shows "find_split_level a (of_nat (path_node (bd_num_levels a) x k)) (Suc k) \<in>
         (if l = 0 then {Some 0, None} else {Some l})"
  using k
proof (induction k)
  case 0
  then show ?case by (simp add: Let_def)
next
  case (Suc k)
  let ?L = "bd_num_levels a" and ?p = "path_node (bd_num_levels a) x"
  from rel have g: "geom m q a" and t: "tree_ok ?L st" and b: "bits_rel ?L (bd_block_info a) st {} {}"
    by (auto simp: buddy_rel_def)
  have nb: "?p i < 2 ^ ?L - 1" if "i < ?L" for i
    using path_node_bounds(2) [OF x that] pow2_mono_minus [of "Suc i" ?L] that by linarith
  have n: "?p (Suc k) < 2 ^ 64" using index_bound [OF geom_L [OF g], of "?p (Suc k)"] nb [OF Suc.prems(2)] by linarith
  have par: "(?p (Suc k) - 1) div 2 = ?p k" using path_node_child [OF Suc.prems(2), of x] by auto
  have pos: "0 < ?p (Suc k)" using path_node_child [OF Suc.prems(2), of x] by auto
  have e: "drop_bit 1 (of_nat (?p (Suc k)) - 1) = (of_nat (?p k) :: u64)"
    using free_bit_of_nat [OF pos n] par by (simp add: free_bit_def)
  have sp: "bitmap_get (bd_block_info a) (split_bit a (of_nat (?p k))) \<longleftrightarrow> st (?p k) = SplitBlk"
    using bits_relD(1) [OF b nb, of k] Suc.prems split_bit_of_nat [OF g, of "?p k"] by (simp add: split_of_def)
  show ?case
  proof (cases "l = Suc k")
    case True
    have "st (?p k) = SplitBlk"
      using tree_absent_iff [OF t nb [OF Suc.prems(2)]] u par pos True by auto
    then show ?thesis unfolding find_split_level.simps(2) [of a _ "Suc k"] e Let_def using sp True by simp
  next
    case False
    with Suc.prems have lk: "l \<le> k" by simp
    have "st (?p k) \<noteq> SplitBlk"
    proof (cases "l = k")
      case True
      with u show ?thesis by auto
    next
      case False
      with lk obtain d where "k = l + Suc d" using less_iff_Suc_add [of l k] by auto
      with path_below_live [OF t x, of l d] u Suc.prems show ?thesis by auto
    qed
    with Suc.IH [OF lk] Suc.prems sp show ?thesis
      unfolding find_split_level.simps(2) [of a _ "Suc k"] e Let_def by simp
  qed
qed

lemma buddy_free_level:
  assumes "buddy_owned a ptr level"
  shows "buddy_free a ptr = buddy_level_free a ptr level"
proof -
  let ?L = "bd_num_levels a"
  from assms obtain m q st j where rel: "buddy_rel m q a st {} {}" and l: "level < ?L" and j: "j < 2 ^ level"
    and p: "ptr = blk m a level j" and u: "st (2 ^ level + j - 1) = UsedBlk"
    unfolding buddy_owned_def by blast
  let ?x = "j * 2 ^ (?L - 1 - level)"
  from rel have g: "geom m q a" by (simp add: buddy_rel_def)
  have x: "?x < 2 ^ (?L - 1)" by (rule blk_offset) (use l j in auto)
  have lm: "level \<le> m" using geom_level [OF g l] by simp
  note un = unat_blk [OF g lm j]
  have "j * 2 ^ (m - level) < 2 ^ m" by (rule blk_offset [OF lm j])
  moreover have "unat (bd_address a + bd_size a) = unat (bd_address a) + 2 ^ m"
  proof -
    have "m < 60" "bd_size a = of_nat (2 ^ m)" "unat (bd_address a) + 2 ^ m < 2 ^ 64" using g by (auto simp: geom_def)
    moreover then have "(2 :: nat) ^ m < 2 ^ 64" by (intro power_strict_increasing) auto
    ultimately show ?thesis by (subst unat_add_no_wrap) (simp_all only: unat_of_nat_u64, simp)
  qed
  ultimately have rng: "\<not> (ptr < bd_address a \<or> ptr > bd_address a + bd_size a)"
    unfolding p word_less_nat_alt un by linarith
  have nz: "ptr \<noteq> 0" using blk_nonzero [OF g lm j] p by simp
  have bi: "buddy_block_index a ptr (?L - 1) = of_nat (path_node ?L ?x (?L - 1))"
  proof -
    have "blk m a level j = blk m a (?L - 1) ?x"
    proof -
      have "m - level = (?L - 1 - level) + (m - (?L - 1))" using l g by (auto simp: geom_def)
      then show ?thesis by (simp add: blk_def power_add mult.assoc)
    qed
    with buddy_block_index_blk [OF g, of "?L - 1" ?x] x l p show ?thesis by (simp add: path_node_def)
  qed
  have "st (path_node ?L ?x level) = UsedBlk" using node_path [OF l j] u by simp
  then have "find_split_level a (buddy_block_index a ptr (?L - 1)) ?L \<in>
        (if level = 0 then {Some 0, None} else {Some level})"
    using find_split_level_path [OF rel x l, of "?L - 1"] l unfolding bi by simp
  with nz rng show ?thesis unfolding buddy_free_def by (auto split: if_splits option.splits)
qed

section \<open>The level interface as a block allocator\<close>

lemma buddy_alloc_contract:
  assumes inv: "buddy_inv K a" and k: "level < K" and e: "buddy_level_alloc a level = (p, a')" and p0: "p \<noteq> 0"
  shows "buddy_inv K a' \<and> buddy_block a p level \<noteq> {} \<and> buddy_block a p level \<inter> buddy_used_pages a = {} \<and>
         buddy_used_pages a' = buddy_used_pages a \<union> buddy_block a p level \<and> same_geometry a a' \<and>
         buddy_owned a' p level \<and> (\<forall>r k. buddy_owned a r k \<longrightarrow> buddy_owned a' r k)"
proof -
  from inv obtain m q st where rel: "buddy_rel m q a st {} {}" and K: "bd_num_levels a = K"
    by (auto simp: buddy_inv_def)
  from rel have g: "geom m q a" by (simp add: buddy_rel_def)
  have lK: "level < bd_num_levels a" using k K by simp
  from buddy_level_alloc_rel [OF rel lK] K e p0 obtain st' i where
    i: "i < 2 ^ level" "p = blk m a level i" and rel': "buddy_rel m q a' st' {} {}" and
    n: "st' (2 ^ level + i - 1) = UsedBlk" and sg: "same_geometry a a'" and
    up: "used_pages K st' = used_pages K st \<union> node_pages K (2 ^ level + i - 1)"
      "used_pages K st \<inter> node_pages K (2 ^ level + i - 1) = {}" and
    keep: "\<forall>k. st k = UsedBlk \<longrightarrow> st' k = UsedBlk" by auto
  have L: "bd_num_levels a' = K" using sg K by (simp add: same_geometry_def)
  have b: "buddy_block a p level = node_pages K (2 ^ level + i - 1)"
    using buddy_block_blk [OF g _ i(1) refl] k K i(2) by simp
  have own: "buddy_owned a' r k" if o: "buddy_owned a r k" for r k
  proof -
    from o obtain m0 q0 st0 j where o: "buddy_rel m0 q0 a st0 {} {}" "k < K" "j < 2 ^ k" "r = blk m0 a k j"
      "st0 (2 ^ k + j - 1) = UsedBlk" using K unfolding buddy_owned_def by blast
    have "st (2 ^ k + j - 1) = UsedBlk" "m0 = m"
      using buddy_rel_unique [OF rel o(1)] node_bound [OF o(2,3)] o(5) K by simp_all
    then show ?thesis unfolding buddy_owned_def L
      using rel' keep o(2-4) same_geometry_blk [OF sg] by metis
  qed
  have "buddy_owned a' p level"
    unfolding buddy_owned_def L using rel' k i n same_geometry_blk [OF sg] by metis
  moreover have "buddy_block a p level \<noteq> {}"
    using node_pages_nonempty [of level K i] k i(1) b by simp
  ultimately show ?thesis
    using buddy_used_pages_rel [OF rel] buddy_used_pages_rel [OF rel'] b up own sg L K rel'
    by (auto simp: buddy_inv_def)
qed

lemma buddy_free_contract:
  assumes inv: "buddy_inv K a" and o: "buddy_owned a p level"
  shows "buddy_inv K (buddy_free a p) \<and> buddy_used_pages (buddy_free a p) = buddy_used_pages a - buddy_block a p level \<and>
         same_geometry a (buddy_free a p) \<and>
         (\<forall>r k. buddy_owned a r k \<longrightarrow> buddy_block a r k \<inter> buddy_block a p level = {} \<longrightarrow> buddy_owned (buddy_free a p) r k)"
proof -
  let ?a' = "buddy_free a p"
  from o inv obtain m q st j where rel: "buddy_rel m q a st {} {}" and l: "level < K" and j: "j < 2 ^ level"
    and p: "p = blk m a level j" and u: "st (2 ^ level + j - 1) = UsedBlk" and K: "bd_num_levels a = K"
    unfolding buddy_owned_def buddy_inv_def by blast
  from rel have g: "geom m q a" by (simp add: buddy_rel_def)
  have lK: "level < bd_num_levels a" using l K by simp
  from buddy_level_free_rel [OF rel refl j u lK] K p buddy_free_level [OF o] obtain st' where
    rel': "buddy_rel m q ?a' st' {} {}" and sg: "same_geometry a ?a'" and
    up: "used_pages K st' = used_pages K st - node_pages K (2 ^ level + j - 1)" and
    keep: "\<forall>k. st k = UsedBlk \<longrightarrow> k \<noteq> 2 ^ level + j - 1 \<longrightarrow> st' k = UsedBlk" by auto
  have L: "bd_num_levels ?a' = K" using sg K by (simp add: same_geometry_def)
  have b: "buddy_block a (blk m a k i) k = node_pages K (2 ^ k + i - 1)" if "k < K" "i < 2 ^ k" for k i
    using buddy_block_blk [OF g _ that(2) refl] that(1) K by simp
  have "buddy_owned ?a' r k" if ro: "buddy_owned a r k" and d: "buddy_block a r k \<inter> buddy_block a p level = {}" for r k
  proof -
    from ro obtain m0 q0 st0 i where ro: "buddy_rel m0 q0 a st0 {} {}" "k < K" "i < 2 ^ k" "r = blk m0 a k i"
      "st0 (2 ^ k + i - 1) = UsedBlk" using K unfolding buddy_owned_def by blast
    have s: "st (2 ^ k + i - 1) = UsedBlk" "m0 = m"
      using buddy_rel_unique [OF rel ro(1)] node_bound [OF ro(2,3)] ro(5) K by simp_all
    have "2 ^ k + i - 1 \<noteq> 2 ^ level + j - 1"
      using d node_pages_nonempty [OF ro(2,3)] unfolding ro(4) s(2) p b [OF ro(2,3)] b [OF l j] by auto
    then have "st' (2 ^ k + i - 1) = UsedBlk" using keep s by simp
    then show ?thesis unfolding buddy_owned_def L
      using rel' ro(2-4) s(2) same_geometry_blk [OF sg] by metis
  qed
  with buddy_used_pages_rel [OF rel] buddy_used_pages_rel [OF rel'] up sg L K rel' show ?thesis
    unfolding p b [OF l j] by (auto simp: buddy_inv_def)
qed

lemma same_geometry_block: "same_geometry a a' \<Longrightarrow> buddy_block a' = buddy_block a"
  by (intro ext) (simp add: same_geometry_def buddy_block_def buddy_block_index_def buddy_page_index_def)

abbreviation buddy_allocates :: "buddy \<Rightarrow> nat \<Rightarrow> u64 \<Rightarrow> buddy \<Rightarrow> bool" where
  "buddy_allocates a level p a' \<equiv> buddy_level_alloc a level = (p, a') \<and> p \<noteq> 0"

abbreviation buddy_frees :: "buddy \<Rightarrow> u64 \<Rightarrow> nat \<Rightarrow> buddy \<Rightarrow> bool" where
  "buddy_frees a p level a' \<equiv> a' = buddy_free a p"

interpretation bud: block_allocator buddy_allocates buddy_frees "\<lambda>level. level < K"
    buddy_used_pages buddy_block buddy_owned "buddy_inv K" for K
proof (unfold_locales, goal_cases)
  case (1 a level p a')
  then show ?case using buddy_alloc_contract [of K a level p a'] same_geometry_block [of a a'] by auto
next
  case (2 a level p a')
  then show ?case using buddy_alloc_contract [of K a level p a'] by auto
next
  case (3 a level p a')
  then show ?case using buddy_free_contract [of K a p level] same_geometry_block [of a a'] by auto
next
  case (4 a level p a' r k)
  then show ?case using buddy_free_contract [of K a p level] by auto
qed

section \<open>Logarithms and levels\<close>

lemma clz_from_exp: "m < n \<Longrightarrow> n \<le> 64 \<Longrightarrow> clz_from n (2 ^ m) = n - 1 - m"
  by (induction n) (auto simp: bit_exp_iff)

lemma ILOG2_exp: "m < 64 \<Longrightarrow> ILOG2 (2 ^ m) = m"
  using clz_from_exp [of m 64] by (simp add: ILOG2_def clzl_def)

lemma unat_ILOG2_diff:
  assumes "n \<le> m" and "m < 60"
  shows "unat (of_nat (ILOG2 (2 ^ m)) - of_nat (ILOG2 (2 ^ n)) :: u64) = m - n"
proof -
  have "of_nat (ILOG2 (2 ^ m)) - of_nat (ILOG2 (2 ^ n)) = (of_nat (m - n) :: u64)"
    using assms by (simp add: ILOG2_exp)
  moreover have "m - n < 2 ^ 64" using assms(2) by simp
  ultimately show ?thesis by (simp only: unat_of_nat_u64)
qed

lemma num_levels_of_exp:
  assumes "q \<le> m" and "m < 60"
  shows "num_levels_of (2 ^ m) (2 ^ q) = m - q + 1"
proof -
  have "of_nat (ILOG2 (2 ^ m)) - of_nat (ILOG2 (2 ^ q)) + 1 = (of_nat (m - q + 1) :: u64)"
    using assms by (simp add: ILOG2_exp)
  moreover have "m - q + 1 < 2 ^ 64" using assms(2) by simp
  ultimately show ?thesis unfolding num_levels_of_def by (simp only: unat_of_nat_u64)
qed

lemma clz_from_bounds:
  "w < 2 ^ n \<Longrightarrow> 0 < w \<Longrightarrow> n \<le> 64 \<Longrightarrow>
     clz_from n (of_nat w) < n \<and> 2 ^ (n - 1 - clz_from n (of_nat w)) \<le> w \<and> w < 2 ^ (n - clz_from n (of_nat w))"
proof (induction n)
  case (Suc n)
  have b: "bit (of_nat w :: u64) n \<longleftrightarrow> 2 ^ n \<le> w"
  proof -
    have "bit (of_nat w :: u64) n \<longleftrightarrow> bit w n" using Suc.prems(3) by (simp add: bit_of_nat_iff)
    also have "\<dots> \<longleftrightarrow> odd (w div 2 ^ n)" by (simp add: bit_iff_odd)
    also have "\<dots> \<longleftrightarrow> 2 ^ n \<le> w"
    proof (cases "2 ^ n \<le> w")
      case True
      then have "w div 2 ^ n = 1" using Suc.prems(1) by (intro div_nat_eqI) simp_all
      with True show ?thesis by simp
    qed simp
    finally show ?thesis .
  qed
  show ?case
  proof (cases "2 ^ n \<le> w")
    case True
    then show ?thesis using b Suc.prems by simp
  next
    case False
    with Suc b show ?thesis by (auto simp: Suc_diff_Suc)
  qed
qed simp

lemma clzl_bounds:
  assumes "0 < unat w"
  shows "clzl w < 64" and "2 ^ (63 - clzl w) \<le> unat w" and "unat w < 2 ^ (64 - clzl w)"
  using clz_from_bounds [of "unat w" 64] assms unat_u64_less [of w] by (auto simp: clzl_def)

lemma int_shl_1_exp: "n < 31 \<Longrightarrow> int_shl_1 n = 2 ^ n"
  unfolding int_shl_1_def by (rule bit_word_eqI) (auto simp: bit_simps bit_exp_iff)

lemma size_to_level_fit:
  assumes g: "geom m q a" and s: "1 < sz" "bd_page_size a \<le> sz" "sz \<le> bd_size a" "sz \<le> 2 ^ 30"
  shows "size_to_level a sz < bd_num_levels a \<and> unat sz \<le> 2 ^ (m - size_to_level a sz) \<and>
         2 ^ (m - size_to_level a sz) < 2 * unat sz"
proof -
  define n where "n = 64 - clzl (sz - 1)"
  have u: "unat (sz - 1) = unat sz - 1" "1 < unat sz"
  proof -
    show "1 < unat sz" using s(1) by (simp add: word_less_nat_alt)
    then have "sz \<noteq> 0" by auto
    then show "unat (sz - 1) = unat sz - 1" by (rule unat_minus_one)
  qed
  have "0 < unat (sz - 1)" using u by simp
  note c = clzl_bounds [OF this]
  have lo: "2 ^ (n - 1) < unat sz" and hi: "unat sz \<le> 2 ^ n" and n0: "0 < n"
    using c u by (auto simp: n_def)
  have up: "unat (2 ^ i :: u64) = 2 ^ i" if "i < 64" for i
  proof -
    have "(2 :: nat) ^ i < 2 ^ 64" using that by (intro power_strict_increasing) simp_all
    from unat_of_nat_u64 [OF this] show ?thesis by simp
  qed
  have m: "m < 60" "q \<le> m" "bd_size a = 2 ^ m" "bd_page_size a = 2 ^ q" "bd_num_levels a = m - q + 1"
    using g by (auto simp: geom_def)
  have "unat sz \<le> 2 ^ 30" using s(4) up [of 30] by (simp add: word_le_nat_alt)
  with lo have "(2 :: nat) ^ (n - 1) < 2 ^ 30" by linarith
  then have n31: "n < 31" using n0 power_less_imp_less_exp [of "2 :: nat" "n - 1" 30] by linarith
  have "unat sz \<le> 2 ^ m" using s(3) up [of m] m by (simp add: word_le_nat_alt)
  with lo have "(2 :: nat) ^ (n - 1) < 2 ^ m" by linarith
  then have nm: "n \<le> m" using power_less_imp_less_exp [of "2 :: nat" "n - 1" m] by linarith
  have "2 ^ q \<le> unat sz" using s(2) up [of q] m by (simp add: word_le_nat_alt)
  with hi have "(2 :: nat) ^ q \<le> 2 ^ n" by linarith
  then have qn: "q \<le> n" by simp
  have "\<not> sz < bd_page_size a" using s(2) by simp
  then have "size_to_level a sz = unat (of_nat (ILOG2 (2 ^ m)) - of_nat (ILOG2 (2 ^ n)) :: u64)"
    using int_shl_1_exp [OF n31] by (simp add: size_to_level_def m(3) flip: n_def)
  also have "\<dots> = m - n"
    by (rule unat_ILOG2_diff [OF nm m(1)])
  finally have e: "size_to_level a sz = m - n" .
  have "(2 :: nat) ^ n = 2 * 2 ^ (n - 1)" using n0 by (cases n) auto
  with lo have "2 ^ n < 2 * unat sz" by linarith
  then show ?thesis unfolding e using hi nm qn m(5) by auto
qed

section \<open>The fresh allocator\<close>

lemma fold_init_dlist:
  assumes "inj_on H {..<n}" and "i < n"
  shows "dlist (fold (\<lambda>k. INIT_LIST_HEAD (H k)) [0..<n] h) (H i) []"
  using assms
proof (induction n)
  case (Suc n)
  let ?h = "fold (\<lambda>k. INIT_LIST_HEAD (H k)) [0..<n] h"
  have e: "fold (\<lambda>k. INIT_LIST_HEAD (H k)) [0..<Suc n] h = INIT_LIST_HEAD (H n) ?h" by simp
  show ?case
  proof (cases "i = n")
    case True
    then show ?thesis unfolding e by (simp add: dlist_init)
  next
    case False
    with Suc.prems have "H i \<noteq> H n" by (auto simp: inj_on_def)
    then have "INIT_LIST_HEAD (H n) ?h (H i) = ?h (H i)" by (simp add: INIT_LIST_HEAD_def heap_simps)
    then have "dlist (INIT_LIST_HEAD (H n) ?h) (H i) [] = dlist ?h (H i) []" by (intro dlist_cong) simp
    moreover have "dlist ?h (H i) []" using Suc False by (auto simp: inj_on_def)
    ultimately show ?thesis unfolding e by simp
  qed
qed simp

definition fresh_tree :: "nat \<Rightarrow> nstat" where
  "fresh_tree = (\<lambda>_. Absent)(0 := FreeBlk)"

lemma tree_ok_fresh: "0 < L \<Longrightarrow> tree_ok L fresh_tree"
  by (rule tree_okI) (auto simp: fresh_tree_def split: if_splits)

lemma unat_free_head:
  assumes "unat (bd_free_blocks a) + 16 * K < 2 ^ 64" and "l < K"
  shows "unat (free_head a l) = unat (bd_free_blocks a) + 16 * l"
proof -
  have "16 * l < 2 ^ 64" using assms by linarith
  then have "unat (of_nat (16 * l) :: u64) = 16 * l" by (rule unat_of_nat_u64)
  then show ?thesis unfolding free_head_def using assms
    by (subst unat_add_no_wrap) simp_all
qed

lemma bitmap_get_zero: "m (bitmap_word i) = 0 \<Longrightarrow> \<not> bitmap_get m i"
  by (simp add: bitmap_get_def)

lemma buddy_init_rel:
  assumes g: "q \<le> m" "m < 60" "0 < unat address" "unat address + 2 ^ m < 2 ^ 64"
    and w: "unat (self + sizeof_buddy) + 16 * (m - q + 1) < 2 ^ 64"
    and out: "unat (self + sizeof_buddy) + 16 * (m - q + 1) \<le> unat address \<or>
              unat address + 2 ^ m \<le> unat (self + sizeof_buddy)"
  shows "buddy_rel m q (buddy_init self info h address (2 ^ m) (2 ^ q)) fresh_tree {} {}"
proof -
  let ?a = "buddy_init self info h address (2 ^ m) (2 ^ q)" and ?L = "m - q + 1"
  have fields: "bd_address ?a = address" "bd_size ?a = 2 ^ m" "bd_page_size ?a = 2 ^ q" "bd_num_levels ?a = ?L"
    "bd_free_blocks ?a = self + sizeof_buddy"
    using num_levels_of_exp [OF g(1,2)] by (simp_all add: buddy_init_def Let_def)
  have geo: "geom m q ?a" using g fields by (simp add: geom_def)
  have uh: "unat (free_head ?a l) = unat (self + sizeof_buddy) + 16 * l" if "l < ?L" for l
    using unat_free_head [OF _ that, of ?a] w fields by simp
  have heads: "heads_outside m ?a" unfolding heads_outside_def fields using uh out by fastforce
  have info: "\<not> bitmap_get (bd_block_info ?a) (of_nat k)" if "k < 2 ^ ?L + 2 ^ (?L - 1)" for k
  proof (rule bitmap_get_zero)
    have two: "(2 :: nat) ^ ?L = 2 * 2 ^ (m - q)" by simp
    have b: "(2 :: nat) ^ (m - q) \<le> 2 ^ 59" using g by (intro power_increasing) auto
    have k: "k < 2 ^ 64" "k div 64 < 2 ^ ?L" using that two b by simp_all
    have "(2 :: nat) ^ ?L < 2 ^ 64" using g by (intro power_strict_increasing) auto
    moreover have "BUDDY_BLOCK_INFO_LEN ?L = of_nat (2 ^ ?L)" by (simp add: BUDDY_BLOCK_INFO_LEN_def POW2_def)
    ultimately have "unat (BUDDY_BLOCK_INFO_LEN ?L) = 2 ^ ?L" by (simp only: unat_of_nat_u64)
    moreover have "bitmap_word (of_nat k) = of_nat (k div 64)"
      unfolding bitmap_word_def using drop_bit_of_nat_u64 [OF k(1), of 6] by simp
    moreover have "unat (of_nat (k div 64) :: u64) = k div 64" using k(1) by (intro unat_of_nat_u64) linarith
    ultimately have "bitmap_word (of_nat k) < BUDDY_BLOCK_INFO_LEN ?L" using k(2) by (simp add: word_less_nat_alt)
    then show "bd_block_info ?a (bitmap_word (of_nat k)) = 0"
      using num_levels_of_exp [OF g(1,2)] by (simp add: buddy_init_def Let_def)
  qed
  have bits: "bits_rel ?L (bd_block_info ?a) fresh_tree {} {}"
  proof (rule bits_relI)
    fix n assume n: "n < 2 ^ ?L - (1 :: nat)"
    then have "n + 2 ^ (?L - 1) < 2 ^ ?L + 2 ^ (?L - 1)" by linarith
    from info [OF this] show "split_of ?L (bd_block_info ?a) n \<longleftrightarrow> fresh_tree n = SplitBlk"
      by (simp add: split_of_def fresh_tree_def)
  next
    fix p assume "p < 2 ^ (?L - 1) - (1 :: nat)"
    then have "p < 2 ^ ?L + 2 ^ (?L - 1)" by linarith
    from info [OF this] show "pair_of (bd_block_info ?a) p \<longleftrightarrow> (one_free fresh_tree p \<noteq> (p \<in> {}))"
      by (simp add: pair_of_def one_free_def fresh_tree_def)
  qed
  have inj: "inj_on (free_head ?a) {..<?L}"
    by (rule inj_onI) (metis uh lessThan_iff add_left_cancel mult_left_cancel zero_neq_numeral)
  let ?h = "fold (\<lambda>i. INIT_LIST_HEAD (free_head ?a i)) [0..<?L] h"
  have fam: "family dlist ?h ?L (free_head ?a) (\<lambda>_. [])"
    using fold_init_dlist [OF inj] inj by (auto simp: family_def inj_on_def)
  have "\<forall>j < ?L. address \<notin> set (free_head ?a j # [])"
    using heads fields by (auto simp: heads_outside_def)
  from ll.family_add [OF fam _ this, of 0]
  have fam1: "family dlist (list_add address (free_head ?a 0) ?h) ?L (free_head ?a) ((\<lambda>_. [])(0 := [address]))" by simp
  have hp: "bd_heap ?a = list_add address (free_head ?a 0) ?h"
    using num_levels_of_exp [OF g(1,2)] by (simp add: buddy_init_def Let_def free_head_def)
  have addrs: "set (((\<lambda>_. [])(0 := [address])) l) = free_addrs m ?a fresh_tree l" if "l < ?L" for l
  proof (cases "l = 0")
    case True
    then show ?thesis by (auto simp: free_addrs_def fresh_tree_def blk_def fields)
  next
    case False
    have "fresh_tree (2 ^ l + j - 1) \<noteq> FreeBlk" for j
      using node_pos [of l j] False by (auto simp: fresh_tree_def simp del: One_nat_def)
    then show ?thesis using False by (simp add: free_addrs_def del: One_nat_def)
  qed
  have "lists_rel m ?a fresh_tree"
    unfolding lists_rel_def fields hp
    by (rule exI [of _ "(\<lambda>_. [])(0 := [address])"], rule conjI [OF fam1]) (use addrs in blast)
  then show ?thesis unfolding buddy_rel_def fields using geo heads bits tree_ok_fresh [of ?L] by simp
qed

end
