(* ===== verification/Buddy_Properties.thy ===== *)
theory Buddy_Properties
  imports Buddy_Contract
begin

text \<open>
  The accounting of the buddy allocator (the free lists hold exactly the pages that are not in
  use, so \<open>buddy_used\<close> reports the bytes of the live blocks) and its properties.
\<close>

section \<open>Accounting\<close>

definition free_index :: "(nat \<Rightarrow> nstat) \<Rightarrow> nat \<Rightarrow> nat set" where
  "free_index st l = {j. j < 2 ^ l \<and> st (2 ^ l + j - 1) = FreeBlk}"

lemma finite_free_index [simp]: "finite (free_index st l)"
  by (simp add: free_index_def)

lemma node_pages_interval:
  assumes "l < L" and "j < 2 ^ l"
  shows "node_pages L (2 ^ l + j - 1) = {j * 2 ^ (L - 1 - l) ..< (j + 1) * 2 ^ (L - 1 - l)}"
proof (intro set_eqI iffI)
  fix x
  assume "x \<in> node_pages L (2 ^ l + j - 1)"
  then obtain k where k: "x < 2 ^ (L - 1)" "k < L" "path_node L x k = 2 ^ l + j - 1"
    by (auto simp: node_pages_def)
  have "path_node L (j * 2 ^ (L - 1 - l)) l = path_node L x k" using node_path [OF assms] k(3) by simp
  moreover have "j * 2 ^ (L - 1 - l) < 2 ^ (L - 1)" by (rule blk_offset) (use assms in auto)
  ultimately have kl: "k = l" using path_node_level [OF _ k(1) assms(1) k(2)] by metis
  have "x div 2 ^ (L - 1 - l) = j"
    using k(3) unfolding kl path_node_def by (metis add_left_imp_eq diff_add_inverse2 le_add_diff_inverse2 one_le_numeral one_le_power trans_le_add1)
  then show "x \<in> {j * 2 ^ (L - 1 - l) ..< (j + 1) * 2 ^ (L - 1 - l)}"
    by (metis atLeastLessThan_iff div_less_iff_less_mult less_add_one times_div_less_eq_dividend mult.commute zero_less_numeral zero_less_power)
next
  fix x
  assume x: "x \<in> {j * 2 ^ (L - 1 - l) ..< (j + 1) * 2 ^ (L - 1 - l)}"
  then have "x div 2 ^ (L - 1 - l) = j" by (intro div_nat_eqI) (simp_all add: mult.commute)
  then have p: "path_node L x l = 2 ^ l + j - 1" by (simp add: path_node_def)
  have "(j + 1) * 2 ^ (L - 1 - l) \<le> 2 ^ l * 2 ^ (L - 1 - l)" using assms(2) by (intro mult_le_mono1) simp
  also have "\<dots> = 2 ^ (L - 1)" using assms(1) by (simp flip: power_add)
  finally show "x \<in> node_pages L (2 ^ l + j - 1)" unfolding node_pages_def using x p assms(1) by auto
qed

lemma card_node_pages: "l < L \<Longrightarrow> j < 2 ^ l \<Longrightarrow> card (node_pages L (2 ^ l + j - 1)) = 2 ^ (L - 1 - l)"
  unfolding node_pages_interval by simp

lemma card_free_pages:
  assumes t: "tree_ok L st"
  shows "(\<Sum>l < L. card (free_index st l) * 2 ^ (L - 1 - l)) + card (used_pages L st) = 2 ^ (L - 1)"
proof -
  let ?I = "Sigma {..<L} (free_index st)" and ?n = "\<lambda>(l, j). 2 ^ l + j - (1 :: nat)"
  let ?F = "\<Union>i \<in> ?I. node_pages L (?n i)"
  have "card ?F = (\<Sum>i \<in> ?I. card (node_pages L (?n i)))"
  proof (rule card_UN_disjoint)
    show "finite ?I" by (rule finite_SigmaI) simp_all
    show "\<forall>i \<in> ?I. finite (node_pages L (?n i))" by (auto simp: node_pages_def)
    show "\<forall>i \<in> ?I. \<forall>k \<in> ?I. i \<noteq> k \<longrightarrow> node_pages L (?n i) \<inter> node_pages L (?n k) = {}"
    proof (intro ballI impI)
      fix i k
      assume i: "i \<in> ?I" and k: "k \<in> ?I" and ne: "i \<noteq> k"
      obtain l j where il: "i = (l, j)" by (cases i)
      obtain l' j' where kl: "k = (l', j')" by (cases k)
      have "?n i \<noteq> ?n k" using node_inj [of j l j' l'] i k ne unfolding il kl free_index_def by auto
      moreover have "live (st (?n i))" "live (st (?n k))" using i k unfolding il kl free_index_def by auto
      ultimately show "node_pages L (?n i) \<inter> node_pages L (?n k) = {}" by (intro node_pages_disjoint [OF t])
    qed
  qed
  also have "\<dots> = (\<Sum>(l, j) \<in> ?I. 2 ^ (L - 1 - l))"
    using card_node_pages by (intro sum.cong) (auto simp: free_index_def simp del: One_nat_def)
  also have "\<dots> = (\<Sum>l < L. card (free_index st l) * 2 ^ (L - 1 - l))"
    by (subst sum.Sigma [symmetric]) simp_all
  finally have F: "card ?F = (\<Sum>l < L. card (free_index st l) * 2 ^ (L - 1 - l))" .
  have mem: "x \<in> ?F \<longleftrightarrow> x < 2 ^ (L - 1) \<and> (\<exists>l < L. st (path_node L x l) = FreeBlk)" for x
  proof
    assume "x \<in> ?F"
    then obtain l j where "l < L" "j \<in> free_index st l" "x \<in> node_pages L (2 ^ l + j - 1)" by auto
    then show "x < 2 ^ (L - 1) \<and> (\<exists>l < L. st (path_node L x l) = FreeBlk)"
      by (auto simp: node_pages_def free_index_def)
  next
    assume "x < 2 ^ (L - 1) \<and> (\<exists>l < L. st (path_node L x l) = FreeBlk)"
    then obtain l where x: "x < 2 ^ (L - 1)" "l < L" "st (path_node L x l) = FreeBlk" by blast
    let ?j = "x div 2 ^ (L - 1 - l)"
    have "path_node L x l < 2 ^ Suc l - 1" by (rule path_node_bounds(2) [OF x(1,2)])
    then have "?j < 2 ^ l" unfolding path_node_def by simp
    with x have "(l, ?j) \<in> ?I" "x \<in> node_pages L (?n (l, ?j))"
      by (auto simp: free_index_def path_node_def node_pages_def)
    then show "x \<in> ?F" by blast
  qed
  have u: "?F \<union> used_pages L st = {..<2 ^ (L - 1)}"
    using path_live_exists [OF t] unfolding set_eq_iff Un_iff mem by (auto simp: used_pages_def)
  have d: "?F \<inter> used_pages L st = {}"
    using path_live_unique [OF t] unfolding set_eq_iff Int_iff mem by (fastforce simp: used_pages_def)
  have fin: "finite (?F \<union> used_pages L st)" unfolding u by simp
  have "card (?F \<union> used_pages L st) = card ?F + card (used_pages L st)"
    by (rule card_Un_disjoint [OF _ _ d]) (use fin in simp_all)
  then show ?thesis unfolding F u by simp
qed

lemma level_available_rel:
  assumes g: "geom m q a" and ls: "lists_rel m a st" and l: "l < bd_num_levels a"
  shows "level_available a l = Some (of_nat (card (free_index st l) * 2 ^ (m - l)))"
proof -
  from ls obtain F where F: "family dlist (bd_heap a) (bd_num_levels a) (free_head a) F"
    and S: "set (F l) = free_addrs m a st l" using l by (auto simp: lists_rel_def)
  have d: "dlist (bd_heap a) (free_head a l) (F l)" using F l by (simp add: family_def)
  have "length (F l) = card (free_addrs m a st l)"
    using ll.family_distinct [OF F l] S by (metis distinct_card)
  also have "\<dots> = card (free_index st l)"
    unfolding free_addrs_def free_index_def [symmetric]
    by (rule card_image, rule inj_onI, rule blk_inj [OF g, of l])
       (use geom_level [OF g l] in \<open>auto simp: free_index_def\<close>)
  finally have len: "length (F l) = card (free_index st l)" .
  have m: "m < 60" "bd_size a = of_nat (2 ^ m)" "l \<le> m" using g geom_level [OF g l] by (auto simp: geom_def)
  have "(2 :: nat) ^ m < 2 ^ 64" using m by (intro power_strict_increasing) auto
  then have "drop_bit l (bd_size a) = of_nat (2 ^ (m - l))"
    unfolding m(2) by (subst drop_bit_of_nat_u64) (use m(3) in \<open>simp_all add: power_diff\<close>)
  with list_for_each_dlist [OF d] len show ?thesis by (simp add: level_available_def)
qed

lemma buddy_available_rel:
  assumes "buddy_rel m q a st {} {}"
  shows "buddy_available a = Some (of_nat (\<Sum>l < bd_num_levels a. card (free_index st l) * 2 ^ (m - l)))"
proof -
  have g: "geom m q a" "lists_rel m a st" using assms by (auto simp: buddy_rel_def)
  have "k \<le> bd_num_levels a \<Longrightarrow>
    fold (\<lambda>level sum. Option.bind sum (\<lambda>s. map_option (\<lambda>v. s + v) (level_available a level))) [0..<k] (Some 0)
     = Some (of_nat (\<Sum>l < k. card (free_index st l) * 2 ^ (m - l)))" for k
    by (induction k) (simp_all add: level_available_rel [OF g])
  then show ?thesis by (simp add: buddy_available_def)
qed

lemma buddy_used_rel:
  assumes "buddy_rel m q a st {} {}"
  shows "buddy_used a = Some (bd_page_size a * of_nat (card (used_pages (bd_num_levels a) st)))"
proof -
  let ?L = "bd_num_levels a"
  from assms have g: "geom m q a" and t: "tree_ok ?L st" by (auto simp: buddy_rel_def)
  have m: "q \<le> m" "?L - 1 = m - q" "bd_size a = 2 ^ m" "bd_page_size a = 2 ^ q" using g by (auto simp: geom_def)
  let ?S = "\<Sum>l < ?L. card (free_index st l) * 2 ^ (m - l)" and ?P = "\<Sum>l < ?L. card (free_index st l) * 2 ^ (?L - 1 - l)"
  have "(2 :: nat) ^ (m - l) = 2 ^ q * 2 ^ (?L - 1 - l)" if "l < ?L" for l
    using that m(1,2) by (simp flip: power_add)
  then have S: "?S = 2 ^ q * ?P" unfolding sum_distrib_left by (intro sum.cong) simp_all
  have "(2 :: nat) ^ m = 2 ^ q * 2 ^ (?L - 1)" using m(1,2) by (simp flip: power_add)
  also have "\<dots> = 2 ^ q * (?P + card (used_pages ?L st))" by (simp only: card_free_pages [OF t])
  also have "\<dots> = ?S + 2 ^ q * card (used_pages ?L st)" by (simp only: distrib_left S)
  finally have "2 ^ m = ?S + 2 ^ q * card (used_pages ?L st)" .
  then have "(of_nat (2 ^ m) :: u64) - of_nat ?S = of_nat (2 ^ q * card (used_pages ?L st))" by simp
  then show ?thesis using buddy_available_rel [OF assms] m(3,4) by (simp add: buddy_used_def)
qed

section \<open>Properties\<close>

lemma buddy_init_inv:
  assumes "q \<le> m" "m < 60" "0 < unat address" "unat address + 2 ^ m < 2 ^ 64"
    and "unat (self + sizeof_buddy) + 16 * (m - q + 1) < 2 ^ 64"
    and "unat (self + sizeof_buddy) + 16 * (m - q + 1) \<le> unat address \<or>
         unat address + 2 ^ m \<le> unat (self + sizeof_buddy)"
  shows "buddy_inv (m - q + 1) (buddy_init self info h address (2 ^ m) (2 ^ q)) \<and>
         buddy_used_pages (buddy_init self info h address (2 ^ m) (2 ^ q)) = {}"
proof -
  note r = buddy_init_rel [OF assms]
  have "bd_num_levels (buddy_init self info h address (2 ^ m) (2 ^ q)) = m - q + 1"
    using num_levels_of_exp [OF assms(1,2)] by (simp add: buddy_init_def Let_def)
  moreover have "used_pages L fresh_tree = {}" for L by (auto simp: used_pages_def fresh_tree_def split: if_splits)
  ultimately show ?thesis unfolding buddy_inv_def using buddy_used_pages_rel [OF r] r [of info h] by blast
qed


definition demo_buddy :: buddy where
  "demo_buddy = buddy_init 0x100000 (\<lambda>_. 0) (\<lambda>_. \<lparr>lh_prev = 0, lh_next = 0\<rparr>) 0x10000 (2 ^ 14) (2 ^ 12)"

lemma demo_buddy_inv: "buddy_inv 3 demo_buddy"
  using buddy_init_inv [of 12 14 "0x10000" "0x100000"] by (simp add: demo_buddy_def sizeof_buddy_def)




text \<open>For a request of at least a page and at most a gibibyte that fits the region,
  \<open>buddy_alloc\<close> asks for the smallest level of block that holds it: the block is at least as
  large as the request and less than twice as large.\<close>

theorem buddy_alloc_best_fit:
  assumes "buddy_inv K a" and "1 < sz" "bd_page_size a \<le> sz" "sz \<le> bd_size a" "sz \<le> 2 ^ 30"
  shows "\<exists>level < K. buddy_alloc a sz = buddy_level_alloc a level \<and>
           unat sz \<le> unat (bd_size a) div 2 ^ level \<and> unat (bd_size a) div 2 ^ level < 2 * unat sz"
proof -
  from assms(1) obtain m q st where rel: "buddy_rel m q a st {} {}" and K: "bd_num_levels a = K"
    by (auto simp: buddy_inv_def)
  then have g: "geom m q a" by (simp add: buddy_rel_def)
  let ?l = "size_to_level a sz"
  note f = size_to_level_fit [OF g assms(2-5)]
  have "m < 60" "bd_size a = of_nat (2 ^ m)" using g by (auto simp: geom_def)
  moreover have "(2 :: nat) ^ m < 2 ^ 64" using \<open>m < 60\<close> by (intro power_strict_increasing) auto
  ultimately have s: "unat (bd_size a) = 2 ^ m" by (simp only: unat_of_nat_u64)
  have "unat (bd_size a) div 2 ^ ?l = 2 ^ (m - ?l)"
    unfolding s using geom_level [OF g] f by (intro power_diff [symmetric]) auto
  moreover have "buddy_alloc a sz = buddy_level_alloc a ?l" using leD [OF assms(4)] by (simp add: buddy_alloc_def)
  ultimately show ?thesis using f K by auto
qed

theorem buddy_alloc_best_fit_witness:
  "\<exists>level < 3. buddy_alloc demo_buddy 0x1800 = buddy_level_alloc demo_buddy level \<and>
     unat (0x1800 :: u64) \<le> unat (bd_size demo_buddy) div 2 ^ level \<and>
     unat (bd_size demo_buddy) div 2 ^ level < 2 * unat (0x1800 :: u64)"
proof -
  have "bd_page_size demo_buddy = 0x1000" "bd_size demo_buddy = 0x4000"
    by (simp_all add: demo_buddy_def buddy_init_def Let_def)
  with buddy_alloc_best_fit [OF demo_buddy_inv, of "0x1800"] show ?thesis by simp
qed

text \<open>\<open>buddy_used\<close>, computed from the lengths of the free lists, is the page size times the
  number of pages in use: the free lists account for every other page exactly once.\<close>

theorem buddy_used_accounting:
  assumes "buddy_inv K a"
  shows "buddy_used a = Some (bd_page_size a * of_nat (card (buddy_used_pages a)))"
  using assms buddy_used_rel buddy_used_pages_rel by (auto simp: buddy_inv_def)

theorem buddy_used_accounting_witness:
  "buddy_used demo_buddy = Some (bd_page_size demo_buddy * of_nat (card (buddy_used_pages demo_buddy)))"
  by (rule buddy_used_accounting [OF demo_buddy_inv])

end
