(* ===== verification/Strings.thy ===== *)
theory Strings
  imports Omen_Prelude
begin

text \<open>
  The string and memory routines of modules/libraries/std/strings.c and the character classes
  of ctype.c.  Memory is a function from 64-bit addresses to bytes; pointers are addresses.  A
  \<open>char\<close> is a signed byte, so comparisons with an \<open>int\<close> go through \<open>sint\<close>.  Loops bounded by
  a size recurse on that size; loops that run until a zero byte are \<open>partial_function (option)\<close>,
  where \<open>None\<close> means that the loop does not end.
\<close>

type_synonym mem = "u64 \<Rightarrow> u8"

section \<open>Character classes\<close>

definition isupper :: "int \<Rightarrow> bool" where "isupper c \<longleftrightarrow> 65 \<le> c \<and> c \<le> 90"

definition islower :: "int \<Rightarrow> bool" where "islower c \<longleftrightarrow> 97 \<le> c \<and> c \<le> 122"

definition isdigit :: "int \<Rightarrow> bool" where "isdigit c \<longleftrightarrow> 48 \<le> c \<and> c \<le> 57"

definition isalpha :: "int \<Rightarrow> bool" where "isalpha c \<longleftrightarrow> isupper c \<or> islower c"

definition isalnum :: "int \<Rightarrow> bool" where "isalnum c \<longleftrightarrow> isalpha c \<or> isdigit c"

definition iscntrl :: "int \<Rightarrow> bool" where "iscntrl c \<longleftrightarrow> (0 \<le> c \<and> c \<le> 31) \<or> c = 127"

definition isgraph :: "int \<Rightarrow> bool" where "isgraph c \<longleftrightarrow> 33 \<le> c \<and> c \<le> 126"

definition isprint :: "int \<Rightarrow> bool" where "isprint c \<longleftrightarrow> 32 \<le> c \<and> c \<le> 126"

definition ispunct :: "int \<Rightarrow> bool" where "ispunct c \<longleftrightarrow> isgraph c \<and> \<not> isalnum c"

definition isspace :: "int \<Rightarrow> bool" where "isspace c \<longleftrightarrow> c = 32 \<or> c = 9"

definition isxdigit :: "int \<Rightarrow> bool" where
  "isxdigit c \<longleftrightarrow> isdigit c \<or> (97 \<le> c \<and> c \<le> 102) \<or> (65 \<le> c \<and> c \<le> 70)"

definition tolower :: "int \<Rightarrow> int" where "tolower c = (if isupper c then c + 32 else c)"

definition toupper :: "int \<Rightarrow> int" where "toupper c = (if islower c then c - 32 else c)"

section \<open>Memory blocks\<close>

definition memset :: "mem \<Rightarrow> u64 \<Rightarrow> int \<Rightarrow> u64 \<Rightarrow> mem" where
  "memset m dest val sz = fold (\<lambda>i m. m(dest + of_nat i := word_of_int val)) [0..<unat sz] m"

definition memcpy :: "mem \<Rightarrow> u64 \<Rightarrow> u64 \<Rightarrow> u64 \<Rightarrow> mem" where
  "memcpy m dest src sz = fold (\<lambda>i m. m(dest + of_nat i := m (src + of_nat i))) [0..<unat sz] m"

definition memmove :: "mem \<Rightarrow> u64 \<Rightarrow> u64 \<Rightarrow> u64 \<Rightarrow> mem" where
  "memmove m dest src n =
     (if dest < src
      then fold (\<lambda>i m. (m(dest + of_nat i := m (src + of_nat i)))(src + of_nat i := 0)) [0..<unat n] m
      else m)"

definition memcmp :: "mem \<Rightarrow> u64 \<Rightarrow> u64 \<Rightarrow> u64 \<Rightarrow> u64" where
  "memcmp m dest src sz =
     (case List.find (\<lambda>i. m (dest + of_nat i) \<noteq> m (src + of_nat i)) [0..<unat sz] of
        Some _ \<Rightarrow> 1 | None \<Rightarrow> 0)"

definition zerocheck :: "mem \<Rightarrow> u64 \<Rightarrow> u64 \<Rightarrow> int" where
  "zerocheck m dest sz =
     (case List.find (\<lambda>i. m (dest + of_nat i) \<noteq> 0) [0..<unat sz] of
        Some i \<Rightarrow> sint (of_nat i :: u32) | None \<Rightarrow> -1)"

section \<open>Strings\<close>

definition STR_MAX_SIZE :: nat where "STR_MAX_SIZE = 65536"

primrec strlen_loop :: "mem \<Rightarrow> u64 \<Rightarrow> nat \<Rightarrow> u64" where
  "strlen_loop m str 0 = 0"
| "strlen_loop m str (Suc left) = (if m str \<noteq> 0 then 1 + strlen_loop m (str + 1) left else 0)"

definition strlen :: "mem \<Rightarrow> u64 \<Rightarrow> u64" where
  "strlen m str = strlen_loop m str STR_MAX_SIZE"

partial_function (option) skip_to_nul :: "mem \<Rightarrow> u64 \<Rightarrow> u64 option" where
  "skip_to_nul m dest = (if m dest \<noteq> 0 then skip_to_nul m (dest + 1) else Some dest)"

partial_function (option) copy_to_nul :: "mem \<Rightarrow> u64 \<Rightarrow> u64 \<Rightarrow> (mem \<times> u64) option" where
  "copy_to_nul m dest src =
     (if m src \<noteq> 0 then copy_to_nul (m(dest := m src)) (dest + 1) (src + 1) else Some (m, dest))"

definition strcat :: "mem \<Rightarrow> u64 \<Rightarrow> u64 \<Rightarrow> (mem \<times> u64) option" where
  "strcat m dest src =
     Option.bind (skip_to_nul m dest) (\<lambda>d.
     Option.bind (copy_to_nul m d src) (\<lambda>(m', d'). Some (m'(d' := 0), dest)))"

fun ncopy_to_nul :: "mem \<Rightarrow> u64 \<Rightarrow> u64 \<Rightarrow> nat \<Rightarrow> mem \<times> u64" where
  "ncopy_to_nul m dest src 0 = (m, dest)"
| "ncopy_to_nul m dest src (Suc n) =
     (if m src \<noteq> 0 then ncopy_to_nul (m(dest := m src)) (dest + 1) (src + 1) n else (m, dest))"

definition strncat :: "mem \<Rightarrow> u64 \<Rightarrow> u64 \<Rightarrow> u64 \<Rightarrow> (mem \<times> u64) option" where
  "strncat m dest src n =
     Option.bind (skip_to_nul m dest) (\<lambda>d.
     case ncopy_to_nul m d src (unat n) of (m', d') \<Rightarrow> Some (m'(d' := 0), dest))"

partial_function (option) strcpy_loop :: "mem \<Rightarrow> u64 \<Rightarrow> u64 \<Rightarrow> u64 \<Rightarrow> mem option" where
  "strcpy_loop m dest src i =
     (if m (src + i) \<noteq> 0 then strcpy_loop (m(dest + i := m (src + i))) dest src (i + 1)
      else Some (m(dest + i := 0)))"

definition strcpy :: "mem \<Rightarrow> u64 \<Rightarrow> u64 \<Rightarrow> (mem \<times> u64) option" where
  "strcpy m dest src = Option.bind (strcpy_loop m dest src 0) (\<lambda>m'. Some (m', dest))"

fun strncpy_loop :: "mem \<Rightarrow> u64 \<Rightarrow> u64 \<Rightarrow> u64 \<Rightarrow> nat \<Rightarrow> mem" where
  "strncpy_loop m dest src i 0 = m(dest + i := 0)"
| "strncpy_loop m dest src i (Suc n) =
     (if m (src + i) \<noteq> 0 then strncpy_loop (m(dest + i := m (src + i))) dest src (i + 1) n
      else m(dest + i := 0))"

definition strncpy :: "mem \<Rightarrow> u64 \<Rightarrow> u64 \<Rightarrow> u64 \<Rightarrow> mem" where
  "strncpy m dest src n =
     strncpy_loop m dest src 0 (unat (if strlen m src < n then strlen m src else n))"

partial_function (option) strchr :: "mem \<Rightarrow> u64 \<Rightarrow> int \<Rightarrow> u64 option" where
  "strchr m str ch =
     (if m str \<noteq> 0 then if sint (m str) = ch then Some str else strchr m (str + 1) ch
      else if sint (m str) = ch then Some str else Some 0)"

partial_function (option) strrchr_loop :: "mem \<Rightarrow> u64 \<Rightarrow> int \<Rightarrow> u64 \<Rightarrow> u64 option" where
  "strrchr_loop m str ch found =
     (if m str \<noteq> 0 then strrchr_loop m (str + 1) ch (if sint (m str) = ch then str else found)
      else Some (if sint (m str) = ch then str else found))"

definition strrchr :: "mem \<Rightarrow> u64 \<Rightarrow> int \<Rightarrow> u64 option" where
  "strrchr m str ch = strrchr_loop m str ch 0"

partial_function (option) rejects :: "mem \<Rightarrow> u8 \<Rightarrow> u64 \<Rightarrow> bool option" where
  "rejects m c r = (if m r \<noteq> 0 then if c = m r then Some True else rejects m c (r + 1) else Some False)"

partial_function (option) strcspn_loop :: "mem \<Rightarrow> u64 \<Rightarrow> u64 \<Rightarrow> u64 \<Rightarrow> u64 option" where
  "strcspn_loop m s reject cnt =
     (if m s \<noteq> 0
      then Option.bind (rejects m (m s) reject) (\<lambda>hit.
             if hit then Some cnt else strcspn_loop m (s + 1) reject (cnt + 1))
      else Some cnt)"

definition strcspn :: "mem \<Rightarrow> u64 \<Rightarrow> u64 \<Rightarrow> u64 option" where
  "strcspn m str reject = strcspn_loop m str reject 0"

partial_function (option) match_needle :: "mem \<Rightarrow> u64 \<Rightarrow> u64 \<Rightarrow> u64 option" where
  "match_needle m h n = (if m h = m n \<and> m n \<noteq> 0 then match_needle m (h + 1) (n + 1) else Some n)"

partial_function (option) strstr :: "mem \<Rightarrow> u64 \<Rightarrow> u64 \<Rightarrow> u64 option" where
  "strstr m haystack needle =
     (if m haystack \<noteq> 0
      then Option.bind (match_needle m haystack needle) (\<lambda>n.
             if m n = 0 then Some haystack else strstr m (haystack + 1) needle)
      else Some 0)"

partial_function (option) strcmp :: "mem \<Rightarrow> u64 \<Rightarrow> u64 \<Rightarrow> int option" where
  "strcmp m s1 s2 =
     (if m s1 \<noteq> 0 \<and> m s2 \<noteq> 0 \<and> m s1 = m s2 then strcmp m (s1 + 1) (s2 + 1)
      else Some (sint (m s1) - sint (m s2)))"

fun strncmp_loop :: "mem \<Rightarrow> u64 \<Rightarrow> u64 \<Rightarrow> nat \<Rightarrow> int" where
  "strncmp_loop m s1 s2 0 = 0"
| "strncmp_loop m s1 s2 (Suc n) =
     (if m s1 \<noteq> m s2 then uint (m s1) - uint (m s2)
      else if m s1 = 0 then 0 else strncmp_loop m (s1 + 1) (s2 + 1) n)"

definition strncmp :: "mem \<Rightarrow> u64 \<Rightarrow> u64 \<Rightarrow> u64 \<Rightarrow> int" where
  "strncmp m s1 s2 n = strncmp_loop m s1 s2 (unat n)"

section \<open>Numbers\<close>

partial_function (option) skip_space :: "mem \<Rightarrow> u64 \<Rightarrow> u64 option" where
  "skip_space m p = (if isspace (sint (m p)) then skip_space m (p + 1) else Some p)"

partial_function (option) skip_nondigit :: "mem \<Rightarrow> u64 \<Rightarrow> u64 option" where
  "skip_nondigit m p = (if \<not> isdigit (sint (m p)) then skip_nondigit m (p + 1) else Some p)"

definition digit_of :: "int \<Rightarrow> u64" where
  "digit_of c =
     (if isdigit c then word_of_int (c - 48)
      else if isxdigit c then
        if 97 \<le> c \<and> c \<le> 102 then word_of_int (c - 97 + 10)
        else if 65 \<le> c \<and> c \<le> 70 then word_of_int (c - 65 + 10) else 0
      else 0)"

definition atou64 :: "mem \<Rightarrow> u64 \<Rightarrow> u64 option" where
  "atou64 m nptr0 =
     Option.bind (skip_space m nptr0) (\<lambda>p.
     let (base, p1) = (if m p = 48 \<and> m (p + 1) = 120 then (16, p + 2)
                       else if m p = 48 \<and> m (p + 1) = 98 then (2, p + 2) else (10 :: u64, p))
     in Option.bind (skip_nondigit m p1) (\<lambda>nptr.
        let len = strlen m nptr
        in Some (fst (fold (\<lambda>i (result, multiplier).
             (result + digit_of (sint (m (nptr + (len - of_nat i - 1)))) * multiplier, multiplier * base))
             [0..<unat len] (0, 1)))))"

definition atou8 :: "mem \<Rightarrow> u64 \<Rightarrow> u8 option" where
  "atou8 m nptr = map_option ucast (atou64 m nptr)"

partial_function (option) first_nonspace :: "mem \<Rightarrow> u64 \<Rightarrow> (int \<times> u64) option" where
  "first_nonspace m s =
     (let c = sint (m s) in if isspace c then first_nonspace m (s + 1) else Some (c, s + 1))"

partial_function (option) strtoull_loop ::
  "mem \<Rightarrow> int \<Rightarrow> u64 \<Rightarrow> int \<Rightarrow> int \<Rightarrow> u64 \<Rightarrow> u64 \<Rightarrow> int \<Rightarrow> (u64 \<times> int \<times> u64) option" where
  "strtoull_loop m base cutoff cutlim c s acc any =
     (let d = (if isdigit c then Some (c - 48)
               else if isalpha c then Some (c - (if isupper c then 65 - 10 else 97 - 10)) else None)
      in case d of None \<Rightarrow> Some (acc, any, s)
         | Some v \<Rightarrow>
             if v \<ge> base then Some (acc, any, s)
             else if any < 0 \<or> acc > cutoff \<or> (acc = cutoff \<and> v > cutlim)
             then strtoull_loop m base cutoff cutlim (sint (m s)) (s + 1) acc (-1)
             else strtoull_loop m base cutoff cutlim (sint (m s)) (s + 1)
                    (acc * word_of_int base + word_of_int v) 1)"

definition strtoull :: "mem \<Rightarrow> u64 \<Rightarrow> int \<Rightarrow> (u64 \<times> u64) option" where
  "strtoull m nptr base0 =
     Option.bind (first_nonspace m nptr) (\<lambda>(c0, s0).
     let (neg, c1, s1) = (if c0 = 45 then (True, sint (m s0), s0 + 1)
                          else if c0 = 43 then (False, sint (m s0), s0 + 1) else (False, c0, s0));
         hex = ((base0 = 0 \<or> base0 = 16) \<and> c1 = 48 \<and> (m s1 = 120 \<or> m s1 = 88));
         (c2, s2, base1) = (if hex then (sint (m (s1 + 1)), s1 + 2, 16) else (c1, s1, base0));
         base = (if base1 = 0 then if c2 = 48 then 8 else 10 else base1);
         cutoff = (- 1) div word_of_int base;
         cutlim = sint (ucast (((- 1) :: u64) mod word_of_int base) :: u32)
     in Option.bind (strtoull_loop m base cutoff cutlim c2 s2 0 0) (\<lambda>(acc, any, s).
        Some (if any < 0 then - 1 else if neg then - acc else acc,
              if any \<noteq> 0 then s - 1 else nptr)))"

section \<open>Tokens\<close>

text \<open>
  \<open>strtok\<close> keeps \<open>lastToken\<close> between calls.  The scan over the delimiters for one position of
  \<open>lastToken\<close> either returns a token (\<open>Inl\<close>) or ends with the current values (\<open>Inr\<close>); note that
  skipping a leading delimiter continues with the same delimiter.
\<close>

partial_function (option) strtok_delims ::
  "mem \<Rightarrow> u64 \<Rightarrow> u64 \<Rightarrow> u64 \<Rightarrow> (mem \<times> u64 \<times> u64 + mem \<times> u64 \<times> u64) option" where
  "strtok_delims m d tokenStart lastToken =
     (if m d \<noteq> 0
      then if m lastToken = m d
           then let m1 = m(lastToken := 0); lastToken1 = lastToken + 1
                in if tokenStart = lastToken1 - 1 then strtok_delims m1 d lastToken1 lastToken1
                   else Some (Inl (m1, tokenStart, lastToken1))
           else strtok_delims m (d + 1) tokenStart lastToken
      else Some (Inr (m, tokenStart, lastToken)))"

partial_function (option) strtok_loop ::
  "mem \<Rightarrow> u64 \<Rightarrow> u64 \<Rightarrow> u64 \<Rightarrow> (mem \<times> u64 \<times> u64) option" where
  "strtok_loop m delim tokenStart lastToken =
     (if m lastToken \<noteq> 0
      then Option.bind (strtok_delims m delim tokenStart lastToken) (\<lambda>r.
             case r of Inl (m', tok, lt) \<Rightarrow> Some (m', tok, lt)
             | Inr (m', ts, lt) \<Rightarrow> strtok_loop m' delim ts (lt + 1))
      else if tokenStart = lastToken then Some (m, 0, lastToken) else Some (m, tokenStart, lastToken))"

definition strtok :: "mem \<Rightarrow> u64 \<Rightarrow> u64 \<Rightarrow> u64 \<Rightarrow> (mem \<times> u64 \<times> u64) option" where
  "strtok m lastToken s delim =
     (if s \<noteq> 0 then strtok_loop m delim s s
      else if lastToken = 0 then Some (m, 0, lastToken) else strtok_loop m delim lastToken lastToken)"

section \<open>Little-endian accesses\<close>

definition store32 :: "mem \<Rightarrow> u64 \<Rightarrow> u32 \<Rightarrow> mem" where
  "store32 m dest val =
     m(dest := ucast val, dest + 1 := ucast (drop_bit 8 val), dest + 2 := ucast (drop_bit 16 val),
       dest + 3 := ucast (drop_bit 24 val))"

definition store16 :: "mem \<Rightarrow> u64 \<Rightarrow> u16 \<Rightarrow> mem" where
  "store16 m dest val = m(dest := ucast val, dest + 1 := ucast (drop_bit 8 val))"

text \<open>A byte shifted left is an \<open>int\<close>: a 32-bit value that is sign-extended when it meets 64 bits.\<close>

definition int_shl :: "u8 \<Rightarrow> nat \<Rightarrow> u32" where
  "int_shl b n = push_bit n (ucast b)"

definition load64 :: "mem \<Rightarrow> u64 \<Rightarrow> u64" where
  "load64 m src =
     ucast (m src) OR scast (int_shl (m (src + 1)) 8) OR scast (int_shl (m (src + 2)) 16)
       OR scast (int_shl (m (src + 3)) 24)
       OR push_bit 32 (ucast (m (src + 4))) OR push_bit 40 (ucast (m (src + 5)))
       OR push_bit 48 (ucast (m (src + 6))) OR push_bit 56 (ucast (m (src + 7)))"

definition load48 :: "mem \<Rightarrow> u64 \<Rightarrow> u64" where
  "load48 m src =
     ucast (m src) OR scast (int_shl (m (src + 1)) 8) OR scast (int_shl (m (src + 2)) 16)
       OR scast (int_shl (m (src + 3)) 24)
       OR push_bit 32 (ucast (m (src + 4))) OR push_bit 40 (ucast (m (src + 5)))"

definition load32 :: "mem \<Rightarrow> u64 \<Rightarrow> u32" where
  "load32 m src =
     ucast (m src) OR int_shl (m (src + 1)) 8 OR int_shl (m (src + 2)) 16 OR int_shl (m (src + 3)) 24"

definition load16 :: "mem \<Rightarrow> u64 \<Rightarrow> u16" where
  "load16 m src = ucast (m src) OR ucast (int_shl (m (src + 1)) 8)"

section \<open>Strings in memory as lists of bytes\<close>

primrec cstr :: "mem \<Rightarrow> u64 \<Rightarrow> u8 list \<Rightarrow> bool" where
  "cstr m p [] \<longleftrightarrow> m p = 0"
| "cstr m p (c # cs) \<longleftrightarrow> m p = c \<and> c \<noteq> 0 \<and> cstr m (p + 1) cs"

definition span :: "u64 \<Rightarrow> nat \<Rightarrow> u64 set" where
  "span p n = (\<lambda>i. p + of_nat i) ` {..<n}"

lemma span_Suc: "span p (Suc n) = insert p (span (p + 1) n)"
proof -
  have "{..<Suc n} = insert 0 (Suc ` {..<n})" by (simp add: lessThan_Suc_eq_insert_0)
  then show ?thesis by (simp add: span_def image_image add.assoc)
qed

lemma span_self: "0 < n \<Longrightarrow> p \<in> span p n"
  unfolding span_def by (rule image_eqI [of _ _ 0]) simp_all

lemma span_next:
  assumes "n < 2 ^ 64"
  shows "p \<notin> span (p + 1) n"
proof
  assume "p \<in> span (p + 1) n"
  then obtain i where "i < n" and e: "p = p + 1 + of_nat i" by (auto simp: span_def)
  from e have "p + of_nat (Suc i) = p + 0" by (metis add.assoc add.right_neutral of_nat_Suc)
  then have "of_nat (Suc i) = (0 :: u64)" by (simp only: add_left_cancel)
  then have "unat (of_nat (Suc i) :: u64) = 0" by (simp only: unat_0)
  moreover have "unat (of_nat (Suc i) :: u64) = Suc i"
    using \<open>i < n\<close> assms by (intro unat_of_nat_u64) linarith
  ultimately show False by simp
qed

lemma cstr_cong: "(\<And>a. a \<in> span p (Suc (length s)) \<Longrightarrow> m a = m' a) \<Longrightarrow> cstr m p s = cstr m' p s"
proof (induction s arbitrary: p)
  case (Cons c cs)
  have sp: "span p (Suc (length (c # cs))) = insert p (span (p + 1) (Suc (length cs)))"
    using span_Suc [of p "Suc (length cs)"] by simp
  have "m p = m' p" by (rule Cons.prems) (simp add: span_self)
  moreover have "cstr m (p + 1) cs = cstr m' (p + 1) cs"
    by (rule Cons.IH) (use Cons.prems [unfolded sp] in blast)
  ultimately show ?case by simp
qed (simp add: span_self)

lemma cstr_upd: "a \<notin> span p (Suc (length s)) \<Longrightarrow> cstr (m(a := v)) p s = cstr m p s"
  by (rule cstr_cong) auto

lemma sint_inject [simp]: "sint a = sint b \<longleftrightarrow> a = b" "sint a = 0 \<longleftrightarrow> a = 0" for a b :: "'a :: len word"
  by (auto simp: signed_eq_0_iff dest: signed_word_eqI)

lemma strcpy_loop_correct:
  assumes "cstr m (src + i) s" and "length s < 2 ^ 64"
    and "span (dest + i) (Suc (length s)) \<inter> span (src + i) (Suc (length s)) = {}"
  shows "\<exists>m'. strcpy_loop m dest src i = Some m' \<and> cstr m' (dest + i) s \<and>
              (\<forall>a. a \<notin> span (dest + i) (Suc (length s)) \<longrightarrow> m' a = m a)"
  using assms
proof (induction s arbitrary: m i)
  case Nil
  then show ?case by (subst strcpy_loop.simps) (simp add: span_Suc)
next
  case (Cons c cs)
  let ?m = "m(dest + i := c)"
  have c: "m (src + i) = c" "c \<noteq> 0" and cs: "cstr m (src + (i + 1)) cs" using Cons.prems(1) by (simp_all add: add.assoc)
  have sp: "span (p + i) (Suc (length (c # cs))) = insert (p + i) (span (p + (i + 1)) (Suc (length cs)))" for p
    using span_Suc [of "p + i" "Suc (length cs)"] by (simp add: add.assoc)
  have d: "span (dest + (i + 1)) (Suc (length cs)) \<inter> span (src + (i + 1)) (Suc (length cs)) = {}"
    and ds: "dest + i \<notin> span (src + (i + 1)) (Suc (length cs))"
    using Cons.prems(3) unfolding sp by auto
  have cs1: "cstr ?m (src + (i + 1)) cs" by (rule cstr_upd [OF ds, THEN iffD2]) (rule cs)
  have "length cs < 2 ^ 64" using Cons.prems(2) by simp
  from Cons.IH [OF cs1 this d] obtain m' where m': "strcpy_loop ?m dest src (i + 1) = Some m'" "cstr m' (dest + (i + 1)) cs"
    "\<forall>a. a \<notin> span (dest + (i + 1)) (Suc (length cs)) \<longrightarrow> m' a = ?m a" by blast
  have "dest + i \<notin> span (dest + (i + 1)) (Suc (length cs))"
    using span_next [of "Suc (length cs)" "dest + i"] Cons.prems(2) by (simp add: add.assoc)
  with m' have "m' (dest + i) = c" by simp
  moreover have "strcpy_loop m dest src i = Some m'" using m'(1) c by (subst strcpy_loop.simps) simp
  ultimately show ?case using m' c(2) unfolding sp by (auto simp: add.assoc)
qed

lemma strcmp_correct:
  assumes "cstr m p s" and "cstr m q t"
  shows "\<exists>r. strcmp m p q = Some r \<and> (r = 0 \<longleftrightarrow> s = t)"
  using assms
proof (induction s arbitrary: p q t)
  case Nil
  then show ?case by (subst strcmp.simps) (cases t, auto)
next
  case (Cons c cs)
  show ?case
  proof (cases "\<exists>ts. t = c # ts")
    case True
    then obtain ts where t: "t = c # ts" by blast
    with Cons.IH [of "p + 1" "q + 1" ts] Cons.prems show ?thesis by (subst strcmp.simps) simp
  next
    case False
    with Cons.prems have "m p \<noteq> m q" by (cases t) auto
    with False show ?thesis by (subst strcmp.simps) auto
  qed
qed

lemma skip_to_nul_cstr: "cstr m p s \<Longrightarrow> skip_to_nul m p = Some (p + of_nat (length s))"
  by (induction s arbitrary: p) (subst skip_to_nul.simps, simp add: add.assoc)+

lemma strchr_correct:
  assumes "cstr m p s" and "ch = sint c"
  shows "strchr m p ch = Some (if c \<in> set s then p + of_nat (length (takeWhile (\<lambda>x. x \<noteq> c) s))
                               else if c = 0 then p + of_nat (length s) else 0)"
  using assms
proof (induction s arbitrary: p)
  case Nil
  then show ?case by (subst strchr.simps) (auto simp: signed_eq_0_iff)
next
  case (Cons x xs)
  then show ?case by (subst strchr.simps) (auto simp: add.assoc)
qed

section \<open>Little-endian round trips\<close>

lemma store_distinct:
  "dest + 1 \<noteq> dest" "dest + 2 \<noteq> dest" "dest + 3 \<noteq> dest" "dest + 2 \<noteq> dest + 1" "dest + 3 \<noteq> dest + 1"
  "dest + 3 \<noteq> dest + 2" for dest :: u64
  by simp_all

lemma bytes32: "ucast (ucast v :: u8) OR push_bit 8 (ucast (ucast (drop_bit 8 v) :: u8)) OR
    push_bit 16 (ucast (ucast (drop_bit 16 v) :: u8)) OR push_bit 24 (ucast (ucast (drop_bit 24 v) :: u8)) = v"
  for v :: u32
  by (rule bit_word_eqI, rename_tac n, case_tac "24 \<le> n"; case_tac "16 \<le> n") (auto simp: bit_simps)

lemma bytes16: "ucast (ucast v :: u8) OR ucast (push_bit 8 (ucast (ucast (drop_bit 8 v) :: u8)) :: u32) = v"
  for v :: u16
  by (rule bit_word_eqI) (auto simp: bit_simps)

definition le64 :: "mem \<Rightarrow> u64 \<Rightarrow> u64" where
  "le64 m src = ucast (m src) OR push_bit 8 (ucast (m (src + 1))) OR push_bit 16 (ucast (m (src + 2)))
     OR push_bit 24 (ucast (m (src + 3))) OR push_bit 32 (ucast (m (src + 4)))
     OR push_bit 40 (ucast (m (src + 5))) OR push_bit 48 (ucast (m (src + 6))) OR push_bit 56 (ucast (m (src + 7)))"

lemma bit_u8_high: "8 \<le> i \<Longrightarrow> \<not> bit b i" for b :: u8
  using bit_imp_le_length [of b i] by auto

lemma scast_int_shl:
  assumes "k \<le> 16"
  shows "scast (int_shl b k) = (push_bit k (ucast b) :: u64)"
proof (rule bit_word_eqI)
  fix n
  show "bit (scast (int_shl b k) :: u64) n = bit (push_bit k (ucast b) :: u64) n" if "n < LENGTH(64)"
    using assms that bit_u8_high [of _ b] by (cases "n < 31") (auto simp: int_shl_def bit_simps min_def)
qed

lemma scast_int_shl_24:
  "scast (int_shl b 24) = (push_bit 24 (ucast b) OR (if bit b 7 then push_bit 32 (mask 32) else 0) :: u64)"
proof (rule bit_word_eqI)
  fix n
  show "bit (scast (int_shl b 24) :: u64) n =
      bit (push_bit 24 (ucast b) OR (if bit b 7 then push_bit 32 (mask 32) else 0) :: u64) n" if "n < LENGTH(64)"
    using that bit_u8_high [of "n - 24" b]
    by (cases "n < 31"; cases "n = 31") (auto simp: int_shl_def bit_simps min_def)
qed

section \<open>Properties\<close>

text \<open>C16: \<open>strcpy\<close> of a string of length less than \<open>2 ^ 64\<close> between non-overlapping places ends,
  returns the destination, leaves there the bytes of the source string with its terminator, and
  changes no other byte.\<close>

theorem strcpy_copies:
  assumes "cstr m src s" and "length s < 2 ^ 64"
    and "span dest (Suc (length s)) \<inter> span src (Suc (length s)) = {}"
  shows "\<exists>m'. strcpy m dest src = Some (m', dest) \<and> cstr m' dest s \<and> cstr m' src s \<and>
              (\<forall>a. a \<notin> span dest (Suc (length s)) \<longrightarrow> m' a = m a)"
proof -
  from strcpy_loop_correct [of m src 0 s dest] assms obtain m' where
    m': "strcpy_loop m dest src 0 = Some m'" "cstr m' dest s" "\<forall>a. a \<notin> span dest (Suc (length s)) \<longrightarrow> m' a = m a"
    by auto
  have "cstr m' src s = cstr m src s" by (rule cstr_cong) (use m'(3) assms(3) in blast)
  with m' assms(1) show ?thesis by (auto simp: strcpy_def)
qed

definition demo_mem :: mem where
  "demo_mem = (\<lambda>_. 0)(0x100 := 0x6f, 0x101 := 0x6d, 0x200 := 0x6f, 0x201 := 0x6d, 0x202 := 0x21, 0x303 := 0xff)"

theorem strcpy_copies_witness:
  "\<exists>m'. strcpy demo_mem 0x300 0x100 = Some (m', 0x300) \<and> cstr m' 0x300 [0x6f, 0x6d] \<and> cstr m' 0x100 [0x6f, 0x6d] \<and>
        (\<forall>a. a \<notin> span 0x300 3 \<longrightarrow> m' a = demo_mem a)"
proof -
  have "span 0x300 3 = {0x300, 0x301, 0x302}" "span 0x100 3 = {0x100, 0x101, 0x102}"
    by (auto simp: span_def numeral_3_eq_3 lessThan_Suc)
  then show ?thesis
    using strcpy_copies [of demo_mem "0x100" "[0x6f, 0x6d]" "0x300"]
    by (simp add: demo_mem_def flip: numeral_3_eq_3)
qed

text \<open>C17: \<open>strcmp\<close> of two strings in memory ends, and returns zero exactly when the strings are
  equal.\<close>

theorem strcmp_decides_equality:
  assumes "cstr m p s" and "cstr m q t"
  shows "\<exists>r. strcmp m p q = Some r \<and> (r = 0 \<longleftrightarrow> s = t)"
  by (rule strcmp_correct [OF assms])

theorem strcmp_decides_equality_witness:
  "\<exists>r. strcmp demo_mem 0x100 0x200 = Some r \<and> (r = 0 \<longleftrightarrow> [0x6f, 0x6d] = [0x6f, 0x6d, 0x21 :: u8])"
  by (rule strcmp_decides_equality) (simp_all add: demo_mem_def)

text \<open>A value written with \<open>store32\<close> or \<open>store16\<close> is read back by \<open>load32\<close> or \<open>load16\<close>.\<close>

theorem load_store_roundtrip:
  "load32 (store32 m dest v) dest = v \<and> load16 (store16 m dest w) dest = w"
  using bytes32 [of v] bytes16 [of w] store_distinct [of dest]
  by (simp add: load32_def store32_def load16_def store16_def int_shl_def)

text \<open>\<open>load64\<close> reads the little-endian value of the eight bytes, except that when the top bit of
  the fourth byte is set the shifted byte is a negative \<open>int\<close> and all of the upper half of the
  result is ones, whatever the upper four bytes are.\<close>

theorem load64_sign_extends:
  "load64 m src = le64 m src OR (if bit (m (src + 3)) 7 then push_bit 32 (mask 32) else 0)"
  unfolding load64_def le64_def scast_int_shl_24 by (simp add: scast_int_shl ac_simps)

end
