(* ===== verification/Ring.thy ===== *)
theory Ring
  imports Omen_Prelude
begin

text \<open>
  The two byte rings of the kernel: the character fifo of modules/managers/dev/fifo.c and the
  circular list of modules/libraries/basic/circular_list.c, with the contract of a bounded
  queue.  The contents of a ring are the cells from the read index, wrapping at the size.  Both
  rings compute indices modulo the size with a positive size (\<open>register_fifo\<close> passes 1024).
\<close>

type_synonym buf = "u64 \<Rightarrow> u8"

section \<open>Fifo\<close>

record fifo =
  ff_buf :: buf
  ff_head :: u64
  ff_tail :: u64
  ff_size :: u64

definition fifo_alloc :: "bool \<Rightarrow> buf \<Rightarrow> u64 \<Rightarrow> fifo option" where
  "fifo_alloc kmalloc_ok mem sz =
     (if \<not> kmalloc_ok then None else Some \<lparr>ff_buf = mem, ff_head = 0, ff_tail = 0, ff_size = sz\<rparr>)"

definition fifo_put :: "fifo \<Rightarrow> u8 \<Rightarrow> u8 \<times> fifo" where
  "fifo_put f data =
     (if ff_head f = (ff_tail f + 1) mod ff_size f then (0, f)
      else (1, f\<lparr>ff_buf := (ff_buf f)(ff_tail f := data), ff_tail := (ff_tail f + 1) mod ff_size f\<rparr>))"

definition fifo_get :: "fifo \<Rightarrow> u8 \<times> fifo" where
  "fifo_get f =
     (if ff_head f = ff_tail f then (0, f)
      else (ff_buf f (ff_head f), f\<lparr>ff_head := (ff_head f + 1) mod ff_size f\<rparr>))"

definition fifo_size :: "fifo \<Rightarrow> u64" where
  "fifo_size f = (ff_tail f - ff_head f + ff_size f) mod ff_size f"

definition fifo_flush :: "fifo \<Rightarrow> fifo" where
  "fifo_flush f = f\<lparr>ff_head := 0, ff_tail := 0\<rparr>"

section \<open>Circular list\<close>

record circlist =
  cl_buf :: buf
  cl_size :: u64
  cl_head :: u64
  cl_tail :: u64

definition SUCCESS :: int where "SUCCESS = 0"

definition FAILURE :: int where "FAILURE = -1"

definition INVALID_ARGUMENT :: int where "INVALID_ARGUMENT = -2"

text \<open>A null pointer is \<open>None\<close>.\<close>

definition circlist_init :: "circlist option \<Rightarrow> buf option \<Rightarrow> u64 \<Rightarrow> int \<times> circlist option" where
  "circlist_init circ addr sz =
     (case (circ, addr) of
        (Some c, Some a) \<Rightarrow>
          if sz = 0 then (INVALID_ARGUMENT, circ)
          else (SUCCESS, Some (c\<lparr>cl_buf := a, cl_size := sz, cl_head := 0, cl_tail := 0\<rparr>))
      | _ \<Rightarrow> (INVALID_ARGUMENT, circ))"

definition free_space :: "circlist \<Rightarrow> u64" where
  "free_space c =
     (if cl_head c \<ge> cl_tail c then cl_size c - (cl_head c - cl_tail c) else cl_tail c - cl_head c)"

definition circlist_free_space :: "circlist option \<Rightarrow> u64" where
  "circlist_free_space circ = (case circ of None \<Rightarrow> 0 | Some c \<Rightarrow> free_space c)"

definition circlist_used_space :: "circlist option \<Rightarrow> u64" where
  "circlist_used_space circ =
     (case circ of None \<Rightarrow> 0 | Some c \<Rightarrow> cl_size c - circlist_free_space circ)"

partial_function (option) make_space :: "u64 \<Rightarrow> circlist \<Rightarrow> circlist option" where
  "make_space sz c =
     (if free_space c < sz then make_space sz (c\<lparr>cl_tail := (cl_tail c + 1) mod cl_size c\<rparr>) else Some c)"

definition put_byte :: "u8 \<Rightarrow> circlist \<Rightarrow> circlist" where
  "put_byte b c = c\<lparr>cl_buf := (cl_buf c)(cl_head c := b), cl_head := (cl_head c + 1) mod cl_size c\<rparr>"

definition circlist_write :: "circlist option \<Rightarrow> buf option \<Rightarrow> u64 \<Rightarrow> (int \<times> circlist option) option" where
  "circlist_write circ data sz =
     (case (circ, data) of
        (Some c, Some d) \<Rightarrow>
          if sz = 0 \<or> sz > cl_size c then Some (INVALID_ARGUMENT, circ)
          else Option.bind (make_space sz c) (\<lambda>c1.
                 Some (SUCCESS, Some (fold (\<lambda>i. put_byte (d (of_nat i))) [0..<unat sz] c1)))
      | _ \<Rightarrow> Some (INVALID_ARGUMENT, circ))"

definition get_byte :: "nat \<Rightarrow> buf \<times> circlist \<Rightarrow> buf \<times> circlist" where
  "get_byte i = (\<lambda>(d, c). (d(of_nat i := cl_buf c (cl_tail c)), c\<lparr>cl_tail := (cl_tail c + 1) mod cl_size c\<rparr>))"

definition circlist_read :: "circlist option \<Rightarrow> buf option \<Rightarrow> u64 \<Rightarrow> int \<times> circlist option \<times> buf option" where
  "circlist_read circ data sz =
     (case (circ, data) of
        (Some c, Some d) \<Rightarrow>
          if sz = 0 \<or> sz > cl_size c then (INVALID_ARGUMENT, circ, data)
          else if circlist_used_space circ < sz then (FAILURE, circ, data)
          else let (d', c') = fold get_byte [0..<unat sz] (d, c) in (SUCCESS, Some c', Some d')
      | _ \<Rightarrow> (INVALID_ARGUMENT, circ, data))"

definition circlist_is_empty :: "circlist \<Rightarrow> bool" where
  "circlist_is_empty c \<longleftrightarrow> cl_head c = cl_tail c"

definition circlist_is_full :: "circlist \<Rightarrow> bool" where
  "circlist_is_full c \<longleftrightarrow> (cl_head c + 1) mod cl_size c = cl_tail c"

section \<open>Segments of a ring\<close>

definition ring_seg :: "(nat \<Rightarrow> 'a) \<Rightarrow> nat \<Rightarrow> nat \<Rightarrow> nat \<Rightarrow> 'a list" where
  "ring_seg b sz h n = map (\<lambda>i. b ((h + i) mod sz)) [0..<n]"

definition ring_len :: "nat \<Rightarrow> nat \<Rightarrow> nat \<Rightarrow> nat" where
  "ring_len sz h t = (if h \<le> t then t - h else t + sz - h)"

lemma length_ring_seg [simp]: "length (ring_seg b sz h n) = n"
  by (simp add: ring_seg_def)

lemma ring_len_less: "h < sz \<Longrightarrow> t < sz \<Longrightarrow> ring_len sz h t < sz"
  by (auto simp: ring_len_def)

lemma ring_len_end: "h < sz \<Longrightarrow> t < sz \<Longrightarrow> (h + ring_len sz h t) mod sz = t"
  by (auto simp: ring_len_def)

lemma ring_len_0 [simp]: "h < sz \<Longrightarrow> t < sz \<Longrightarrow> ring_len sz h t = 0 \<longleftrightarrow> h = t"
  by (auto simp: ring_len_def)

lemma ring_len_put:
  "h < sz \<Longrightarrow> t < sz \<Longrightarrow> (t + 1) mod sz \<noteq> h \<Longrightarrow> ring_len sz h ((t + 1) mod sz) = ring_len sz h t + 1"
  by (cases "t + 1 = sz") (auto simp: ring_len_def)

lemma ring_len_full: "h < sz \<Longrightarrow> t < sz \<Longrightarrow> (t + 1) mod sz = h \<longleftrightarrow> ring_len sz h t + 1 = sz"
  by (cases "t + 1 = sz") (auto simp: ring_len_def)

lemma ring_len_get:
  "h < sz \<Longrightarrow> t < sz \<Longrightarrow> h \<noteq> t \<Longrightarrow> ring_len sz ((h + 1) mod sz) t + 1 = ring_len sz h t"
  by (cases "h + 1 = sz") (auto simp: ring_len_def)

lemma ring_seg_cong:
  "(\<And>i. i < n \<Longrightarrow> b ((h + i) mod sz) = b' ((h + i) mod sz)) \<Longrightarrow> ring_seg b sz h n = ring_seg b' sz h n"
  by (simp add: ring_seg_def)

lemma ring_index: "h < sz \<Longrightarrow> i < sz \<Longrightarrow> (h + i) mod sz = (if h + i < sz then h + i else h + i - sz)" for sz :: nat
  by (simp add: le_mod_geq)

lemma ring_index_inj:
  "h < sz \<Longrightarrow> i < sz \<Longrightarrow> j < sz \<Longrightarrow> (h + i) mod sz = (h + j) mod sz \<Longrightarrow> i = j" for sz :: nat
  by (auto simp: ring_index split: if_splits)

lemma ring_seg_put:
  assumes "h < sz" "n < sz" "(h + n) mod sz = t"
  shows "ring_seg (b(t := x)) sz h (Suc n) = ring_seg b sz h n @ [x]"
proof -
  have "(h + i) mod sz \<noteq> t" if "i < n" for i
    using ring_index_inj [OF assms(1), of i n] assms(2,3) that by auto
  then show ?thesis using assms(3) by (simp add: ring_seg_def)
qed

lemma ring_seg_get: "h < sz \<Longrightarrow> ring_seg b sz h (Suc n) = b h # ring_seg b sz ((h + 1) mod sz) n"
  unfolding ring_seg_def by (subst upt_conv_Cons) (simp_all add: map_Suc_upt [symmetric] mod_add_left_eq del: upt_Suc)

section \<open>Contract of a bounded queue\<close>

primrec put_all :: "('s \<Rightarrow> 'a \<Rightarrow> bool \<times> 's) \<Rightarrow> 's \<Rightarrow> 'a list \<Rightarrow> 's" where
  "put_all put s [] = s"
| "put_all put s (x # xs) = put_all put (snd (put s x)) xs"

primrec get_all :: "('s \<Rightarrow> 'a \<times> 's) \<Rightarrow> 's \<Rightarrow> nat \<Rightarrow> 'a list" where
  "get_all get s 0 = []"
| "get_all get s (Suc n) = (let (x, s') = get s in x # get_all get s' n)"

locale bounded_queue =
  fixes put :: "'s \<Rightarrow> 'a \<Rightarrow> bool \<times> 's"
    and get :: "'s \<Rightarrow> 'a \<times> 's"
    and contents :: "'s \<Rightarrow> 'a list"
    and capacity :: "'s \<Rightarrow> nat"
    and inv :: "'s \<Rightarrow> bool"
  assumes put_room: "inv s \<Longrightarrow> length (contents s) < capacity s \<Longrightarrow>
      \<exists>s'. put s x = (True, s') \<and> inv s' \<and> contents s' = contents s @ [x] \<and> capacity s' = capacity s"
    and put_full: "inv s \<Longrightarrow> length (contents s) \<ge> capacity s \<Longrightarrow> put s x = (False, s)"
    and get_some: "inv s \<Longrightarrow> contents s = x # xs \<Longrightarrow>
      \<exists>s'. get s = (x, s') \<and> inv s' \<and> contents s' = xs \<and> capacity s' = capacity s"
begin

lemma put_all_contents:
  "inv s \<Longrightarrow> length (contents s) \<le> capacity s \<Longrightarrow>
     inv (put_all put s xs) \<and> contents (put_all put s xs) = take (capacity s) (contents s @ xs) \<and>
     capacity (put_all put s xs) = capacity s"
proof (induction xs arbitrary: s)
  case (Cons x xs)
  show ?case
  proof (cases "length (contents s) < capacity s")
    case True
    from put_room [OF Cons.prems(1) this, of x] obtain s' where
      "put s x = (True, s')" "inv s'" "contents s' = contents s @ [x]" "capacity s' = capacity s" by blast
    with Cons.IH [of s'] True show ?thesis by simp
  next
    case False
    with put_full [OF Cons.prems(1), of x] Cons.IH [OF Cons.prems] Cons.prems(2) show ?thesis by simp
  qed
qed simp

lemma get_all_contents: "inv s \<Longrightarrow> n \<le> length (contents s) \<Longrightarrow> get_all get s n = take n (contents s)"
proof (induction n arbitrary: s)
  case (Suc n)
  then obtain x xs where c: "contents s = x # xs" by (cases "contents s") auto
  from get_some [OF Suc.prems(1) c] obtain s' where "get s = (x, s')" "inv s'" "contents s' = xs" by blast
  with Suc c show ?case by simp
qed simp

lemma fifo_order:
  "inv s \<Longrightarrow> contents s = [] \<Longrightarrow> get_all get (put_all put s xs) (min (capacity s) (length xs)) = take (capacity s) xs"
  using put_all_contents [of s xs] get_all_contents [of "put_all put s xs" "min (capacity s) (length xs)"] by (simp add: min_def)

end

section \<open>The fifo is a bounded queue\<close>

definition fifo_inv :: "fifo \<Rightarrow> bool" where
  "fifo_inv f \<longleftrightarrow> 0 < unat (ff_size f) \<and> unat (ff_size f) \<le> 2 ^ 63 \<and>
     unat (ff_head f) < unat (ff_size f) \<and> unat (ff_tail f) < unat (ff_size f)"

definition fifo_contents :: "fifo \<Rightarrow> u8 list" where
  "fifo_contents f = ring_seg (\<lambda>i. ff_buf f (of_nat i)) (unat (ff_size f)) (unat (ff_head f))
     (ring_len (unat (ff_size f)) (unat (ff_head f)) (unat (ff_tail f)))"

definition fifo_capacity :: "fifo \<Rightarrow> nat" where
  "fifo_capacity f = unat (ff_size f) - 1"

lemma unat_step:
  fixes i sz :: u64
  assumes "unat i < unat sz"
  shows "unat ((i + 1) mod sz) = (unat i + 1) mod unat sz"
proof -
  have "unat i + 1 < 2 ^ 64" using assms unat_u64_less [of sz] by linarith
  then have "unat (i + 1) = unat i + 1" using unat_add_no_wrap [of i 1] by simp
  then show ?thesis by (simp add: unat_mod)
qed

lemma fun_upd_of_nat:
  fixes t :: u64
  assumes "unat t < sz" and "sz \<le> 2 ^ 64" and "i < sz"
  shows "(b(t := x)) (of_nat i) = ((\<lambda>i. b (of_nat i))(unat t := x)) i"
proof -
  have "(of_nat i :: u64) = t \<longleftrightarrow> i = unat t"
    unfolding word_unat_eq_iff [of "of_nat i" t] using assms by (subst unat_of_nat_u64) auto
  then show ?thesis by simp
qed

lemma ring_seg_upd:
  fixes h t :: u64
  assumes "unat h < sz" "unat t < sz" "sz \<le> 2 ^ 64" "n < sz" "(unat h + n) mod sz = unat t"
  shows "ring_seg (\<lambda>i. (b(t := x)) (of_nat i)) sz (unat h) (Suc n) = ring_seg (\<lambda>i. b (of_nat i)) sz (unat h) n @ [x]"
proof -
  have "ring_seg (\<lambda>i. (b(t := x)) (of_nat i)) sz (unat h) (Suc n) =
        ring_seg ((\<lambda>i. b (of_nat i))(unat t := x)) sz (unat h) (Suc n)"
    by (rule ring_seg_cong, rule fun_upd_of_nat) (use assms in auto)
  also have "\<dots> = ring_seg (\<lambda>i. b (of_nat i)) sz (unat h) n @ [x]" by (rule ring_seg_put) (use assms in auto)
  finally show ?thesis .
qed

lemma fifo_put_room:
  assumes inv: "fifo_inv f" and room: "length (fifo_contents f) < fifo_capacity f"
  shows "\<exists>f'. fifo_put f x = (1, f') \<and> fifo_inv f' \<and> fifo_contents f' = fifo_contents f @ [x] \<and>
              fifo_capacity f' = fifo_capacity f"
proof -
  let ?sz = "unat (ff_size f)" and ?h = "unat (ff_head f)" and ?t = "unat (ff_tail f)"
  have i: "?h < ?sz" "?t < ?sz" "?sz \<le> 2 ^ 64" using inv by (auto simp: fifo_inv_def)
  have r: "ring_len ?sz ?h ?t < ?sz - 1" using room by (simp add: fifo_contents_def fifo_capacity_def)
  note st = unat_step [OF i(2)]
  have ne: "(?t + 1) mod ?sz \<noteq> ?h" using ring_len_full [OF i(1,2)] r by auto
  then have g: "ff_head f \<noteq> (ff_tail f + 1) mod ff_size f" using st by metis
  let ?f = "f\<lparr>ff_buf := (ff_buf f)(ff_tail f := x), ff_tail := (ff_tail f + 1) mod ff_size f\<rparr>"
  have "fifo_contents ?f = ring_seg (\<lambda>i. ((ff_buf f)(ff_tail f := x)) (of_nat i)) ?sz ?h (Suc (ring_len ?sz ?h ?t))"
    using ring_len_put [OF i(1,2) ne] st by (simp add: fifo_contents_def)
  also have "\<dots> = fifo_contents f @ [x]"
    unfolding fifo_contents_def by (rule ring_seg_upd [OF i ring_len_less ring_len_end]) (rule i)+
  finally have "fifo_contents ?f = fifo_contents f @ [x]" .
  moreover have "fifo_inv ?f" using inv st by (auto simp: fifo_inv_def)
  ultimately show ?thesis using g by (simp add: fifo_put_def fifo_capacity_def)
qed

lemma fifo_put_full:
  assumes inv: "fifo_inv f" and full: "length (fifo_contents f) \<ge> fifo_capacity f"
  shows "fifo_put f x = (0, f)"
proof -
  let ?sz = "unat (ff_size f)" and ?h = "unat (ff_head f)" and ?t = "unat (ff_tail f)"
  have i: "?h < ?sz" "?t < ?sz" using inv by (auto simp: fifo_inv_def)
  have "ring_len ?sz ?h ?t + 1 = ?sz"
    using full ring_len_less [OF i] by (simp add: fifo_contents_def fifo_capacity_def)
  then have "unat ((ff_tail f + 1) mod ff_size f) = ?h"
    using ring_len_full [OF i] unat_step [OF i(2)] by simp
  then have "ff_head f = (ff_tail f + 1) mod ff_size f" by (intro word_unat_eq_iff [THEN iffD2]) simp
  then show ?thesis by (simp add: fifo_put_def)
qed

lemma fifo_get_some:
  assumes inv: "fifo_inv f" and c: "fifo_contents f = x # xs"
  shows "\<exists>f'. fifo_get f = (x, f') \<and> fifo_inv f' \<and> fifo_contents f' = xs \<and> fifo_capacity f' = fifo_capacity f"
proof -
  let ?sz = "unat (ff_size f)" and ?h = "unat (ff_head f)" and ?t = "unat (ff_tail f)"
  have i: "?h < ?sz" "?t < ?sz" using inv by (auto simp: fifo_inv_def)
  have "length (fifo_contents f) \<noteq> 0" using c by simp
  then have ne: "?h \<noteq> ?t" using ring_len_0 [OF i] by (simp add: fifo_contents_def)
  note st = unat_step [OF i(1)]
  let ?f = "f\<lparr>ff_head := (ff_head f + 1) mod ff_size f\<rparr>"
  have e: "ring_len ?sz ?h ?t = Suc (ring_len ?sz ((?h + 1) mod ?sz) ?t)" using ring_len_get [OF i ne] by simp
  have "fifo_contents f = ff_buf f (ff_head f) # fifo_contents ?f"
    unfolding fifo_contents_def e by (simp add: ring_seg_get [OF i(1)] st)
  moreover have "fifo_inv ?f" using inv st by (auto simp: fifo_inv_def)
  moreover have "ff_head f \<noteq> ff_tail f" using ne by auto
  ultimately show ?thesis using c by (simp add: fifo_get_def fifo_capacity_def)
qed

lemma fifo_size_contents: "fifo_inv f \<Longrightarrow> unat (fifo_size f) = length (fifo_contents f)"
proof -
  let ?sz = "unat (ff_size f)" and ?h = "unat (ff_head f)" and ?t = "unat (ff_tail f)"
  assume inv: "fifo_inv f"
  have "ff_tail f - ff_head f + ff_size f = of_nat (?t + ?sz - ?h)"
    using inv by (simp add: fifo_inv_def)
  moreover have "?t + ?sz - ?h < 2 ^ 64" using inv by (auto simp: fifo_inv_def)
  ultimately have "unat (ff_tail f - ff_head f + ff_size f) = ?t + ?sz - ?h" by (simp only: unat_of_nat_u64)
  then have "unat (fifo_size f) = (?t + ?sz - ?h) mod ?sz" by (simp add: fifo_size_def unat_mod)
  also have "\<dots> = ring_len ?sz ?h ?t"
    using inv by (auto simp: ring_len_def fifo_inv_def le_mod_geq)
  finally show ?thesis by (simp add: fifo_contents_def)
qed

abbreviation fifo_accepts :: "fifo \<Rightarrow> u8 \<Rightarrow> bool \<times> fifo" where
  "fifo_accepts f x \<equiv> (case fifo_put f x of (r, f') \<Rightarrow> (r = 1, f'))"

interpretation ff: bounded_queue fifo_accepts fifo_get fifo_contents fifo_capacity fifo_inv
proof
  fix f x
  assume "fifo_inv f" "length (fifo_contents f) < fifo_capacity f"
  from fifo_put_room [OF this, of x] show "\<exists>s'. fifo_accepts f x = (True, s') \<and> fifo_inv s' \<and>
    fifo_contents s' = fifo_contents f @ [x] \<and> fifo_capacity s' = fifo_capacity f" by auto
next
  fix f x
  assume "fifo_inv f" "fifo_capacity f \<le> length (fifo_contents f)"
  from fifo_put_full [OF this, of x] show "fifo_accepts f x = (False, f)" by simp
next
  fix f x xs
  assume "fifo_inv f" "fifo_contents f = x # xs"
  from fifo_get_some [OF this] show "\<exists>s'. fifo_get f = (x, s') \<and> fifo_inv s' \<and> fifo_contents s' = xs \<and>
    fifo_capacity s' = fifo_capacity f" .
qed

section \<open>Contents of the circular list\<close>

definition circ_inv :: "circlist \<Rightarrow> bool" where
  "circ_inv c \<longleftrightarrow> unat (cl_head c) < unat (cl_size c) \<and> unat (cl_tail c) < unat (cl_size c)"

definition circ_used :: "circlist \<Rightarrow> nat" where
  "circ_used c = ring_len (unat (cl_size c)) (unat (cl_tail c)) (unat (cl_head c))"

definition circ_contents :: "circlist \<Rightarrow> u8 list" where
  "circ_contents c = ring_seg (\<lambda>i. cl_buf c (of_nat i)) (unat (cl_size c)) (unat (cl_tail c)) (circ_used c)"

lemma length_circ_contents [simp]: "length (circ_contents c) = circ_used c"
  by (simp add: circ_contents_def)

lemma circ_used_less: "circ_inv c \<Longrightarrow> circ_used c < unat (cl_size c)"
  using ring_len_less by (simp add: circ_inv_def circ_used_def)

lemma unat_free_space: "circ_inv c \<Longrightarrow> unat (free_space c) = unat (cl_size c) - circ_used c"
  unfolding free_space_def circ_inv_def circ_used_def ring_len_def word_le_nat_alt
  by (auto simp: unat_sub word_le_nat_alt)

lemma unat_used_space: "circ_inv c \<Longrightarrow> unat (circlist_used_space (Some c)) = circ_used c"
  using unat_free_space [of c] circ_used_less [of c]
  by (simp add: circlist_used_space_def circlist_free_space_def unat_sub word_le_nat_alt)

lemma advance_tail:
  assumes inv: "circ_inv c" and ne: "circ_used c \<noteq> 0"
  shows "circ_inv (c\<lparr>cl_tail := (cl_tail c + 1) mod cl_size c\<rparr>)"
    and "circ_contents c = cl_buf c (cl_tail c) # circ_contents (c\<lparr>cl_tail := (cl_tail c + 1) mod cl_size c\<rparr>)"
    and "circ_used c = Suc (circ_used (c\<lparr>cl_tail := (cl_tail c + 1) mod cl_size c\<rparr>))"
proof -
  let ?sz = "unat (cl_size c)" and ?h = "unat (cl_head c)" and ?t = "unat (cl_tail c)"
  let ?c = "c\<lparr>cl_tail := (cl_tail c + 1) mod cl_size c\<rparr>"
  have i: "?t < ?sz" "?h < ?sz" using inv by (auto simp: circ_inv_def)
  have tn: "?t \<noteq> ?h" using ne ring_len_0 [OF i] by (simp add: circ_used_def)
  note st = unat_step [OF i(1)]
  show "circ_inv ?c" using i st by (simp add: circ_inv_def)
  show u: "circ_used c = Suc (circ_used ?c)" using ring_len_get [OF i tn] st by (simp add: circ_used_def)
  show "circ_contents c = cl_buf c (cl_tail c) # circ_contents ?c"
    unfolding circ_contents_def u using st by (simp add: ring_seg_get [OF i(1)])
qed

lemma make_space_correct:
  assumes "circ_inv c" and "unat n \<le> unat (cl_size c)"
  shows "\<exists>c'. make_space n c = Some c' \<and> circ_inv c' \<and> cl_size c' = cl_size c \<and>
              circ_used c' = min (circ_used c) (unat (cl_size c) - unat n) \<and>
              circ_contents c' = drop (circ_used c - circ_used c') (circ_contents c)"
  using assms
proof (induction "circ_used c" arbitrary: c rule: less_induct)
  case less
  show ?case
  proof (cases "free_space c < n")
    case True
    then have lt: "unat (cl_size c) - circ_used c < unat n"
      using unat_free_space [OF less.prems(1)] by (simp add: word_less_nat_alt)
    then have ne: "circ_used c \<noteq> 0" using less.prems(2) by auto
    let ?c = "c\<lparr>cl_tail := (cl_tail c + 1) mod cl_size c\<rparr>"
    note a = advance_tail [OF less.prems(1) ne]
    from less.hyps [of ?c] a less.prems(2) obtain c' where c': "make_space n ?c = Some c'" "circ_inv c'"
      "cl_size c' = cl_size c" "circ_used c' = min (circ_used ?c) (unat (cl_size c) - unat n)"
      "circ_contents c' = drop (circ_used ?c - circ_used c') (circ_contents ?c)" by auto
    have "circ_used c' = min (circ_used c) (unat (cl_size c) - unat n)"
      using c'(4) a(3) lt circ_used_less [OF less.prems(1)] by auto
    moreover have "circ_contents c' = drop (circ_used c - circ_used c') (circ_contents c)"
    proof -
      have "circ_used c - circ_used c' = Suc (circ_used ?c - circ_used c')" using c'(4) a(3) by simp
      then show ?thesis unfolding c'(5) a(2) by simp
    qed
    moreover have "make_space n c = Some c'" using True c'(1) by (subst make_space.simps) simp
    ultimately show ?thesis using c'(2,3) by blast
  next
    case False
    then have "make_space n c = Some c" by (subst make_space.simps) simp
    moreover have "unat n \<le> unat (cl_size c) - circ_used c"
      using False unat_free_space [OF less.prems(1)] by (simp add: word_less_nat_alt not_less)
    ultimately show ?thesis using less.prems circ_used_less [OF less.prems(1)] by auto
  qed
qed

lemma put_byte_room:
  assumes inv: "circ_inv c" and room: "Suc (circ_used c) < unat (cl_size c)"
  shows "circ_inv (put_byte b c) \<and> circ_contents (put_byte b c) = circ_contents c @ [b] \<and>
         circ_used (put_byte b c) = Suc (circ_used c)"
proof -
  let ?sz = "unat (cl_size c)" and ?h = "unat (cl_head c)" and ?t = "unat (cl_tail c)"
  have i: "?t < ?sz" "?h < ?sz" "?sz \<le> 2 ^ 64" using inv unat_u64_less [of "cl_size c"] by (auto simp: circ_inv_def)
  note st = unat_step [OF i(2)]
  have ne: "(?h + 1) mod ?sz \<noteq> ?t" using ring_len_full [OF i(1,2)] room by (auto simp: circ_used_def)
  have u: "circ_used (put_byte b c) = Suc (circ_used c)"
    using ring_len_put [OF i(1,2) ne] st by (simp add: put_byte_def circ_used_def)
  have "circ_contents (put_byte b c) =
      ring_seg (\<lambda>i. ((cl_buf c)(cl_head c := b)) (of_nat i)) ?sz ?t (Suc (circ_used c))"
    unfolding circ_contents_def u by (simp add: put_byte_def)
  also have "\<dots> = circ_contents c @ [b]"
    unfolding circ_contents_def circ_used_def by (rule ring_seg_upd [OF i ring_len_less ring_len_end]) (rule i)+
  finally show ?thesis using u i st by (simp add: circ_inv_def put_byte_def)
qed

lemma put_bytes_room:
  assumes "circ_inv c" and "circ_used c + n < unat (cl_size c)"
  shows "let c' = fold (\<lambda>i. put_byte (d (of_nat i))) [0..<n] c in
         circ_inv c' \<and> circ_contents c' = circ_contents c @ map (\<lambda>i. d (of_nat i)) [0..<n] \<and>
         circ_used c' = circ_used c + n"
  using assms(2)
proof (induction n)
  case 0
  then show ?case using assms(1) by simp
next
  case (Suc n)
  let ?c = "fold (\<lambda>i. put_byte (d (of_nat i))) [0..<n] c"
  have sz: "cl_size ?c = cl_size c" by (induction n) (simp_all add: put_byte_def)
  from Suc have "circ_inv ?c" "circ_contents ?c = circ_contents c @ map (\<lambda>i. d (of_nat i)) [0..<n]"
    "circ_used ?c = circ_used c + n" by (simp_all add: Let_def)
  with put_byte_room [of ?c "d (of_nat n)"] Suc.prems sz show ?case by (simp add: Let_def)
qed

lemma put_byte_fields [simp]:
  "cl_head (put_byte b c) = (cl_head c + 1) mod cl_size c" "cl_tail (put_byte b c) = cl_tail c"
  "cl_size (put_byte b c) = cl_size c"
  by (simp_all add: put_byte_def)

lemma put_bytes_head:
  assumes "circ_inv c"
  shows "unat (cl_head (fold (\<lambda>i. put_byte (d (of_nat i))) [0..<n] c)) = (unat (cl_head c) + n) mod unat (cl_size c) \<and>
         cl_tail (fold (\<lambda>i. put_byte (d (of_nat i))) [0..<n] c) = cl_tail c \<and>
         cl_size (fold (\<lambda>i. put_byte (d (of_nat i))) [0..<n] c) = cl_size c"
proof (induction n)
  case (Suc n)
  let ?c = "fold (\<lambda>i. put_byte (d (of_nat i))) [0..<n] c"
  have "unat (cl_head ?c) < unat (cl_size c)" using Suc assms by (simp add: circ_inv_def)
  from unat_step [OF this] Suc show ?case by (simp add: mod_Suc_eq)
qed (use assms in \<open>simp add: circ_inv_def\<close>)

lemma get_bytes:
  assumes "circ_inv c" and "n \<le> circ_used c"
  shows "\<exists>d' c'. fold get_byte [0..<n] (d, c) = (d', c') \<and> circ_inv c' \<and> circ_contents c' = drop n (circ_contents c) \<and>
           (\<forall>i < n. d' (of_nat i) = circ_contents c ! i)"
  using assms(2)
proof (induction n)
  case 0
  then show ?case using assms(1) by simp
next
  case (Suc n)
  then obtain d1 c1 where 1: "fold get_byte [0..<n] (d, c) = (d1, c1)" "circ_inv c1"
    "circ_contents c1 = drop n (circ_contents c)" "\<forall>i < n. d1 (of_nat i) = circ_contents c ! i" by auto
  have "length (circ_contents c1) = circ_used c - n" using 1(3) by simp
  then have "circ_used c1 \<noteq> 0" using Suc.prems by simp
  note a = advance_tail [OF 1(2) this]
  have dr: "drop n (circ_contents c) = circ_contents c ! n # drop (Suc n) (circ_contents c)"
    using Suc.prems by (simp add: Cons_nth_drop_Suc)
  have e: "cl_buf c1 (cl_tail c1) = circ_contents c ! n"
    "circ_contents (c1\<lparr>cl_tail := (cl_tail c1 + 1) mod cl_size c1\<rparr>) = drop (Suc n) (circ_contents c)"
    using a(2) 1(3) dr by simp_all
  have sz: "Suc n \<le> 2 ^ 64"
    using Suc.prems circ_used_less [OF assms(1)] unat_u64_less [of "cl_size c"] by linarith
  have "(d1(of_nat n := circ_contents c ! n)) (of_nat i) = circ_contents c ! i" if "i < Suc n" for i
    using that 1(4) of_nat_u64_inj [of i n] sz by (cases "i = n") auto
  moreover have "fold get_byte [0..<Suc n] (d, c) =
      (d1(of_nat n := circ_contents c ! n), c1\<lparr>cl_tail := (cl_tail c1 + 1) mod cl_size c1\<rparr>)"
    using 1(1) e(1) by (simp add: get_byte_def [of n])
  ultimately show ?case using a(1) e(2) by blast
qed

lemma circlist_write_correct:
  assumes "circ_inv c" and "0 < n" and "n \<le> cl_size c"
  shows "\<exists>c'. circlist_write (Some c) (Some d) n = Some (SUCCESS, Some c') \<and> circ_inv c' \<and>
     circ_contents c' = (if n < free_space c then circ_contents c @ map (\<lambda>i. d (of_nat i)) [0..<unat n] else [])"
proof -
  have n: "unat n \<le> unat (cl_size c)" "n \<noteq> 0" "\<not> n > cl_size c" using assms(2,3) leD [OF assms(3)] by (auto simp: word_le_nat_alt)
  from make_space_correct [OF assms(1) n(1)] obtain c1 where c1: "make_space n c = Some c1" "circ_inv c1"
    "cl_size c1 = cl_size c" "circ_used c1 = min (circ_used c) (unat (cl_size c) - unat n)"
    "circ_contents c1 = drop (circ_used c - circ_used c1) (circ_contents c)" by blast
  let ?c = "fold (\<lambda>i. put_byte (d (of_nat i))) [0..<unat n] c1"
  have w: "circlist_write (Some c) (Some d) n = Some (SUCCESS, Some ?c)"
    using c1(1) n by (simp add: circlist_write_def)
  have fr: "n < free_space c \<longleftrightarrow> circ_used c + unat n < unat (cl_size c)"
    using unat_free_space [OF assms(1)] circ_used_less [OF assms(1)] by (auto simp: word_less_nat_alt)
  note hd = put_bytes_head [OF c1(2), of d "unat n"]
  have sz0: "0 < unat (cl_size c)" using assms(1) by (auto simp: circ_inv_def)
  have inv: "circ_inv ?c" using hd c1(2,3) sz0 by (simp add: circ_inv_def)
  show ?thesis
  proof (cases "n < free_space c")
    case True
    then have "circ_used c1 = circ_used c" "circ_used c1 + unat n < unat (cl_size c1)" using c1(3,4) fr by auto
    with put_bytes_room [OF c1(2), of "unat n" d] c1(5) w True show ?thesis by (simp add: Let_def)
  next
    case False
    let ?s = "unat (cl_size c)" and ?t = "unat (cl_tail c1)"
    have full: "circ_used c1 + unat n = ?s" using False fr c1(4) n(1) by auto
    have "?t < ?s" "unat (cl_head c1) < ?s" using c1(2,3) by (auto simp: circ_inv_def)
    from ring_len_end [OF this] have h: "(?t + circ_used c1) mod ?s = unat (cl_head c1)"
      by (simp add: circ_used_def c1(3))
    have "unat (cl_head ?c) = ((?t + circ_used c1) mod ?s + unat n) mod ?s" using hd h c1(3) by simp
    also have "\<dots> = (?t + ?s) mod ?s" unfolding full [symmetric] by (simp only: mod_add_left_eq add.assoc)
    also have "\<dots> = ?t" using \<open>?t < ?s\<close> by simp
    finally have "circ_used ?c = 0" using hd by (simp add: circ_used_def ring_len_def)
    then have "circ_contents ?c = []" by (metis length_circ_contents length_0_conv)
    with w inv False show ?thesis by simp
  qed
qed

section \<open>Properties\<close>

text \<open>C18: Bytes put into an empty fifo come out in the order they went in, as many as the fifo has
  room for (its size less one), and \<open>fifo_size\<close> reports how many it holds.\<close>

theorem fifo_order_preserved:
  assumes "fifo_inv f" and "fifo_contents f = []"
  shows "get_all fifo_get (put_all fifo_accepts f xs) (min (fifo_capacity f) (length xs)) = take (fifo_capacity f) xs \<and>
         unat (fifo_size (put_all fifo_accepts f xs)) = min (fifo_capacity f) (length xs)"
  using ff.fifo_order [OF assms, of xs] ff.put_all_contents [OF assms(1), of xs] assms(2)
    fifo_size_contents [of "put_all fifo_accepts f xs"] by (simp add: min.commute)

definition demo_fifo :: fifo where
  "demo_fifo = \<lparr>ff_buf = (\<lambda>_. 0), ff_head = 2, ff_tail = 2, ff_size = 4\<rparr>"

theorem fifo_order_preserved_witness:
  "get_all fifo_get (put_all fifo_accepts demo_fifo [5, 6, 7, 8]) 3 = [5, 6, 7] \<and>
   unat (fifo_size (put_all fifo_accepts demo_fifo [5, 6, 7, 8])) = 3"
proof -
  have d: "fifo_inv demo_fifo" "fifo_contents demo_fifo = []" "fifo_capacity demo_fifo = 3"
    by (simp_all add: demo_fifo_def fifo_inv_def fifo_contents_def ring_len_def ring_seg_def fifo_capacity_def)
  from fifo_order_preserved [OF d(1,2), of "[5, 6, 7, 8]"] d(3) show ?thesis
    by (simp add: numeral_3_eq_3 del: put_all.simps get_all.simps)
qed

text \<open>A write of \<open>n\<close> bytes to a circular list always succeeds for \<open>0 < n \<le> size\<close>, and appends the
  bytes when \<open>n\<close> is less than the free space.  When it is not, the oldest bytes are dropped
  until exactly \<open>n\<close> cells are free, the write fills the ring, and head meets tail: the list then
  reads as empty and the written bytes are lost with the rest.\<close>

theorem circlist_write_outcome:
  assumes "circ_inv c" and "0 < n" and "n \<le> cl_size c"
  shows "\<exists>c'. circlist_write (Some c) (Some d) n = Some (SUCCESS, Some c') \<and> circ_inv c' \<and>
     circ_contents c' = (if n < free_space c then circ_contents c @ map (\<lambda>i. d (of_nat i)) [0..<unat n] else [])"
  by (rule circlist_write_correct [OF assms])

definition demo_circ :: circlist where
  "demo_circ = \<lparr>cl_buf = (\<lambda>_. 9), cl_size = 4, cl_head = 1, cl_tail = 3\<rparr>"

theorem circlist_write_outcome_witness:
  "\<exists>c'. circlist_write (Some demo_circ) (Some (\<lambda>i. ucast i)) 3 = Some (SUCCESS, Some c') \<and> circ_inv c' \<and> circ_contents c' = []"
proof -
  have "circ_inv demo_circ \<and> 0 < (3 :: u64) \<and> 3 \<le> cl_size demo_circ \<and> \<not> 3 < free_space demo_circ"
    by code_simp
  with circlist_write_outcome [of demo_circ 3 "\<lambda>i. ucast i"] show ?thesis by simp
qed



end
