(* ===== verification/Line_Discipline.thy ===== *)
theory Line_Discipline
  imports Ring
begin

text \<open>
  The terminal line discipline of drivers/tty/ld/line_discipline.c: a ring of characters with
  \<open>int\<close> indices, an action table for the control characters, and two callbacks.  The calls of
  the callbacks are recorded in a trace: \<open>Echo c\<close> for \<open>echo_cb(parent, c)\<close> and \<open>Flush bs\<close> for
  \<open>flush_cb(parent, p, n)\<close> where \<open>bs\<close> are the \<open>n\<close> bytes from \<open>p\<close>.  Indices stay far below the
  range of \<open>int\<close>, whose remainder truncates towards zero.
\<close>

definition c_rem :: "int \<Rightarrow> int \<Rightarrow> int" where
  "c_rem a b = sgn a * (\<bar>a\<bar> mod \<bar>b\<bar>)"

datatype ld_event = Echo u8 | Flush "u8 list"

datatype ld_action =
  ld_ignore | ld_bell | ld_eof | ld_erase | ld_htab | ld_lfeed | ld_vtab | ld_newpage | ld_cret
| ld_restart_out | ld_stop_out | ld_sigint | ld_sigstop | ld_del

record ld_entry =
  le_output :: "u8 list"
  le_inserti :: "u8 list"
  le_inserto :: "u8 list"
  le_action :: ld_action

record line_discipline =
  ld_mode :: int
  ld_echo :: int
  ld_valid :: int
  ld_buffer :: "int \<Rightarrow> u8"
  ld_size :: int
  ld_head :: int
  ld_tail :: int
  ld_table :: "ld_entry list"
  ld_echo_cb :: bool
  ld_trace :: "ld_event list"

definition LINE_DISCIPLINE_MODE_RAW :: int where "LINE_DISCIPLINE_MODE_RAW = 0"

definition LINE_DISCIPLINE_MODE_CANONICAL :: int where "LINE_DISCIPLINE_MODE_CANONICAL = 1"

definition LINE_DISCIPLINE_MODE_ECHO_ON :: int where "LINE_DISCIPLINE_MODE_ECHO_ON = 0"

definition LINE_DISCIPLINE_MODE_ECHO_OFF :: int where "LINE_DISCIPLINE_MODE_ECHO_OFF = 1"

definition LD_NULL :: u8 where "LD_NULL = 0"

definition LD_DEL :: u8 where "LD_DEL = 127"

definition plain :: "ld_action \<Rightarrow> ld_entry" where
  "plain a = \<lparr>le_output = [0, 0, 0, 0], le_inserti = [0, 0, 0, 0], le_inserto = [0, 0, 0, 0], le_action = a\<rparr>"

definition default_ld_table :: "ld_entry list" where
  "default_ld_table =
     [plain ld_ignore, plain ld_ignore, plain ld_ignore, plain ld_sigint, plain ld_eof,
      plain ld_ignore, plain ld_ignore, plain ld_bell,
      (plain ld_erase)\<lparr>le_output := [8, 32, 8, 0]\<rparr>,
      plain ld_htab,
      (plain ld_lfeed)\<lparr>le_output := [10, 0, 0, 0], le_inserto := [13, 10, 0, 0]\<rparr>,
      plain ld_vtab, plain ld_newpage,
      (plain ld_cret)\<lparr>le_output := [13, 10, 0, 0], le_inserti := [10, 0, 0, 0], le_inserto := [10, 0, 0, 0]\<rparr>,
      plain ld_ignore, plain ld_ignore, plain ld_ignore, plain ld_restart_out, plain ld_ignore,
      plain ld_stop_out, plain ld_ignore, plain ld_ignore, plain ld_ignore, plain ld_ignore,
      plain ld_ignore, plain ld_ignore, plain ld_sigstop, plain ld_del]"

definition line_discipline_create ::
  "bool \<Rightarrow> bool \<Rightarrow> (int \<Rightarrow> u8) \<Rightarrow> int \<Rightarrow> int \<Rightarrow> int \<Rightarrow> int \<Rightarrow> bool \<Rightarrow> line_discipline option" where
  "line_discipline_create ld_ok buffer_ok mem mode echo table buffer_size echo_cb =
     (if \<not> ld_ok then None
      else if \<not> buffer_ok then None
      else Some \<lparr>ld_mode = (if mode = LINE_DISCIPLINE_MODE_RAW \<or> mode = LINE_DISCIPLINE_MODE_CANONICAL
                            then mode else LINE_DISCIPLINE_MODE_CANONICAL),
                 ld_echo = (if echo = LINE_DISCIPLINE_MODE_ECHO_ON \<or> echo = LINE_DISCIPLINE_MODE_ECHO_OFF
                            then echo else LINE_DISCIPLINE_MODE_ECHO_ON),
                 ld_valid = 1, ld_buffer = mem, ld_size = buffer_size, ld_head = 0, ld_tail = 0,
                 ld_table = default_ld_table, ld_echo_cb = echo_cb, ld_trace = []\<rparr>)"

definition line_discipline_delete_last :: "line_discipline \<Rightarrow> line_discipline" where
  "line_discipline_delete_last ld =
     (if ld_valid ld = 0 then ld
      else if ld_tail ld = ld_head ld then ld
      else ld\<lparr>ld_tail := c_rem (ld_tail ld - 1) (ld_size ld)\<rparr>)"

definition line_discipline_insert :: "line_discipline \<Rightarrow> u8 \<Rightarrow> line_discipline" where
  "line_discipline_insert ld c =
     (if ld_valid ld = 0 then ld
      else if c = LD_NULL then ld
      else let ld1 = ld\<lparr>ld_buffer := (ld_buffer ld)(ld_tail ld := c),
                        ld_tail := c_rem (ld_tail ld + 1) (ld_size ld)\<rparr>
           in if ld_tail ld1 = ld_head ld1
              then ld1\<lparr>ld_head := c_rem (ld_head ld1 + 1) (ld_size ld1)\<rparr> else ld1)"

definition line_discipline_set_mode :: "line_discipline \<Rightarrow> int \<Rightarrow> line_discipline" where
  "line_discipline_set_mode ld mode =
     (if ld_valid ld = 1 \<and> (mode = LINE_DISCIPLINE_MODE_RAW \<or> mode = LINE_DISCIPLINE_MODE_CANONICAL)
      then ld\<lparr>ld_mode := mode\<rparr> else ld)"

definition line_discipline_set_echo :: "line_discipline \<Rightarrow> int \<Rightarrow> line_discipline" where
  "line_discipline_set_echo ld echo =
     (if ld_valid ld = 1 \<and> (echo = LINE_DISCIPLINE_MODE_ECHO_ON \<or> echo = LINE_DISCIPLINE_MODE_ECHO_OFF)
      then ld\<lparr>ld_echo := echo\<rparr> else ld)"

definition emit :: "ld_event list \<Rightarrow> line_discipline \<Rightarrow> line_discipline" where
  "emit es ld = ld\<lparr>ld_trace := ld_trace ld @ es\<rparr>"

definition line_discipline_force_flush :: "line_discipline \<Rightarrow> line_discipline" where
  "line_discipline_force_flush ld =
     (if ld_valid ld \<noteq> 1 then ld
      else if ld_mode ld = LINE_DISCIPLINE_MODE_CANONICAL then
        let sz = c_rem (ld_tail ld - ld_head ld + ld_size ld) (ld_size ld)
        in (emit [Flush (map (\<lambda>i. ld_buffer ld (ld_head ld + int i)) [0..<nat sz])] ld)\<lparr>ld_head := ld_tail ld\<rparr>
      else ld)"

definition run_action :: "ld_action \<Rightarrow> line_discipline \<Rightarrow> line_discipline" where
  "run_action a ld =
     (case a of ld_eof \<Rightarrow> line_discipline_force_flush ld
      | ld_cret \<Rightarrow> line_discipline_force_flush ld
      | ld_erase \<Rightarrow> line_discipline_delete_last ld
      | _ \<Rightarrow> ld)"

definition echo_on :: "line_discipline \<Rightarrow> bool" where
  "echo_on ld \<longleftrightarrow> ld_echo ld = LINE_DISCIPLINE_MODE_ECHO_ON \<and> ld_echo_cb ld"

definition line_discipline_apply :: "line_discipline \<Rightarrow> u8 \<Rightarrow> line_discipline res" where
  "line_discipline_apply ld c =
     (if ld_valid ld \<noteq> 1 then Inr ld
      else if c \<noteq> LD_DEL \<and> (sint c < 0 \<or> sint c > 27) then
        let ld1 = line_discipline_insert ld c
        in Inr (if echo_on ld1 then emit [Echo c] ld1 else ld1)
      else if c = LD_DEL then
        if ld_echo_cb ld then Inr (emit [Echo 8, Echo 32, Echo 8] (line_discipline_delete_last ld))
        else Inl (Panic ''call through a null pointer'')
      else let e = ld_table ld ! unat c;
               ld1 = fold (\<lambda>x l. line_discipline_insert l x) (le_inserti e) ld;
               ld2 = (if echo_on ld1 then emit (map Echo (takeWhile (\<lambda>x. x \<noteq> LD_NULL) (le_output e))) ld1
                      else ld1)
           in Inr (run_action (le_action e) ld2))"

definition line_discipline_read :: "line_discipline \<Rightarrow> u8 \<Rightarrow> line_discipline res" where
  "line_discipline_read ld character =
     (if ld_valid ld \<noteq> 1 then Inr ld
      else if ld_mode ld = LINE_DISCIPLINE_MODE_RAW then
        Inr (emit [Flush [character]] (if echo_on ld then emit [Echo character] ld else ld))
      else if ld_mode ld = LINE_DISCIPLINE_MODE_CANONICAL then line_discipline_apply ld character
      else Inr ld)"

text \<open>The characters written to \<open>translated_characters\<close>; the number returned is their count.  For
  \<open>LD_DEL\<close> in canonical mode the code indexes the table of 28 entries with 127.\<close>

definition line_discipline_translate :: "line_discipline \<Rightarrow> u8 \<Rightarrow> u8 list res" where
  "line_discipline_translate ld original_character =
     (if ld_valid ld \<noteq> 1 \<or> ld_mode ld = LINE_DISCIPLINE_MODE_RAW then Inr [original_character]
      else if ld_mode ld = LINE_DISCIPLINE_MODE_CANONICAL then
        if original_character \<noteq> LD_DEL \<and> (sint original_character < 0 \<or> sint original_character > 27)
        then Inr [original_character]
        else if unat original_character < length (ld_table ld)
        then Inr (takeWhile (\<lambda>x. x \<noteq> LD_NULL) (le_inserto (ld_table ld ! unat original_character)))
        else Inl (Panic ''table read out of bounds'')
      else Inr [original_character])"

primrec read_all :: "line_discipline \<Rightarrow> u8 list \<Rightarrow> line_discipline res" where
  "read_all ld [] = Inr ld"
| "read_all ld (c # cs) = res_bind (line_discipline_read ld c) (\<lambda>l. read_all l cs)"

section \<open>The character ring\<close>

definition ld_inv :: "line_discipline \<Rightarrow> bool" where
  "ld_inv ld \<longleftrightarrow> ld_valid ld = 1 \<and> 0 \<le> ld_head ld \<and> ld_head ld < ld_size ld \<and> 0 \<le> ld_tail ld \<and> ld_tail ld < ld_size ld"

definition ld_contents :: "line_discipline \<Rightarrow> u8 list" where
  "ld_contents ld = ring_seg (\<lambda>i. ld_buffer ld (int i)) (nat (ld_size ld)) (nat (ld_head ld))
     (ring_len (nat (ld_size ld)) (nat (ld_head ld)) (nat (ld_tail ld)))"

lemma c_rem_mod: "0 \<le> a \<Longrightarrow> 0 < b \<Longrightarrow> c_rem a b = a mod b"
  by (cases "a = 0") (simp_all add: c_rem_def)

lemma nat_step: "0 \<le> i \<Longrightarrow> 0 < sz \<Longrightarrow> nat (c_rem (i + 1) sz) = (nat i + 1) mod nat sz"
  by (simp add: c_rem_mod nat_mod_distrib nat_add_distrib)

lemma insert_contents:
  assumes inv: "ld_inv ld" and c: "c \<noteq> LD_NULL" and two: "2 \<le> ld_size ld"
  shows "ld_inv (line_discipline_insert ld c) \<and>
    ld_contents (line_discipline_insert ld c) =
      (if length (ld_contents ld) + 1 < nat (ld_size ld) then ld_contents ld @ [c] else tl (ld_contents ld) @ [c])"
proof -
  let ?s = "nat (ld_size ld)" and ?h = "nat (ld_head ld)" and ?t = "nat (ld_tail ld)"
  have i: "?h < ?s" "?t < ?s" "1 < ?s" "0 < ld_size ld" using inv two by (auto simp: ld_inv_def)
  have v: "ld_valid ld = 1" "0 \<le> ld_tail ld" "0 \<le> ld_head ld" using inv by (auto simp: ld_inv_def)
  define b where "b = (ld_buffer ld)(ld_tail ld := c)"
  have bn: "b (int k) = ((\<lambda>i. ld_buffer ld (int i))(?t := c)) k" for k using v(2) by (auto simp: b_def)
  have t1: "nat (c_rem (ld_tail ld + 1) (ld_size ld)) = (?t + 1) mod ?s" by (rule nat_step) (use v i in auto)
  have h1: "nat (c_rem (ld_head ld + 1) (ld_size ld)) = (?h + 1) mod ?s" by (rule nat_step) (use v i in auto)
  have rng: "0 \<le> c_rem (x + 1) (ld_size ld) \<and> c_rem (x + 1) (ld_size ld) < ld_size ld" if "0 \<le> x" for x
    using that i(4) by (simp add: c_rem_mod)
  have seg: "ring_seg (\<lambda>i. b (int i)) ?s ?h (Suc (ring_len ?s ?h ?t)) = ld_contents ld @ [c]"
    unfolding bn ld_contents_def by (rule ring_seg_put [OF i(1) ring_len_less ring_len_end]) (rule i)+
  have hit: "c_rem (ld_tail ld + 1) (ld_size ld) = ld_head ld \<longleftrightarrow> (?t + 1) mod ?s = ?h"
    using t1 rng [OF v(2)] v(3) by (metis eq_nat_nat_iff)
  show ?thesis
  proof (cases "(?t + 1) mod ?s = ?h")
    case False
    then have "ring_len ?s ?h ((?t + 1) mod ?s) = Suc (ring_len ?s ?h ?t)" using ring_len_put [OF i(1,2)] by simp
    moreover have "length (ld_contents ld) + 1 < nat (ld_size ld)"
      using False ring_len_full [OF i(1,2)] ring_len_less [OF i(1,2)] by (simp add: ld_contents_def)
    ultimately show ?thesis
      using False hit t1 seg v c rng [OF v(2)] inv
      by (simp add: line_discipline_insert_def ld_contents_def ld_inv_def b_def Let_def)
  next
    case True
    then have full: "ring_len ?s ?h ?t + 1 = ?s" using ring_len_full [OF i(1,2)] by simp
    let ?h1 = "(?h + 1) mod ?s"
    have "?h1 \<noteq> ?h" using i(1,3) by (cases "?h + 1 = ?s") auto
    then have "ring_len ?s ?h1 ?h + 1 = ring_len ?s ?h ?h + ?s"
      using i by (cases "?h + 1 = ?s") (auto simp: ring_len_def)
    then have l: "ring_len ?s ?h1 ?h = ring_len ?s ?h ?t" using full by (simp add: ring_len_def)
    have "ld_contents ld @ [c] = b (int ?h) # ring_seg (\<lambda>i. b (int i)) ?s ?h1 (ring_len ?s ?h ?t)"
      using seg ring_seg_get [OF i(1), of "\<lambda>i. b (int i)"] by simp
    moreover have "ld_contents ld \<noteq> []" using full i(3) by (auto simp: ld_contents_def ring_seg_def)
    ultimately have e: "ring_seg (\<lambda>i. b (int i)) ?s ?h1 (ring_len ?s ?h ?t) = tl (ld_contents ld) @ [c]"
      by (metis list.sel(3) tl_append2)
    have "\<not> length (ld_contents ld) + 1 < nat (ld_size ld)" using full by (simp add: ld_contents_def)
    moreover have ins: "line_discipline_insert ld c =
        ld\<lparr>ld_buffer := b, ld_tail := ld_head ld, ld_head := c_rem (ld_head ld + 1) (ld_size ld)\<rparr>"
      using True hit v(1) c by (simp add: line_discipline_insert_def b_def Let_def)
    moreover have "ld_contents (line_discipline_insert ld c) = ring_seg (\<lambda>i. b (int i)) ?s ?h1 (ring_len ?s ?h1 ?h)"
      unfolding ins by (simp add: ld_contents_def h1)
    moreover have "ld_inv (line_discipline_insert ld c)" unfolding ins using inv rng [OF v(3)] by (simp add: ld_inv_def)
    ultimately show ?thesis by (simp only: l e if_False)
  qed
qed

section \<open>A typed line\<close>

definition ordinary :: "u8 \<Rightarrow> bool" where
  "ordinary c \<longleftrightarrow> c \<noteq> LD_DEL \<and> (sint c < 0 \<or> sint c > 27)"

definition typing :: "line_discipline \<Rightarrow> bool" where
  "typing ld \<longleftrightarrow> ld_valid ld = 1 \<and> ld_mode ld = LINE_DISCIPLINE_MODE_CANONICAL \<and> echo_on ld \<and>
     ld_table ld = default_ld_table \<and> 0 \<le> ld_head ld \<and> ld_head ld \<le> ld_tail ld \<and> ld_tail ld < ld_size ld"

definition pending :: "line_discipline \<Rightarrow> u8 list" where
  "pending ld = map (\<lambda>i. ld_buffer ld (ld_head ld + int i)) [0..<nat (ld_tail ld - ld_head ld)]"

lemma c_rem_small: "0 \<le> a \<Longrightarrow> a < b \<Longrightarrow> c_rem a b = a"
  by (simp add: c_rem_mod)

lemma insert_small:
  assumes t: "typing ld" and c: "c \<noteq> LD_NULL" and room: "ld_tail ld + 1 < ld_size ld"
  shows "typing (line_discipline_insert ld c)" "pending (line_discipline_insert ld c) = pending ld @ [c]"
    "ld_tail (line_discipline_insert ld c) = ld_tail ld + 1" "ld_trace (line_discipline_insert ld c) = ld_trace ld"
    "ld_size (line_discipline_insert ld c) = ld_size ld"
proof -
  have r: "c_rem (ld_tail ld + 1) (ld_size ld) = ld_tail ld + 1"
    using t room by (intro c_rem_small) (auto simp: typing_def)
  have e: "line_discipline_insert ld c =
      ld\<lparr>ld_buffer := (ld_buffer ld)(ld_tail ld := c), ld_tail := ld_tail ld + 1\<rparr>"
    using t c r by (auto simp: line_discipline_insert_def typing_def)
  show "typing (line_discipline_insert ld c)" using t room unfolding e by (simp add: typing_def echo_on_def)
  show "ld_tail (line_discipline_insert ld c) = ld_tail ld + 1" "ld_trace (line_discipline_insert ld c) = ld_trace ld"
    "ld_size (line_discipline_insert ld c) = ld_size ld"
    unfolding e by simp_all
  have "ld_head ld \<le> ld_tail ld" using t by (simp add: typing_def)
  then have "nat (ld_tail ld + 1 - ld_head ld) = Suc (nat (ld_tail ld - ld_head ld))" by linarith
  then show "pending (line_discipline_insert ld c) = pending ld @ [c]"
    using t unfolding pending_def e by (auto simp: typing_def)
qed

lemma emit_fields [simp]:
  "ld_trace (emit es ld) = ld_trace ld @ es" "typing (emit es ld) = typing ld" "pending (emit es ld) = pending ld"
  "ld_tail (emit es ld) = ld_tail ld" "ld_head (emit es ld) = ld_head ld" "ld_size (emit es ld) = ld_size ld"
  "echo_on (emit es ld) = echo_on ld" "ld_valid (emit es ld) = ld_valid ld" "ld_mode (emit es ld) = ld_mode ld"
  by (simp_all add: emit_def typing_def pending_def echo_on_def)

lemma ordinary_not_null: "ordinary c \<Longrightarrow> c \<noteq> LD_NULL"
  by (auto simp: ordinary_def LD_NULL_def)

lemma read_ordinary:
  assumes t: "typing ld" and c: "ordinary c" and room: "ld_tail ld + 1 < ld_size ld"
  shows "\<exists>ld'. line_discipline_read ld c = Inr ld' \<and> typing ld' \<and> pending ld' = pending ld @ [c] \<and>
           ld_tail ld' = ld_tail ld + 1 \<and> ld_size ld' = ld_size ld \<and> ld_trace ld' = ld_trace ld @ [Echo c]"
proof -
  note i = insert_small [OF t ordinary_not_null [OF c] room]
  have "line_discipline_read ld c = Inr (emit [Echo c] (line_discipline_insert ld c))"
    using t c i(1)
    by (auto simp: line_discipline_read_def line_discipline_apply_def ordinary_def typing_def
        LINE_DISCIPLINE_MODE_CANONICAL_def LINE_DISCIPLINE_MODE_RAW_def)
  with i show ?thesis by simp
qed

lemma read_ordinary_all:
  assumes "typing ld" and "list_all ordinary cs" and "ld_tail ld + int (length cs) < ld_size ld"
  shows "\<exists>ld'. read_all ld cs = Inr ld' \<and> typing ld' \<and> pending ld' = pending ld @ cs \<and>
           ld_tail ld' = ld_tail ld + int (length cs) \<and> ld_size ld' = ld_size ld \<and>
           ld_trace ld' = ld_trace ld @ map Echo cs"
  using assms
proof (induction cs arbitrary: ld)
  case (Cons c cs)
  then have "ordinary c" "ld_tail ld + 1 < ld_size ld" by auto
  from read_ordinary [OF Cons.prems(1) this] obtain l where l: "line_discipline_read ld c = Inr l" "typing l"
    "pending l = pending ld @ [c]" "ld_tail l = ld_tail ld + 1" "ld_size l = ld_size ld"
    "ld_trace l = ld_trace ld @ [Echo c]" by blast
  with Cons.IH [OF l(2)] Cons.prems show ?case by auto
qed simp

lemma read_return:
  assumes t: "typing ld" and room: "ld_tail ld + 1 < ld_size ld"
  shows "\<exists>ld'. line_discipline_read ld 13 = Inr ld' \<and> ld_head ld' = ld_tail ld' \<and>
           ld_trace ld' = ld_trace ld @ [Echo 13, Echo 10, Flush (pending ld @ [10])]"
proof -
  let ?i = "line_discipline_insert ld 10"
  have n: "(10 :: u8) \<noteq> LD_NULL" by (simp add: LD_NULL_def)
  note i = insert_small [OF t n room]
  have null: "line_discipline_insert l 0 = l" for l by (simp add: line_discipline_insert_def LD_NULL_def)
  have ent: "default_ld_table ! unat (13 :: u8) =
      (plain ld_cret)\<lparr>le_output := [13, 10, 0, 0], le_inserti := [10, 0, 0, 0], le_inserto := [10, 0, 0, 0]\<rparr>"
    by (simp add: default_ld_table_def)
  let ?e = "emit [Echo 13, Echo 10] ?i"
  have "line_discipline_read ld 13 = line_discipline_apply ld 13"
    using t by (simp add: line_discipline_read_def typing_def LINE_DISCIPLINE_MODE_CANONICAL_def LINE_DISCIPLINE_MODE_RAW_def)
  also have "\<dots> = Inr (line_discipline_force_flush ?e)"
    using t i(1) ent null
    by (simp add: line_discipline_apply_def typing_def LD_DEL_def LD_NULL_def plain_def run_action_def)
  finally have r: "line_discipline_read ld 13 = Inr (line_discipline_force_flush ?e)" .
  have "c_rem (ld_tail ?i - ld_head ?i + ld_size ?i) (ld_size ?i) = ld_tail ?i - ld_head ?i"
    using i(1) by (simp add: c_rem_mod typing_def)
  then have "line_discipline_force_flush ?e = (emit [Flush (pending ?i)] ?e)\<lparr>ld_head := ld_tail ?e\<rparr>"
    using i(1) by (simp add: line_discipline_force_flush_def typing_def pending_def emit_def)
  with r i(2,4) show ?thesis by simp
qed

section \<open>Properties\<close>

lemma read_all_append: "read_all ld (xs @ ys) = res_bind (read_all ld xs) (\<lambda>l. read_all l ys)"
  by (induction xs arbitrary: ld) (auto simp: res_bind_def split: sum.splits)


definition demo_ld :: line_discipline where
  "demo_ld = \<lparr>ld_mode = 1, ld_echo = 0, ld_valid = 1, ld_buffer = (\<lambda>_. 0), ld_size = 8, ld_head = 2, ld_tail = 2,
     ld_table = default_ld_table, ld_echo_cb = True, ld_trace = []\<rparr>"

lemma demo_ld_typing: "typing demo_ld"
  by (simp add: typing_def demo_ld_def echo_on_def LINE_DISCIPLINE_MODE_CANONICAL_def LINE_DISCIPLINE_MODE_ECHO_ON_def)


text \<open>Inserting a character keeps the indices in range; the ring then holds its old contents
  followed by the character, without the oldest one when it was full.\<close>

theorem line_insert_keeps_latest:
  assumes "ld_inv ld" and "c \<noteq> LD_NULL" and "2 \<le> ld_size ld"
  shows "ld_inv (line_discipline_insert ld c) \<and>
    ld_contents (line_discipline_insert ld c) =
      (if length (ld_contents ld) + 1 < nat (ld_size ld) then ld_contents ld @ [c] else tl (ld_contents ld) @ [c])"
  by (rule insert_contents [OF assms])

theorem line_insert_keeps_latest_witness:
  "ld_inv (line_discipline_insert demo_ld 7) \<and>
    ld_contents (line_discipline_insert demo_ld 7) =
      (if length (ld_contents demo_ld) + 1 < nat (ld_size demo_ld) then ld_contents demo_ld @ [7]
       else tl (ld_contents demo_ld) @ [7])"
  by (rule line_insert_keeps_latest) (simp_all add: demo_ld_def ld_inv_def LD_NULL_def)

text \<open>Erasing when the write index is 0 and the line is not empty (the line has wrapped) leaves
  the write index at \<open>-1\<close>, so the next ordinary character is stored in front of the buffer.\<close>

theorem erase_at_zero_leaves_buffer:
  assumes "ld_inv ld" and "ld_tail ld = 0" and "ld_head ld \<noteq> 0"
  shows "ld_tail (line_discipline_delete_last ld) = -1 \<and>
         (c \<noteq> LD_NULL \<longrightarrow> ld_buffer (line_discipline_insert (line_discipline_delete_last ld) c) (-1) = c)"
proof -
  have "1 < ld_size ld" using assms by (auto simp: ld_inv_def)
  then have "ld_tail (line_discipline_delete_last ld) = -1" "ld_valid (line_discipline_delete_last ld) = 1"
    using assms by (simp_all add: line_discipline_delete_last_def c_rem_def ld_inv_def)
  then show ?thesis by (simp add: line_discipline_insert_def Let_def)
qed

theorem erase_at_zero_leaves_buffer_witness:
  "ld_tail (line_discipline_delete_last (demo_ld\<lparr>ld_tail := 0\<rparr>)) = -1 \<and>
   ld_buffer (line_discipline_insert (line_discipline_delete_last (demo_ld\<lparr>ld_tail := 0\<rparr>)) 0x41) (-1) = 0x41"
  using erase_at_zero_leaves_buffer [of "demo_ld\<lparr>ld_tail := 0\<rparr>" "0x41"]
  by (simp add: demo_ld_def ld_inv_def LD_NULL_def)

end
