(* ===== verification/Vfs_Compat.thy ===== *)
theory Vfs_Compat
  imports Block_Allocator
begin

text \<open>
  The global descriptor table of drivers/vfs/generic/vfs_compat.c.  File and directory
  descriptors share one table; \<open>get_fd\<close> and \<open>get_dirfd\<close> each keep a cursor in a static variable.
  A descriptor outside the table, a name that does not leave room for its terminator and a
  pointer to nothing are faults.  Directory entries hang off a dummy head node, so a directory
  is \<open>NoDents\<close> (a null pointer), \<open>Dents\<close> with the nodes after the head, or \<open>FreedDents\<close> once
  \<open>release_dirfd\<close> has freed the nodes but kept the pointer to them.
\<close>

definition VFS_COMPAT_MAX_OPEN_FILES :: int where "VFS_COMPAT_MAX_OPEN_FILES = 65536"

definition VFS_FDE_NAME_MAX_LEN :: nat where "VFS_FDE_NAME_MAX_LEN = 256"

definition VFS_ERROR :: int where "VFS_ERROR = -1"

record dentry =
  de_name :: string
  de_name_len :: u32
  de_inode :: u32
  de_type :: u32

datatype dents = NoDents | Dents "dentry list" | FreedDents

record file_descriptor_entry =
  fd_name :: string
  fd_mount :: string
  fd_flags :: int
  fd_mode :: int
  fd_offset :: u64
  fd_loaded :: bool

record dir_t =
  dir_fd :: file_descriptor_entry
  dir_dentries :: dents
  dir_number :: int
  dir_index :: int

record fd_state =
  entries_table :: "int \<Rightarrow> dir_t"
  get_fd_cursor :: int
  get_dirfd_cursor :: int

definition in_table :: "int \<Rightarrow> bool" where
  "in_table fd \<longleftrightarrow> 0 \<le> fd \<and> fd < VFS_COMPAT_MAX_OPEN_FILES"

definition GET_DIR :: "fd_state \<Rightarrow> int \<Rightarrow> dir_t res" where
  "GET_DIR s fd = (if in_table fd then Inr (entries_table s fd) else Inl (Panic ''descriptor outside the table''))"

definition set_dir :: "int \<Rightarrow> dir_t \<Rightarrow> fd_state \<Rightarrow> fd_state" where
  "set_dir fd d s = s\<lparr>entries_table := (entries_table s)(fd := d)\<rparr>"

text \<open>The pointer to the entry, or null.\<close>

definition vfs_compat_get_dir :: "fd_state \<Rightarrow> int \<Rightarrow> dir_t option res" where
  "vfs_compat_get_dir s fd =
     (if fd \<ge> VFS_COMPAT_MAX_OPEN_FILES then Inr None else res_bind (GET_DIR s fd) (\<lambda>d. Inr (Some d)))"

definition vfs_compat_get_file_descriptor :: "fd_state \<Rightarrow> int \<Rightarrow> file_descriptor_entry option res" where
  "vfs_compat_get_file_descriptor s fd =
     (if fd \<ge> VFS_COMPAT_MAX_OPEN_FILES then Inr None else res_bind (GET_DIR s fd) (\<lambda>d. Inr (Some (dir_fd d))))"

definition copy_name :: "string \<Rightarrow> string res" where
  "copy_name n = (if length n < VFS_FDE_NAME_MAX_LEN then Inr n else Inl (Panic ''terminator written past the name''))"

definition fill_entry :: "string \<Rightarrow> string \<Rightarrow> int \<Rightarrow> int \<Rightarrow> u64 \<Rightarrow> dir_t \<Rightarrow> dir_t res" where
  "fill_entry path mount flags mode offset d =
     res_bind (copy_name path) (\<lambda>n. res_bind (copy_name mount) (\<lambda>m.
       Inr (d\<lparr>dir_fd := \<lparr>fd_name = n, fd_mount = m, fd_flags = flags, fd_mode = mode,
                         fd_offset = offset, fd_loaded = True\<rparr>\<rparr>)))"

definition next_fd :: "int \<Rightarrow> int" where
  "next_fd fd = (if fd + 1 \<ge> VFS_COMPAT_MAX_OPEN_FILES then 0 else fd + 1)"

primrec get_fd_loop :: "nat \<Rightarrow> string \<Rightarrow> string \<Rightarrow> int \<Rightarrow> int \<Rightarrow> fd_state \<Rightarrow> (int \<times> fd_state) res" where
  "get_fd_loop 0 path mount flags mode s = Inr (VFS_ERROR, s)"
| "get_fd_loop (Suc n) path mount flags mode s =
     (let fd = get_fd_cursor s in
      res_bind (GET_DIR s fd) (\<lambda>d.
        if \<not> fd_loaded (dir_fd d)
        then res_bind (fill_entry path mount flags mode 0 d) (\<lambda>d'.
               Inr (fd, (set_dir fd d' s)\<lparr>get_fd_cursor := fd + 1\<rparr>))
        else get_fd_loop n path mount flags mode (s\<lparr>get_fd_cursor := next_fd fd\<rparr>)))"

definition get_fd :: "string \<Rightarrow> string \<Rightarrow> int \<Rightarrow> int \<Rightarrow> fd_state \<Rightarrow> (int \<times> fd_state) res" where
  "get_fd path mount flags mode s =
     (if length path > VFS_FDE_NAME_MAX_LEN then Inr (VFS_ERROR, s)
      else if length mount > VFS_FDE_NAME_MAX_LEN then Inr (VFS_ERROR, s)
      else get_fd_loop (nat VFS_COMPAT_MAX_OPEN_FILES) path mount flags mode s)"

primrec get_dirfd_loop :: "nat \<Rightarrow> string \<Rightarrow> string \<Rightarrow> int \<Rightarrow> int \<Rightarrow> fd_state \<Rightarrow> (int \<times> fd_state) res" where
  "get_dirfd_loop 0 path mount flags mode s = Inr (VFS_ERROR, s)"
| "get_dirfd_loop (Suc n) path mount flags mode s =
     (let fd = get_dirfd_cursor s in
      res_bind (GET_DIR s fd) (\<lambda>d.
        if \<not> fd_loaded (dir_fd d)
        then res_bind (fill_entry path mount flags mode 0 d) (\<lambda>d'.
               Inr (fd, (set_dir fd (d'\<lparr>dir_index := 0, dir_number := 0, dir_dentries := Dents []\<rparr>) s)
                          \<lparr>get_dirfd_cursor := fd + 1\<rparr>))
        else get_dirfd_loop n path mount flags mode (s\<lparr>get_dirfd_cursor := next_fd fd\<rparr>)))"

definition get_dirfd :: "string \<Rightarrow> string \<Rightarrow> int \<Rightarrow> int \<Rightarrow> fd_state \<Rightarrow> (int \<times> fd_state) res" where
  "get_dirfd path mount flags mode s =
     (if length path > VFS_FDE_NAME_MAX_LEN then Inr (VFS_ERROR, s)
      else if length mount > VFS_FDE_NAME_MAX_LEN then Inr (VFS_ERROR, s)
      else get_dirfd_loop (nat VFS_COMPAT_MAX_OPEN_FILES) path mount flags mode s)"

definition clone_entry :: "file_descriptor_entry \<Rightarrow> dir_t \<Rightarrow> dir_t" where
  "clone_entry old d = d\<lparr>dir_fd := old\<lparr>fd_loaded := True\<rparr>\<rparr>"

definition dup2_fd :: "int \<Rightarrow> int \<Rightarrow> fd_state \<Rightarrow> (int \<times> fd_state) res" where
  "dup2_fd oldfd newfd s =
     (if oldfd \<ge> VFS_COMPAT_MAX_OPEN_FILES then Inr (VFS_ERROR, s)
      else if newfd \<ge> VFS_COMPAT_MAX_OPEN_FILES then Inr (VFS_ERROR, s)
      else res_bind (GET_DIR s oldfd) (\<lambda>old. res_bind (GET_DIR s newfd) (\<lambda>new.
             if \<not> fd_loaded (dir_fd old) then Inr (VFS_ERROR, s)
             else Inr (newfd, set_dir newfd (clone_entry (dir_fd old) new) s))))"

definition first_free :: "fd_state \<Rightarrow> nat option" where
  "first_free s = List.find (\<lambda>i. \<not> fd_loaded (dir_fd (entries_table s (int i)))) [0..<nat VFS_COMPAT_MAX_OPEN_FILES]"

definition dup_fd :: "int \<Rightarrow> int \<Rightarrow> fd_state \<Rightarrow> (int \<times> fd_state) res" where
  "dup_fd oldfd newfd s =
     (if newfd \<noteq> -1 then dup2_fd oldfd newfd s
      else if oldfd \<ge> VFS_COMPAT_MAX_OPEN_FILES then Inr (VFS_ERROR, s)
      else res_bind (GET_DIR s oldfd) (\<lambda>old.
             if \<not> fd_loaded (dir_fd old) then Inr (VFS_ERROR, s)
             else (case first_free s of
                     None \<Rightarrow> Inr (VFS_ERROR, s)
                   | Some i \<Rightarrow> Inr (int i, set_dir (int i) (clone_entry (dir_fd old) (entries_table s (int i))) s))))"

definition open_as :: "fd_state \<Rightarrow> string \<Rightarrow> int \<Rightarrow> bool" where
  "open_as s path i \<longleftrightarrow> fd_loaded (dir_fd (entries_table s i)) \<and> fd_name (dir_fd (entries_table s i)) = path"

definition is_open :: "string \<Rightarrow> fd_state \<Rightarrow> int" where
  "is_open path s =
     (case List.find (\<lambda>i. open_as s path (int i)) [0..<nat VFS_COMPAT_MAX_OPEN_FILES] of
        Some i \<Rightarrow> int i | None \<Rightarrow> VFS_ERROR)"

definition unload :: "dir_t \<Rightarrow> dir_t" where
  "unload d = d\<lparr>dir_fd := (dir_fd d)\<lparr>fd_loaded := False\<rparr>\<rparr>"

definition force_release :: "string \<Rightarrow> fd_state \<Rightarrow> int \<times> fd_state" where
  "force_release path s =
     fold (\<lambda>i (changes, s). if open_as s path (int i)
             then (changes + 1, set_dir (int i) (unload (entries_table s (int i))) s) else (changes, s))
       [0..<nat VFS_COMPAT_MAX_OPEN_FILES] (0, s)"

definition release_fd :: "int \<Rightarrow> fd_state \<Rightarrow> (int \<times> fd_state) res" where
  "release_fd fd s =
     (if fd \<ge> VFS_COMPAT_MAX_OPEN_FILES then Inr (VFS_ERROR, s)
      else res_bind (GET_DIR s fd) (\<lambda>d. Inr (0, set_dir fd (unload d) s)))"

text \<open>The value and, when it is 1, the name, its length and the type.\<close>

definition read_dirfd :: "int \<Rightarrow> fd_state \<Rightarrow> (int \<times> (string \<times> u32 \<times> u32) option \<times> fd_state) res" where
  "read_dirfd fd s =
     (if fd \<ge> VFS_COMPAT_MAX_OPEN_FILES then Inr (VFS_ERROR, None, s)
      else res_bind (GET_DIR s fd) (\<lambda>d.
        if \<not> fd_loaded (dir_fd d) then Inr (VFS_ERROR, None, s)
        else if dir_index d \<ge> dir_number d then Inr (0, None, s)
        else (case dir_dentries d of
                NoDents \<Rightarrow> Inr (0, None, s)
              | FreedDents \<Rightarrow> Inl (Panic ''use after free'')
              | Dents ns \<Rightarrow>
                  if ns = [] then Inr (0, None, s)
                  else if 0 \<le> dir_index d \<and> dir_index d < int (length ns)
                  then let e = ns ! nat (dir_index d)
                       in Inr (1, Some (take (unat (de_name_len e)) (de_name e), de_name_len e, de_type e),
                               set_dir fd (d\<lparr>dir_index := dir_index d + 1\<rparr>) s)
                  else Inl (Panic ''null pointer''))))"

definition seek_index :: "int \<Rightarrow> int \<Rightarrow> dir_t \<Rightarrow> int option" where
  "seek_index offset whence d =
     (if whence = 0 then if offset < 0 \<or> offset \<ge> dir_number d then None else Some offset
      else if whence = 1 then
        if offset < 0 \<and> dir_index d + offset < 0 then None
        else if offset > 0 \<and> dir_index d + offset \<ge> dir_number d then None
        else Some (dir_index d + offset)
      else if whence = 2 then
        if offset > 0 \<or> dir_number d + offset < 0 then None else Some (dir_number d + offset)
      else None)"

definition seek_dirfd :: "int \<Rightarrow> int \<Rightarrow> int \<Rightarrow> fd_state \<Rightarrow> (int \<times> fd_state) res" where
  "seek_dirfd fd offset whence s =
     (if fd \<ge> VFS_COMPAT_MAX_OPEN_FILES then Inr (VFS_ERROR, s)
      else res_bind (GET_DIR s fd) (\<lambda>d.
        if \<not> fd_loaded (dir_fd d) then Inr (VFS_ERROR, s)
        else (case seek_index offset whence d of
                None \<Rightarrow> Inr (VFS_ERROR, s)
              | Some i \<Rightarrow>
                  let i1 = (if i < 0 then 0 else i);
                      i2 = (if i1 \<ge> dir_number d then dir_number d - 1 else i1)
                  in Inr (1, set_dir fd (d\<lparr>dir_index := i2\<rparr>) s))))"

definition tell_dirfd :: "int \<Rightarrow> fd_state \<Rightarrow> int res" where
  "tell_dirfd fd s =
     (if fd \<ge> VFS_COMPAT_MAX_OPEN_FILES then Inr VFS_ERROR
      else res_bind (GET_DIR s fd) (\<lambda>d. if \<not> fd_loaded (dir_fd d) then Inr VFS_ERROR else Inr (dir_index d)))"

definition release_dirfd :: "int \<Rightarrow> fd_state \<Rightarrow> (int \<times> fd_state) res" where
  "release_dirfd fd s =
     (if fd \<ge> VFS_COMPAT_MAX_OPEN_FILES then Inr (VFS_ERROR, s)
      else res_bind (GET_DIR s fd) (\<lambda>d.
        case dir_dentries d of
          NoDents \<Rightarrow> Inl (Panic ''null pointer'')
        | FreedDents \<Rightarrow> Inl (Panic ''use after free'')
        | Dents ns \<Rightarrow> Inr (0, set_dir fd ((unload d)\<lparr>dir_dentries := (if ns = [] then Dents [] else FreedDents)\<rparr>) s)))"

definition add_file_to_dirfd :: "int \<Rightarrow> string \<Rightarrow> u32 \<Rightarrow> u32 \<Rightarrow> u32 \<Rightarrow> fd_state \<Rightarrow> (int \<times> fd_state) res" where
  "add_file_to_dirfd fd name inode type name_len s =
     (if fd \<ge> VFS_COMPAT_MAX_OPEN_FILES then Inr (0, s)
      else if length name > VFS_FDE_NAME_MAX_LEN then Inr (0, s)
      else res_bind (GET_DIR s fd) (\<lambda>d.
        if \<not> fd_loaded (dir_fd d) then Inr (0, s)
        else (case dir_dentries d of
                NoDents \<Rightarrow> Inl (Panic ''null pointer'')
              | FreedDents \<Rightarrow> Inl (Panic ''use after free'')
              | Dents ns \<Rightarrow> res_bind (copy_name name) (\<lambda>n.
                  Inr (1, set_dir fd (d\<lparr>dir_dentries := Dents (ns @ [\<lparr>de_name = n, de_name_len = name_len,
                            de_inode = inode, de_type = type\<rparr>]), dir_number := dir_number d + 1\<rparr>) s)))))"

section \<open>Finding a free descriptor\<close>

abbreviation loaded :: "fd_state \<Rightarrow> int \<Rightarrow> bool" where
  "loaded s fd \<equiv> fd_loaded (dir_fd (entries_table s fd))"

definition fd_used :: "fd_state \<Rightarrow> int set" where
  "fd_used s = {fd. in_table fd \<and> loaded s fd}"

definition short_names :: "string \<Rightarrow> string \<Rightarrow> bool" where
  "short_names path mount \<longleftrightarrow> length path < VFS_FDE_NAME_MAX_LEN \<and> length mount < VFS_FDE_NAME_MAX_LEN"

lemma next_fd_mod: "in_table c \<Longrightarrow> next_fd c = (c + 1) mod VFS_COMPAT_MAX_OPEN_FILES"
  by (cases "c + 1 = VFS_COMPAT_MAX_OPEN_FILES") (auto simp: next_fd_def in_table_def)

lemma in_table_next: "in_table c \<Longrightarrow> in_table (next_fd c)"
  by (auto simp: next_fd_def in_table_def VFS_COMPAT_MAX_OPEN_FILES_def)

lemma get_fd_loop_outcome:
  assumes "in_table (get_fd_cursor s)" and names: "short_names path mount"
  shows "(\<exists>s'. get_fd_loop n path mount flags mode s = Inr (VFS_ERROR, s') \<and> entries_table s' = entries_table s \<and>
            (\<forall>k < n. loaded s ((get_fd_cursor s + int k) mod VFS_COMPAT_MAX_OPEN_FILES))) \<or>
         (\<exists>fd s'. get_fd_loop n path mount flags mode s = Inr (fd, s') \<and> in_table fd \<and> \<not> loaded s fd \<and>
            get_fd_cursor s' = fd + 1 \<and>
            entries_table s' = (entries_table s)(fd := (entries_table s fd)\<lparr>dir_fd := \<lparr>fd_name = path, fd_mount = mount,
              fd_flags = flags, fd_mode = mode, fd_offset = 0, fd_loaded = True\<rparr>\<rparr>))"
  using assms(1)
proof (induction n arbitrary: s)
  case (Suc n)
  let ?c = "get_fd_cursor s" and ?M = VFS_COMPAT_MAX_OPEN_FILES
  have nm: "length path < VFS_FDE_NAME_MAX_LEN" "length mount < VFS_FDE_NAME_MAX_LEN"
    using names by (auto simp: short_names_def)
  show ?case
  proof (cases "loaded s ?c")
    case False
    then show ?thesis using Suc.prems nm
      by (intro disjI2) (simp add: GET_DIR_def Let_def fill_entry_def copy_name_def set_dir_def fun_upd_def)
  next
    case True
    let ?s = "s\<lparr>get_fd_cursor := next_fd ?c\<rparr>"
    have e: "get_fd_loop (Suc n) path mount flags mode s = get_fd_loop n path mount flags mode ?s"
      using True Suc.prems by (simp add: GET_DIR_def Let_def)
    have sh: "(next_fd ?c + int k) mod ?M = (?c + int (Suc k)) mod ?M" for k
      unfolding next_fd_mod [OF Suc.prems] mod_add_left_eq by (simp add: algebra_simps)
    have c0: "?c mod ?M = ?c" using Suc.prems by (simp add: in_table_def)
    have "loaded s ((?c + int k) mod ?M)"
      if all: "\<forall>k < n. loaded s ((next_fd ?c + int k) mod ?M)" and k: "k < Suc n" for k
    proof (cases k)
      case 0
      then show ?thesis using True c0 by simp
    next
      case (Suc i)
      with k all have "loaded s ((next_fd ?c + int i) mod ?M)" by simp
      then show ?thesis unfolding sh Suc .
    qed
    with Suc.IH [of ?s] in_table_next [OF Suc.prems] show ?thesis unfolding e by auto
  qed
qed simp

lemma get_fd_outcome:
  assumes c: "in_table (get_fd_cursor s)" and names: "short_names path mount"
  shows "(\<exists>s'. get_fd path mount flags mode s = Inr (VFS_ERROR, s') \<and> entries_table s' = entries_table s \<and>
            (\<forall>fd. in_table fd \<longrightarrow> loaded s fd)) \<or>
         (\<exists>fd s'. get_fd path mount flags mode s = Inr (fd, s') \<and> in_table fd \<and> \<not> loaded s fd \<and>
            get_fd_cursor s' = fd + 1 \<and>
            entries_table s' = (entries_table s)(fd := (entries_table s fd)\<lparr>dir_fd := \<lparr>fd_name = path, fd_mount = mount,
              fd_flags = flags, fd_mode = mode, fd_offset = 0, fd_loaded = True\<rparr>\<rparr>))"
proof -
  let ?c = "get_fd_cursor s" and ?M = VFS_COMPAT_MAX_OPEN_FILES
  have all: "\<forall>fd. in_table fd \<longrightarrow> loaded s fd" if l: "\<forall>k < nat ?M. loaded s ((?c + int k) mod ?M)"
  proof (intro allI impI)
    fix fd
    assume fd: "in_table fd"
    let ?k = "nat ((fd - ?c) mod ?M)"
    have M: "0 < ?M" by (simp add: VFS_COMPAT_MAX_OPEN_FILES_def)
    have "(fd - ?c) mod ?M < ?M" "0 \<le> (fd - ?c) mod ?M" using M by (rule pos_mod_bound, rule pos_mod_sign)
    then have "?k < nat ?M" "int ?k = (fd - ?c) mod ?M" using M by auto
    then have "loaded s ((?c + (fd - ?c) mod ?M) mod ?M)" using l by metis
    moreover have "(?c + (fd - ?c) mod ?M) mod ?M = fd" using fd by (simp add: mod_simps in_table_def)
    ultimately show "loaded s fd" by simp
  qed
  have "get_fd path mount flags mode s = get_fd_loop (nat ?M) path mount flags mode s"
    using names by (simp add: get_fd_def short_names_def)
  with get_fd_loop_outcome [OF c names, of "nat ?M" flags mode] all show ?thesis by auto
qed

section \<open>Descriptors as an allocator\<close>

text \<open>An open succeeds with a descriptor; the cursor may have run to the end of the table, in
  which case the open faults.\<close>

type_synonym open_request = "string \<times> string \<times> int \<times> int"

definition opens :: "fd_state \<Rightarrow> open_request \<Rightarrow> int \<Rightarrow> fd_state \<Rightarrow> bool" where
  "opens s r fd s' \<longleftrightarrow> (case r of (path, mount, flags, mode) \<Rightarrow>
     get_fd path mount flags mode s = Inr (fd, s') \<and> fd \<noteq> VFS_ERROR)"

definition closes :: "fd_state \<Rightarrow> int \<Rightarrow> open_request \<Rightarrow> fd_state \<Rightarrow> bool" where
  "closes s fd r s' \<longleftrightarrow> release_fd fd s = Inr (0, s')"

abbreviation good_request :: "open_request \<Rightarrow> bool" where
  "good_request r \<equiv> (case r of (path, mount, flags, mode) \<Rightarrow> short_names path mount)"

lemma get_fd_bad_cursor:
  assumes "\<not> in_table (get_fd_cursor s)" and "short_names path mount"
  shows "get_fd path mount flags mode s = Inl (Panic ''descriptor outside the table'')"
proof -
  obtain n where "nat VFS_COMPAT_MAX_OPEN_FILES = Suc n" by (cases "nat VFS_COMPAT_MAX_OPEN_FILES") (auto simp: VFS_COMPAT_MAX_OPEN_FILES_def)
  then show ?thesis using assms by (simp add: get_fd_def short_names_def GET_DIR_def Let_def)
qed

lemma opens_fresh:
  assumes "good_request r" and "opens s r fd s'"
  shows "fd \<notin> fd_used s \<and> fd_used s' = insert fd (fd_used s)"
proof -
  obtain path mount flags mode where r: "r = (path, mount, flags, mode)" by (cases r)
  from assms have names: "short_names path mount" and g: "get_fd path mount flags mode s = Inr (fd, s')" "fd \<noteq> VFS_ERROR"
    by (auto simp: r opens_def)
  have c: "in_table (get_fd_cursor s)" using get_fd_bad_cursor [OF _ names] g(1) by fastforce
  from get_fd_outcome [OF c names, of flags mode] g have "in_table fd" "\<not> loaded s fd"
    "entries_table s' = (entries_table s)(fd := (entries_table s fd)\<lparr>dir_fd := \<lparr>fd_name = path, fd_mount = mount,
              fd_flags = flags, fd_mode = mode, fd_offset = 0, fd_loaded = True\<rparr>\<rparr>)" by auto
  then show ?thesis by (auto simp: fd_used_def)
qed

lemma closes_removes: "closes s fd r s' \<Longrightarrow> fd_used s' = fd_used s - {fd}"
  by (auto simp: closes_def release_fd_def fd_used_def GET_DIR_def unload_def set_dir_def VFS_ERROR_def split: if_splits)

interpretation fds: block_allocator opens closes good_request fd_used "\<lambda>s fd r. {fd}" "\<lambda>s fd r. fd \<in> fd_used s" "\<lambda>_. True"
proof (unfold_locales, goal_cases)
  case (1 s r fd s')
  then show ?case using opens_fresh by blast
next
  case (2 s r fd s')
  then show ?case using opens_fresh by blast
next
  case (3 s r fd s')
  then show ?case using closes_removes by blast
next
  case (4 s r fd s' q k)
  then show ?case using closes_removes by fastforce
qed

section \<open>Directory streams\<close>

type_synonym file_info = "string \<times> u32 \<times> u32 \<times> u32"

primrec add_files :: "int \<Rightarrow> file_info list \<Rightarrow> fd_state \<Rightarrow> fd_state res" where
  "add_files fd [] s = Inr s"
| "add_files fd (f # fs) s =
     (case f of (name, inode, ty, len) \<Rightarrow>
        res_bind (add_file_to_dirfd fd name inode ty len s) (\<lambda>(r, s'). add_files fd fs s'))"

primrec read_entries :: "int \<Rightarrow> nat \<Rightarrow> fd_state \<Rightarrow> ((string \<times> u32 \<times> u32) option list \<times> fd_state) res" where
  "read_entries fd 0 s = Inr ([], s)"
| "read_entries fd (Suc n) s =
     res_bind (read_dirfd fd s) (\<lambda>(r, e, s'). res_bind (read_entries fd n s') (\<lambda>(es, s2). Inr (e # es, s2)))"

definition dent_of :: "file_info \<Rightarrow> dentry" where
  "dent_of f = (case f of (name, inode, ty, len) \<Rightarrow>
     \<lparr>de_name = name, de_name_len = len, de_inode = inode, de_type = ty\<rparr>)"

definition listed :: "dentry \<Rightarrow> string \<times> u32 \<times> u32" where
  "listed e = (take (unat (de_name_len e)) (de_name e), de_name_len e, de_type e)"

definition dir_open_with :: "fd_state \<Rightarrow> int \<Rightarrow> dentry list \<Rightarrow> nat \<Rightarrow> bool" where
  "dir_open_with s fd ns i \<longleftrightarrow> in_table fd \<and> loaded s fd \<and> dir_dentries (entries_table s fd) = Dents ns \<and>
     dir_number (entries_table s fd) = int (length ns) \<and> dir_index (entries_table s fd) = int i"

lemma add_files_appends:
  assumes "dir_open_with s fd ns i" and "list_all (\<lambda>(name, _). length name < VFS_FDE_NAME_MAX_LEN) fs"
  shows "\<exists>s'. add_files fd fs s = Inr s' \<and> dir_open_with s' fd (ns @ map dent_of fs) i"
  using assms
proof (induction fs arbitrary: s ns)
  case (Cons f fs)
  obtain name inode ty len where f: "f = (name, inode, ty, len)" by (cases f)
  let ?s = "set_dir fd ((entries_table s fd)\<lparr>dir_dentries := Dents (ns @ [dent_of f]),
              dir_number := dir_number (entries_table s fd) + 1\<rparr>) s"
  have "add_file_to_dirfd fd name inode ty len s = Inr (1, ?s)"
    using Cons.prems f
    by (auto simp: add_file_to_dirfd_def dir_open_with_def in_table_def GET_DIR_def copy_name_def dent_of_def)
  moreover have "dir_open_with ?s fd (ns @ [dent_of f]) i"
    using Cons.prems(1) by (auto simp: dir_open_with_def set_dir_def)
  ultimately show ?case using Cons.IH [of ?s "ns @ [dent_of f]"] Cons.prems(2) f by simp
qed simp

lemma read_next:
  assumes "dir_open_with s fd ns i" and "i < length ns"
  shows "\<exists>s'. read_dirfd fd s = Inr (1, Some (listed (ns ! i)), s') \<and> dir_open_with s' fd ns (Suc i)"
  using assms
  by (auto simp: read_dirfd_def dir_open_with_def in_table_def GET_DIR_def listed_def set_dir_def Let_def)

lemma read_entries_lists:
  assumes "dir_open_with s fd ns i" and "i + n \<le> length ns"
  shows "\<exists>s'. read_entries fd n s = Inr (map (\<lambda>e. Some (listed e)) (take n (drop i ns)), s') \<and> dir_open_with s' fd ns (i + n)"
  using assms
proof (induction n arbitrary: s i)
  case (Suc n)
  then have "i < length ns" by simp
  from read_next [OF Suc.prems(1) this] obtain s1 where
    s1: "read_dirfd fd s = Inr (1, Some (listed (ns ! i)), s1)" "dir_open_with s1 fd ns (Suc i)" by blast
  from Suc.IH [OF s1(2)] Suc.prems(2) s1(1) show ?case
    by (auto simp: \<open>i < length ns\<close> simp flip: Cons_nth_drop_Suc)
qed simp

section \<open>Properties\<close>

lemma distinct_fst: "sorted_wrt (\<lambda>x y. fst y \<noteq> fst x) xs \<Longrightarrow> distinct (map fst xs)"
  by (induction xs) auto

text \<open>Opening a file with names shorter than 256 characters, while the cursor is inside the table,
  either returns a descriptor that was not in use and fills exactly that entry, or returns
  \<open>VFS_ERROR\<close> without touching the table because every one of the 65536 entries is in use.\<close>

theorem get_fd_fresh_or_full:
  assumes "in_table (get_fd_cursor s)" and "short_names path mount"
  shows "(\<exists>s'. get_fd path mount flags mode s = Inr (VFS_ERROR, s') \<and> entries_table s' = entries_table s \<and>
            (\<forall>fd. in_table fd \<longrightarrow> loaded s fd)) \<or>
         (\<exists>fd s'. get_fd path mount flags mode s = Inr (fd, s') \<and> in_table fd \<and> \<not> loaded s fd \<and>
            get_fd_cursor s' = fd + 1 \<and>
            entries_table s' = (entries_table s)(fd := (entries_table s fd)\<lparr>dir_fd := \<lparr>fd_name = path, fd_mount = mount,
              fd_flags = flags, fd_mode = mode, fd_offset = 0, fd_loaded = True\<rparr>\<rparr>))"
  by (rule get_fd_outcome [OF assms])

definition demo_fds :: fd_state where
  "demo_fds = \<lparr>entries_table = (\<lambda>_. \<lparr>dir_fd = \<lparr>fd_name = [], fd_mount = [], fd_flags = 0, fd_mode = 0, fd_offset = 0,
     fd_loaded = False\<rparr>, dir_dentries = NoDents, dir_number = 0, dir_index = 0\<rparr>), get_fd_cursor = 65535, get_dirfd_cursor = 0\<rparr>"

lemma demo_fds_ok: "in_table (get_fd_cursor demo_fds)" "short_names ''/a'' ''hdap0''" "\<not> loaded demo_fds fd"
  by (simp_all add: demo_fds_def in_table_def VFS_COMPAT_MAX_OPEN_FILES_def short_names_def VFS_FDE_NAME_MAX_LEN_def)

theorem get_fd_fresh_or_full_witness:
  "\<exists>fd s'. get_fd ''/a'' ''hdap0'' 0 0 demo_fds = Inr (fd, s') \<and> in_table fd \<and> \<not> loaded demo_fds fd \<and>
     get_fd_cursor s' = fd + 1"
proof -
  have "\<not> (\<forall>fd. in_table fd \<longrightarrow> loaded demo_fds fd)" using demo_fds_ok(1,3) by blast
  with get_fd_fresh_or_full [OF demo_fds_ok(1,2), of 0 0] show ?thesis by blast
qed

text \<open>C21: Whatever sequence of successful opens and of closes of live descriptors runs, the live
  descriptors are distinct and are exactly the entries loaded since the start.\<close>

theorem live_descriptors_distinct:
  assumes "alloc_run opens closes good_request s0 s live"
  shows "distinct (map fst live) \<and> fd_used s = fd_used s0 \<union> fst ` set live \<and> fd_used s0 \<inter> fst ` set live = {}"
proof -
  note r = fds.run_inv [OF assms]
  then have "distinct (map fst live)" by (intro distinct_fst) (simp add: case_prod_unfold)
  with r show ?thesis by (auto simp: live_cells_def case_prod_unfold)
qed

theorem live_descriptors_distinct_witness:
  "\<exists>fd s'. alloc_run opens closes good_request demo_fds s' [(fd, ''/a'', ''hdap0'', 0, 0)] \<and> fd_used s' = {fd}"
proof -
  from get_fd_outcome [OF demo_fds_ok(1,2), of 0 0] demo_fds_ok(1,3) obtain fd s' where
    g: "get_fd ''/a'' ''hdap0'' 0 0 demo_fds = Inr (fd, s')" "in_table fd" by blast
  then have o: "opens demo_fds (''/a'', ''hdap0'', 0, 0) fd s'" by (auto simp: opens_def in_table_def VFS_ERROR_def)
  have r: "alloc_run opens closes good_request demo_fds s' [(fd, ''/a'', ''hdap0'', 0, 0)]"
    by (rule alloc_run.alloc [where s = demo_fds], rule alloc_run.start) (use o demo_fds_ok(2) in simp_all)
  have "fd_used demo_fds = {}" using demo_fds_ok(3) by (auto simp: fd_used_def)
  with live_descriptors_distinct [OF r] r show ?thesis by auto
qed

text \<open>Once the last entry of the table has been handed out, the cursor stands one past the end
  and the next open reads past the table, however many entries are free.\<close>

theorem get_fd_runs_past_table:
  assumes "get_fd_cursor s = 65535" and "\<not> loaded s 65535" and "short_names path mount"
  shows "\<exists>s'. get_fd path mount flags mode s = Inr (65535, s') \<and>
     get_fd path mount flags mode s' = Inl (Panic ''descriptor outside the table'')"
proof -
  have c: "in_table (get_fd_cursor s)" using assms(1) by (simp add: in_table_def VFS_COMPAT_MAX_OPEN_FILES_def)
  obtain n where n: "nat VFS_COMPAT_MAX_OPEN_FILES = Suc n"
    by (cases "nat VFS_COMPAT_MAX_OPEN_FILES") (auto simp: VFS_COMPAT_MAX_OPEN_FILES_def)
  have "\<exists>s'. get_fd path mount flags mode s = Inr (65535, s') \<and> get_fd_cursor s' = 65536"
    using assms c n by (simp add: get_fd_def short_names_def GET_DIR_def Let_def fill_entry_def copy_name_def)
  then obtain s' where s': "get_fd path mount flags mode s = Inr (65535, s')" "get_fd_cursor s' = 65536" by blast
  have "\<not> in_table (get_fd_cursor s')" using s'(2) by (simp add: in_table_def VFS_COMPAT_MAX_OPEN_FILES_def)
  from get_fd_bad_cursor [OF this assms(3)] s'(1) show ?thesis by blast
qed

theorem get_fd_runs_past_table_witness:
  "\<exists>s'. get_fd ''/a'' ''hdap0'' 0 0 demo_fds = Inr (65535, s') \<and>
     get_fd ''/a'' ''hdap0'' 0 0 s' = Inl (Panic ''descriptor outside the table'')"
  by (rule get_fd_runs_past_table) (simp_all add: demo_fds_def short_names_def VFS_FDE_NAME_MAX_LEN_def)

text \<open>C22: Files added to an empty directory stream are listed by repeated reads, in order, each with
  the prefix of its name of the recorded length.\<close>

theorem directory_listing_roundtrip:
  assumes "dir_open_with s fd [] 0" and "list_all (\<lambda>(name, _). length name < VFS_FDE_NAME_MAX_LEN) fs"
  shows "\<exists>s1 s2. add_files fd fs s = Inr s1 \<and>
     read_entries fd (length fs) s1 = Inr (map (\<lambda>f. Some (listed (dent_of f))) fs, s2)"
proof -
  from add_files_appends [OF assms] obtain s1 where s1: "add_files fd fs s = Inr s1" "dir_open_with s1 fd (map dent_of fs) 0" by auto
  from read_entries_lists [OF s1(2), of "length fs"] s1(1) show ?thesis by (auto simp: comp_def)
qed

definition demo_dir :: fd_state where
  "demo_dir = set_dir 3 \<lparr>dir_fd = \<lparr>fd_name = ''/d'', fd_mount = ''hdap0'', fd_flags = 0, fd_mode = 0, fd_offset = 0,
     fd_loaded = True\<rparr>, dir_dentries = Dents [], dir_number = 0, dir_index = 0\<rparr> demo_fds"

definition demo_files :: "file_info list" where
  "demo_files = [(''a'', 11, 1, 1), (''bc'', 12, 2, 2)]"

theorem directory_listing_roundtrip_witness:
  "\<exists>s1 s2. add_files 3 demo_files demo_dir = Inr s1 \<and>
     read_entries 3 2 s1 = Inr ([Some (''a'', 1, 1), Some (''bc'', 2, 2)], s2)"
proof -
  have d: "dir_open_with demo_dir 3 [] 0"
    by (simp add: dir_open_with_def demo_dir_def set_dir_def in_table_def VFS_COMPAT_MAX_OPEN_FILES_def)
  have n: "list_all (\<lambda>(name, _). length name < VFS_FDE_NAME_MAX_LEN) demo_files"
    by (simp add: VFS_FDE_NAME_MAX_LEN_def demo_files_def)
  have m: "map (\<lambda>f. Some (listed (dent_of f))) demo_files = [Some (''a'', 1, 1), Some (''bc'', 2, 2)]" by code_simp
  have l: "length demo_files = 2" by (simp add: demo_files_def)
  show ?thesis using directory_listing_roundtrip [OF d n] unfolding m l .
qed

end
