(* ===== verification/Vfs.thy ===== *)
theory Vfs
  imports Vfs_Compat
begin

text \<open>
  The virtual file system layer: path handling, mounts and file system types of
  drivers/vfs/vfs.c and the calls of drivers/vfs/vfs_interface.c.  C strings are HOL strings;
  allocation failures are not modelled.  The operations of a file system type are function
  pointers, so they are the fields of the record \<open>fs_ops\<close>, over a world that consists of the
  descriptor table and a state of their own.  The mount list is the list of its filled nodes
  (the last node of the C list is always empty).
\<close>

type_synonym 'st world = "fd_state \<times> 'st"

type_synonym ('st, 'r) fs_call = "'st world \<Rightarrow> 'r \<times> 'st world"

record 'st fs_ops =
  op_register_partition :: "string \<Rightarrow> u32 \<Rightarrow> string \<Rightarrow> ('st, int) fs_call"
  op_detect :: "string \<Rightarrow> u32 \<Rightarrow> ('st, bool) fs_call"
  op_file_flush :: "int \<Rightarrow> int \<Rightarrow> ('st, int) fs_call"
  op_file_open :: "int \<Rightarrow> string \<Rightarrow> int \<Rightarrow> int \<Rightarrow> ('st, int) fs_call"
  op_file_close :: "int \<Rightarrow> int \<Rightarrow> ('st, int) fs_call"
  op_file_creat :: "int \<Rightarrow> string \<Rightarrow> int \<Rightarrow> ('st, int) fs_call"
  op_file_link :: "int \<Rightarrow> string \<Rightarrow> string \<Rightarrow> int \<Rightarrow> ('st, int) fs_call"
  op_file_dup :: "int \<Rightarrow> int \<Rightarrow> int \<Rightarrow> ('st, int) fs_call"
  op_file_read :: "int \<Rightarrow> int \<Rightarrow> u64 \<Rightarrow> u64 \<Rightarrow> ('st, int) fs_call"
  op_file_write :: "int \<Rightarrow> int \<Rightarrow> u64 \<Rightarrow> u64 \<Rightarrow> ('st, int) fs_call"
  op_file_seek :: "int \<Rightarrow> int \<Rightarrow> u64 \<Rightarrow> int \<Rightarrow> ('st, int) fs_call"
  op_file_tell :: "int \<Rightarrow> int \<Rightarrow> ('st, int) fs_call"
  op_file_ioctl :: "int \<Rightarrow> int \<Rightarrow> int \<Rightarrow> u64 \<Rightarrow> ('st, int) fs_call"
  op_file_stat :: "int \<Rightarrow> int \<Rightarrow> u64 \<Rightarrow> ('st, int) fs_call"
  op_file_event :: "int \<Rightarrow> int \<Rightarrow> u64 \<Rightarrow> ('st, int) fs_call"
  op_dir_open :: "int \<Rightarrow> string \<Rightarrow> ('st, int) fs_call"
  op_dir_close :: "int \<Rightarrow> int \<Rightarrow> ('st, int) fs_call"
  op_dir_load :: "int \<Rightarrow> int \<Rightarrow> ('st, int) fs_call"
  op_dir_read :: "int \<Rightarrow> int \<Rightarrow> ('st, int \<times> string \<times> u32 \<times> u32) fs_call"
  op_dir_creat :: "int \<Rightarrow> string \<Rightarrow> int \<Rightarrow> ('st, int) fs_call"
  op_dir_seek :: "int \<Rightarrow> int \<Rightarrow> int \<Rightarrow> int \<Rightarrow> ('st, int) fs_call"
  op_dir_tell :: "int \<Rightarrow> int \<Rightarrow> ('st, int) fs_call"
  op_prepare_remove :: "int \<Rightarrow> string \<Rightarrow> ('st, int) fs_call"
  op_file_readlink :: "int \<Rightarrow> string \<Rightarrow> ('st, string option) fs_call"
  op_remove :: "int \<Rightarrow> string \<Rightarrow> ('st, int) fs_call"

record 'st vfs_file_system_type =
  fst_name :: string
  fst_majors :: "u8 list"
  fst_ops :: "'st fs_ops"

record vfs_partition =
  vp_name :: string
  vp_lba :: u32
  vp_size :: u32
  vp_status :: u8
  vp_type :: u8

record 'st vfs_mount =
  mnt_device :: string
  mnt_partition :: vfs_partition
  mnt_fst :: "'st vfs_file_system_type"
  mnt_internal_index :: int

record 'st vfs_path =
  path_mnt :: "'st vfs_mount"
  path_path :: string

record 'st vfs_struct =
  vs_root :: "'st vfs_path"
  vs_pwd :: "'st vfs_path"

record 'st vfs =
  file_system_types :: "'st vfs_file_system_type list"
  mount_list :: "'st vfs_mount list"
  main_mount :: "'st vfs_mount option"

section \<open>Paths\<close>

definition slash :: char where "slash = CHR ''/''"

definition dot :: char where "dot = CHR ''.''"

definition is_absolute_path :: "string \<Rightarrow> bool" where
  "is_absolute_path path \<longleftrightarrow> take 1 path = [slash]"

text \<open>The tokens that repeated calls of \<open>strtok\<close> with the delimiter \<open>/\<close> return.  When only
  delimiters are left, \<open>strtok\<close> steps over the terminator and reads on behind the string.\<close>

function strtok_tokens :: "string \<Rightarrow> string list res" where
  "strtok_tokens s =
     (if s = [] then Inr []
      else let s1 = dropWhile ((=) slash) s in
           if s1 = [] then Inl (Panic ''strtok reads past the string'')
           else res_bind (strtok_tokens (drop 1 (dropWhile ((\<noteq>) slash) s1)))
                  (\<lambda>ts. Inr (takeWhile ((\<noteq>) slash) s1 # ts)))"
  by auto
termination
proof (relation "measure length")
  fix s s1 :: string
  assume "s \<noteq> []" "s1 = dropWhile ((=) slash) s" "s1 \<noteq> []"
  then have "length (dropWhile ((\<noteq>) slash) s1) < length s1"
    by (metis dropWhile_eq_self_iff hd_dropWhile length_dropWhile_le le_neq_implies_less
        dropWhile_append3 append_Nil2 dropWhile_idem length_greater_0_conv takeWhile_dropWhile_id
        length_append less_add_same_cancel2 takeWhile_eq_Nil_iff)
  moreover have "length s1 \<le> length s" using \<open>s1 = _\<close> by (simp add: length_dropWhile_le)
  ultimately show "(drop 1 (dropWhile ((\<noteq>) slash) s1), s) \<in> measure length" by simp
qed simp

declare strtok_tokens.simps [simp del]

definition depth_of :: "string list \<Rightarrow> int" where
  "depth_of ts = fold (\<lambda>token depth. if token = ''..'' then depth + 1 else depth - 1) ts 1"

definition goes_behind_root :: "string \<Rightarrow> bool res" where
  "goes_behind_root path =
     (if take 1 path = [slash] then res_bind (strtok_tokens path) (\<lambda>ts. Inr (depth_of ts > 0))
      else Inr False)"

definition get_root_path_from_struct :: "'st vfs_struct \<Rightarrow> string" where
  "get_root_path_from_struct fs =
     vp_name (mnt_partition (path_mnt (vs_root fs)))
     @ (if take 1 (path_path (vs_root fs)) \<noteq> [slash] then [slash] else []) @ path_path (vs_root fs)"

definition get_cwd_path_from_struct :: "'st vfs_struct \<Rightarrow> string" where
  "get_cwd_path_from_struct fs =
     vp_name (mnt_partition (path_mnt (vs_pwd fs)))
     @ (if take 1 (path_path (vs_pwd fs)) \<noteq> [slash] then [slash] else []) @ path_path (vs_pwd fs)"

definition apply_cwd :: "'st vfs_struct \<Rightarrow> string \<Rightarrow> string option res" where
  "apply_cwd cwd path =
     (if take 5 path = ''/dev/'' then Inr (Some path)
      else res_bind (goes_behind_root path) (\<lambda>behind.
        if behind then Inr None
        else if is_absolute_path path then Inr (Some (get_root_path_from_struct cwd @ path))
        else let cwd_path = get_cwd_path_from_struct cwd
             in Inr (Some (cwd_path @ (if cwd_path = [] \<or> last cwd_path \<noteq> slash then [slash] else []) @ path))))"

text \<open>The in-place rewriting of \<open>vfs_normalize_path\<close>: what is left to read and, reversed, what has
  been written in front of it.\<close>

function normalize_loop :: "string \<Rightarrow> string \<Rightarrow> string" where
  "normalize_loop [] out = out"
| "normalize_loop (c # cs) out =
     (if c = slash \<and> take 1 cs = [slash] then normalize_loop cs out
      else if c = dot \<and> take 1 cs = [slash] then normalize_loop (drop 1 cs) out
      else if c = dot \<and> take 2 cs = [dot, slash] then normalize_loop (drop 2 cs) (dropWhile ((\<noteq>) slash) out)
      else normalize_loop cs (c # out))"
  by pat_completeness auto
termination by (relation "measure (\<lambda>(cs, out). length cs)") auto

definition normalize :: "string \<Rightarrow> string" where
  "normalize path = rev (dropWhile (\<lambda>c. c = slash \<or> c = dot) (normalize_loop path []))"

definition vfs_normalize_path :: "'st vfs_struct \<Rightarrow> string \<Rightarrow> string res" where
  "vfs_normalize_path cwd rpath =
     res_bind (apply_cwd cwd rpath) (\<lambda>p.
       case p of None \<Rightarrow> Inl (Panic ''vfs_normalize_path: Invalid path'')
       | Some path \<Rightarrow> Inr (normalize path))"

section \<open>Mounts\<close>

definition register_filesystem :: "'st vfs_file_system_type \<Rightarrow> 'st vfs \<Rightarrow> 'st vfs res" where
  "register_filesystem registrar v =
     (if fst_name registrar \<in> fst_name ` set (file_system_types v)
      then Inl (Panic ''[VFS] File system type with same name already registered'')
      else Inr (v\<lparr>file_system_types := file_system_types v @ [registrar\<lparr>fst_name := take 32 (fst_name registrar)\<rparr>]\<rparr>))"

definition add_partition :: "u32 \<Rightarrow> u32 \<Rightarrow> u8 \<Rightarrow> u8 \<Rightarrow> vfs_partition list \<Rightarrow> vfs_partition list" where
  "add_partition lba sz status type parts =
     parts @ [\<lparr>vp_name = [], vp_lba = lba, vp_size = sz, vp_status = status, vp_type = type\<rparr>]"

definition add_mount :: "string \<Rightarrow> vfs_partition \<Rightarrow> 'st vfs_file_system_type \<Rightarrow> int \<Rightarrow> 'st vfs \<Rightarrow> 'st vfs" where
  "add_mount device part ft internal_index v =
     v\<lparr>mount_list := mount_list v @ [\<lparr>mnt_device = device, mnt_partition = part, mnt_fst = ft,
        mnt_internal_index = internal_index\<rparr>]\<rparr>"

text \<open>\<open>devmaj\<close> is the device's \<open>bc << 7 | major\<close>.  The value is 1 when the partition was mounted.\<close>

primrec mount_loop :: "'st vfs_file_system_type list \<Rightarrow> string \<Rightarrow> u8 \<Rightarrow> vfs_partition \<Rightarrow> string \<Rightarrow>
    'st vfs \<Rightarrow> 'st world \<Rightarrow> int \<times> 'st vfs \<times> 'st world" where
  "mount_loop [] dev devmaj part mountpoint v w = (0, v, w)"
| "mount_loop (ft # fts) dev devmaj part mountpoint v w =
     (if devmaj \<notin> set (fst_majors ft) then mount_loop fts dev devmaj part mountpoint v w
      else case op_detect (fst_ops ft) dev (vp_lba part) w of (detected, w1) \<Rightarrow>
        if detected then
          case op_register_partition (fst_ops ft) dev (vp_lba part) mountpoint w1 of (ret, w2) \<Rightarrow>
            if ret = VFS_ERROR then (0, v, w2)
            else (1, add_mount dev (part\<lparr>vp_name := take 47 mountpoint\<rparr>) ft ret v, w2)
        else mount_loop fts dev devmaj part mountpoint v w1)"

definition mount_fs :: "string \<Rightarrow> u8 \<Rightarrow> vfs_partition \<Rightarrow> string \<Rightarrow> 'st vfs \<Rightarrow> 'st world \<Rightarrow> int \<times> 'st vfs \<times> 'st world" where
  "mount_fs dev devmaj part mountpoint v w =
     mount_loop (file_system_types v) dev devmaj part mountpoint v w"

definition set_main_mount :: "string \<Rightarrow> 'st vfs \<Rightarrow> 'st vfs" where
  "set_main_mount mountname v =
     (case List.find (\<lambda>m. vp_name (mnt_partition m) = mountname) (mount_list v) of
        Some m \<Rightarrow> v\<lparr>main_mount := Some m\<rparr> | None \<Rightarrow> v)"

text \<open>\<open>memcpy\<close> into \<open>native_path\<close> does not terminate it: what the buffer held behind the copied bytes
  (\<open>junk\<close>) stays part of the string.\<close>

definition get_mount_from_path :: "'st vfs \<Rightarrow> string \<Rightarrow> string \<Rightarrow> 'st vfs_mount option \<times> string" where
  "get_mount_from_path v junk cpath =
     (if take 5 cpath = ''/dev/'' \<or> take 1 cpath \<noteq> [slash] then
        let path = (if take 1 cpath = [slash] then drop 5 cpath else cpath)
        in case List.find (\<lambda>m. take (length (vp_name (mnt_partition m))) path = vp_name (mnt_partition m)) (mount_list v) of
             Some m \<Rightarrow>
               let rest = drop (length (vp_name (mnt_partition m))) path; native = rest @ drop (length rest) junk
               in (Some m, if take 1 native \<noteq> [slash] then [slash] else native)
           | None \<Rightarrow> (main_mount v, cpath)
      else (main_mount v, cpath))"

definition get_full_path_from_fdentry :: "file_descriptor_entry option \<Rightarrow> string option" where
  "get_full_path_from_fdentry entry = map_option (\<lambda>e. fd_mount e @ fd_name e) entry"

definition get_full_path_from_fd :: "fd_state \<Rightarrow> int \<Rightarrow> string option res" where
  "get_full_path_from_fd s fd = res_bind (vfs_compat_get_file_descriptor s fd) (\<lambda>e. Inr (get_full_path_from_fdentry e))"

definition get_full_path_from_dir :: "fd_state \<Rightarrow> int \<Rightarrow> string option res" where
  "get_full_path_from_dir s fd =
     res_bind (vfs_compat_get_dir s fd) (\<lambda>d.
       case d of None \<Rightarrow> Inl (Panic ''null pointer'')
       | Some d \<Rightarrow> Inr (get_full_path_from_fdentry (Some (dir_fd d))))"

definition is_safe_for_removing :: "string \<Rightarrow> bool \<Rightarrow> fd_state \<Rightarrow> bool \<times> fd_state" where
  "is_safe_for_removing path force s =
     (if is_open path s > 0 then if \<not> force then (False, s) else (True, snd (force_release path s)) else (True, s))"

definition get_struct_from_path :: "'st vfs \<Rightarrow> string \<Rightarrow> string \<Rightarrow> 'st vfs_struct option" where
  "get_struct_from_path v junk path =
     (case get_mount_from_path v junk path of
        (None, _) \<Rightarrow> None
      | (Some m, native) \<Rightarrow> Some \<lparr>vs_root = \<lparr>path_mnt = m, path_path = native\<rparr>, vs_pwd = \<lparr>path_mnt = m, path_path = native\<rparr>\<rparr>)"

section \<open>Calls on descriptors\<close>

text \<open>The C \<open>int\<close> that receives the \<open>int64_t\<close> of a read or a write.\<close>

definition to_int :: "int \<Rightarrow> int" where
  "to_int r = sint (word_of_int r :: u32)"

text \<open>The mount an operation on a descriptor goes to: \<open>None\<close> when there is no path, otherwise what
  \<open>get_mount_from_path\<close> finds.  The native path is not used by these calls.\<close>

definition fd_target :: "'st vfs \<Rightarrow> 'st world \<Rightarrow> int \<Rightarrow> 'st vfs_mount option option res" where
  "fd_target v w fd =
     res_bind (get_full_path_from_fd (fst w) fd) (\<lambda>p. Inr (map_option (\<lambda>path. fst (get_mount_from_path v [] path)) p))"

definition dir_target :: "'st vfs \<Rightarrow> 'st world \<Rightarrow> int \<Rightarrow> 'st vfs_mount option option res" where
  "dir_target v w fd =
     res_bind (get_full_path_from_dir (fst w) fd) (\<lambda>p. Inr (map_option (\<lambda>path. fst (get_mount_from_path v [] path)) p))"

definition dispatch :: "'st vfs_mount option option res \<Rightarrow> int \<Rightarrow> 'st world \<Rightarrow>
    ('st fs_ops \<Rightarrow> int \<Rightarrow> ('st, int) fs_call) \<Rightarrow> (int \<times> 'st world) res" where
  "dispatch target unmounted w call =
     res_bind target (\<lambda>t. case t of
        None \<Rightarrow> Inr (VFS_ERROR, w)
      | Some None \<Rightarrow> Inr (unmounted, w)
      | Some (Some m) \<Rightarrow> Inr (call (fst_ops (mnt_fst m)) (mnt_internal_index m) w))"

definition vfs_file_dup :: "'st vfs \<Rightarrow> int \<Rightarrow> int \<Rightarrow> 'st world \<Rightarrow> (int \<times> 'st world) res" where
  "vfs_file_dup v old new w = dispatch (fd_target v w old) VFS_ERROR w (\<lambda>ops i. op_file_dup ops i old new)"

definition vfs_file_close :: "'st vfs \<Rightarrow> int \<Rightarrow> 'st world \<Rightarrow> (int \<times> 'st world) res" where
  "vfs_file_close v fd w = dispatch (fd_target v w fd) VFS_ERROR w (\<lambda>ops i. op_file_close ops i fd)"

definition vfs_file_read :: "'st vfs \<Rightarrow> int \<Rightarrow> u64 \<Rightarrow> u64 \<Rightarrow> 'st world \<Rightarrow> (int \<times> 'st world) res" where
  "vfs_file_read v fd buffer sz w =
     dispatch (fd_target v w fd) VFS_ERROR w (\<lambda>ops i w. apfst to_int (op_file_read ops i fd buffer sz w))"

definition vfs_file_write :: "'st vfs \<Rightarrow> int \<Rightarrow> u64 \<Rightarrow> u64 \<Rightarrow> 'st world \<Rightarrow> (int \<times> 'st world) res" where
  "vfs_file_write v fd buffer sz w =
     dispatch (fd_target v w fd) VFS_ERROR w (\<lambda>ops i w. apfst to_int (op_file_write ops i fd buffer sz w))"

definition vfs_file_ioctl :: "'st vfs \<Rightarrow> int \<Rightarrow> int \<Rightarrow> u64 \<Rightarrow> 'st world \<Rightarrow> (int \<times> 'st world) res" where
  "vfs_file_ioctl v fd request arg w = dispatch (fd_target v w fd) 0 w (\<lambda>ops i. op_file_ioctl ops i fd request arg)"

definition vfs_file_event :: "'st vfs \<Rightarrow> int \<Rightarrow> int \<Rightarrow> u64 \<Rightarrow> 'st world \<Rightarrow> (int \<times> 'st world) res" where
  "vfs_file_event v fd event_kind event_result w =
     dispatch (fd_target v w fd) VFS_ERROR w (\<lambda>ops i. op_file_event ops i event_kind event_result)"

definition vfs_file_stat :: "'st vfs \<Rightarrow> int \<Rightarrow> u64 \<Rightarrow> 'st world \<Rightarrow> (int \<times> 'st world) res" where
  "vfs_file_stat v fd st w = dispatch (fd_target v w fd) VFS_ERROR w (\<lambda>ops i. op_file_stat ops i fd st)"

definition vfs_file_seek :: "'st vfs \<Rightarrow> int \<Rightarrow> u64 \<Rightarrow> int \<Rightarrow> 'st world \<Rightarrow> (int \<times> 'st world) res" where
  "vfs_file_seek v fd offset whence w = dispatch (fd_target v w fd) 0 w (\<lambda>ops i. op_file_seek ops i fd offset whence)"

definition vfs_file_tell :: "'st vfs \<Rightarrow> int \<Rightarrow> 'st world \<Rightarrow> (int \<times> 'st world) res" where
  "vfs_file_tell v fd w = dispatch (fd_target v w fd) 0 w (\<lambda>ops i. op_file_tell ops i fd)"

definition vfs_file_flush :: "'st vfs \<Rightarrow> int \<Rightarrow> 'st world \<Rightarrow> 'st world res" where
  "vfs_file_flush v fd w =
     res_bind (dispatch (fd_target v w fd) VFS_ERROR w (\<lambda>ops i. op_file_flush ops i fd)) (\<lambda>(r, w'). Inr w')"

definition vfs_dir_close :: "'st vfs \<Rightarrow> int \<Rightarrow> 'st world \<Rightarrow> (int \<times> 'st world) res" where
  "vfs_dir_close v fd w = dispatch (dir_target v w fd) VFS_ERROR w (\<lambda>ops i. op_dir_close ops i fd)"

definition vfs_dir_load :: "'st vfs \<Rightarrow> int \<Rightarrow> 'st world \<Rightarrow> (int \<times> 'st world) res" where
  "vfs_dir_load v fd w = dispatch (dir_target v w fd) VFS_ERROR w (\<lambda>ops i. op_dir_load ops i fd)"

definition vfs_dir_seek :: "'st vfs \<Rightarrow> int \<Rightarrow> int \<Rightarrow> int \<Rightarrow> 'st world \<Rightarrow> (int \<times> 'st world) res" where
  "vfs_dir_seek v fd offset whence w = dispatch (dir_target v w fd) VFS_ERROR w (\<lambda>ops i. op_dir_seek ops i fd offset whence)"

definition vfs_dir_tell :: "'st vfs \<Rightarrow> int \<Rightarrow> 'st world \<Rightarrow> (int \<times> 'st world) res" where
  "vfs_dir_tell v fd w = dispatch (dir_target v w fd) VFS_ERROR w (\<lambda>ops i. op_dir_tell ops i fd)"

section \<open>Calls on paths\<close>

definition O_NOFOLLOW :: int where "O_NOFOLLOW = 0x20000"

definition path_call :: "'st vfs \<Rightarrow> 'st vfs_struct \<Rightarrow> string \<Rightarrow> 'r \<Rightarrow> string \<Rightarrow> 'st world \<Rightarrow>
    ('st fs_ops \<Rightarrow> int \<Rightarrow> string \<Rightarrow> ('st, 'r) fs_call) \<Rightarrow> ('r \<times> 'st world) res" where
  "path_call v cwd path unmounted junk w call =
     res_bind (vfs_normalize_path cwd path) (\<lambda>npath.
       case get_mount_from_path v junk npath of
         (None, _) \<Rightarrow> Inr (unmounted, w)
       | (Some m, native) \<Rightarrow> Inr (call (fst_ops (mnt_fst m)) (mnt_internal_index m) native w))"

definition vfs_read_symlink :: "'st vfs \<Rightarrow> 'st vfs_struct \<Rightarrow> string \<Rightarrow> string \<Rightarrow> 'st world \<Rightarrow> (string option \<times> 'st world) res" where
  "vfs_read_symlink v cwd path junk w = path_call v cwd path None junk w (\<lambda>ops i p. op_file_readlink ops i p)"

definition vfs_file_open :: "'st vfs \<Rightarrow> 'st vfs_struct \<Rightarrow> string \<Rightarrow> int \<Rightarrow> int \<Rightarrow> string \<Rightarrow> 'st world \<Rightarrow> (int \<times> 'st world) res" where
  "vfs_file_open v cwd path flags mode junk w =
     (if and flags O_NOFOLLOW \<noteq> 0
      then path_call v cwd path VFS_ERROR junk w (\<lambda>ops i p. op_file_open ops i p flags mode)
      else res_bind (vfs_read_symlink v cwd path junk w) (\<lambda>(l, w1).
             case l of None \<Rightarrow> Inr (VFS_ERROR, w1)
             | Some npath \<Rightarrow> path_call v cwd npath VFS_ERROR junk w1 (\<lambda>ops i p. op_file_open ops i p flags mode)))"

definition vfs_file_creat :: "'st vfs \<Rightarrow> 'st vfs_struct \<Rightarrow> string \<Rightarrow> int \<Rightarrow> string \<Rightarrow> 'st world \<Rightarrow> (int \<times> 'st world) res" where
  "vfs_file_creat v cwd path mode junk w = path_call v cwd path VFS_ERROR junk w (\<lambda>ops i p. op_file_creat ops i p mode)"

definition vfs_link_creat :: "'st vfs \<Rightarrow> 'st vfs_struct \<Rightarrow> string \<Rightarrow> string \<Rightarrow> string \<Rightarrow> 'st world \<Rightarrow> (int \<times> 'st world) res" where
  "vfs_link_creat v cwd path target junk w = path_call v cwd path VFS_ERROR junk w (\<lambda>ops i p. op_file_link ops i p target 0)"

definition vfs_dir_open :: "'st vfs \<Rightarrow> 'st vfs_struct \<Rightarrow> string \<Rightarrow> string \<Rightarrow> 'st world \<Rightarrow> (int \<times> 'st world) res" where
  "vfs_dir_open v cwd path junk w = path_call v cwd path 0 junk w (\<lambda>ops i p. op_dir_open ops i p)"

definition vfs_mkdir :: "'st vfs \<Rightarrow> 'st vfs_struct \<Rightarrow> string \<Rightarrow> int \<Rightarrow> string \<Rightarrow> 'st world \<Rightarrow> (int \<times> 'st world) res" where
  "vfs_mkdir v cwd path mode junk w = path_call v cwd path VFS_ERROR junk w (\<lambda>ops i p. op_dir_creat ops i p mode)"

definition vfs_remove :: "'st vfs \<Rightarrow> 'st vfs_struct \<Rightarrow> string \<Rightarrow> bool \<Rightarrow> string \<Rightarrow> 'st world \<Rightarrow> (int \<times> 'st world) res" where
  "vfs_remove v cwd path force junk w =
     path_call v cwd path VFS_ERROR junk w (\<lambda>ops i p w0.
       case op_prepare_remove ops i p w0 of (ready, (s, st)) \<Rightarrow>
         if ready = 0 then (-2, (s, st))
         else case is_safe_for_removing p force s of (ok, s') \<Rightarrow>
           if \<not> ok then (VFS_ERROR, (s', st)) else op_remove ops i p (s', st))"

definition vfs_rename :: "'st vfs_struct \<Rightarrow> string \<Rightarrow> string \<Rightarrow> int" where
  "vfs_rename cwd path name = VFS_ERROR"

definition vfs_chmod :: "'st vfs_struct \<Rightarrow> string \<Rightarrow> int \<Rightarrow> int" where
  "vfs_chmod cwd path mode = VFS_ERROR"

text \<open>\<open>vfs_dir_read\<close> packs entries of \<open>name_len + 19\<close> bytes into the buffer: an entry is its name,
  type, offset and record length.  The value is the number of bytes written.\<close>

record dirent =
  d_off :: nat
  d_reclen :: nat
  d_type :: u32
  d_name :: string

function dir_read_loop :: "'st vfs \<Rightarrow> 'st vfs_mount \<Rightarrow> int \<Rightarrow> nat \<Rightarrow> dirent list \<Rightarrow> nat \<Rightarrow> 'st world \<Rightarrow>
    (nat \<times> dirent list \<times> 'st world) res" where
  "dir_read_loop v m fd cnt ents written w =
     (if written \<ge> cnt then Inr (written, ents, w)
      else case op_dir_read (fst_ops (mnt_fst m)) (mnt_internal_index m) fd w of ((r, name, name_len, type), w1) \<Rightarrow>
        if r \<le> 0 then Inr (written, ents, w1)
        else let rlen = unat name_len + 19 in
          if written + rlen > cnt then
            res_bind (vfs_dir_tell v fd w1) (\<lambda>(cur, w2).
            res_bind (vfs_dir_seek v fd (cur - 1) 0 w2) (\<lambda>(_, w3).
            res_bind (vfs_dir_tell v fd w3) (\<lambda>(_, w4). Inr (written, ents, w4))))
          else if unat name_len \<noteq> length name then Inl (Panic ''Directory entry name length mismatch'')
          else dir_read_loop v m fd cnt
                 (ents @ [\<lparr>d_off = written, d_reclen = rlen, d_type = type, d_name = name\<rparr>]) (written + rlen) w1)"
  by pat_completeness auto
termination by (relation "measure (\<lambda>(v, m, fd, cnt, ents, written, w). cnt - written)") auto

declare dir_read_loop.simps [simp del]

definition vfs_dir_read :: "'st vfs \<Rightarrow> int \<Rightarrow> u32 \<Rightarrow> 'st world \<Rightarrow> (int \<times> dirent list \<times> 'st world) res" where
  "vfs_dir_read v fd cnt w =
     res_bind (dir_target v w fd) (\<lambda>t. case t of
        Some (Some m) \<Rightarrow>
          res_bind (dir_read_loop v m fd (unat cnt) [] 0 w) (\<lambda>(written, ents, w'). Inr (int written, ents, w'))
      | _ \<Rightarrow> Inr (VFS_ERROR, [], w))"

end
