(* ===== verification/Vfs_Properties.thy ===== *)
theory Vfs_Properties
  imports Vfs
begin

text \<open>
  What the path routines and the calls of the virtual file system do: the depth check, the
  normalisation of paths, the choice of the mount, and the packing of directory entries.
\<close>

section \<open>Depth of a path\<close>

lemma depth_fold:
  "fold (\<lambda>token depth. if token = ''..'' then depth + 1 else depth - 1) ts d =
     d + int (length (filter ((=) ''..'') ts)) - int (length (filter ((\<noteq>) ''..'') ts))"
  by (induction ts arbitrary: d) auto

lemma depth_of_count:
  "depth_of ts > 0 \<longleftrightarrow> length (filter ((\<noteq>) ''..'') ts) \<le> length (filter ((=) ''..'') ts)"
  unfolding depth_of_def depth_fold by linarith

text \<open>Walking the components from the root, some prefix of the path has gone up more often than down.\<close>

definition climbs_above :: "string list \<Rightarrow> bool" where
  "climbs_above ts \<longleftrightarrow> (\<exists>n \<le> length ts. length (filter ((\<noteq>) ''..'') (take n ts)) < length (filter ((=) ''..'') (take n ts)))"

section \<open>Normalisation\<close>

definition settled :: "string \<Rightarrow> bool" where
  "settled p = successively (\<lambda>a b. \<not> (b = slash \<and> (a = slash \<or> a = dot))) p"

lemma slash_neq_dot [simp]: "slash \<noteq> dot" "dot \<noteq> slash"
  by (simp_all add: slash_def dot_def)

lemma take_1_Cons [simp]: "take 1 (x # xs) = [x]"
  by simp

lemma normalize_loop_copy:
  assumes "\<not> (c = slash \<and> take 1 cs = [slash])" "\<not> (c = dot \<and> take 1 cs = [slash])"
    "\<not> (c = dot \<and> take 2 cs = [dot, slash])"
  shows "normalize_loop (c # cs) out = normalize_loop cs (c # out)"
  by (simp only: normalize_loop.simps assms if_False)

lemma normalize_loop_settled: "settled p \<Longrightarrow> normalize_loop p out = rev p @ out"
proof (induction p arbitrary: out)
  case (Cons c cs)
  have s: "settled cs" using Cons.prems by (cases cs) (simp_all add: settled_def)
  have "\<not> ((c = slash \<or> c = dot) \<and> take 1 cs = [slash])"
    using Cons.prems by (cases cs) (auto simp: settled_def)
  then have "\<not> (c = slash \<and> take 1 cs = [slash])" "\<not> (c = dot \<and> take 1 cs = [slash])" by blast+
  moreover have "\<not> (c = dot \<and> take 2 cs = [dot, slash])"
  proof
    assume "c = dot \<and> take 2 cs = [dot, slash]"
    then obtain r where "cs = dot # slash # r" by (cases cs; cases "tl cs") auto
    with s show False by (simp add: settled_def)
  qed
  ultimately have "normalize_loop (c # cs) out = normalize_loop cs (c # out)" by (rule normalize_loop_copy)
  then show ?case using Cons.IH [OF s] by simp
qed simp

lemma normalize_loop_prefix:
  assumes "settled (q @ [slash])" and "take 1 r \<noteq> [slash]"
  shows "normalize_loop (q @ slash # r) out = normalize_loop r (slash # rev q @ out)"
  using assms(1)
proof (induction q arbitrary: out)
  case Nil
  then show ?case using assms(2) by simp
next
  case (Cons c cs)
  have s: "settled (cs @ [slash])" using Cons.prems by (cases cs) (simp_all add: settled_def)
  have "\<not> ((c = slash \<or> c = dot) \<and> take 1 (cs @ slash # r) = [slash])"
    using Cons.prems by (cases cs) (auto simp: settled_def)
  then have "\<not> (c = slash \<and> take 1 (cs @ slash # r) = [slash])" "\<not> (c = dot \<and> take 1 (cs @ slash # r) = [slash])"
    by blast+
  moreover have "\<not> (c = dot \<and> take 2 (cs @ slash # r) = [dot, slash])"
  proof
    assume a: "c = dot \<and> take 2 (cs @ slash # r) = [dot, slash]"
    then have "cs \<noteq> []" by auto
    with a obtain x xs where cs: "cs = x # xs" "x = dot" by (cases cs) auto
    with a have "take 1 (xs @ slash # r) = [slash]" by (simp add: numeral_2_eq_2)
    with s cs show False by (cases xs) (simp_all add: settled_def)
  qed
  ultimately have "normalize_loop (c # cs @ slash # r) out = normalize_loop (cs @ slash # r) (c # out)"
    by (rule normalize_loop_copy)
  then show ?case using Cons.IH [OF s] by simp
qed

lemma dropWhile_not_trail: "p \<noteq> [] \<Longrightarrow> last p \<noteq> slash \<Longrightarrow> last p \<noteq> dot \<Longrightarrow>
    dropWhile (\<lambda>c. c = slash \<or> c = dot) (rev p @ out) = rev p @ out"
  by (cases p rule: rev_cases) simp_all

lemma normalize_settled:
  assumes "settled p" and "p \<noteq> []" and "last p \<noteq> slash" and "last p \<noteq> dot"
  shows "normalize p = p"
  using dropWhile_not_trail [OF assms(2-4), of "[]"] normalize_loop_settled [OF assms(1), of "[]"]
  by (simp add: normalize_def)

lemma dotdot_kept:
  assumes "settled (a @ [slash])" and "settled b" and "b \<noteq> []" and "last b \<noteq> slash" and "last b \<noteq> dot"
  shows "normalize (a @ ''/../'' @ b) = a @ ''/'' @ b"
proof -
  have e: "a @ ''/../'' @ b = a @ slash # dot # dot # slash # b" by (simp add: slash_def dot_def)
  have "normalize_loop (a @ ''/../'' @ b) [] = normalize_loop (dot # dot # slash # b) (slash # rev a)"
    unfolding e using normalize_loop_prefix [OF assms(1), of "dot # dot # slash # b" "[]"] by simp
  also have "\<dots> = rev b @ slash # rev a"
    using normalize_loop_settled [OF assms(2)] by simp
  finally show ?thesis
    using dropWhile_not_trail [OF assms(3-5), of "slash # rev a"] by (simp add: normalize_def slash_def)
qed

section \<open>Mounts and descriptors\<close>

lemma find_first:
  "(\<forall>x \<in> set pre. \<not> P x) \<Longrightarrow> P y \<Longrightarrow> List.find P (pre @ y # post) = Some y"
  by (induction pre) auto

lemma fd_target_mount:
  assumes "in_table fd" and "mount_list v = pre @ m # post"
    and "fd_mount (dir_fd (entries_table s fd)) = vp_name (mnt_partition m)"
    and "vp_name (mnt_partition m) \<noteq> []" and "hd (vp_name (mnt_partition m)) \<noteq> slash"
    and "\<forall>m' \<in> set pre. \<forall>r. vp_name (mnt_partition m) @ fd_name (dir_fd (entries_table s fd)) \<noteq> vp_name (mnt_partition m') @ r"
  shows "fd_target v (s, st) fd = Inr (Some (Some m))"
proof -
  let ?e = "dir_fd (entries_table s fd)"
  let ?p = "vp_name (mnt_partition m) @ fd_name ?e"
  have full: "get_full_path_from_fd s fd = Inr (Some ?p)"
    using assms(1,3) by (simp add: get_full_path_from_fd_def vfs_compat_get_file_descriptor_def GET_DIR_def in_table_def
        get_full_path_from_fdentry_def)
  have ns: "take 1 ?p \<noteq> [slash]" using assms(4,5) by (cases "vp_name (mnt_partition m)") auto
  have "\<forall>m' \<in> set pre. take (length (vp_name (mnt_partition m'))) ?p \<noteq> vp_name (mnt_partition m')"
    using assms(6) by (metis append_take_drop_id)
  then have "List.find (\<lambda>m'. take (length (vp_name (mnt_partition m'))) ?p = vp_name (mnt_partition m')) (mount_list v) = Some m"
    unfolding assms(2) by (intro find_first) auto
  then have "fst (get_mount_from_path v [] ?p) = Some m" using ns by (simp add: get_mount_from_path_def Let_def)
  then show ?thesis using full by (simp add: fd_target_def)
qed

section \<open>Directory entries\<close>

definition tiles :: "nat \<Rightarrow> dirent list \<Rightarrow> bool" where
  "tiles n ents \<longleftrightarrow> (\<forall>i < length ents. d_off (ents ! i) = sum_list (map d_reclen (take i ents))) \<and>
     n = sum_list (map d_reclen ents)"

lemma tiles_snoc: "tiles n ents \<Longrightarrow> d_off e = n \<Longrightarrow> tiles (n + d_reclen e) (ents @ [e])"
  by (auto simp: tiles_def nth_append less_Suc_eq)

lemma dir_read_loop_tiles:
  "dir_read_loop v m fd cnt ents written w = Inr (n, ents', w') \<Longrightarrow> written \<le> cnt \<Longrightarrow> tiles written ents \<Longrightarrow>
     n \<le> cnt \<and> tiles n ents'"
proof (induction v m fd cnt ents written w arbitrary: n ents' w' rule: dir_read_loop.induct)
  case (1 v m fd cnt ents written w)
  obtain r name name_len ty w1 where
    o: "op_dir_read (fst_ops (mnt_fst m)) (mnt_internal_index m) fd w = ((r, name, name_len, ty), w1)"
    by (metis prod.collapse)
  show ?case
  proof (cases "written \<ge> cnt \<or> r \<le> 0 \<or> written + (unat name_len + 19) > cnt \<or> unat name_len \<noteq> length name")
    case True
    then show ?thesis using 1(2-4) o
      by (subst (asm) dir_read_loop.simps) (auto simp: Let_def res_bind_Inr_iff split: if_splits)
  next
    case False
    let ?e = "\<lparr>d_off = written, d_reclen = unat name_len + 19, d_type = ty, d_name = name\<rparr>"
    have "dir_read_loop v m fd cnt (ents @ [?e]) (written + (unat name_len + 19)) w1 = Inr (n, ents', w')"
      using 1(2) False o by (subst (asm) dir_read_loop.simps) (simp add: Let_def)
    moreover have "tiles (written + (unat name_len + 19)) (ents @ [?e])" using tiles_snoc [OF 1(4), of ?e] by simp
    ultimately show ?thesis using 1(1) False o by simp
  qed
qed

section \<open>Properties\<close>

text \<open>For an absolute path the depth check compares only totals: it reports that the path goes
  behind the root exactly when there are at least as many \<open>..\<close> components as others.\<close>

theorem goes_behind_root_counts:
  assumes "take 1 path = [slash]" and "strtok_tokens path = Inr ts"
  shows "goes_behind_root path = Inr (length (filter ((\<noteq>) ''..'') ts) \<le> length (filter ((=) ''..'') ts))"
  using assms by (simp add: goes_behind_root_def depth_of_count)

theorem goes_behind_root_counts_witness:
  "goes_behind_root ''/a/../b'' = Inr (length (filter ((\<noteq>) ''..'') [''a'', ''..'', ''b'']) \<le>
                                      length (filter ((=) ''..'') [''a'', ''..'', ''b'']))"
proof (rule goes_behind_root_counts)
  show "strtok_tokens ''/a/../b'' = Inr [''a'', ''..'', ''b'']" by code_simp
qed (simp add: slash_def)

text \<open>The check can be evaded: a path whose first component climbs above the root is accepted
  when enough components follow.\<close>

theorem depth_check_evaded:
  "strtok_tokens ''/../etc/x'' = Inr [''..'', ''etc'', ''x''] \<and> climbs_above [''..'', ''etc'', ''x''] \<and>
   goes_behind_root ''/../etc/x'' = Inr False"
proof (intro conjI)
  show "strtok_tokens ''/../etc/x'' = Inr [''..'', ''etc'', ''x'']" by code_simp
  show "climbs_above [''..'', ''etc'', ''x'']"
    unfolding climbs_above_def by (rule exI [of _ 1]) simp
  show "goes_behind_root ''/../etc/x'' = Inr False" by code_simp
qed

text \<open>Normalisation leaves a path alone when it contains neither \<open>//\<close> nor \<open>./\<close> and does not end in a
  slash or a dot; and it does not resolve a parent reference: the component \<open>..\<close> is deleted and
  the directory in front of it stays.\<close>

theorem normalize_behaviour:
  assumes "settled (a @ [slash])" and "settled b" and "b \<noteq> []" and "last b \<noteq> slash" and "last b \<noteq> dot"
  shows "normalize b = b \<and> normalize (a @ ''/../'' @ b) = a @ ''/'' @ b"
  using normalize_settled [OF assms(2-5)] dotdot_kept [OF assms] by simp

theorem normalize_behaviour_witness:
  "normalize ''etc'' = ''etc'' \<and> normalize (''hdap0/home/user'' @ ''/../'' @ ''etc'') = ''hdap0/home/user'' @ ''/'' @ ''etc''"
  by (rule normalize_behaviour) (simp_all add: settled_def slash_def dot_def)

text \<open>A relative path is normalised to the path of the working directory, a slash and the path
  itself; the result is longer than the argument, whose buffer it is copied into.\<close>

theorem relative_path_outgrows_buffer:
  assumes "take 1 path \<noteq> [slash]" and "path \<noteq> []" and "last path \<noteq> slash" and "last path \<noteq> dot"
    and "get_cwd_path_from_struct cwd = d" and "d \<noteq> []" and "last d \<noteq> slash" and "settled (d @ slash # path)"
  shows "vfs_normalize_path cwd path = Inr (d @ slash # path) \<and> length path < length (d @ slash # path)"
proof -
  have "take 5 path \<noteq> ''/dev/''" using assms(1) by (cases path) (auto simp: slash_def)
  then have "apply_cwd cwd path = Inr (Some (d @ slash # path))"
    using assms by (simp add: apply_cwd_def goes_behind_root_def is_absolute_path_def Let_def)
  moreover have "normalize (d @ slash # path) = d @ slash # path"
    by (rule normalize_settled) (use assms in auto)
  ultimately show ?thesis by (simp add: vfs_normalize_path_def)
qed

definition demo_ops :: "nat fs_ops" where
  "demo_ops = \<lparr>op_register_partition = (\<lambda>_ _ _ w. (0, w)), op_detect = (\<lambda>_ _ w. (True, w)),
     op_file_flush = (\<lambda>_ _ w. (0, w)), op_file_open = (\<lambda>_ _ _ _ w. (0, w)), op_file_close = (\<lambda>_ _ w. (0, w)),
     op_file_creat = (\<lambda>_ _ _ w. (0, w)), op_file_link = (\<lambda>_ _ _ _ w. (0, w)), op_file_dup = (\<lambda>_ _ _ w. (0, w)),
     op_file_read = (\<lambda>_ _ _ sz (s, n). (uint sz, (s, n + 1))), op_file_write = (\<lambda>_ _ _ sz w. (uint sz, w)),
     op_file_seek = (\<lambda>_ _ _ _ w. (0, w)), op_file_tell = (\<lambda>_ _ w. (0, w)), op_file_ioctl = (\<lambda>_ _ _ _ w. (0, w)),
     op_file_stat = (\<lambda>_ _ _ w. (0, w)), op_file_event = (\<lambda>_ _ _ w. (0, w)), op_dir_open = (\<lambda>_ _ w. (0, w)),
     op_dir_close = (\<lambda>_ _ w. (0, w)), op_dir_load = (\<lambda>_ _ w. (0, w)),
     op_dir_read = (\<lambda>_ _ (s, n). (if n < 2 then (1, ''ab'', 2, 1) else (0, [], 0, 0), (s, n + 1))),
     op_dir_creat = (\<lambda>_ _ _ w. (0, w)), op_dir_seek = (\<lambda>_ _ _ _ w. (0, w)), op_dir_tell = (\<lambda>_ _ w. (0, w)),
     op_prepare_remove = (\<lambda>_ _ w. (0, w)), op_file_readlink = (\<lambda>_ _ w. (None, w)), op_remove = (\<lambda>_ _ w. (0, w))\<rparr>"

definition demo_mount :: "string \<Rightarrow> nat vfs_mount" where
  "demo_mount name = \<lparr>mnt_device = ''hda'', mnt_partition = \<lparr>vp_name = name, vp_lba = 0, vp_size = 0, vp_status = 0, vp_type = 0\<rparr>,
     mnt_fst = \<lparr>fst_name = ''ext2'', fst_majors = [8], fst_ops = demo_ops\<rparr>, mnt_internal_index = 0\<rparr>"

definition demo_vfs :: "nat vfs" where
  "demo_vfs = \<lparr>file_system_types = [], mount_list = [demo_mount ''ttyap0'', demo_mount ''hdap0''], main_mount = None\<rparr>"

definition demo_cwd :: "nat vfs_struct" where
  "demo_cwd = \<lparr>vs_root = \<lparr>path_mnt = demo_mount ''hdap0'', path_path = ''/''\<rparr>, vs_pwd = \<lparr>path_mnt = demo_mount ''hdap0'', path_path = ''/home''\<rparr>\<rparr>"

theorem relative_path_outgrows_buffer_witness:
  "vfs_normalize_path demo_cwd ''x'' = Inr (''hdap0/home'' @ slash # ''x'') \<and> length ''x'' < length (''hdap0/home'' @ slash # ''x'')"
  by (rule relative_path_outgrows_buffer)
     (simp_all add: settled_def slash_def dot_def get_cwd_path_from_struct_def demo_cwd_def demo_mount_def)





end
