(* ===== verification/Account.thy ===== *)
theory Account
  imports Pmm "HOL-Library.Multiset"
begin

text \<open>
  The accounting of virtual memory of modules/managers/mem/account.c: a list of page
  directories, each with the list of its mappings.  The nodes are kept in pages of the
  physical memory manager; a node is a record with its own address (in the identity map) and
  the fields of the C structure, a linked list is the list of its nodes.  The operations work on
  every extension of the state, so that the page tables can share it.
\<close>

record vmm_mapping =
  vm_node :: u64
  vm_pd :: u64
  vm_virtual_address :: u64
  vm_physical_address :: u64
  vm_size :: u64

record vmm_dir =
  vd_node :: u64
  vd_pd :: u64
  vd_mappings :: "vmm_mapping list"

record account =
  ac_pmm :: pmm
  physical_memory_offset :: u64
  vmm_dir_list :: "vmm_dir list"

definition sizeof_vmm_dir :: u64 where "sizeof_vmm_dir = 24"

definition sizeof_vmm_mapping :: u64 where "sizeof_vmm_mapping = 40"

definition to_identity_map :: "'a account_scheme \<Rightarrow> u64 \<Rightarrow> u64" where
  "to_identity_map s address = address + physical_memory_offset s"

definition from_identity_map :: "'a account_scheme \<Rightarrow> u64 \<Rightarrow> u64" where
  "from_identity_map s address = address - physical_memory_offset s"

definition find_dir :: "u64 \<Rightarrow> 'a account_scheme \<Rightarrow> vmm_dir option" where
  "find_dir root s = List.find (\<lambda>d. vd_pd d = root) (vmm_dir_list s)"

text \<open>Replacing the mappings of the first directory with a given root.\<close>

primrec set_mappings :: "u64 \<Rightarrow> vmm_mapping list \<Rightarrow> vmm_dir list \<Rightarrow> vmm_dir list" where
  "set_mappings root ms [] = []"
| "set_mappings root ms (d # ds) = (if vd_pd d = root then d\<lparr>vd_mappings := ms\<rparr> # ds else d # set_mappings root ms ds)"

text \<open>\<open>pmm_alloc\<close> and \<open>pmm_free\<close> on the shared state.\<close>

definition ac_alloc :: "u64 \<Rightarrow> 'a account_scheme \<Rightarrow> (u64 \<times> 'a account_scheme) res" where
  "ac_alloc sz s = res_bind (pmm_alloc (ac_pmm s) sz) (\<lambda>(p, pm). Inr (p, s\<lparr>ac_pmm := pm\<rparr>))"

definition ac_free :: "u64 \<Rightarrow> 'a account_scheme \<Rightarrow> 'a account_scheme res" where
  "ac_free p s = res_bind (pmm_free (ac_pmm s) p) (\<lambda>pm. Inr (s\<lparr>ac_pmm := pm\<rparr>))"

primrec ac_free_nodes :: "u64 list \<Rightarrow> 'a account_scheme \<Rightarrow> 'a account_scheme res" where
  "ac_free_nodes [] s = Inr s"
| "ac_free_nodes (n # ns) s = res_bind (ac_free (from_identity_map s n) s) (ac_free_nodes ns)"

section \<open>Operations\<close>

definition insert_page_directory :: "u64 \<Rightarrow> 'a account_scheme \<Rightarrow> 'a account_scheme res" where
  "insert_page_directory new s =
     (case find_dir new s of
        Some _ \<Rightarrow> Inl (Panic ''[ACCOUNT] Page directory already present'')
      | None \<Rightarrow> res_bind (ac_alloc sizeof_vmm_dir s) (\<lambda>(node_phys, s1).
          if node_phys = 0 then Inl (Panic ''Failed to allocate memory for page directory linked list'')
          else Inr (s1\<lparr>vmm_dir_list := \<lparr>vd_node = to_identity_map s1 node_phys, vd_pd = new, vd_mappings = []\<rparr>
                                       # vmm_dir_list s1\<rparr>)))"

definition remove_page_directory :: "u64 \<Rightarrow> 'a account_scheme \<Rightarrow> 'a account_scheme res" where
  "remove_page_directory root s =
     (case find_dir root s of
        None \<Rightarrow> Inl (Panic ''[ACCOUNT] Page directory not found'')
      | Some d \<Rightarrow> ac_free_nodes (map vm_node (vd_mappings d) @ [vd_node d])
                   (s\<lparr>vmm_dir_list := remove1 d (vmm_dir_list s)\<rparr>))"

definition insert_allocation :: "u64 \<Rightarrow> u64 \<Rightarrow> u64 \<Rightarrow> u64 \<Rightarrow> 'a account_scheme \<Rightarrow> 'a account_scheme res" where
  "insert_allocation root virtual_address physical_address sz s =
     res_bind (ac_alloc sizeof_vmm_mapping s) (\<lambda>(node_phys, s1).
       if node_phys = 0 then Inl (Panic ''Failed to allocate memory for page directory linked list'')
       else let node = \<lparr>vm_node = to_identity_map s1 node_phys, vm_pd = root, vm_virtual_address = virtual_address,
                        vm_physical_address = physical_address, vm_size = sz\<rparr>
         in case find_dir root s1 of
              Some d \<Rightarrow>
                if \<exists>m \<in> set (vd_mappings d). vm_virtual_address m = virtual_address
                then Inl (Panic ''[ACCOUNT] Mapping already present'')
                else Inr (s1\<lparr>vmm_dir_list := set_mappings root (vd_mappings d @ [node]) (vmm_dir_list s1)\<rparr>)
            | None \<Rightarrow>
                if root > 0xFFFF000000000000 then Inl (Panic ''[ACCOUNT] Page directory not found'')
                else Inr s1)"

text \<open>
  The removal loop keeps going after a match with \<open>prev\<close> on the node just freed, whose fields are
  still readable.  Unlinking through such a \<open>prev\<close> does not change the list; \<open>off\<close> says that
  \<open>prev\<close> is no longer part of it.  The result is the list and the nodes handed to \<open>pmm_free\<close>.
\<close>

primrec remove_mappings :: "u64 \<Rightarrow> bool \<Rightarrow> vmm_mapping list \<Rightarrow> vmm_mapping list \<times> u64 list" where
  "remove_mappings va off [] = ([], [])"
| "remove_mappings va off (m # ms) =
     (if vm_virtual_address m = va
      then case remove_mappings va (\<not> off) ms of (ms', ns) \<Rightarrow> (if off then m # ms' else ms', vm_node m # ns)
      else case remove_mappings va False ms of (ms', ns) \<Rightarrow> (m # ms', ns))"

definition remove_allocation :: "u64 \<Rightarrow> u64 \<Rightarrow> 'a account_scheme \<Rightarrow> 'a account_scheme res" where
  "remove_allocation root virtual_address s =
     (case find_dir root s of
        None \<Rightarrow> Inl (Panic ''[ACCOUNT] Mapping not found'')
      | Some d \<Rightarrow> (case remove_mappings virtual_address False (vd_mappings d) of (ms, ns) \<Rightarrow>
          ac_free_nodes ns (s\<lparr>vmm_dir_list := set_mappings root ms (vmm_dir_list s)\<rparr>)))"

definition in_mapping :: "u64 \<Rightarrow> u64 \<Rightarrow> u64 \<Rightarrow> bool" where
  "in_mapping start sz address \<longleftrightarrow> start \<le> address \<and> start + sz > address"

definition how_many_allocations_for_vaddr :: "u64 \<Rightarrow> 'a account_scheme \<Rightarrow> u64" where
  "how_many_allocations_for_vaddr address s =
     of_nat (length (filter (\<lambda>d. \<exists>m \<in> set (vd_mappings d). in_mapping (vm_virtual_address m) (vm_size m) address)
                            (vmm_dir_list s)))"

definition how_many_allocations_for_physaddr :: "u64 \<Rightarrow> 'a account_scheme \<Rightarrow> u64" where
  "how_many_allocations_for_physaddr address s =
     of_nat (length (filter (\<lambda>d. \<exists>m \<in> set (vd_mappings d). in_mapping (vm_physical_address m) (vm_size m) address)
                            (vmm_dir_list s)))"

primrec copy_mappings :: "u64 \<Rightarrow> u64 \<Rightarrow> u64 \<Rightarrow> vmm_mapping list \<Rightarrow> 'a account_scheme \<Rightarrow> 'a account_scheme res" where
  "copy_mappings new_root lo hi [] s = Inr s"
| "copy_mappings new_root lo hi (m # ms) s =
     (if vm_virtual_address m \<ge> lo \<and> vm_virtual_address m \<le> hi
      then res_bind (insert_allocation new_root (vm_virtual_address m) (vm_physical_address m) (vm_size m) s)
             (copy_mappings new_root lo hi ms)
      else copy_mappings new_root lo hi ms s)"

definition copy_page_directory :: "u64 \<Rightarrow> u64 \<Rightarrow> u64 \<Rightarrow> u64 \<Rightarrow> 'a account_scheme \<Rightarrow> 'a account_scheme res" where
  "copy_page_directory root new_root min_copy_range max_copy_range s =
     res_bind (insert_page_directory new_root s) (\<lambda>s1.
       case find_dir root s1 of
         None \<Rightarrow> Inl (Panic ''[ACCOUNT] Page directory not found'')
       | Some d \<Rightarrow> copy_mappings new_root min_copy_range max_copy_range (vd_mappings d) s1)"

primrec alter_first :: "u64 \<Rightarrow> u64 \<Rightarrow> u64 \<Rightarrow> vmm_mapping list \<Rightarrow> vmm_mapping list option" where
  "alter_first va pa sz [] = None"
| "alter_first va pa sz (m # ms) =
     (if vm_virtual_address m = va then Some (m\<lparr>vm_physical_address := pa, vm_size := sz\<rparr> # ms)
      else map_option (Cons m) (alter_first va pa sz ms))"

definition alter_allocation :: "u64 \<Rightarrow> u64 \<Rightarrow> u64 \<Rightarrow> u64 \<Rightarrow> 'a account_scheme \<Rightarrow> 'a account_scheme res" where
  "alter_allocation root virtual_address physical_address sz s =
     (case find_dir root s of
        None \<Rightarrow> Inl (Panic ''[ACCOUNT] Page directory not found'')
      | Some d \<Rightarrow> (case alter_first virtual_address physical_address sz (vd_mappings d) of
          None \<Rightarrow> Inl (Panic ''[ACCOUNT] Mapping not found'')
        | Some ms \<Rightarrow> Inr (s\<lparr>vmm_dir_list := set_mappings root ms (vmm_dir_list s)\<rparr>)))"

section \<open>The accounting as a table\<close>

text \<open>
  What the list promises its clients: every page directory has a table from virtual addresses to
  the physical address and the size recorded for them.  \<open>ac_inv\<close> is the shape the operations
  keep: roots are distinct, and so are the virtual addresses within a directory.
\<close>

definition ms_lookup :: "vmm_mapping list \<Rightarrow> u64 \<Rightarrow> (u64 \<times> u64) option" where
  "ms_lookup ms va = map_option (\<lambda>m. (vm_physical_address m, vm_size m)) (List.find (\<lambda>m. vm_virtual_address m = va) ms)"

type_synonym account_table = "u64 \<Rightarrow> (u64 \<Rightarrow> (u64 \<times> u64) option) option"

definition ac_table :: "'a account_scheme \<Rightarrow> account_table" where
  "ac_table s root = map_option (\<lambda>d. ms_lookup (vd_mappings d)) (find_dir root s)"

definition ac_inv :: "'a account_scheme \<Rightarrow> bool" where
  "ac_inv s \<longleftrightarrow> distinct (map vd_pd (vmm_dir_list s)) \<and>
     (\<forall>d \<in> set (vmm_dir_list s). distinct (map vm_virtual_address (vd_mappings d)))"

datatype ac_op =
  Insert_Dir u64
| Remove_Dir u64
| Insert_Alloc u64 u64 u64 u64
| Remove_Alloc u64 u64
| Alter_Alloc u64 u64 u64 u64
| Copy_Dir u64 u64 u64 u64

primrec ac_do :: "ac_op \<Rightarrow> 'a account_scheme \<Rightarrow> 'a account_scheme res" where
  "ac_do (Insert_Dir new) s = insert_page_directory new s"
| "ac_do (Remove_Dir root) s = remove_page_directory root s"
| "ac_do (Insert_Alloc root va pa sz) s = insert_allocation root va pa sz s"
| "ac_do (Remove_Alloc root va) s = remove_allocation root va s"
| "ac_do (Alter_Alloc root va pa sz) s = alter_allocation root va pa sz s"
| "ac_do (Copy_Dir root new lo hi) s = copy_page_directory root new lo hi s"

primrec ac_run :: "ac_op list \<Rightarrow> 'a account_scheme \<Rightarrow> 'a account_scheme res" where
  "ac_run [] s = Inr s"
| "ac_run (x # xs) s = res_bind (ac_do x s) (ac_run xs)"

text \<open>The operations on the tables themselves.\<close>

primrec table_do :: "ac_op \<Rightarrow> account_table \<Rightarrow> account_table" where
  "table_do (Insert_Dir new) t = t(new := Some (\<lambda>_. None))"
| "table_do (Remove_Dir root) t = t(root := None)"
| "table_do (Insert_Alloc root va pa sz) t =
     (case t root of None \<Rightarrow> t | Some f \<Rightarrow> t(root := Some (f(va := Some (pa, sz)))))"
| "table_do (Remove_Alloc root va) t =
     (case t root of None \<Rightarrow> t | Some f \<Rightarrow> t(root := Some (f(va := None))))"
| "table_do (Alter_Alloc root va pa sz) t =
     (case t root of None \<Rightarrow> t | Some f \<Rightarrow> t(root := Some (f(va := Some (pa, sz)))))"
| "table_do (Copy_Dir root new lo hi) t =
     t(new := Some (\<lambda>va. if lo \<le> va \<and> va \<le> hi \<and> root \<noteq> new then Option.bind (t root) (\<lambda>f. f va) else None))"

subsection \<open>Lookup after each list operation\<close>

lemma find_append: "List.find P (xs @ ys) = (case List.find P xs of None \<Rightarrow> List.find P ys | Some x \<Rightarrow> Some x)"
  by (induction xs) auto

lemma find_set_mappings:
  "List.find (\<lambda>d. vd_pd d = r) (set_mappings root ms ds) =
     (if r = root then map_option (\<lambda>d. d\<lparr>vd_mappings := ms\<rparr>) (List.find (\<lambda>d. vd_pd d = r) ds)
      else List.find (\<lambda>d. vd_pd d = r) ds)"
  by (induction ds) auto

lemma map_pd_set_mappings [simp]: "map vd_pd (set_mappings root ms ds) = map vd_pd ds"
  by (induction ds) auto

lemma set_set_mappings:
  "d \<in> set (set_mappings root ms ds) \<Longrightarrow> d \<in> set ds \<or> vd_mappings d = ms"
  by (induction ds) (auto split: if_splits)

lemma ms_lookup_None: "ms_lookup ms va = None \<longleftrightarrow> va \<notin> vm_virtual_address ` set ms"
  by (auto simp: ms_lookup_def find_None_iff)

lemma ms_lookup_snoc:
  "va \<notin> vm_virtual_address ` set ms \<Longrightarrow> vm_virtual_address m = va \<Longrightarrow>
   ms_lookup (ms @ [m]) = (ms_lookup ms)(va := Some (vm_physical_address m, vm_size m))"
proof (rule ext)
  fix x
  assume "va \<notin> vm_virtual_address ` set ms" and "vm_virtual_address m = va"
  then have "List.find (\<lambda>m. vm_virtual_address m = va) ms = None"
    using ms_lookup_None [of ms va] by (simp add: ms_lookup_def)
  with \<open>vm_virtual_address m = va\<close>
  show "ms_lookup (ms @ [m]) x = ((ms_lookup ms)(va := Some (vm_physical_address m, vm_size m))) x"
    by (auto simp: ms_lookup_def find_append split: option.split)
qed

lemma remove_mappings_absent:
  "va \<notin> vm_virtual_address ` set ms \<Longrightarrow> remove_mappings va off ms = (ms, [])"
  by (induction ms arbitrary: off) auto

lemma remove_mappings_distinct:
  assumes "distinct (map vm_virtual_address ms)"
  shows "remove_mappings va False ms =
           (filter (\<lambda>m. vm_virtual_address m \<noteq> va) ms,
            map vm_node (filter (\<lambda>m. vm_virtual_address m = va) ms))"
  using assms
proof (induction ms)
  case (Cons m ms)
  show ?case
  proof (cases "vm_virtual_address m = va")
    case True
    with Cons.prems have n: "va \<notin> vm_virtual_address ` set ms" by auto
    then have "filter (\<lambda>m. vm_virtual_address m \<noteq> va) ms = ms" "filter (\<lambda>m. vm_virtual_address m = va) ms = []"
      by (auto simp: filter_empty_conv intro: filter_True)
    with True n show ?thesis by (simp add: remove_mappings_absent)
  next
    case False
    with Cons show ?thesis by simp
  qed
qed simp

lemma ms_lookup_filter: "ms_lookup (filter (\<lambda>m. vm_virtual_address m \<noteq> va) ms) = (ms_lookup ms)(va := None)"
proof (rule ext)
  fix x
  have "x \<noteq> va \<Longrightarrow> List.find (\<lambda>m. vm_virtual_address m = x) (filter (\<lambda>m. vm_virtual_address m \<noteq> va) ms) =
     List.find (\<lambda>m. vm_virtual_address m = x) ms"
    by (induction ms) auto
  then show "ms_lookup (filter (\<lambda>m. vm_virtual_address m \<noteq> va) ms) x = ((ms_lookup ms)(va := None)) x"
    by (auto simp: ms_lookup_def find_None_iff)
qed

lemma alter_first_lookup:
  "alter_first va pa sz ms = Some ms' \<Longrightarrow> ms_lookup ms' = (ms_lookup ms)(va := Some (pa, sz)) \<and>
     map vm_virtual_address ms' = map vm_virtual_address ms \<and> map vm_node ms' = map vm_node ms"
proof (induction ms arbitrary: ms')
  case (Cons m ms)
  have c: "ms_lookup (m # xs) = (ms_lookup xs)(vm_virtual_address m := Some (vm_physical_address m, vm_size m))" for m xs
    by (auto simp: ms_lookup_def fun_eq_iff)
  show ?case
  proof (cases "vm_virtual_address m = va")
    case True
    with Cons.prems have "ms' = m\<lparr>vm_physical_address := pa, vm_size := sz\<rparr> # ms" by simp
    with True show ?thesis by (auto simp: c fun_eq_iff)
  next
    case False
    with Cons.prems obtain xs where "alter_first va pa sz ms = Some xs" "ms' = m # xs" by auto
    with False Cons.IH show ?thesis by (auto simp: c fun_eq_iff)
  qed
qed simp

lemma find_remove1_dir:
  assumes "distinct (map vd_pd ds)" and "List.find (\<lambda>d. vd_pd d = root) ds = Some e"
  shows "List.find (\<lambda>d. vd_pd d = r) (remove1 e ds) = (if r = root then None else List.find (\<lambda>d. vd_pd d = r) ds)"
  using assms
proof (induction ds)
  case (Cons d ds)
  show ?case
  proof (cases "vd_pd d = root")
    case True
    with Cons.prems have "e = d" and "\<forall>x \<in> set ds. vd_pd x \<noteq> root" by (auto simp: image_iff)
    with True show ?thesis by (auto simp: find_None_iff)
  next
    case False
    with Cons.prems have "e \<noteq> d" by (auto simp: find_Some_iff)
    with Cons False show ?thesis by auto
  qed
qed simp

lemma find_dir_SomeD: "find_dir root s = Some d \<Longrightarrow> d \<in> set (vmm_dir_list s) \<and> vd_pd d = root"
  by (auto simp: find_dir_def find_Some_iff)

lemma ac_alloc_same: "ac_alloc sz s = Inr (p, s') \<Longrightarrow> vmm_dir_list s' = vmm_dir_list s \<and> physical_memory_offset s' = physical_memory_offset s"
  by (auto simp: ac_alloc_def res_bind_Inr_iff)

lemma ac_free_nodes_same: "ac_free_nodes ns s = Inr s' \<Longrightarrow> vmm_dir_list s' = vmm_dir_list s \<and> physical_memory_offset s' = physical_memory_offset s"
proof (induction ns arbitrary: s)
  case (Cons n ns)
  then obtain s1 where "ac_free (from_identity_map s n) s = Inr s1" "ac_free_nodes ns s1 = Inr s'"
    by (auto simp: res_bind_Inr_iff)
  with Cons.IH [of s1] show ?case by (auto simp: ac_free_def res_bind_Inr_iff)
qed simp

lemma ac_table_cong: "vmm_dir_list s' = vmm_dir_list s \<Longrightarrow> ac_table s' = ac_table s \<and> ac_inv s' = ac_inv s"
  by (auto simp: ac_table_def find_dir_def ac_inv_def fun_eq_iff)

lemma ac_table_set_mappings:
  assumes "find_dir root s = Some d"
  shows "ac_table (s\<lparr>vmm_dir_list := set_mappings root ms (vmm_dir_list s)\<rparr>) = (ac_table s)(root := Some (ms_lookup ms))"
  using assms by (auto simp: ac_table_def find_dir_def find_set_mappings fun_eq_iff)

lemma ac_inv_set_mappings:
  assumes "ac_inv s" and "distinct (map vm_virtual_address ms)"
  shows "ac_inv (s\<lparr>vmm_dir_list := set_mappings root ms (vmm_dir_list s)\<rparr>)"
  using assms set_set_mappings by (fastforce simp: ac_inv_def)

subsection \<open>Each operation refines the operation on tables\<close>

lemma insert_page_directory_table:
  assumes "insert_page_directory new s = Inr s'" and "ac_inv s"
  shows "ac_inv s' \<and> ac_table s' = (ac_table s)(new := Some (\<lambda>_. None)) \<and> ac_table s new = None"
proof -
  obtain p s1 where f: "find_dir new s = None" and a: "ac_alloc sizeof_vmm_dir s = Inr (p, s1)"
    and s': "s' = s1\<lparr>vmm_dir_list := \<lparr>vd_node = to_identity_map s1 p, vd_pd = new, vd_mappings = []\<rparr> # vmm_dir_list s1\<rparr>"
    using assms(1) by (auto simp: insert_page_directory_def res_bind_Inr_iff split: option.splits if_splits)
  from f have "new \<notin> vd_pd ` set (vmm_dir_list s)" by (auto simp: find_dir_def find_None_iff)
  with f assms(2) ac_alloc_same [OF a] show ?thesis
    by (auto simp: s' ac_inv_def ac_table_def find_dir_def ms_lookup_def fun_eq_iff)
qed

lemma remove_page_directory_table:
  assumes "remove_page_directory root s = Inr s'" and "ac_inv s"
  shows "ac_inv s' \<and> ac_table s' = (ac_table s)(root := None)"
proof -
  obtain d where f: "find_dir root s = Some d"
    and "ac_free_nodes (map vm_node (vd_mappings d) @ [vd_node d]) (s\<lparr>vmm_dir_list := remove1 d (vmm_dir_list s)\<rparr>) = Inr s'"
    using assms(1) by (auto simp: remove_page_directory_def split: option.splits)
  from ac_free_nodes_same [OF this(2)] have l: "vmm_dir_list s' = remove1 d (vmm_dir_list s)" by simp
  from assms(2) have dis: "distinct (map vd_pd (vmm_dir_list s))" by (simp add: ac_inv_def)
  have "distinct (map vd_pd (remove1 d (vmm_dir_list s)))"
    using dis by (simp add: distinct_map inj_on_def)
  with assms(2) have "ac_inv s'" by (auto simp: ac_inv_def l dest: notin_set_remove1)
  moreover have "ac_table s' = (ac_table s)(root := None)"
    using find_remove1_dir [OF dis] f by (auto simp: ac_table_def find_dir_def l fun_eq_iff)
  ultimately show ?thesis by blast
qed

lemma insert_allocation_table:
  assumes "insert_allocation root va pa sz s = Inr s'" and "ac_inv s"
  shows "ac_inv s' \<and> ac_table s' = table_do (Insert_Alloc root va pa sz) (ac_table s) \<and>
         (\<forall>f. ac_table s root = Some f \<longrightarrow> f va = None)"
proof -
  obtain p s1 where a: "ac_alloc sizeof_vmm_mapping s = Inr (p, s1)" "p \<noteq> 0"
    using assms(1) by (auto simp: insert_allocation_def res_bind_Inr_iff split: if_splits)
  define node where "node = \<lparr>vm_node = to_identity_map s1 p, vm_pd = root, vm_virtual_address = va,
     vm_physical_address = pa, vm_size = sz\<rparr>"
  note same = ac_alloc_same [OF a(1)]
  with ac_table_cong [of s1 s] assms(2) have i: "ac_inv s1" "ac_table s1 = ac_table s" by auto
  show ?thesis
  proof (cases "find_dir root s1")
    case None
    with assms(1) a have "s' = s1" by (auto simp: insert_allocation_def split: if_splits)
    with i None show ?thesis unfolding i(2) [symmetric] by (simp add: ac_table_def)
  next
    case (Some d)
    with assms(1) a have n: "va \<notin> vm_virtual_address ` set (vd_mappings d)"
      and s': "s' = s1\<lparr>vmm_dir_list := set_mappings root (vd_mappings d @ [node]) (vmm_dir_list s1)\<rparr>"
      by (auto simp: insert_allocation_def node_def split: if_splits)
    have "distinct (map vm_virtual_address (vd_mappings d))"
      using i(1) find_dir_SomeD [OF Some] by (auto simp: ac_inv_def)
    with n have "ac_inv s'" unfolding s' by (intro ac_inv_set_mappings i(1)) (simp add: node_def)
    moreover have "ac_table s' = (ac_table s1)(root := Some ((ms_lookup (vd_mappings d))(va := Some (pa, sz))))"
      unfolding s' ac_table_set_mappings [OF Some] using ms_lookup_snoc [OF n, of node] by (simp add: node_def)
    moreover have "ms_lookup (vd_mappings d) va = None" using n by (simp add: ms_lookup_None)
    ultimately show ?thesis unfolding i(2) [symmetric] using Some by (simp add: ac_table_def)
  qed
qed

lemma remove_allocation_table:
  assumes "remove_allocation root va s = Inr s'" and "ac_inv s"
  shows "ac_inv s' \<and> ac_table s' = table_do (Remove_Alloc root va) (ac_table s) \<and> ac_table s root \<noteq> None"
proof -
  obtain d where f: "find_dir root s = Some d"
    using assms(1) by (auto simp: remove_allocation_def split: option.splits)
  then have dis: "distinct (map vm_virtual_address (vd_mappings d))"
    using assms(2) find_dir_SomeD [OF f] by (auto simp: ac_inv_def)
  let ?ms = "filter (\<lambda>m. vm_virtual_address m \<noteq> va) (vd_mappings d)"
  let ?s = "s\<lparr>vmm_dir_list := set_mappings root ?ms (vmm_dir_list s)\<rparr>"
  have "vmm_dir_list s' = vmm_dir_list ?s"
    using assms(1) f by (auto simp: remove_allocation_def remove_mappings_distinct [OF dis] dest: ac_free_nodes_same)
  from ac_table_cong [OF this] have c: "ac_table s' = ac_table ?s" "ac_inv s' = ac_inv ?s" by auto
  show ?thesis
    unfolding c using f ac_inv_set_mappings [OF assms(2), of ?ms root] dis
    by (simp add: ac_table_set_mappings [OF f] ms_lookup_filter distinct_map_filter)
       (simp add: ac_table_def)
qed

lemma alter_allocation_table:
  assumes "alter_allocation root va pa sz s = Inr s'" and "ac_inv s"
  shows "ac_inv s' \<and> ac_table s' = table_do (Alter_Alloc root va pa sz) (ac_table s)"
proof -
  obtain d ms where f: "find_dir root s = Some d" and al: "alter_first va pa sz (vd_mappings d) = Some ms"
    and s': "s' = s\<lparr>vmm_dir_list := set_mappings root ms (vmm_dir_list s)\<rparr>"
    using assms(1) by (auto simp: alter_allocation_def split: option.splits)
  have "distinct (map vm_virtual_address ms)"
    using assms(2) find_dir_SomeD [OF f] alter_first_lookup [OF al] by (auto simp: ac_inv_def)
  then have "ac_inv s'" unfolding s' by (rule ac_inv_set_mappings [OF assms(2)])
  moreover have "ac_table s root = Some (ms_lookup (vd_mappings d))" by (simp add: ac_table_def f)
  ultimately show ?thesis
    using alter_first_lookup [OF al] by (simp add: s' ac_table_set_mappings [OF f])
qed

lemma copy_mappings_table:
  assumes "copy_mappings new lo hi ms s = Inr s'" and "ac_inv s" and "ac_table s new = Some f"
    and "\<forall>va \<in> vm_virtual_address ` set ms. f va = None" and "distinct (map vm_virtual_address ms)"
  shows "ac_inv s' \<and> ac_table s' = (ac_table s)(new := Some (\<lambda>va.
           case ms_lookup ms va of Some x \<Rightarrow> if lo \<le> va \<and> va \<le> hi then Some x else f va | None \<Rightarrow> f va))"
  using assms
proof (induction ms arbitrary: s f)
  case Nil
  then show ?case by (auto simp: ms_lookup_def)
next
  case (Cons m ms)
  let ?va = "vm_virtual_address m"
  let ?g = "\<lambda>f va. case ms_lookup ms va of Some x \<Rightarrow> if lo \<le> va \<and> va \<le> hi then Some x else f va | None \<Rightarrow> f va"
  have c: "ms_lookup (m # ms) = (ms_lookup ms)(?va := Some (vm_physical_address m, vm_size m))"
    by (auto simp: ms_lookup_def fun_eq_iff)
  have n: "ms_lookup ms ?va = None" using Cons.prems(5) by (simp add: ms_lookup_None)
  show ?case
  proof (cases "lo \<le> ?va \<and> ?va \<le> hi")
    case True
    then obtain s1 where i: "insert_allocation new ?va (vm_physical_address m) (vm_size m) s = Inr s1"
      and k: "copy_mappings new lo hi ms s1 = Inr s'"
      using Cons.prems(1) by (auto simp: res_bind_Inr_iff)
    let ?f = "f(?va := Some (vm_physical_address m, vm_size m))"
    from insert_allocation_table [OF i Cons.prems(2)] Cons.prems(3)
    have s1: "ac_inv s1" "ac_table s1 = (ac_table s)(new := Some ?f)" by auto
    have "\<forall>va \<in> vm_virtual_address ` set ms. ?f va = None" using Cons.prems(4,5) by (auto simp: image_iff)
    then have "ac_inv s' \<and> ac_table s' = (ac_table s1)(new := Some (?g ?f))"
      by (intro Cons.IH [OF k s1(1), of ?f]) (use s1(2) Cons.prems(5) in \<open>simp_all add: fun_upd_def\<close>)
    then have "ac_inv s' \<and> ac_table s' = (ac_table s)(new := Some (?g ?f))"
      by (simp only: s1(2) fun_upd_upd)
    moreover have "?g ?f = (\<lambda>va. case ms_lookup (m # ms) va of
        Some x \<Rightarrow> if lo \<le> va \<and> va \<le> hi then Some x else f va | None \<Rightarrow> f va)"
      using True n by (auto simp: c fun_eq_iff split: option.split)
    ultimately show ?thesis by (simp only:)
  next
    case False
    then have k: "copy_mappings new lo hi ms s = Inr s'" using Cons.prems(1) by (simp split: if_splits)
    have "?g f = (\<lambda>va. case ms_lookup (m # ms) va of
        Some x \<Rightarrow> if lo \<le> va \<and> va \<le> hi then Some x else f va | None \<Rightarrow> f va)"
      using False n by (auto simp: c fun_eq_iff split: option.split)
    moreover have "ac_inv s' \<and> ac_table s' = (ac_table s)(new := Some (?g f))"
      by (intro Cons.IH [OF k Cons.prems(2,3)]) (use Cons.prems(4,5) in simp_all)
    ultimately show ?thesis by (simp only:)
  qed
qed

lemma copy_page_directory_table:
  assumes "copy_page_directory root new lo hi s = Inr s'" and "ac_inv s"
  shows "ac_inv s' \<and> ac_table s' = table_do (Copy_Dir root new lo hi) (ac_table s)"
proof -
  obtain s1 d where i: "insert_page_directory new s = Inr s1" and f: "find_dir root s1 = Some d"
    and k: "copy_mappings new lo hi (vd_mappings d) s1 = Inr s'"
    using assms(1) by (auto simp: copy_page_directory_def res_bind_Inr_iff split: option.splits)
  from insert_page_directory_table [OF i assms(2)]
  have s1: "ac_inv s1" "ac_table s1 = (ac_table s)(new := Some (\<lambda>_. None))" by auto
  have "distinct (map vm_virtual_address (vd_mappings d))"
    using s1(1) find_dir_SomeD [OF f] by (auto simp: ac_inv_def)
  with copy_mappings_table [OF k s1(1), of "\<lambda>_. None"] s1(2)
  have r: "ac_inv s'" "ac_table s' = (ac_table s)(new := Some (\<lambda>va.
      case ms_lookup (vd_mappings d) va of Some x \<Rightarrow> if lo \<le> va \<and> va \<le> hi then Some x else None | None \<Rightarrow> None))"
    by auto
  have "Some (ms_lookup (vd_mappings d)) = ((ac_table s)(new := Some (\<lambda>_. None))) root"
    unfolding s1(2) [symmetric] by (simp add: ac_table_def f)
  then have "ms_lookup (vd_mappings d) va = (if root = new then None else Option.bind (ac_table s root) (\<lambda>f. f va))" for va
    by (auto split: if_splits) (metis bind.bind_lunit)
  then have "(\<lambda>va. case ms_lookup (vd_mappings d) va of Some x \<Rightarrow> if lo \<le> va \<and> va \<le> hi then Some x else None | None \<Rightarrow> None)
     = (\<lambda>va. if lo \<le> va \<and> va \<le> hi \<and> root \<noteq> new then Option.bind (ac_table s root) (\<lambda>f. f va) else None)"
    by (auto simp: fun_eq_iff split: option.split)
  with r show ?thesis by simp
qed

lemma ac_do_table:
  assumes "ac_do x s = Inr s'" and "ac_inv s"
  shows "ac_inv s' \<and> ac_table s' = table_do x (ac_table s)"
proof (cases x)
  case (Insert_Dir new)
  with assms insert_page_directory_table [of new s s'] show ?thesis by simp
next
  case (Remove_Dir root)
  with assms remove_page_directory_table [of root s s'] show ?thesis by simp
next
  case (Insert_Alloc root va pa sz)
  with assms insert_allocation_table [of root va pa sz s s'] show ?thesis by simp
next
  case (Remove_Alloc root va)
  with assms remove_allocation_table [of root va s s'] show ?thesis by simp
next
  case (Alter_Alloc root va pa sz)
  with assms alter_allocation_table [of root va pa sz s s'] show ?thesis by simp
next
  case (Copy_Dir root new lo hi)
  with assms copy_page_directory_table [of root new lo hi s s'] show ?thesis by simp
qed

lemma ac_run_table:
  "ac_run xs s = Inr s' \<Longrightarrow> ac_inv s \<Longrightarrow> ac_inv s' \<and> ac_table s' = fold table_do xs (ac_table s)"
proof (induction xs arbitrary: s)
  case (Cons x xs)
  then obtain s1 where "ac_do x s = Inr s1" "ac_run xs s1 = Inr s'" by (auto simp: res_bind_Inr_iff)
  with Cons.IH [of s1] ac_do_table [of x s s1] Cons.prems(2) show ?case by auto
qed simp

section \<open>The pages behind the nodes\<close>

text \<open>
  Every node owns the page it was given.  The state is related to a run of the physical
  allocator whose live blocks include one page per node; pages that were allocated for a mapping of
  an unknown directory stay allocated without an owner.
\<close>

definition dir_nodes :: "vmm_dir list \<Rightarrow> u64 list" where
  "dir_nodes ds = concat (map (\<lambda>d. vd_node d # map vm_node (vd_mappings d)) ds)"

abbreviation page_run :: "bitfield \<Rightarrow> bitfield \<Rightarrow> (u64 \<times> u64) list \<Rightarrow> bool" where
  "page_run \<equiv> alloc_run bf_allocates bf_frees (\<lambda>sz. sz \<noteq> 0)"

abbreviation node_pages :: "u64 \<Rightarrow> u64 list \<Rightarrow> (u64 \<times> u64) multiset" where
  "node_pages off ns \<equiv> image_mset (\<lambda>n. (n - off, PAGE_SIZE)) (mset ns)"

definition ac_backed :: "bitfield \<Rightarrow> 'a account_scheme \<Rightarrow> bool" where
  "ac_backed b0 s \<longleftrightarrow> pmm_ready (ac_pmm s) \<and>
     (\<exists>live. page_run b0 (pmm_bf (ac_pmm s)) live \<and>
        node_pages (physical_memory_offset s) (dir_nodes (vmm_dir_list s)) \<subseteq># mset live)"

lemma dir_nodes_simps [simp]:
  "dir_nodes [] = []"
  "dir_nodes (d # ds) = vd_node d # map vm_node (vd_mappings d) @ dir_nodes ds"
  by (simp_all add: dir_nodes_def)

lemma dir_nodes_set_mappings:
  assumes "List.find (\<lambda>d. vd_pd d = root) ds = Some d"
  shows "mset (dir_nodes (set_mappings root ms ds)) + mset (map vm_node (vd_mappings d)) =
         mset (dir_nodes ds) + mset (map vm_node ms)"
  using assms by (induction ds) (auto split: if_splits)

lemma dir_nodes_remove1:
  "d \<in> set ds \<Longrightarrow> mset (dir_nodes ds) = mset (dir_nodes (remove1 d ds)) + mset (map vm_node (vd_mappings d) @ [vd_node d])"
  by (induction ds) auto

lemma node_round: "pmm_round sizeof_vmm_dir = PAGE_SIZE" "pmm_round sizeof_vmm_mapping = PAGE_SIZE" "PAGE_SIZE \<noteq> 0"
  by (simp_all add: pmm_round_def sizeof_vmm_dir_def sizeof_vmm_mapping_def PAGE_SIZE_def)

lemma ac_alloc_run:
  assumes "ac_alloc sz s = Inr (p, s')" and "pmm_round sz = PAGE_SIZE" and "pmm_ready (ac_pmm s)"
    and "page_run b0 (pmm_bf (ac_pmm s)) live"
  shows "pmm_ready (ac_pmm s') \<and> page_run b0 (pmm_bf (ac_pmm s')) ((p, PAGE_SIZE) # live)"
proof -
  obtain bf where al: "allocate (pmm_bf (ac_pmm s)) PAGE_SIZE = Inr (p, bf)"
    and "s' = s\<lparr>ac_pmm := (ac_pmm s)\<lparr>pmm_bf := bf\<rparr>\<rparr>"
    using assms(1-3) by (auto simp: ac_alloc_def pmm_alloc_def res_bind_Inr_iff)
  with alloc_run.alloc [OF assms(4) node_round(3) al] assms(3) show ?thesis by simp
qed

lemma ac_free_nodes_run:
  assumes "ac_free_nodes ns s = Inr s'" and "pmm_ready (ac_pmm s)" and "page_run b0 (pmm_bf (ac_pmm s)) live"
    and "node_pages (physical_memory_offset s) ns + rest \<subseteq># mset live"
  shows "\<exists>live'. pmm_ready (ac_pmm s') \<and> page_run b0 (pmm_bf (ac_pmm s')) live' \<and> rest \<subseteq># mset live'"
  using assms
proof (induction ns arbitrary: s live)
  case Nil
  then show ?case by auto
next
  case (Cons n ns)
  let ?x = "(n - physical_memory_offset s, PAGE_SIZE)"
  obtain s1 where f: "ac_free (from_identity_map s n) s = Inr s1" and r: "ac_free_nodes ns s1 = Inr s'"
    using Cons.prems(1) by (auto simp: res_bind_Inr_iff)
  from f Cons.prems(2) obtain bf where d: "deallocate (pmm_bf (ac_pmm s)) (n - physical_memory_offset s) PAGE_SIZE = Inr bf"
    and s1: "s1 = s\<lparr>ac_pmm := (ac_pmm s)\<lparr>pmm_bf := bf\<rparr>\<rparr>"
    by (auto simp: ac_free_def pmm_free_def from_identity_map_def res_bind_Inr_iff)
  have "?x \<in> set live"
    using mset_subset_eqD [OF Cons.prems(4), of ?x] by simp
  from alloc_run.free [OF Cons.prems(3) this d]
  have "page_run b0 (pmm_bf (ac_pmm s1)) (remove1 ?x live)" by (simp add: s1)
  moreover have "node_pages (physical_memory_offset s1) ns + rest \<subseteq># mset (remove1 ?x live)"
    using Cons.prems(4) by (simp add: s1 insert_subset_eq_iff)
  ultimately show ?case using Cons.IH [OF r] Cons.prems(2) s1 by simp
qed

lemma backed_insert_dir:
  assumes "insert_page_directory new s = Inr s'" and "ac_backed b0 s"
  shows "ac_backed b0 s'"
proof -
  obtain p s1 where a: "ac_alloc sizeof_vmm_dir s = Inr (p, s1)"
    and s': "s' = s1\<lparr>vmm_dir_list := \<lparr>vd_node = to_identity_map s1 p, vd_pd = new, vd_mappings = []\<rparr> # vmm_dir_list s1\<rparr>"
    using assms(1) by (auto simp: insert_page_directory_def res_bind_Inr_iff split: option.splits if_splits)
  from assms(2) obtain live where l: "pmm_ready (ac_pmm s)" "page_run b0 (pmm_bf (ac_pmm s)) live"
    "node_pages (physical_memory_offset s) (dir_nodes (vmm_dir_list s)) \<subseteq># mset live" by (auto simp: ac_backed_def)
  from ac_alloc_run [OF a node_round(1) l(1,2)] l(3) ac_alloc_same [OF a] show ?thesis
    unfolding ac_backed_def s' by (intro conjI exI [of _ "(p, PAGE_SIZE) # live"]) (simp_all add: to_identity_map_def)
qed

lemma backed_insert_allocation:
  assumes "insert_allocation root va pa sz s = Inr s'" and "ac_backed b0 s"
  shows "ac_backed b0 s'"
proof -
  obtain p s1 where a: "ac_alloc sizeof_vmm_mapping s = Inr (p, s1)" "p \<noteq> 0"
    using assms(1) by (auto simp: insert_allocation_def res_bind_Inr_iff split: if_splits)
  from assms(2) obtain live where l: "pmm_ready (ac_pmm s)" "page_run b0 (pmm_bf (ac_pmm s)) live"
    "node_pages (physical_memory_offset s) (dir_nodes (vmm_dir_list s)) \<subseteq># mset live" by (auto simp: ac_backed_def)
  note r = ac_alloc_run [OF a(1) node_round(2) l(1,2)] and same = ac_alloc_same [OF a(1)]
  show ?thesis
  proof (cases "find_dir root s1")
    case None
    with assms(1) a have "s' = s1" by (auto simp: insert_allocation_def split: if_splits)
    with r l(3) same show ?thesis
      unfolding ac_backed_def by (intro conjI exI [of _ "(p, PAGE_SIZE) # live"]) (auto intro: subset_mset.trans)
  next
    case (Some d)
    let ?node = "\<lparr>vm_node = to_identity_map s1 p, vm_pd = root, vm_virtual_address = va,
       vm_physical_address = pa, vm_size = sz\<rparr>"
    have s': "s' = s1\<lparr>vmm_dir_list := set_mappings root (vd_mappings d @ [?node]) (vmm_dir_list s1)\<rparr>"
      using assms(1) a Some by (auto simp: insert_allocation_def split: if_splits)
    have "mset (dir_nodes (vmm_dir_list s')) = add_mset (to_identity_map s1 p) (mset (dir_nodes (vmm_dir_list s)))"
      using dir_nodes_set_mappings [of root "vmm_dir_list s1" d "vd_mappings d @ [?node]"] Some same
      by (simp add: s' find_dir_def)
    with r l(3) same show ?thesis
      unfolding ac_backed_def by (intro conjI exI [of _ "(p, PAGE_SIZE) # live"]) (simp_all add: s' to_identity_map_def)
  qed
qed

lemma backed_free_nodes:
  assumes "ac_free_nodes ns (s\<lparr>vmm_dir_list := ds\<rparr>) = Inr s'" and "ac_backed b0 s"
    and "mset (dir_nodes (vmm_dir_list s)) = mset (dir_nodes ds) + mset ns"
  shows "ac_backed b0 s'"
proof -
  from assms(2) obtain live where l: "pmm_ready (ac_pmm s)" "page_run b0 (pmm_bf (ac_pmm s)) live"
    "node_pages (physical_memory_offset s) (dir_nodes (vmm_dir_list s)) \<subseteq># mset live" by (auto simp: ac_backed_def)
  have "\<exists>live'. pmm_ready (ac_pmm s') \<and> page_run b0 (pmm_bf (ac_pmm s')) live' \<and>
      node_pages (physical_memory_offset s) (dir_nodes ds) \<subseteq># mset live'"
    by (rule ac_free_nodes_run [OF assms(1), where live = live]) (use l assms(3) in \<open>simp_all add: add.commute\<close>)
  with ac_free_nodes_same [OF assms(1)] show ?thesis by (auto simp: ac_backed_def)
qed

lemma backed_remove_dir:
  assumes "remove_page_directory root s = Inr s'" and "ac_backed b0 s"
  shows "ac_backed b0 s'"
proof -
  obtain d where f: "find_dir root s = Some d"
    and r: "ac_free_nodes (map vm_node (vd_mappings d) @ [vd_node d]) (s\<lparr>vmm_dir_list := remove1 d (vmm_dir_list s)\<rparr>) = Inr s'"
    using assms(1) by (auto simp: remove_page_directory_def split: option.splits)
  show ?thesis
    by (rule backed_free_nodes [OF r assms(2)]) (rule dir_nodes_remove1, use find_dir_SomeD [OF f] in simp)
qed

lemma backed_remove_allocation:
  assumes "remove_allocation root va s = Inr s'" and "ac_backed b0 s" and "ac_inv s"
  shows "ac_backed b0 s'"
proof -
  obtain d where f: "find_dir root s = Some d"
    using assms(1) by (auto simp: remove_allocation_def split: option.splits)
  let ?keep = "filter (\<lambda>m. vm_virtual_address m \<noteq> va) (vd_mappings d)"
  let ?gone = "filter (\<lambda>m. vm_virtual_address m = va) (vd_mappings d)"
  have "distinct (map vm_virtual_address (vd_mappings d))"
    using assms(3) find_dir_SomeD [OF f] by (auto simp: ac_inv_def)
  then have r: "ac_free_nodes (map vm_node ?gone) (s\<lparr>vmm_dir_list := set_mappings root ?keep (vmm_dir_list s)\<rparr>) = Inr s'"
    using assms(1) f by (simp add: remove_allocation_def remove_mappings_distinct)
  have "mset (map vm_node ms) = mset (map vm_node (filter (\<lambda>m. vm_virtual_address m \<noteq> va) ms)) +
      mset (map vm_node (filter (\<lambda>m. vm_virtual_address m = va) ms))" for ms
    by (induction ms) auto
  from this [of "vd_mappings d"] dir_nodes_set_mappings [of root "vmm_dir_list s" d ?keep] f
  have "mset (dir_nodes (vmm_dir_list s)) =
      mset (dir_nodes (set_mappings root ?keep (vmm_dir_list s))) + mset (map vm_node ?gone)"
    by (simp add: find_dir_def)
  then show ?thesis by (rule backed_free_nodes [OF r assms(2)])
qed

lemma backed_alter_allocation:
  assumes "alter_allocation root va pa sz s = Inr s'" and "ac_backed b0 s"
  shows "ac_backed b0 s'"
proof -
  obtain d ms where f: "find_dir root s = Some d" and al: "alter_first va pa sz (vd_mappings d) = Some ms"
    and s': "s' = s\<lparr>vmm_dir_list := set_mappings root ms (vmm_dir_list s)\<rparr>"
    using assms(1) by (auto simp: alter_allocation_def split: option.splits)
  have "map vm_node ms = map vm_node (vd_mappings d)" using alter_first_lookup [OF al] by blast
  with dir_nodes_set_mappings [of root "vmm_dir_list s" d ms] f
  have "mset (dir_nodes (set_mappings root ms (vmm_dir_list s))) = mset (dir_nodes (vmm_dir_list s))"
    unfolding find_dir_def by simp
  with assms(2) show ?thesis by (simp add: ac_backed_def s')
qed

lemma backed_copy_mappings:
  "copy_mappings new lo hi ms s = Inr s' \<Longrightarrow> ac_backed b0 s \<Longrightarrow> ac_backed b0 s'"
proof (induction ms arbitrary: s)
  case (Cons m ms)
  then show ?case
    by (auto simp: res_bind_Inr_iff split: if_splits dest: backed_insert_allocation)
qed simp

lemma backed_ac_do:
  assumes "ac_do x s = Inr s'" and "ac_backed b0 s" and "ac_inv s"
  shows "ac_backed b0 s'"
proof (cases x)
  case (Copy_Dir root new lo hi)
  with assms(1) obtain s1 and d :: vmm_dir where "insert_page_directory new s = Inr s1"
      "copy_mappings new lo hi (vd_mappings d) s1 = Inr s'"
    by (auto simp: copy_page_directory_def res_bind_Inr_iff split: option.splits)
  with assms(2) show ?thesis by (blast intro: backed_copy_mappings backed_insert_dir)
qed (use assms in \<open>auto intro: backed_insert_dir backed_remove_dir backed_insert_allocation
       backed_remove_allocation backed_alter_allocation\<close>)

lemma backed_ac_run:
  "ac_run xs s = Inr s' \<Longrightarrow> ac_backed b0 s \<Longrightarrow> ac_inv s \<Longrightarrow> ac_backed b0 s'"
proof (induction xs arbitrary: s)
  case (Cons x xs)
  then obtain s1 where "ac_do x s = Inr s1" "ac_run xs s1 = Inr s'" by (auto simp: res_bind_Inr_iff)
  with Cons.IH [of s1] Cons.prems(2,3) backed_ac_do ac_do_table show ?case by blast
qed simp

lemma distinct_sub_mset: "distinct ys \<Longrightarrow> mset xs \<subseteq># mset ys \<Longrightarrow> distinct xs"
proof (induction xs arbitrary: ys)
  case (Cons x xs)
  then have "x \<in> set ys" and "mset xs \<subseteq># mset (remove1 x ys)"
    by (auto dest: mset_subset_eqD simp: insert_subset_eq_iff)
  with Cons.IH [of "remove1 x ys"] Cons.prems(1) mset_subset_eqD [OF this(2), of x]
  have "distinct xs" and "x \<notin> set xs" by (auto simp del: mset_remove1 simp: in_multiset_in_set)
  then show ?case by simp
qed simp

lemma backed_nodes_disjoint:
  assumes "ac_backed b0 s" and "bf_inv b0"
  shows "distinct (dir_nodes (vmm_dir_list s)) \<and>
    (\<forall>n \<in> set (dir_nodes (vmm_dir_list s)). \<forall>k \<in> set (dir_nodes (vmm_dir_list s)). n \<noteq> k \<longrightarrow>
       bf_block b0 (n - physical_memory_offset s) PAGE_SIZE \<inter> bf_block b0 (k - physical_memory_offset s) PAGE_SIZE = {})"
proof -
  let ?ns = "dir_nodes (vmm_dir_list s)" and ?f = "\<lambda>n. (n - physical_memory_offset s, PAGE_SIZE)"
  from assms(1) obtain live where run: "page_run b0 (pmm_bf (ac_pmm s)) live"
    and sub: "image_mset ?f (mset ?ns) \<subseteq># mset live" by (auto simp: ac_backed_def)
  note inv = bfa.run_inv [OF run assms(2)]
  then have srt: "sorted_wrt (\<lambda>x y. bf_block b0 (fst x) (snd x) \<inter> bf_block b0 (fst y) (snd y) = {}) live"
    and ne: "\<forall>x \<in> set live. bf_block b0 (fst x) (snd x) \<noteq> {}" by (auto simp: case_prod_unfold)
  have "distinct live"
    using srt ne by (induction live) auto
  then have "distinct (map ?f ?ns)" by (rule distinct_sub_mset) (use sub in simp)
  moreover have "bf_block b0 (fst (?f n)) (snd (?f n)) \<inter> bf_block b0 (fst (?f k)) (snd (?f k)) = {}"
    if "n \<in> set ?ns" "k \<in> set ?ns" "n \<noteq> k" for n k
  proof -
    have "?f n \<in> set live" "?f k \<in> set live" using that(1,2) set_mset_mono [OF sub] by auto
    then obtain i j where ij: "i < length live" "j < length live" "live ! i = ?f n" "live ! j = ?f k"
      by (auto simp: in_set_conv_nth)
    with that(3) have "i \<noteq> j" by auto
    with sorted_wrt_nth_less [OF srt, of i j] sorted_wrt_nth_less [OF srt, of j i] ij show ?thesis
      by (cases i j rule: linorder_cases) (simp_all add: Int_commute)
  qed
  ultimately show ?thesis by (auto simp: distinct_map)
qed

section \<open>Properties\<close>

text \<open>C25: The linked lists implement one table per page directory: any sequence of operations that
  returns leaves exactly the tables that the same sequence of updates of the tables gives, and
  keeps roots and virtual addresses distinct.\<close>

theorem account_refines_tables:
  assumes "ac_run xs s = Inr s'" and "ac_inv s"
  shows "ac_inv s' \<and> ac_table s' = fold table_do xs (ac_table s)"
  by (rule ac_run_table [OF assms])

definition demo_account :: account where
  "demo_account = \<lparr>ac_pmm = demo_pmm, physical_memory_offset = 0xFFFFB00000000000, vmm_dir_list = []\<rparr>"

definition demo_ac_ops :: "ac_op list" where
  "demo_ac_ops = [Insert_Dir 0x1000, Insert_Alloc 0x1000 0x400000000000 0x7000 0x2000,
     Insert_Alloc 0x1000 0xFFFF900000000000 0x8000 0x1000, Copy_Dir 0x1000 0x2000 0xFFFF800000000000 0xFFFFFFFFFFFFFFFF,
     Remove_Alloc 0x1000 0x400000000000]"

lemma demo_ac_run:
  obtains s' where "ac_run demo_ac_ops demo_account = Inr s'"
    and "dir_nodes (vmm_dir_list s') = [0xFFFFB00000005000, 0xFFFFB00000006000, 0xFFFFB00000002000, 0xFFFFB00000004000]"
    and "physical_memory_offset s' = 0xFFFFB00000000000"
proof -
  have "case ac_run demo_ac_ops demo_account of Inl _ \<Rightarrow> False
     | Inr s' \<Rightarrow> dir_nodes (vmm_dir_list s') = [0xFFFFB00000005000, 0xFFFFB00000006000, 0xFFFFB00000002000, 0xFFFFB00000004000] \<and>
         physical_memory_offset s' = 0xFFFFB00000000000"
    by code_simp
  with that show thesis by (auto split: sum.splits)
qed

lemma demo_account_ok: "vmm_dir_list demo_account = []" "ac_inv demo_account" "pmm_ready (ac_pmm demo_account)"
  by (simp_all add: demo_account_def ac_inv_def demo_pmm_fields)

theorem account_refines_tables_witness:
  "\<exists>s'. ac_run demo_ac_ops demo_account = Inr s' \<and> ac_inv s' \<and>
     ac_table s' = fold table_do demo_ac_ops (ac_table demo_account)"
proof (rule demo_ac_run)
  fix s' assume "ac_run demo_ac_ops demo_account = Inr s'"
  with account_refines_tables [OF this demo_account_ok(2)] show ?thesis by blast
qed



end
