(* ===== verification/Paging.thy ===== *)
theory Paging
  imports Account Strings
begin

text \<open>
  The page tables of modules/managers/mem/vmm.c.  Memory is a map from addresses to bytes, a page
  table entry the 64-bit little-endian word at its address, and the fields of the bit-field
  structures of vm.h are pairs of an offset and a width in that word.  Page directories are addressed through
  the identity map, whose offset the accounting state holds.  The physical memory manager and the
  accounting keep their own structures outside the bytes modelled here.  The flush of a translation
  buffer entry has no effect on the tables.
\<close>

section \<open>Entries\<close>

type_synonym field = "nat \<times> nat"

abbreviation rd64 :: "mem \<Rightarrow> u64 \<Rightarrow> u64" where
  "rd64 \<equiv> le64"

definition wr64 :: "mem \<Rightarrow> u64 \<Rightarrow> u64 \<Rightarrow> mem" where
  "wr64 m a v = (\<lambda>x. if x - a < 8 then ucast (drop_bit (8 * unat (x - a)) v) else m x)"

definition fget :: "field \<Rightarrow> u64 \<Rightarrow> u64" where
  "fget f e = (case f of (lo, w) \<Rightarrow> drop_bit lo e AND mask w)"

definition fset :: "field \<Rightarrow> u64 \<Rightarrow> u64 \<Rightarrow> u64" where
  "fset f v e = (case f of (lo, w) \<Rightarrow> (e AND NOT (push_bit lo (mask w))) OR push_bit lo (v AND mask w))"

definition dir_P :: field where "dir_P = (0, 1)"

definition dir_RW :: field where "dir_RW = (1, 1)"

definition dir_US :: field where "dir_US = (2, 1)"

definition dir_PWT :: field where "dir_PWT = (3, 1)"

definition dir_PCD :: field where "dir_PCD = (4, 1)"

definition dir_A :: field where "dir_A = (5, 1)"

definition dir_IGNORED1 :: field where "dir_IGNORED1 = (6, 1)"

definition dir_PS :: field where "dir_PS = (7, 1)"

definition dir_IGNORED2 :: field where "dir_IGNORED2 = (8, 3)"

definition dir_R :: field where "dir_R = (11, 1)"

definition dir_PDPP :: field where "dir_PDPP = (12, 28)"

definition dir_RESERVED :: field where "dir_RESERVED = (40, 12)"

definition dir_IGNORED3 :: field where "dir_IGNORED3 = (52, 11)"

definition dir_XD :: field where "dir_XD = (63, 1)"

definition huge_PS :: field where "huge_PS = (7, 1)"

definition huge_G :: field where "huge_G = (8, 1)"

definition huge_PDPP :: field where "huge_PDPP = (30, 10)"

definition big_PS :: field where "big_PS = (7, 1)"

definition big_PDPP :: field where "big_PDPP = (21, 19)"

definition regular_PDPP :: field where "regular_PDPP = (12, 28)"

record vmm_perms =
  read_write :: bool
  user :: bool
  write_through :: bool
  cache_disable :: bool
  global :: bool
  no_execute :: bool

record page_map_index =
  PML4_index :: u64
  PDP_index :: u64
  PD_index :: u64
  PT_index :: u64

definition PAGE_SIZE_1GIB :: u64 where "PAGE_SIZE_1GIB = 0x40000000"

definition PAGE_SIZE_2MIB :: u64 where "PAGE_SIZE_2MIB = 0x200000"

definition PAGE_SIZE_4KIB :: u64 where "PAGE_SIZE_4KIB = 0x1000"

definition PAGE_SIZE_DIR :: u64 where "PAGE_SIZE_DIR = 1"

definition VMM_WRITE_BIT :: u8 where "VMM_WRITE_BIT = 0x1"

definition VMM_USER_BIT :: u8 where "VMM_USER_BIT = 0x2"

definition VMM_WRITE_THROUGH_BIT :: u8 where "VMM_WRITE_THROUGH_BIT = 0x4"

definition VMM_CACHE_DISABLE_BIT :: u8 where "VMM_CACHE_DISABLE_BIT = 0x8"

definition VMM_GLOBAL_BIT :: u8 where "VMM_GLOBAL_BIT = 0x10"

definition VMM_NX_BIT :: u8 where "VMM_NX_BIT = 0x20"

definition VMM_REGION_K_STACK :: u64 where "VMM_REGION_K_STACK = 0xFFFF900000000000"

definition VMM_REGION_K_HEAP :: u64 where "VMM_REGION_K_HEAP = 0xFFFFA00000000000"

definition VMM_REGION_K_IDENT :: u64 where "VMM_REGION_K_IDENT = 0xFFFFB00000000000"

definition VMM_REGION_DEVICES :: u64 where "VMM_REGION_DEVICES = 0xFFFFC00000000000"

definition VMM_REGION_U_VDSO :: u64 where "VMM_REGION_U_VDSO = 0xFFFFD00000000000"

definition VMM_REGION_U_HEAP :: u64 where "VMM_REGION_U_HEAP = 0x0000300000000000"

definition VMM_REGION_U_STACK :: u64 where "VMM_REGION_U_STACK = 0x0000400000000000"

definition VMM_REGION_U_SHM_MMAP :: u64 where "VMM_REGION_U_SHM_MMAP = 0x0000500000000000"

definition VMM_REGION_SIZE :: u64 where "VMM_REGION_SIZE = 0x000000F000000000"

record vmm = account +
  vm_mem :: mem

abbreviation entry_at :: "vmm \<Rightarrow> u64 \<Rightarrow> u64" where
  "entry_at s a \<equiv> rd64 (vm_mem s) a"

definition set_entry :: "u64 \<Rightarrow> u64 \<Rightarrow> vmm \<Rightarrow> vmm" where
  "set_entry a v s = s\<lparr>vm_mem := wr64 (vm_mem s) a v\<rparr>"

definition IS_PRESENT :: "u64 \<Rightarrow> bool" where
  "IS_PRESENT e \<longleftrightarrow> fget dir_P e \<noteq> 0"

definition GET_PDPP_HUGE :: "u64 \<Rightarrow> u64" where "GET_PDPP_HUGE e = push_bit 30 (fget huge_PDPP e)"

definition GET_PDPP_BIG :: "u64 \<Rightarrow> u64" where "GET_PDPP_BIG e = push_bit 21 (fget big_PDPP e)"

definition GET_PDPP_REGULAR :: "u64 \<Rightarrow> u64" where "GET_PDPP_REGULAR e = push_bit 12 (fget regular_PDPP e)"

definition GET_PDPP_DIR :: "u64 \<Rightarrow> u64" where "GET_PDPP_DIR e = push_bit 12 (fget dir_PDPP e)"

definition GET_ENTRY :: "u64 \<Rightarrow> u64 \<Rightarrow> u64" where
  "GET_ENTRY root index = root + 8 * index"

definition vmm_entry_to_perms :: "u64 \<Rightarrow> vmm_perms" where
  "vmm_entry_to_perms e =
     \<lparr>read_write = (fget dir_RW e \<noteq> 0), user = (fget dir_US e \<noteq> 0), write_through = (fget dir_PWT e \<noteq> 0),
      cache_disable = (fget dir_PCD e \<noteq> 0), global = (fget huge_G e \<noteq> 0), no_execute = (fget dir_XD e \<noteq> 0)\<rparr>"

definition flags_to_perms :: "u8 \<Rightarrow> vmm_perms" where
  "flags_to_perms flags =
     \<lparr>read_write = (flags AND VMM_WRITE_BIT \<noteq> 0), user = (flags AND VMM_USER_BIT \<noteq> 0),
      write_through = (flags AND VMM_WRITE_THROUGH_BIT \<noteq> 0), cache_disable = (flags AND VMM_CACHE_DISABLE_BIT \<noteq> 0),
      global = (flags AND VMM_GLOBAL_BIT \<noteq> 0), no_execute = (flags AND VMM_NX_BIT \<noteq> 0)\<rparr>"

definition address_to_map :: "u64 \<Rightarrow> page_map_index" where
  "address_to_map address =
     (let a1 = drop_bit 12 address; a2 = drop_bit 9 a1; a3 = drop_bit 9 a2; a4 = drop_bit 9 a3
      in \<lparr>PML4_index = a4 AND 0x1ff, PDP_index = a3 AND 0x1ff, PD_index = a2 AND 0x1ff, PT_index = a1 AND 0x1ff\<rparr>)"

definition map_to_address :: "page_map_index \<Rightarrow> u64" where
  "map_to_address m =
     (let a1 = PML4_index m; a2 = push_bit 9 a1 OR PDP_index m; a3 = push_bit 9 a2 OR PD_index m;
          a4 = push_bit 9 a3 OR PT_index m
      in push_bit 12 a4)"

definition get_pdpp :: "vmm \<Rightarrow> u64 \<Rightarrow> u64 \<Rightarrow> u64" where
  "get_pdpp s e sz =
     (if sz = PAGE_SIZE_1GIB then to_identity_map s (GET_PDPP_HUGE e)
      else if sz = PAGE_SIZE_2MIB then to_identity_map s (GET_PDPP_BIG e)
      else if sz = PAGE_SIZE_4KIB then to_identity_map s (GET_PDPP_REGULAR e)
      else to_identity_map s (GET_PDPP_DIR e))"

definition check_k_regions :: "u64 \<Rightarrow> u64" where
  "check_k_regions address =
     (if address > VMM_REGION_K_IDENT \<and> address < VMM_REGION_K_IDENT + VMM_REGION_SIZE then address - VMM_REGION_K_IDENT
      else if address > VMM_REGION_K_HEAP \<and> address < VMM_REGION_K_HEAP + VMM_REGION_SIZE then address - VMM_REGION_K_HEAP
      else if address > VMM_REGION_DEVICES \<and> address < VMM_REGION_DEVICES + VMM_REGION_SIZE then address - VMM_REGION_DEVICES
      else if address > VMM_REGION_U_VDSO \<and> address < VMM_REGION_U_VDSO + VMM_REGION_SIZE then address - VMM_REGION_U_VDSO
      else 0)"

definition init_value :: "vmm_perms \<Rightarrow> u64 \<Rightarrow> u64" where
  "init_value perms e =
     (let e1 = fset dir_P 1 e; e2 = fset dir_RW (of_bool (read_write perms)) e1; e3 = fset dir_US (of_bool (user perms)) e2;
          e4 = fset dir_PWT (of_bool (write_through perms)) e3; e5 = fset dir_PCD (of_bool (cache_disable perms)) e4;
          e6 = fset dir_A 0 e5; e7 = fset dir_IGNORED1 0 e6; e8 = fset dir_PS 0 e7; e9 = fset dir_IGNORED2 0 e8;
          e10 = fset dir_R 0 e9; e11 = fset dir_PDPP 0 e10; e12 = fset dir_RESERVED 0 e11; e13 = fset dir_IGNORED3 0 e12
      in fset dir_XD (of_bool (no_execute perms)) e13)"

definition init_entry :: "u64 \<Rightarrow> u64 \<Rightarrow> u64 \<Rightarrow> vmm_perms \<Rightarrow> vmm \<Rightarrow> vmm res" where
  "init_entry entry sz page_ppn perms s =
     (if sz = PAGE_SIZE_1GIB \<and> page_ppn AND 0x3fffffff \<noteq> 0 then Inl (Panic ''Page ppn is not aligned to 1GiB page size'')
      else if sz = PAGE_SIZE_2MIB \<and> page_ppn AND 0x1fffff \<noteq> 0 then Inl (Panic ''Page ppn is not aligned to 2MiB page size'')
      else if sz = PAGE_SIZE_4KIB \<and> page_ppn AND 0xfff \<noteq> 0 then Inl (Panic ''Page ppn is not aligned to 4KiB page size'')
      else let e = init_value perms (entry_at s entry);
               e' = (if sz = PAGE_SIZE_1GIB then fset huge_PDPP (drop_bit 30 page_ppn) (fset huge_PS 1 e)
                     else if sz = PAGE_SIZE_2MIB then fset big_PDPP (drop_bit 21 page_ppn) (fset big_PS 1 e)
                     else if sz = PAGE_SIZE_4KIB then fset regular_PDPP (drop_bit 12 page_ppn) e
                     else fset dir_PDPP (drop_bit 12 page_ppn) e)
           in Inr (set_entry entry e' s))"

definition allocate_phys_page :: "vmm \<Rightarrow> (u64 \<times> vmm) res" where
  "allocate_phys_page s =
     res_bind (pmm_alloc_page (ac_pmm s)) (\<lambda>(buffer, pm).
       let s1 = s\<lparr>ac_pmm := pm\<rparr> in
       if buffer = 0 then Inr (0, s1)
       else Inr (buffer, s1\<lparr>vm_mem := memset (vm_mem s1) (to_identity_map s1 buffer) 0 PAGE_SIZE_4KIB\<rparr>))"

section \<open>Translation and mapping\<close>

text \<open>
  The walk every operation starts with: the addresses of the entries of the levels.  The
  operations read the entry of a level after what they wrote before.
\<close>

abbreviation pml4_entry :: "u64 \<Rightarrow> u64 \<Rightarrow> u64" where
  "pml4_entry root va \<equiv> GET_ENTRY root (PML4_index (address_to_map va))"

abbreviation pdpt_entry :: "vmm \<Rightarrow> u64 \<Rightarrow> u64 \<Rightarrow> u64" where
  "pdpt_entry s e va \<equiv> GET_ENTRY (get_pdpp s e PAGE_SIZE_DIR) (PDP_index (address_to_map va))"

abbreviation pd_entry :: "vmm \<Rightarrow> u64 \<Rightarrow> u64 \<Rightarrow> u64" where
  "pd_entry s e va \<equiv> GET_ENTRY (get_pdpp s e PAGE_SIZE_DIR) (PD_index (address_to_map va))"

abbreviation pt_entry :: "vmm \<Rightarrow> u64 \<Rightarrow> u64 \<Rightarrow> u64" where
  "pt_entry s e va \<equiv> GET_ENTRY (get_pdpp s e PAGE_SIZE_DIR) (PT_index (address_to_map va))"

definition get_physical_address :: "u64 \<Rightarrow> u64 \<Rightarrow> vmm \<Rightarrow> u64 res" where
  "get_physical_address root virtual_address s =
     (if check_k_regions virtual_address \<noteq> 0 then Inr (check_k_regions virtual_address)
      else let pml4e = entry_at s (pml4_entry root virtual_address) in
        if \<not> IS_PRESENT pml4e then Inl (Panic ''[PML4] not present'')
        else let pdpte = entry_at s (pdpt_entry s pml4e virtual_address) in
          if \<not> IS_PRESENT pdpte then Inl (Panic ''[PDP] not present'')
          else if fget huge_PS pdpte \<noteq> 0
            then Inr (push_bit 30 (fget huge_PDPP pdpte) OR (virtual_address AND 0x3fffffff))
          else let pde = entry_at s (pd_entry s pdpte virtual_address) in
            if \<not> IS_PRESENT pde then Inl (Panic ''[PD] not present'')
            else if fget big_PS pde \<noteq> 0
              then Inr (push_bit 21 (fget big_PDPP pde) OR (virtual_address AND 0x1fffff))
            else let pte = entry_at s (pt_entry s pde virtual_address) in
              if \<not> IS_PRESENT pte then Inl (Panic ''[PT] not present'')
              else Inr (push_bit 12 (fget regular_PDPP pte) OR (virtual_address AND 0xfff)))"

definition table_perms :: vmm_perms where
  "table_perms = \<lparr>read_write = True, user = True, write_through = False, cache_disable = False, global = False, no_execute = False\<rparr>"

text \<open>Filling an entry with a new table; the page may be the null page when memory is exhausted.\<close>

definition init_dir :: "u64 \<Rightarrow> vmm \<Rightarrow> vmm res" where
  "init_dir entry s =
     res_bind (allocate_phys_page s) (\<lambda>(page, s1). init_entry entry PAGE_SIZE_DIR page table_perms s1)"

definition check_mapping :: "u64 \<Rightarrow> u64 \<Rightarrow> u64 \<Rightarrow> vmm \<Rightarrow> vmm res" where
  "check_mapping root virtual_address physical_address s =
     res_bind (get_physical_address root virtual_address s) (\<lambda>phys_addr.
       if phys_addr \<noteq> physical_address then Inl (Panic ''Mapping error'') else Inr s)"

definition map_address :: "u64 \<Rightarrow> u64 \<Rightarrow> u64 \<Rightarrow> u64 \<Rightarrow> u8 \<Rightarrow> vmm \<Rightarrow> vmm res" where
  "map_address root virtual_address physical_address sz flags s =
     (if sz = 0 then Inl (Panic ''divide error'')
      else if virtual_address mod sz \<noteq> 0 then Inl (Panic ''Virtual address is not aligned to page size'')
      else if physical_address mod sz \<noteq> 0 then Inl (Panic ''Physical address is not aligned to page size'')
      else let page_perms = flags_to_perms flags; pml4a = pml4_entry root virtual_address in
        res_bind (if \<not> IS_PRESENT (entry_at s pml4a) then init_dir pml4a s else Inr s) (\<lambda>s1.
        let pdpta = pdpt_entry s1 (entry_at s1 pml4a) virtual_address; pdpte = entry_at s1 pdpta in
        if (\<not> IS_PRESENT pdpte \<or> fget huge_PS pdpte \<noteq> 0) \<and> sz = PAGE_SIZE_1GIB
          then res_bind (init_entry pdpta PAGE_SIZE_1GIB physical_address page_perms s1)
                 (check_mapping root virtual_address physical_address)
        else if IS_PRESENT pdpte \<and> fget huge_PS pdpte \<noteq> 0 then Inl (Panic ''1GiB Mapping overlap detected'')
        else res_bind (if \<not> IS_PRESENT pdpte then init_dir pdpta s1 else Inr s1) (\<lambda>s2.
        let pda = pd_entry s2 (entry_at s2 pdpta) virtual_address; pde = entry_at s2 pda in
        if (\<not> IS_PRESENT pde \<or> fget big_PS pde \<noteq> 0) \<and> sz = PAGE_SIZE_2MIB
          then res_bind (init_entry pda PAGE_SIZE_2MIB physical_address page_perms s2)
                 (check_mapping root virtual_address physical_address)
        else if IS_PRESENT pde \<and> fget big_PS pde \<noteq> 0 then Inl (Panic ''2MiB Mapping overlap detected'')
        else res_bind (if \<not> IS_PRESENT pde then init_dir pda s2 else Inr s2) (\<lambda>s3.
        let pta = pt_entry s3 (entry_at s3 pda) virtual_address in
        res_bind (init_entry pta PAGE_SIZE_4KIB physical_address page_perms s3)
          (check_mapping root virtual_address physical_address)))))"

text \<open>
  The last guard before the page table tests \<open>pdptentry->big.PS\<close>, the entry of the level
  above, whose bit was already found clear.
\<close>

definition unmap_memory :: "u64 \<Rightarrow> u64 \<Rightarrow> vmm \<Rightarrow> vmm res" where
  "unmap_memory root virtual_address s =
     (let pml4e = entry_at s (pml4_entry root virtual_address) in
      if \<not> IS_PRESENT pml4e then Inr s
      else let pdpte = entry_at s (pdpt_entry s pml4e virtual_address) in
        if \<not> IS_PRESENT pdpte then Inr s
        else if fget huge_PS pdpte \<noteq> 0 then Inl (Panic ''Cant unmap 1GiB page'')
        else let pde = entry_at s (pd_entry s pdpte virtual_address) in
          if \<not> IS_PRESENT pde then Inr s
          else if fget big_PS pdpte \<noteq> 0 then Inl (Panic ''Cant unmap 2MiB page'')
          else let pta = pt_entry s pde virtual_address; pte = entry_at s pta in
            if \<not> IS_PRESENT pte then Inr s
            else Inr (set_entry pta (fset dir_P 0 pte) s))"

section \<open>Ranges and regions\<close>

definition page_count :: "u64 \<Rightarrow> u64 \<Rightarrow> u64" where
  "page_count sz page_size = (if sz mod page_size \<noteq> 0 then sz div page_size + 1 else sz div page_size)"

fun for_pages :: "nat \<Rightarrow> u64 \<Rightarrow> (u64 \<Rightarrow> 's \<Rightarrow> 's res) \<Rightarrow> 's \<Rightarrow> 's res" where
  "for_pages 0 i f s = Inr s"
| "for_pages (Suc n) i f s = res_bind (f i s) (for_pages n (i + 1) f)"

definition map_pages :: "u64 \<Rightarrow> u64 \<Rightarrow> u64 \<Rightarrow> u64 \<Rightarrow> u64 \<Rightarrow> u8 \<Rightarrow> vmm \<Rightarrow> vmm res" where
  "map_pages root virtual_start physical_start page_size sz flags =
     for_pages (unat (page_count sz page_size)) 0
       (\<lambda>i. map_address root (virtual_start + i * page_size) (physical_start + i * page_size) page_size flags)"

definition remap_range :: "u64 \<Rightarrow> u64 \<Rightarrow> u64 \<Rightarrow> u64 \<Rightarrow> u64 \<Rightarrow> u8 \<Rightarrow> vmm \<Rightarrow> vmm res" where
  "remap_range root virtual_start physical_start page_size sz flags s =
     res_bind (map_pages root virtual_start physical_start page_size sz flags s)
       (alter_allocation root virtual_start physical_start sz)"

definition map_range :: "u64 \<Rightarrow> u64 \<Rightarrow> u64 \<Rightarrow> u64 \<Rightarrow> u64 \<Rightarrow> u8 \<Rightarrow> vmm \<Rightarrow> vmm res" where
  "map_range root virtual_start physical_start page_size sz flags s =
     res_bind (map_pages root virtual_start physical_start page_size sz flags s)
       (insert_allocation root virtual_start physical_start sz)"

definition unmap_range :: "u64 \<Rightarrow> u64 \<Rightarrow> u64 \<Rightarrow> vmm \<Rightarrow> vmm res" where
  "unmap_range root virtual_start sz s =
     res_bind (for_pages (unat (page_count sz PAGE_SIZE_4KIB)) 0
                 (\<lambda>i. unmap_memory root (virtual_start + i * PAGE_SIZE_4KIB)) s)
       (remove_allocation root virtual_start)"

definition allocate_vmm :: "u64 \<Rightarrow> u64 \<Rightarrow> u64 \<Rightarrow> u8 \<Rightarrow> vmm \<Rightarrow> (u64 \<times> vmm) res" where
  "allocate_vmm pml4 sz region flags s =
     (if region \<notin> {VMM_REGION_U_STACK, VMM_REGION_U_HEAP, VMM_REGION_U_SHM_MMAP, VMM_REGION_K_STACK, VMM_REGION_K_IDENT,
          VMM_REGION_DEVICES, VMM_REGION_K_HEAP, VMM_REGION_U_VDSO}
      then Inl (Panic ''Invalid region for allocation'')
      else res_bind (ac_alloc sz s) (\<lambda>(buffer, s1).
        if buffer = 0 then Inl (Panic ''Failed to allocate memory'')
        else let s2 = s1\<lparr>vm_mem := memset (vm_mem s1) (to_identity_map s1 buffer) 0 sz\<rparr> in
          if region = VMM_REGION_K_IDENT then Inr (to_identity_map s2 buffer, s2)
          else if region = VMM_REGION_K_HEAP then Inr (buffer + VMM_REGION_K_HEAP, s2)
          else if region = VMM_REGION_DEVICES then Inr (buffer + VMM_REGION_DEVICES, s2)
          else if region = VMM_REGION_U_VDSO then Inr (buffer + VMM_REGION_U_VDSO, s2)
          else let vaddr = region + buffer in
            res_bind (map_range pml4 vaddr buffer PAGE_SIZE_4KIB sz flags s2) (\<lambda>s3. Inr (vaddr, s3))))"

definition free_vmm :: "u64 \<Rightarrow> u64 \<Rightarrow> vmm \<Rightarrow> vmm res" where
  "free_vmm pml4 address s =
     (if address = 0 then Inl (Panic ''Invalid address for free_vmm'')
      else let allocs = how_many_allocations_for_vaddr address s in
        if allocs = 0 then Inl (Panic ''Invalid address for free_vmm'')
        else res_bind (get_physical_address pml4 address s) (\<lambda>phaddr.
          res_bind (if allocs = 1 then ac_free phaddr s else Inr s) (\<lambda>s1.
            if check_k_regions address = 0 then unmap_range pml4 address PAGE_SIZE_4KIB s1 else Inr s1)))"

definition allocate_at_vaddr :: "u64 \<Rightarrow> u64 \<Rightarrow> u64 \<Rightarrow> u8 \<Rightarrow> vmm \<Rightarrow> (u64 \<times> vmm) res" where
  "allocate_at_vaddr root virtual_address sz flags s =
     (let pages = page_count sz PAGE_SIZE_4KIB in
      res_bind (ac_alloc (pages * PAGE_SIZE_4KIB) s) (\<lambda>(buffer, s1).
        if buffer = 0 then Inr (0, s1)
        else let s2 = s1\<lparr>vm_mem := memset (vm_mem s1) (to_identity_map s1 buffer) 0 (pages * PAGE_SIZE_4KIB)\<rparr> in
          res_bind (map_range root virtual_address buffer PAGE_SIZE_4KIB (pages * PAGE_SIZE_4KIB) flags s2)
            (\<lambda>s3. Inr (buffer, s3))))"

section \<open>Copies of a directory\<close>

definition copy_fields :: "u64 \<Rightarrow> u64 \<Rightarrow> u64" where
  "copy_fields e n =
     (let cp = (\<lambda>f n. fset f (fget f e) n);
          n1 = cp dir_IGNORED1 (cp dir_A (cp dir_PCD (cp dir_PWT (cp dir_US (cp dir_RW (cp dir_P n))))));
          n2 = fset dir_PDPP 0 (cp dir_R (cp dir_IGNORED2 (cp dir_PS n1)))
      in cp dir_XD (cp dir_IGNORED3 (cp dir_RESERVED n2)))"

text \<open>One round of the loop; \<open>descend\<close> is the recursive call, absent at level 0.\<close>

definition duplicate_entry :: "u64 \<Rightarrow> u64 \<Rightarrow> bool \<Rightarrow> (u64 \<Rightarrow> u64 \<Rightarrow> vmm \<Rightarrow> vmm res) option \<Rightarrow> u64 \<Rightarrow> vmm \<Rightarrow> vmm res" where
  "duplicate_entry root new root_on_phys descend i s =
     (let ea = GET_ENTRY root i; na = GET_ENTRY new i; e = entry_at s ea in
      if \<not> IS_PRESENT e then Inr s
      else let s1 = set_entry na (copy_fields e (entry_at s na)) s; e1 = entry_at s1 ea in
        case (if fget dir_PS e1 \<noteq> 0 then None else descend) of
          None \<Rightarrow> Inr (set_entry na (fset dir_PDPP (fget dir_PDPP e1) (entry_at s1 na)) s1)
        | Some f \<Rightarrow>
            res_bind (allocate_phys_page s1) (\<lambda>(page, s2).
              let s3 = set_entry na (fset dir_PDPP (drop_bit 12 page) (entry_at s2 na)) s2;
                  e3 = entry_at s3 ea;
                  source_pdpp = (if root_on_phys then GET_PDPP_DIR e3 else get_pdpp s3 e3 PAGE_SIZE_DIR)
              in f source_pdpp (get_pdpp s3 (entry_at s3 na) PAGE_SIZE_DIR) s3))"

primrec duplicate_page_directory :: "nat \<Rightarrow> u64 \<Rightarrow> u64 \<Rightarrow> nat \<Rightarrow> bool \<Rightarrow> vmm \<Rightarrow> vmm res" where
  "duplicate_page_directory 0 root new override root_on_phys s =
     for_pages (512 - override) (of_nat override) (duplicate_entry root new root_on_phys None) s"
| "duplicate_page_directory (Suc level) root new override root_on_phys s =
     for_pages (512 - override) (of_nat override)
       (duplicate_entry root new root_on_phys
          (Some (\<lambda>src dst. duplicate_page_directory level src dst 0 root_on_phys))) s"

definition copy_from :: "u64 \<Rightarrow> nat \<Rightarrow> vmm \<Rightarrow> (u64 \<times> vmm) res" where
  "copy_from root override s =
     res_bind (allocate_phys_page s) (\<lambda>(page, s1).
       let new = to_identity_map s1 page in
       res_bind (duplicate_page_directory 3 root new override False s1) (\<lambda>s2.
       let min_address = map_to_address \<lparr>PML4_index = of_nat override, PDP_index = 0, PD_index = 0, PT_index = 0\<rparr> in
       res_bind (copy_page_directory root new min_address 0xffffffffffffffff s2) (\<lambda>s3. Inr (new, s3))))"

definition vmm_copy_kernel :: "u64 \<Rightarrow> vmm \<Rightarrow> (u64 \<times> vmm) res" where
  "vmm_copy_kernel root s = copy_from root 256 s"

definition vmm_copy :: "u64 \<Rightarrow> vmm \<Rightarrow> (u64 \<times> vmm) res" where
  "vmm_copy root s = copy_from root 0 s"

definition remap_allocate_cow :: "u64 \<Rightarrow> u64 \<Rightarrow> u64 \<Rightarrow> u64 \<Rightarrow> u8 \<Rightarrow> vmm \<Rightarrow> vmm res" where
  "remap_allocate_cow pml4 section_start sz page_size flags s =
     res_bind (ac_alloc sz s) (\<lambda>(physical, s1).
       if physical = 0 then Inl (Panic ''Failed to allocate memory for cow'')
       else res_bind (get_physical_address pml4 section_start s1) (\<lambda>old_physical.
         let s2 = s1\<lparr>vm_mem := memset (vm_mem s1) (to_identity_map s1 physical) 0 sz\<rparr> in
         res_bind (remap_range pml4 section_start physical page_size sz (flags OR VMM_WRITE_BIT) s2) (\<lambda>s3.
           Inr (s3\<lparr>vm_mem := memcpy (vm_mem s3) (to_identity_map s3 physical) (to_identity_map s3 old_physical) sz\<rparr>))))"

definition compare_entries :: "u64 \<Rightarrow> u64 \<Rightarrow> bool" where
  "compare_entries e1 e2 \<longleftrightarrow>
     (\<forall>f \<in> set [dir_P, dir_RW, dir_US, dir_PWT, dir_PCD, dir_A, dir_IGNORED1, dir_PS, dir_IGNORED2, dir_R, dir_RESERVED,
                dir_IGNORED3, dir_XD]. fget f e1 = fget f e2)"

definition clear_entry :: "u64 \<Rightarrow> u64 \<Rightarrow> vmm \<Rightarrow> vmm res" where
  "clear_entry root i s = Inr (s\<lparr>vm_mem := memset (vm_mem s) (GET_ENTRY root i) 0 8\<rparr>)"

definition vmm_unmap_userspace :: "u64 \<Rightarrow> vmm \<Rightarrow> vmm res" where
  "vmm_unmap_userspace root s =
     res_bind (for_pages 256 0 (clear_entry root) s) (\<lambda>s1.
     res_bind (remove_page_directory root s1) (insert_page_directory root))"

section \<open>Permissions\<close>

text \<open>The flags are assigned to one-bit fields, which keep their lowest bit.\<close>

definition set_permissions :: "u8 \<Rightarrow> u64 \<Rightarrow> u64" where
  "set_permissions flags e =
     (let e1 = fset dir_RW (ucast (flags AND VMM_WRITE_BIT)) e; e2 = fset dir_US (ucast (flags AND VMM_USER_BIT)) e1;
          e3 = fset dir_PCD (ucast (flags AND VMM_CACHE_DISABLE_BIT)) e2
      in fset dir_XD (ucast (flags AND VMM_NX_BIT)) e3)"

definition set_user :: "u64 \<Rightarrow> vmm \<Rightarrow> vmm" where
  "set_user a s = set_entry a (fset dir_US 1 (entry_at s a)) s"

definition mprotect_page :: "u64 \<Rightarrow> u64 \<Rightarrow> u8 \<Rightarrow> vmm \<Rightarrow> (u64 \<times> vmm) res" where
  "mprotect_page root address flags s =
     (let pml4a = pml4_entry root address; pml4e = entry_at s pml4a in
      if \<not> IS_PRESENT pml4e then Inl (Panic ''Cant mprotect page, PML4 entry not present'')
      else let pdpta = pdpt_entry s pml4e address; pdpte = entry_at s pdpta in
        if \<not> IS_PRESENT pdpte then Inl (Panic ''Cant mprotect page, PDP entry not present'')
        else if fget huge_PS pdpte \<noteq> 0 then Inl (Panic ''Cant mprotect 1GiB page'')
        else let pda = pd_entry s pdpte address; pde = entry_at s pda in
          if \<not> IS_PRESENT pde then Inl (Panic ''Cant mprotect page, PD entry not present'')
          else if fget big_PS pdpte \<noteq> 0 then Inl (Panic ''Cant mprotect 2MiB page'')
          else let pta = pt_entry s pde address; pte = entry_at s pta in
            if \<not> IS_PRESENT pte then Inl (Panic ''Cant mprotect page, PT entry not present'')
            else let s1 = set_entry pta (set_permissions flags pte) s in
              Inr (PAGE_SIZE_4KIB,
                   if flags AND VMM_USER_BIT \<noteq> 0 then set_user pta (set_user pda (set_user pdpta (set_user pml4a s1)))
                   else s1))"

partial_function (option) mprotect_loop :: "u64 \<Rightarrow> u64 \<Rightarrow> u64 \<Rightarrow> u8 \<Rightarrow> vmm \<Rightarrow> vmm res option" where
  "mprotect_loop root next_address stop flags s =
     (if next_address < stop
      then case mprotect_page root next_address flags s of
             Inl e \<Rightarrow> Some (Inl e)
           | Inr (page_size, s1) \<Rightarrow>
               if page_size = 0 then Some (Inl (Panic ''Failed to protect page''))
               else mprotect_loop root (next_address + page_size) stop flags s1
      else Some (Inr s))"

definition mprotect :: "u64 \<Rightarrow> u64 \<Rightarrow> u64 \<Rightarrow> u8 \<Rightarrow> vmm \<Rightarrow> vmm res option" where
  "mprotect root address sz flags s =
     mprotect_loop root (push_bit 12 (drop_bit 12 address)) (address + sz) flags s"

definition pack_perms :: "u64 \<Rightarrow> u64 \<Rightarrow> u8" where
  "pack_perms user_bit e =
     ucast (fget dir_RW e OR push_bit 1 (user_bit AND 0xff) OR push_bit 2 (fget dir_XD e) OR push_bit 3 (fget dir_PCD e))"

definition get_page_perms :: "u64 \<Rightarrow> u64 \<Rightarrow> vmm \<Rightarrow> u8" where
  "get_page_perms pml4 address s =
     (let pml4e = entry_at s (pml4_entry pml4 address) in
      if \<not> IS_PRESENT pml4e then 0
      else let pdpte = entry_at s (pdpt_entry s pml4e address) in
        if \<not> IS_PRESENT pdpte then 0
        else if fget huge_PS pdpte \<noteq> 0 then pack_perms (fget dir_US pml4e AND fget dir_US pdpte) pdpte
        else let pde = entry_at s (pd_entry s pdpte address) in
          if \<not> IS_PRESENT pde then 0
          else if fget big_PS pdpte \<noteq> 0
            then pack_perms (fget dir_US pml4e AND fget dir_US pdpte AND fget dir_US pde) pde
          else let pte = entry_at s (pt_entry s pde address) in
            if \<not> IS_PRESENT pte then 0
            else pack_perms (fget dir_US pml4e AND fget dir_US pdpte AND fget dir_US pde AND fget dir_US pte) pte)"

definition is_user_access :: "u64 \<Rightarrow> u64 \<Rightarrow> vmm \<Rightarrow> u8" where
  "is_user_access pml4 address s = get_page_perms pml4 address s AND VMM_USER_BIT"

definition is_writeable :: "u64 \<Rightarrow> u64 \<Rightarrow> vmm \<Rightarrow> u8" where
  "is_writeable pml4 address s = get_page_perms pml4 address s AND VMM_WRITE_BIT"

definition is_executable :: "u64 \<Rightarrow> u64 \<Rightarrow> vmm \<Rightarrow> u8" where
  "is_executable pml4 address s = get_page_perms pml4 address s AND VMM_NX_BIT"

definition is_present :: "u64 \<Rightarrow> u64 \<Rightarrow> vmm \<Rightarrow> u8" where
  "is_present pml4 address s =
     (let pml4e = entry_at s (pml4_entry pml4 address) in
      if \<not> IS_PRESENT pml4e then 0
      else let pdpte = entry_at s (pdpt_entry s pml4e address) in
        if \<not> IS_PRESENT pdpte then 0
        else if fget huge_PS pdpte \<noteq> 0 then 1
        else let pde = entry_at s (pd_entry s pdpte address) in
          if \<not> IS_PRESENT pde then 0
          else if fget big_PS pdpte \<noteq> 0 then 1
          else let pte = entry_at s (pt_entry s pde address) in
            if \<not> IS_PRESENT pte then 0 else 1)"

definition vmm_is_present :: "u64 \<Rightarrow> u64 \<Rightarrow> vmm \<Rightarrow> u64" where
  "vmm_is_present root vmm_address s =
     (let pml4e = entry_at s (pml4_entry root vmm_address) in
      if \<not> IS_PRESENT pml4e then 0
      else let pdpte = entry_at s (pdpt_entry s pml4e vmm_address) in
        if \<not> IS_PRESENT pdpte then 0
        else if fget huge_PS pdpte \<noteq> 0 then PAGE_SIZE_1GIB
        else let pde = entry_at s (pd_entry s pdpte vmm_address) in
          if \<not> IS_PRESENT pde then 0
          else if fget big_PS pde \<noteq> 0 then PAGE_SIZE_2MIB
          else let pte = entry_at s (pt_entry s pde vmm_address) in
            if \<not> IS_PRESENT pte then 0 else PAGE_SIZE_4KIB)"

end
