(* ===== verification/Paging_Walk.thy ===== *)
theory Paging_Walk
  imports Paging "HOL-Library.Sublist"
begin

text \<open>
  Reasoning about page tables: fields of entries, entries in memory, the walk from a root along a
  path of indices, and the invariant under which a write to one entry affects only the paths
  through it.
\<close>

section \<open>Fields of a word\<close>

definition field_ok :: "field \<Rightarrow> bool" where
  "field_ok f \<longleftrightarrow> fst f + snd f \<le> 64"

definition field_apart :: "field \<Rightarrow> field \<Rightarrow> bool" where
  "field_apart f g \<longleftrightarrow> fst f + snd f \<le> fst g \<or> fst g + snd g \<le> fst f"

lemma bit_fget: "bit (fget f e) n \<longleftrightarrow> n < snd f \<and> bit e (fst f + n)"
  by (auto simp: fget_def bit_simps split: prod.splits dest: bit_imp_le_length)

lemma bit_fset:
  "bit (fset f v e) n \<longleftrightarrow> n < 64 \<and> (if fst f \<le> n \<and> n < fst f + snd f then bit v (n - fst f) else bit e n)"
  by (auto simp: fset_def bit_simps split: prod.splits dest: bit_imp_le_length)

lemma fget_fset_same: "field_ok f \<Longrightarrow> fget f (fset f v e) = v AND mask (snd f)"
  by (rule bit_word_eqI) (auto simp: bit_fget bit_fset bit_simps field_ok_def)

lemma fget_fset_apart: "field_apart f g \<Longrightarrow> fget f (fset g v e) = fget f e"
  by (rule bit_word_eqI) (auto simp: bit_fget bit_fset field_apart_def dest: bit_imp_le_length)

lemmas field_defs = dir_P_def dir_RW_def dir_US_def dir_PWT_def dir_PCD_def dir_A_def dir_IGNORED1_def
  dir_PS_def dir_IGNORED2_def dir_R_def dir_PDPP_def dir_RESERVED_def dir_IGNORED3_def dir_XD_def
  huge_PS_def huge_G_def huge_PDPP_def big_PS_def big_PDPP_def regular_PDPP_def

lemma fset_zero [simp]: "fget f 0 = 0" by (rule bit_word_eqI) (simp add: bit_fget)

lemma not_present_0 [simp]: "\<not> IS_PRESENT 0" by (simp add: IS_PRESENT_def)

lemma is_present_bit: "IS_PRESENT e \<longleftrightarrow> bit e 0"
  by (auto simp: IS_PRESENT_def dir_P_def fget_def and_one_eq odd_iff_mod_2_eq_one bit_0 mask_Suc_0 [simplified])

section \<open>Entries in memory\<close>

lemma memset_apply: "memset m d v n x = (if x - d < n then word_of_int v else m x)"
proof -
  have "fold (\<lambda>i m. m(d + of_nat i := w)) [0..<k] m x = (if unat (x - d) < k then w else m x)"
    if "k < 2 ^ 64" for k and w :: u8
    using that
  proof (induction k)
    case (Suc k)
    have "x = d + of_nat k \<longleftrightarrow> unat (x - d) = k"
      using Suc.prems word_unat_eq_iff [of "x - d" "of_nat k"] by (auto simp: algebra_simps)
    with Suc show ?case by auto
  qed simp
  from this [of "unat n" "word_of_int v"] unat_u64_less [of n] show ?thesis
    by (simp add: memset_def word_less_nat_alt)
qed

definition aligned8 :: "u64 \<Rightarrow> bool" where "aligned8 a \<longleftrightarrow> 8 dvd unat a"

definition aligned_page :: "u64 \<Rightarrow> bool" where "aligned_page a \<longleftrightarrow> 4096 dvd unat a"

lemma unat_diff_dvd:
  fixes a b :: u64
  assumes "d dvd unat a" and "d dvd unat b" and "d dvd 2 ^ 64"
  shows "d dvd unat (b - a)"
proof -
  have "d dvd unat b + 2 ^ 64 - unat a" using assms by (intro dvd_diff_nat dvd_add)
  then show ?thesis using assms by (simp add: unat_sub_if' dvd_diff_nat)
qed

lemma aligned8_diff:
  assumes "aligned8 a" and "aligned8 b" and "a \<noteq> b"
  shows "8 \<le> b - a"
proof -
  have "8 dvd unat (b - a)" using assms unat_diff_dvd [of 8 a b] by (simp add: aligned8_def)
  moreover have "unat (b - a) \<noteq> 0" using assms(3) by (simp add: unat_eq_zero)
  ultimately have "8 \<le> unat (b - a)" by (auto dest: dvd_imp_le)
  then show ?thesis by (simp add: word_le_nat_alt)
qed

lemma bit_rd64:
  "bit (rd64 m a) n \<longleftrightarrow> n < 64 \<and> bit (m (a + of_nat (n div 8))) (n mod 8)"
proof (cases "n < 64")
  case True
  define q r where "q = n div 8" and "r = n mod 8"
  have n: "n = 8 * q + r" and r: "r < 8" and "q < 8" using True by (simp_all add: q_def r_def)
  from \<open>q < 8\<close> consider "q = 0" | "q = 1" | "q = 2" | "q = 3" | "q = 4" | "q = 5" | "q = 6" | "q = 7" by linarith
  then have "bit (rd64 m a) (8 * q + r) \<longleftrightarrow> bit (m (a + of_nat q)) r"
    by cases (use r in \<open>auto simp: le64_def bit_simps bit_u8_high\<close>)
  then show ?thesis using True by (simp add: q_def r_def)
next
  case False
  then show ?thesis using bit_imp_le_length [of "rd64 m a" n] by auto
qed

lemma rd64_cong: "(\<And>i. i < 8 \<Longrightarrow> m' (a + of_nat i) = m (a + of_nat i)) \<Longrightarrow> rd64 m' a = rd64 m a"
  by (rule bit_word_eqI) (simp add: bit_rd64)

lemma rd64_wr64_same [simp]: "rd64 (wr64 m a v) a = v"
proof (rule bit_word_eqI)
  fix n :: nat
  assume "n < LENGTH(64)"
  then have "n div 8 < 8" by simp
  then have "unat (of_nat (n div 8) :: u64) = n div 8" by simp
  moreover have "(of_nat (n div 8) :: u64) < 8" using \<open>n div 8 < 8\<close> by (simp add: word_less_nat_alt)
  ultimately show "bit (rd64 (wr64 m a v) a) n = bit v n"
    using \<open>n < LENGTH(64)\<close> by (simp add: bit_rd64 wr64_def bit_simps mult.commute)
qed

lemma offset_outside:
  fixes a b n :: u64
  assumes "n \<le> b - a" and "8 \<le> a - b" and "i < 8"
  shows "\<not> b + of_nat i - a < n"
proof -
  have i: "unat (of_nat i :: u64) = i" using assms(3) by simp
  have "unat (a - b) = (if a = b then 0 else 2 ^ 64 - unat (b - a))"
    using unat_u64_less [of a] unat_u64_less [of b] by (auto simp: unat_sub_if' word_unat_eq_iff)
  with assms(2) have "unat (b - a) + i < 2 ^ 64" using assms(3) by (auto simp: word_le_nat_alt split: if_splits)
  then have "unat (b - a + of_nat i) = unat (b - a) + i" using i by (subst unat_add_no_wrap) simp_all
  then show ?thesis using assms(1) by (simp add: word_le_nat_alt word_less_nat_alt algebra_simps)
qed

lemma rd64_wr64_other: "aligned8 a \<Longrightarrow> aligned8 b \<Longrightarrow> a \<noteq> b \<Longrightarrow> rd64 (wr64 m a v) b = rd64 m b"
  using aligned8_diff [of a b] aligned8_diff [of b a]
  by (intro rd64_cong) (simp add: wr64_def offset_outside)

lemma rd64_memset_other:
  assumes "n \<le> b - d" and "8 \<le> d - b"
  shows "rd64 (memset m d v n) b = rd64 m b"
  using assms by (intro rd64_cong) (simp add: memset_apply offset_outside)

lemma rd64_memset_inside:
  assumes "b - d < n" and "8 dvd unat (b - d)" and "8 dvd unat n"
  shows "rd64 (memset m d 0 n) b = 0"
proof (rule bit_word_eqI)
  fix k :: nat
  assume "k < LENGTH(64)"
  then have i: "k div 8 < 8" and u: "unat (of_nat (k div 8) :: u64) = k div 8" by simp_all
  have "unat (b - d) + 8 \<le> unat n"
  proof -
    obtain x y where "unat (b - d) = 8 * x" "unat n = 8 * y" using assms(2,3) by (auto elim!: dvdE)
    with assms(1) show ?thesis by (simp add: word_less_nat_alt)
  qed
  then have "unat (b - d + of_nat (k div 8)) = unat (b - d) + k div 8"
    using i u unat_u64_less [of n] by (subst unat_add_no_wrap) simp_all
  with i \<open>unat (b - d) + 8 \<le> unat n\<close> have "b + of_nat (k div 8) - d < n"
    by (simp add: word_less_nat_alt algebra_simps)
  then show "bit (rd64 (memset m d 0 n) b) k = bit (0 :: u64) k"
    by (simp add: bit_rd64 memset_apply)
qed

section \<open>Pages and their entries\<close>

lemma aligned_page_8: "aligned_page t \<Longrightarrow> aligned8 t"
  unfolding aligned_page_def aligned8_def by (rule dvd_trans [of 8 4096]) simp_all

lemma unat_entry:
  assumes "aligned_page t" and "i < 512"
  shows "unat (GET_ENTRY t i) = unat t + 8 * unat i"
proof -
  have i: "unat i < 512" using assms(2) by (simp add: word_less_nat_alt)
  obtain k where k: "unat t = 4096 * k" using assms(1) by (auto simp: aligned_page_def elim: dvdE)
  with unat_u64_less [of t] have "k < 2 ^ 52" by simp
  then have "unat t + 4096 \<le> 2 ^ 64" using k by simp
  moreover have "unat (8 * i) = 8 * unat i" using i by (simp add: unat_word_ariths)
  ultimately show ?thesis unfolding GET_ENTRY_def using i by (subst unat_add_no_wrap) simp_all
qed

lemma aligned_entry: "aligned_page t \<Longrightarrow> i < 512 \<Longrightarrow> aligned8 (GET_ENTRY t i)"
  using aligned_page_8 [of t] by (simp add: aligned8_def unat_entry dvd_add)

lemma entry_inj:
  assumes "aligned_page t" "aligned_page t'" "i < 512" "j < 512"
  shows "GET_ENTRY t i = GET_ENTRY t' j \<longleftrightarrow> t = t' \<and> i = j"
proof
  assume "GET_ENTRY t i = GET_ENTRY t' j"
  with assms have e: "unat t + 8 * unat i = unat t' + 8 * unat j" by (metis unat_entry)
  have ij: "unat i < 512" "unat j < 512" using assms(3,4) by (simp_all add: word_less_nat_alt)
  obtain k k' where k: "unat t = 4096 * k" "unat t' = 4096 * k'"
    using assms(1,2) by (auto simp: aligned_page_def elim!: dvdE)
  with e ij arg_cong [of _ _ "\<lambda>x. x div 4096", OF e] have "k = k'" by simp
  with e k have "unat t = unat t'" "unat i = unat j" by simp_all
  then show "t = t' \<and> i = j" by (simp add: word_unat_eq_iff)
qed simp

lemma page_apart:
  assumes "aligned_page t" "aligned_page d" "t \<noteq> d" "i < 512"
  shows "4096 \<le> GET_ENTRY t i - d" and "8 \<le> d - GET_ENTRY t i"
proof -
  have i: "unat i < 512" using assms(4) by (simp add: word_less_nat_alt)
  obtain k k' where k: "unat t = 4096 * k" "unat d = 4096 * k'"
    using assms(1,2) by (auto simp: aligned_page_def elim!: dvdE)
  with assms(3) have "k \<noteq> k'" by (auto simp: word_unat_eq_iff)
  moreover have "k < 2 ^ 52" "k' < 2 ^ 52" using k unat_u64_less [of t] unat_u64_less [of d] by simp_all
  ultimately show "4096 \<le> GET_ENTRY t i - d" "8 \<le> d - GET_ENTRY t i"
    using i k by (auto simp: word_le_nat_alt unat_sub_if' unat_entry [OF assms(1,4)])
qed

lemma zeroed_entry:
  assumes "aligned_page d" "i < 512"
  shows "rd64 (memset m d 0 4096) (GET_ENTRY d i) = 0"
proof (rule rd64_memset_inside)
  have i: "unat i < 512" using assms(2) by (simp add: word_less_nat_alt)
  then have "unat (8 * i) = 8 * unat i" by (simp add: unat_word_ariths)
  moreover have "GET_ENTRY d i - d = 8 * i" by (simp add: GET_ENTRY_def)
  ultimately show "GET_ENTRY d i - d < 4096" "8 dvd unat (GET_ENTRY d i - d)"
    using i by (simp_all add: word_less_nat_alt)
qed simp

section \<open>Paths through the tables\<close>

text \<open>
  A path is a list of indices from the root.  \<open>walk\<close> follows the entries that point to
  tables, \<open>resolve\<close> goes on to the entry that maps a page and the number of levels left below
  it, \<open>visited\<close> is the set of entries read on the way.
\<close>

definition descends :: "u64 \<Rightarrow> bool" where
  "descends e \<longleftrightarrow> IS_PRESENT e \<and> fget dir_PS e = 0"

abbreviation next_table :: "vmm \<Rightarrow> u64 \<Rightarrow> u64" where
  "next_table s e \<equiv> get_pdpp s e PAGE_SIZE_DIR"

fun walk :: "vmm \<Rightarrow> u64 \<Rightarrow> u64 list \<Rightarrow> u64 option" where
  "walk s t [] = Some t"
| "walk s t (i # r) = (let e = entry_at s (GET_ENTRY t i) in if descends e then walk s (next_table s e) r else None)"

fun resolve :: "vmm \<Rightarrow> u64 \<Rightarrow> u64 list \<Rightarrow> (u64 \<times> nat) option" where
  "resolve s t [] = None"
| "resolve s t (i # r) =
     (let e = entry_at s (GET_ENTRY t i) in
      if \<not> IS_PRESENT e then None
      else if r = [] \<or> fget dir_PS e \<noteq> 0 then Some (e, length r)
      else resolve s (next_table s e) r)"

fun visited :: "vmm \<Rightarrow> u64 \<Rightarrow> u64 list \<Rightarrow> u64 set" where
  "visited s t [] = {}"
| "visited s t (i # r) =
     (let e = entry_at s (GET_ENTRY t i) in
      insert (GET_ENTRY t i) (if descends e then visited s (next_table s e) r else {}))"

lemma next_table_eq: "next_table s e = push_bit 12 (fget dir_PDPP e) + physical_memory_offset s"
  by (simp add: get_pdpp_def PAGE_SIZE_DIR_def PAGE_SIZE_1GIB_def PAGE_SIZE_2MIB_def PAGE_SIZE_4KIB_def
      GET_PDPP_DIR_def to_identity_map_def)

lemma aligned_add: "aligned_page a \<Longrightarrow> aligned_page b \<Longrightarrow> aligned_page (a + b)"
  unfolding aligned_page_def unat_word_ariths by (intro dvd_mod dvd_add) (simp_all add: dvd_def)

lemma aligned_push_bit: "aligned_page (push_bit 12 x)"
proof -
  have "unat (push_bit 12 x) = (unat x * 4096) mod 2 ^ 64"
    by (simp add: push_bit_eq_mult unat_word_ariths)
  then show ?thesis unfolding aligned_page_def by (simp only:) (intro dvd_mod; simp add: dvd_def)
qed

lemma aligned_next: "aligned_page (physical_memory_offset s) \<Longrightarrow> aligned_page (next_table s e)"
  unfolding next_table_eq by (intro aligned_add aligned_push_bit)

lemma aligned_walk: "aligned_page (physical_memory_offset s) \<Longrightarrow> aligned_page t \<Longrightarrow> walk s t p = Some t' \<Longrightarrow> aligned_page t'"
  by (induction s t p rule: walk.induct) (auto simp: Let_def aligned_next split: if_splits)

lemma walk_append: "walk s t (p @ q) = Option.bind (walk s t p) (\<lambda>t'. walk s t' q)"
  by (induction s t p rule: walk.induct) (auto simp: Let_def)

lemma resolve_append: "walk s t p = Some t' \<Longrightarrow> q \<noteq> [] \<Longrightarrow> resolve s t (p @ q) = resolve s t' q"
  by (induction s t p rule: walk.induct) (auto simp: Let_def descends_def split: if_splits)

lemma visited_tables: "a \<in> visited s t q \<Longrightarrow> \<exists>p i r t'. q = p @ i # r \<and> walk s t p = Some t' \<and> a = GET_ENTRY t' i"
proof (induction s t q rule: visited.induct)
  case (2 s t i r)
  let ?e = "entry_at s (GET_ENTRY t i)"
  show ?case
  proof (cases "a = GET_ENTRY t i")
    case True
    then show ?thesis by (intro exI [of _ "[]"]) simp
  next
    case False
    with 2 have d: "descends ?e" "a \<in> visited s (next_table s ?e) r" by (auto simp: Let_def split: if_splits)
    with 2(1) obtain p j r' t' where "r = p @ j # r'" "walk s (next_table s ?e) p = Some t'" "a = GET_ENTRY t' j"
      by blast
    with d(1) show ?thesis by (intro exI [of _ "i # p"]) (auto simp: Let_def)
  qed
qed simp

lemma same_on_visited:
  assumes "physical_memory_offset s' = physical_memory_offset s"
    and "\<And>a. a \<in> visited s t q \<Longrightarrow> entry_at s' a = entry_at s a"
  shows "walk s' t q = walk s t q \<and> resolve s' t q = resolve s t q"
  using assms(2)
proof (induction q arbitrary: t)
  case (Cons i r)
  let ?e = "entry_at s (GET_ENTRY t i)"
  have e: "entry_at s' (GET_ENTRY t i) = ?e" using Cons.prems by (simp add: Let_def)
  have n: "next_table s' ?e = next_table s ?e" by (simp add: next_table_eq assms(1))
  have "descends ?e \<Longrightarrow> walk s' (next_table s ?e) r = walk s (next_table s ?e) r \<and>
      resolve s' (next_table s ?e) r = resolve s (next_table s ?e) r"
    by (rule Cons.IH) (use Cons.prems in \<open>simp add: Let_def\<close>)
  then show ?case by (auto simp: Let_def e n descends_def)
qed simp

section \<open>The invariant of a page directory\<close>

definition path_ok :: "nat \<Rightarrow> u64 list \<Rightarrow> bool" where
  "path_ok n p \<longleftrightarrow> length p \<le> n \<and> (\<forall>i \<in> set p. i < 512)"

definition frame_used :: "vmm \<Rightarrow> u64 \<Rightarrow> bool" where
  "frame_used s p \<longleftrightarrow> bf_block (pmm_bf (ac_pmm s)) p PAGE_SIZE \<subseteq> bf_used (pmm_bf (ac_pmm s))"

text \<open>Physical pages are aligned and lie below the 40 bits an entry can hold.\<close>

definition frames_ok :: "pmm \<Rightarrow> bool" where
  "frames_ok pm \<longleftrightarrow> pmm_ready pm \<and> bf_inv (pmm_bf pm) \<and> bf_page_size (pmm_bf pm) = 4096 \<and>
     aligned_page (bf_available_address (pmm_bf pm)) \<and>
     unat (bf_available_address (pmm_bf pm)) + bf_limit (pmm_bf pm) * 4096 \<le> 2 ^ 40"

definition pt_tree :: "vmm \<Rightarrow> u64 \<Rightarrow> bool" where
  "pt_tree s root \<longleftrightarrow> aligned_page root \<and> aligned_page (physical_memory_offset s) \<and>
     (\<forall>p q t. path_ok 3 p \<longrightarrow> path_ok 3 q \<longrightarrow> walk s root p = Some t \<longrightarrow> walk s root q = Some t \<longrightarrow> p = q)"

definition pt_inv :: "vmm \<Rightarrow> u64 \<Rightarrow> bool" where
  "pt_inv s root \<longleftrightarrow> pt_tree s root \<and> frames_ok (ac_pmm s) \<and>
     (\<forall>i < 512. IS_PRESENT (entry_at s (GET_ENTRY root i)) \<longrightarrow> fget dir_PS (entry_at s (GET_ENTRY root i)) = 0) \<and>
     (\<forall>p t. path_ok 3 p \<longrightarrow> walk s root p = Some t \<longrightarrow> frame_used s (t - physical_memory_offset s))"

lemma unaffected:
  assumes tree: "pt_tree s root" and off: "physical_memory_offset s' = physical_memory_offset s"
    and frame: "\<And>q t' j. path_ok 3 q \<Longrightarrow> walk s root q = Some t' \<Longrightarrow> j < 512 \<Longrightarrow> (q, j) \<noteq> (p, i) \<Longrightarrow>
        entry_at s' (GET_ENTRY t' j) = entry_at s (GET_ENTRY t' j)"
    and q: "path_ok 4 q" "\<not> prefix (p @ [i]) q"
  shows "walk s' root q = walk s root q \<and> resolve s' root q = resolve s root q"
proof (rule same_on_visited [OF off])
  fix a
  assume "a \<in> visited s root q"
  from visited_tables [OF this] obtain p' j r t' where
    a: "q = p' @ j # r" "walk s root p' = Some t'" "a = GET_ENTRY t' j" by blast
  from q(1) a(1) have "path_ok 3 p'" "j < 512" by (auto simp: path_ok_def)
  moreover have "(p', j) \<noteq> (p, i)" using q(2) a(1) by auto
  ultimately show "entry_at s' a = entry_at s a" using frame a(2,3) by blast
qed

section \<open>A new page\<close>

definition out_of_memory :: "fault \<Rightarrow> bool" where
  "out_of_memory e \<longleftrightarrow> e = Panic ''Size is bigger than the available size'' \<or> e = Panic ''No available pages''"

lemma page_consts [simp]: "PAGE_SIZE_4KIB = 4096" "PAGE_SIZE = 4096"
  by (simp_all add: PAGE_SIZE_4KIB_def PAGE_SIZE_def)

lemma allocate_page_ok:
  assumes ok: "frames_ok pm" and al: "allocate (pmm_bf pm) PAGE_SIZE = Inr (p, bf')"
  shows "unat p < 2 ^ 40" "aligned_page p" "p \<noteq> 0" "frames_ok (pm\<lparr>pmm_bf := bf'\<rparr>)"
proof -
  let ?bf = "pmm_bf pm"
  from ok have inv: "bf_inv ?bf" and pg: "bf_page ?bf = 4096" and av: "aligned_page (bf_available_address ?bf)"
    and lim: "unat (bf_available_address ?bf) + bf_limit ?bf * 4096 \<le> 2 ^ 40" by (auto simp: frames_ok_def)
  from allocate_Inr [OF al] obtain i where i: "PAGE_SIZE \<le> bf_available_size ?bf"
      "i = get_free_index ?bf (alloc_pages ?bf PAGE_SIZE)" "i \<noteq> 0" "p = bf_available_address ?bf + i * bf_page ?bf"
    and bf': "bf' = (lock_index ?bf i (alloc_pages ?bf PAGE_SIZE))
       \<lparr>bf_next_index := if i = bf_next_index ?bf then i + alloc_pages ?bf PAGE_SIZE else bf_next_index ?bf,
        bf_lock := (bf_lock ?bf)\<lparr>mx_lock := False\<rparr>\<rparr>" by metis
  have l: "unat i < bf_limit ?bf" by (rule alloc_index_bound(1) [OF inv i(1,2,3)])
  have m: "unat i * 4096 < bf_limit ?bf * 4096" using l by simp
  then have u: "unat (i * 4096) = unat i * 4096" using lim by (simp add: unat_word_ariths)
  then have p: "unat p = unat (bf_available_address ?bf) + unat i * 4096"
    unfolding i(4) pg using m lim by (subst unat_add_no_wrap) simp_all
  from p m lim show "unat p < 2 ^ 40" by linarith
  from p av show "aligned_page p" by (simp add: aligned_page_def)
  have "unat i \<noteq> 0" using i(3) by (simp add: unat_eq_zero)
  with p show "p \<noteq> 0" by (metis add_is_0 mult_is_0 unat_0 zero_neq_numeral)
  have "bf_limit bf' = bf_limit ?bf" by (simp add: bf' bf_limit_def)
  then show "frames_ok (pm\<lparr>pmm_bf := bf'\<rparr>)"
    using ok allocate_ok [OF inv al] by (simp add: frames_ok_def bf')
qed

lemma allocate_error:
  assumes "bf_inv bf" and "allocate bf sz = Inl e"
  shows "out_of_memory e"
  using assms by (auto simp: allocate_def Let_def mutex_lock_def bf_inv_def out_of_memory_def split: if_splits)

lemma allocate_phys_page_ok:
  assumes "frames_ok (ac_pmm s)" and "allocate_phys_page s = Inr (p, s1)"
  shows "unat p < 2 ^ 40" "aligned_page p" "frames_ok (ac_pmm s1)"
    "s1 = s\<lparr>ac_pmm := ac_pmm s1, vm_mem := memset (vm_mem s) (p + physical_memory_offset s) 0 4096\<rparr>"
    "\<not> frame_used s p" "frame_used s1 p" "\<And>q. frame_used s q \<Longrightarrow> frame_used s1 q"
proof -
  let ?bf = "pmm_bf (ac_pmm s)"
  from assms have r: "pmm_ready (ac_pmm s)" and inv: "bf_inv ?bf" by (auto simp: frames_ok_def)
  have "\<exists>bf'. allocate ?bf PAGE_SIZE = Inr (p, bf') \<and> (p = 0 \<or> s1 = s\<lparr>ac_pmm := (ac_pmm s)\<lparr>pmm_bf := bf'\<rparr>,
      vm_mem := memset (vm_mem s) (p + physical_memory_offset s) 0 4096\<rparr>)"
    using assms(2) r by (auto simp: allocate_phys_page_def pmm_alloc_page_def res_bind_Inr_iff to_identity_map_def Let_def
        split: if_splits)
  then obtain bf' where al: "allocate ?bf PAGE_SIZE = Inr (p, bf')"
    and s1: "p = 0 \<or> s1 = s\<lparr>ac_pmm := (ac_pmm s)\<lparr>pmm_bf := bf'\<rparr>, vm_mem := memset (vm_mem s) (p + physical_memory_offset s) 0 4096\<rparr>"
    by blast
  note a = allocate_page_ok [OF assms(1) al]
  with s1 have s1: "s1 = s\<lparr>ac_pmm := (ac_pmm s)\<lparr>pmm_bf := bf'\<rparr>, vm_mem := memset (vm_mem s) (p + physical_memory_offset s) 0 4096\<rparr>"
    by blast
  show "unat p < 2 ^ 40" "aligned_page p" by (rule a(1,2))+
  show "frames_ok (ac_pmm s1)" using a(4) by (simp add: s1)
  show "s1 = s\<lparr>ac_pmm := ac_pmm s1, vm_mem := memset (vm_mem s) (p + physical_memory_offset s) 0 4096\<rparr>" by (simp add: s1)
  note ok = allocate_ok [OF inv al]
  then show "\<not> frame_used s p" by (auto simp: frame_used_def)
  from ok show "frame_used s1 p" by (auto simp: frame_used_def s1)
  from ok show "frame_used s1 q" if "frame_used s q" for q using that by (auto simp: frame_used_def s1)
qed

lemma allocate_phys_page_error:
  assumes "frames_ok (ac_pmm s)" and "allocate_phys_page s = Inl e"
  shows "out_of_memory e"
  using assms by (auto simp: allocate_phys_page_def pmm_alloc_page_def frames_ok_def res_bind_def Let_def
      split: sum.splits if_splits intro: allocate_error)

section \<open>Writing entries\<close>

lemma aligned_low_bits: "aligned_page p \<Longrightarrow> n < 12 \<Longrightarrow> \<not> bit p n"
proof -
  assume "aligned_page p" and n: "n < 12"
  then have "unat (take_bit 12 p) = 0"
    by (simp add: take_bit_eq_mod unat_mod aligned_page_def)
  then have "take_bit 12 p = 0" by (simp add: unat_eq_zero)
  then show ?thesis using n by (metis bit_0_eq bit_take_bit_iff bot_apply bot_bool_def)
qed

lemma bounded_high_bits: "unat p < 2 ^ k \<Longrightarrow> k \<le> n \<Longrightarrow> \<not> bit (p :: u64) n"
proof -
  assume "unat p < 2 ^ k" and n: "k \<le> n"
  then have "unat (take_bit k p) = unat p"
    by (simp add: unsigned_take_bit_eq take_bit_nat_eq_self)
  then have "take_bit k p = p" by (simp add: word_unat_eq_iff)
  then show ?thesis using n by (metis bit_take_bit_iff not_le)
qed

lemma frame_field:
  assumes "aligned_page p" and "unat p < 2 ^ 40"
  shows "push_bit 12 (drop_bit 12 p AND mask 28) = p"
proof (rule bit_word_eqI)
  fix n :: nat
  assume "n < LENGTH(64)"
  moreover have "bit p n \<Longrightarrow> 12 \<le> n \<and> n < 40"
    using aligned_low_bits [OF assms(1), of n] bounded_high_bits [OF assms(2), of n] by force
  ultimately show "bit (push_bit 12 (drop_bit 12 p AND mask 28)) n = bit p n" by (auto simp: bit_simps)
qed

lemmas field_simps = fget_fset_same fget_fset_apart field_ok_def field_apart_def field_defs

lemma init_value_fields:
  "fget dir_P (init_value perms e) = 1" "fget dir_PS (init_value perms e) = 0"
  "fget dir_RW (init_value perms e) = of_bool (read_write perms)"
  "fget dir_US (init_value perms e) = of_bool (user perms)"
  "fget dir_XD (init_value perms e) = of_bool (no_execute perms)"
  by (simp_all add: init_value_def Let_def field_simps)

lemma init_entry_dir:
  "init_entry a PAGE_SIZE_DIR page perms s =
     Inr (set_entry a (fset dir_PDPP (drop_bit 12 page) (init_value perms (entry_at s a))) s)"
  by (simp add: init_entry_def PAGE_SIZE_DIR_def PAGE_SIZE_1GIB_def PAGE_SIZE_2MIB_def Let_def)

lemma init_entry_4k:
  assumes "aligned_page page"
  shows "init_entry a PAGE_SIZE_4KIB page perms s =
     Inr (set_entry a (fset regular_PDPP (drop_bit 12 page) (init_value perms (entry_at s a))) s)"
proof -
  have "page AND 0xfff = 0"
  proof (rule bit_word_eqI)
    fix n :: nat
    assume "n < LENGTH(64)"
    have m: "(0xfff :: u64) = mask 12" by (simp add: mask_eq_exp_minus_1)
    show "bit (page AND 0xfff) n = bit (0 :: u64) n"
      unfolding m using aligned_low_bits [OF assms, of n] by (auto simp: bit_simps)
  qed
  then show ?thesis by (simp add: init_entry_def PAGE_SIZE_1GIB_def PAGE_SIZE_2MIB_def Let_def)
qed

lemma set_entry_simps [simp]:
  "physical_memory_offset (set_entry a v s) = physical_memory_offset s"
  "ac_pmm (set_entry a v s) = ac_pmm s"
  "vmm_dir_list (set_entry a v s) = vmm_dir_list s"
  "entry_at (set_entry a v s) a = v"
  by (simp_all add: set_entry_def)

lemma set_entry_other:
  "aligned_page t \<Longrightarrow> aligned_page t' \<Longrightarrow> i < 512 \<Longrightarrow> j < 512 \<Longrightarrow> (t, i) \<noteq> (t', j) \<Longrightarrow>
   entry_at (set_entry (GET_ENTRY t i) v s) (GET_ENTRY t' j) = entry_at s (GET_ENTRY t' j)"
  using entry_inj [of t t' i j] by (auto simp: set_entry_def intro!: rd64_wr64_other aligned_entry)

end
