(* ===== verification/Paging_Map.thy ===== *)
theory Paging_Map
  imports Paging_Walk
begin

text \<open>
  Mapping and unmapping pages of 4 KiB: adding a table keeps every translation, writing the last
  entry changes one page, and the operations keep the invariant of the directory.
\<close>

section \<open>Adding a table\<close>

lemma init_dir_error: "frames_ok (ac_pmm s) \<Longrightarrow> init_dir a s = Inl e \<Longrightarrow> out_of_memory e"
  by (auto simp: init_dir_def res_bind_def init_entry_dir split: sum.splits intro: allocate_phys_page_error)

lemma pt_treeD:
  "pt_tree s root \<Longrightarrow> path_ok 3 p \<Longrightarrow> path_ok 3 q \<Longrightarrow> walk s root p = Some t \<Longrightarrow> walk s root q = Some t \<Longrightarrow> p = q"
  unfolding pt_tree_def by blast

lemma walk_blocked:
  assumes "walk s root p = Some t" and "\<not> IS_PRESENT (entry_at s (GET_ENTRY t i))"
  shows "walk s root (p @ i # r) = None" and "resolve s root (p @ i # r) = None"
proof -
  show "walk s root (p @ i # r) = None" using assms by (simp add: walk_append Let_def descends_def)
  have "resolve s root (p @ i # r) = resolve s t (i # r)" by (rule resolve_append [OF assms(1)]) simp
  then show "resolve s root (p @ i # r) = None" using assms(2) by (simp add: Let_def)
qed

text \<open>
  A graft: the entry \<open>i\<close> of the table at \<open>p\<close>, so far not present, points to an empty table \<open>t2\<close>, and
  every other entry of the directory is unchanged.
\<close>

definition grafted :: "vmm \<Rightarrow> vmm \<Rightarrow> u64 \<Rightarrow> u64 list \<Rightarrow> u64 \<Rightarrow> u64 \<Rightarrow> u64 \<Rightarrow> bool" where
  "grafted s s' root p t i t2 \<longleftrightarrow>
     pt_tree s root \<and> path_ok 2 p \<and> walk s root p = Some t \<and> i < 512 \<and> \<not> IS_PRESENT (entry_at s (GET_ENTRY t i)) \<and>
     physical_memory_offset s' = physical_memory_offset s \<and>
     descends (entry_at s' (GET_ENTRY t i)) \<and> next_table s' (entry_at s' (GET_ENTRY t i)) = t2 \<and>
     (\<forall>j < 512. entry_at s' (GET_ENTRY t2 j) = 0) \<and>
     (\<forall>q t' j. path_ok 3 q \<longrightarrow> walk s root q = Some t' \<longrightarrow> j < 512 \<longrightarrow> (q, j) \<noteq> (p, i) \<longrightarrow>
        entry_at s' (GET_ENTRY t' j) = entry_at s (GET_ENTRY t' j))"

lemma graft_elsewhere:
  assumes g: "grafted s s' root p t i t2" and q: "path_ok 4 q" "\<not> prefix (p @ [i]) q"
  shows "walk s' root q = walk s root q \<and> resolve s' root q = resolve s root q"
proof (rule unaffected [OF _ _ _ q])
  show "pt_tree s root" "physical_memory_offset s' = physical_memory_offset s" using g by (auto simp: grafted_def)
  show "entry_at s' (GET_ENTRY t' j) = entry_at s (GET_ENTRY t' j)"
    if "path_ok 3 q" "walk s root q = Some t'" "j < 512" "(q, j) \<noteq> (p, i)" for q t' j
    using g that unfolding grafted_def by blast
qed

lemma graft_inside:
  assumes g: "grafted s s' root p t i t2"
  shows "walk s' root p = Some t" and "walk s' root (p @ [i]) = Some t2"
    and "j < 512 \<Longrightarrow> walk s' root (p @ i # j # r) = None \<and> resolve s' root (p @ i # j # r) = None"
    and "walk s root (p @ i # r) = None" and "resolve s root (p @ i # r) = None"
proof -
  from g have p: "path_ok 4 p" "walk s root p = Some t" and np: "\<not> IS_PRESENT (entry_at s (GET_ENTRY t i))"
    and d: "descends (entry_at s' (GET_ENTRY t i))" "next_table s' (entry_at s' (GET_ENTRY t i)) = t2"
    by (auto simp: grafted_def path_ok_def)
  show w: "walk s' root p = Some t" using graft_elsewhere [OF g p(1)] p(2) by simp
  show w2: "walk s' root (p @ [i]) = Some t2" using w d by (simp add: walk_append Let_def)
  show "walk s' root (p @ i # j # r) = None \<and> resolve s' root (p @ i # j # r) = None" if "j < 512"
    using walk_blocked [OF w2, of j r] g that by (auto simp: grafted_def)
  show "walk s root (p @ i # r) = None" "resolve s root (p @ i # r) = None" by (rule walk_blocked [OF p(2) np])+
qed

lemma graft_walk:
  assumes g: "grafted s s' root p t i t2" and q: "path_ok 4 q"
  shows "walk s' root q = (if q = p @ [i] then Some t2 else walk s root q)"
proof (cases "prefix (p @ [i]) q")
  case True
  then obtain r where "q = p @ i # r" by (auto simp: prefix_def)
  with q graft_inside [OF g] show ?thesis by (cases r) (auto simp: path_ok_def)
qed (use graft_elsewhere [OF g q] in auto)

lemma graft_resolve:
  assumes g: "grafted s s' root p t i t2" and q: "path_ok 4 q" "length q = 4"
  shows "resolve s' root q = resolve s root q"
proof (cases "prefix (p @ [i]) q")
  case True
  then obtain r where r: "q = p @ i # r" by (auto simp: prefix_def)
  moreover have "length p \<le> 2" using g by (simp add: grafted_def path_ok_def)
  ultimately obtain j r' where "r = j # r'" "j < 512" using q by (cases r) (auto simp: path_ok_def)
  with r graft_inside [OF g] show ?thesis by simp
qed (use graft_elsewhere [OF g q(1)] in auto)

lemma graft_tree:
  assumes g: "grafted s s' root p t i t2" and fresh: "\<And>q. path_ok 3 q \<Longrightarrow> walk s root q \<noteq> Some t2"
  shows "pt_tree s' root"
proof -
  from g have tree: "pt_tree s root" and off: "physical_memory_offset s' = physical_memory_offset s"
    by (auto simp: grafted_def)
  have w: "walk s' root q = (if q = p @ [i] then Some t2 else walk s root q)" if "path_ok 3 q" for q
    using graft_walk [OF g, of q] that by (simp add: path_ok_def)
  have "q1 = q2" if q: "path_ok 3 q1" "path_ok 3 q2" "walk s' root q1 = Some t'" "walk s' root q2 = Some t'" for q1 q2 t'
  proof (cases "q1 = p @ [i] \<or> q2 = p @ [i]")
    case True
    with q w [OF q(1)] w [OF q(2)] fresh [OF q(1)] fresh [OF q(2)] show ?thesis by (auto split: if_splits)
  next
    case False
    with q w [OF q(1)] w [OF q(2)] show ?thesis by (intro pt_treeD [OF tree q(1,2)]) simp_all
  qed
  with tree show ?thesis unfolding pt_tree_def off by blast
qed

lemma init_dir_grafts:
  assumes inv: "pt_inv s root" and p: "path_ok 2 p" "walk s root p = Some t" and i: "i < 512"
    and np: "\<not> IS_PRESENT (entry_at s (GET_ENTRY t i))" and r: "init_dir (GET_ENTRY t i) s = Inr s'"
  obtains t2 where "grafted s s' root p t i t2" and "frames_ok (ac_pmm s')"
    and "\<not> frame_used s (t2 - physical_memory_offset s)" and "frame_used s' (t2 - physical_memory_offset s)"
    and "\<And>q. frame_used s q \<Longrightarrow> frame_used s' q"
proof -
  let ?a = "GET_ENTRY t i" and ?off = "physical_memory_offset s"
  from inv have tree: "pt_tree s root" and fr: "frames_ok (ac_pmm s)" by (auto simp: pt_inv_def)
  from tree have al: "aligned_page root" "aligned_page ?off" by (auto simp: pt_tree_def)
  obtain page s1 where ap: "allocate_phys_page s = Inr (page, s1)"
    and s': "s' = set_entry ?a (fset dir_PDPP (drop_bit 12 page) (init_value table_perms (entry_at s1 ?a))) s1"
    using r by (auto simp: init_dir_def res_bind_Inr_iff init_entry_dir)
  note a = allocate_phys_page_ok [OF fr ap]
  let ?t2 = "page + ?off"
  have off: "physical_memory_offset s1 = ?off" and mem: "vm_mem s1 = memset (vm_mem s) ?t2 0 4096"
    by (subst a(4), simp)+
  have alt2: "aligned_page ?t2" by (intro aligned_add a(2) al(2))
  have alw: "aligned_page t'" if "walk s root q = Some t'" for q t' by (rule aligned_walk [OF al(2,1) that])
  have fresh: "t' \<noteq> ?t2" if "path_ok 3 q" "walk s root q = Some t'" for q t'
    using inv that a(5) by (auto simp: pt_inv_def)
  have p3: "path_ok 3 p" using p(1) by (simp add: path_ok_def)
  have frame: "entry_at s' (GET_ENTRY t' j) = entry_at s (GET_ENTRY t' j)"
    if "path_ok 3 q" "walk s root q = Some t'" "j < 512" "(q, j) \<noteq> (p, i)" for q t' j
  proof -
    have "(t, i) \<noteq> (t', j)" using tree that p(2) p3 by (auto simp: pt_tree_def)
    then have "entry_at s' (GET_ENTRY t' j) = entry_at s1 (GET_ENTRY t' j)"
      unfolding s' using alw [OF p(2)] alw [OF that(2)] i that(3) by (intro set_entry_other)
    also have "\<dots> = entry_at s (GET_ENTRY t' j)"
      unfolding mem using page_apart [OF alw [OF that(2)] alt2 fresh [OF that(1,2)] that(3)] by (rule rd64_memset_other)
    finally show ?thesis .
  qed
  let ?e = "entry_at s' ?a"
  have e: "?e = fset dir_PDPP (drop_bit 12 page) (init_value table_perms (entry_at s1 ?a))" by (simp add: s')
  have "fget dir_P ?e = 1" "fget dir_PS ?e = 0" "fget dir_PDPP ?e = drop_bit 12 page AND mask 28"
    unfolding e using init_value_fields(1,2) [of table_perms "entry_at s1 ?a"] by (simp_all add: field_simps)
  then have "descends ?e" "next_table s' ?e = ?t2"
    using frame_field [OF a(2,1)] by (simp_all add: descends_def IS_PRESENT_def next_table_eq s' off)
  moreover have "entry_at s' (GET_ENTRY ?t2 j) = 0" if "j < 512" for j
  proof -
    have "entry_at s' (GET_ENTRY ?t2 j) = entry_at s1 (GET_ENTRY ?t2 j)"
      unfolding s' using fresh [OF p3 p(2)] alw [OF p(2)] alt2 i that by (intro set_entry_other) auto
    then show ?thesis using zeroed_entry [OF alt2 that] by (simp add: mem)
  qed
  ultimately have "grafted s s' root p t i ?t2"
    unfolding grafted_def using tree p i np frame by (simp add: s' off)
  then show thesis
  proof (rule that)
    show "frames_ok (ac_pmm s')" using a(3) by (simp add: s')
    show "\<not> frame_used s (?t2 - ?off)" "frame_used s' (?t2 - ?off)" using a(5,6) by (simp_all add: frame_used_def s')
    show "frame_used s' q" if "frame_used s q" for q using a(7) [OF that] by (simp add: frame_used_def s')
  qed
qed

lemma init_dir_step:
  assumes inv: "pt_inv s root" and p: "path_ok 2 p" "walk s root p = Some t" and i: "i < 512"
    and np: "\<not> IS_PRESENT (entry_at s (GET_ENTRY t i))" and r: "init_dir (GET_ENTRY t i) s = Inr s'"
  shows "pt_inv s' root \<and> walk s' root p = Some t \<and> descends (entry_at s' (GET_ENTRY t i)) \<and>
     (\<forall>q. path_ok 4 q \<longrightarrow> length q = 4 \<longrightarrow> resolve s' root q = resolve s root q)"
proof -
  obtain t2 where g: "grafted s s' root p t i t2" and fr: "frames_ok (ac_pmm s')"
    and n: "\<not> frame_used s (t2 - physical_memory_offset s)" "frame_used s' (t2 - physical_memory_offset s)"
    and u: "\<And>q. frame_used s q \<Longrightarrow> frame_used s' q" by (rule init_dir_grafts [OF assms]) blast
  have off: "physical_memory_offset s' = physical_memory_offset s" and d: "descends (entry_at s' (GET_ENTRY t i))"
    using g by (auto simp: grafted_def)
  have "pt_tree s' root" by (rule graft_tree [OF g]) (use inv n in \<open>auto simp: pt_inv_def\<close>)
  moreover have "frame_used s' (t' - physical_memory_offset s')" if q: "path_ok 3 q" "walk s' root q = Some t'" for q t'
  proof -
    have "path_ok 4 q" using q(1) by (simp add: path_ok_def)
    with graft_walk [OF g this] q inv n(2) u show ?thesis by (auto simp: pt_inv_def off split: if_splits)
  qed
  moreover have "IS_PRESENT (entry_at s' (GET_ENTRY root j)) \<longrightarrow> fget dir_PS (entry_at s' (GET_ENTRY root j)) = 0"
    if "j < 512" for j
  proof (cases "([], j) = (p, i)")
    case True
    with p(2) d show ?thesis by (auto simp: descends_def)
  next
    case False
    with g have "entry_at s' (GET_ENTRY root j) = entry_at s (GET_ENTRY root j)"
      unfolding grafted_def using that by (metis le0 list.size(3) empty_iff list.set(1) path_ok_def walk.simps(1))
    with that inv show ?thesis by (simp add: pt_inv_def)
  qed
  ultimately show ?thesis
    unfolding pt_inv_def using fr graft_inside(1) [OF g] d graft_resolve [OF g] by blast
qed

text \<open>What \<open>map_address\<close> does at each level above the last: use the table that is there, or add one.\<close>

definition same_resolve :: "vmm \<Rightarrow> vmm \<Rightarrow> u64 \<Rightarrow> bool" where
  "same_resolve s s' root \<longleftrightarrow> (\<forall>q. path_ok 4 q \<longrightarrow> length q = 4 \<longrightarrow> resolve s' root q = resolve s root q)"

lemma ensure_step:
  assumes inv: "pt_inv s root" and p: "path_ok 2 p" "walk s root p = Some t" and i: "i < 512"
    and ps: "IS_PRESENT (entry_at s (GET_ENTRY t i)) \<Longrightarrow> fget dir_PS (entry_at s (GET_ENTRY t i)) = 0"
  shows "case (if \<not> IS_PRESENT (entry_at s (GET_ENTRY t i)) then init_dir (GET_ENTRY t i) s else Inr s) of
      Inl e \<Rightarrow> out_of_memory e
    | Inr s' \<Rightarrow> pt_inv s' root \<and> same_resolve s s' root \<and>
        walk s' root (p @ [i]) = Some (next_table s' (entry_at s' (GET_ENTRY t i)))"
proof (cases "IS_PRESENT (entry_at s (GET_ENTRY t i))")
  case True
  with inv p ps show ?thesis by (simp add: same_resolve_def walk_append Let_def descends_def)
next
  case False
  show ?thesis
  proof (cases "init_dir (GET_ENTRY t i) s")
    case (Inl e)
    with False inv init_dir_error show ?thesis by (auto simp: pt_inv_def)
  next
    case (Inr s')
    from init_dir_step [OF inv p i False Inr] False Inr show ?thesis
      by (simp add: same_resolve_def walk_append Let_def)
  qed
qed

section \<open>Writing the last entry\<close>

lemma leaf_step:
  assumes inv: "pt_inv s root" and p: "path_ok 3 p" "length p = 3" "walk s root p = Some t" and i: "i < 512"
    and s': "s' = set_entry (GET_ENTRY t i) e' s"
  shows "pt_inv s' root" and "path_ok 4 q \<Longrightarrow> length q = 4 \<Longrightarrow> resolve s' root q =
     (if q = p @ [i] then if IS_PRESENT e' then Some (e', 0) else None else resolve s root q)"
proof -
  from inv have tree: "pt_tree s root" by (simp add: pt_inv_def)
  then have al: "aligned_page root" "aligned_page (physical_memory_offset s)" by (auto simp: pt_tree_def)
  have frame: "entry_at s' (GET_ENTRY t' j) = entry_at s (GET_ENTRY t' j)"
    if "path_ok 3 q" "walk s root q = Some t'" "j < 512" "(q, j) \<noteq> (p, i)" for q t' j
  proof -
    have "(t, i) \<noteq> (t', j)" using pt_treeD [OF tree p(1) that(1) p(3)] that by auto
    then show ?thesis unfolding s'
      using aligned_walk [OF al(2,1) p(3)] aligned_walk [OF al(2,1) that(2)] i that(3) by (intro set_entry_other)
  qed
  have un: "walk s' root q = walk s root q \<and> resolve s' root q = resolve s root q"
    if "path_ok 4 q" "\<not> prefix (p @ [i]) q" for q
    by (rule unaffected [OF tree _ _ that]) (simp add: s', rule frame)
  have w: "walk s' root q = walk s root q" if "path_ok 3 q" for q
    using un [of q] that p(2) prefix_length_le [of "p @ [i]" q] by (auto simp: path_ok_def)
  have t: "pt_tree s' root"
    unfolding pt_tree_def using al w pt_treeD [OF tree] by (auto simp: s')
  have "entry_at s' (GET_ENTRY root j) = entry_at s (GET_ENTRY root j)" if "j < 512" for j
    by (rule frame [of "[]" root j]) (use that p(2) in \<open>auto simp: path_ok_def\<close>)
  moreover have "frame_used s' x = frame_used s x" for x by (simp add: s' frame_used_def)
  ultimately show "pt_inv s' root" using inv t w by (simp add: pt_inv_def s')
  show "resolve s' root q = (if q = p @ [i] then if IS_PRESENT e' then Some (e', 0) else None else resolve s root q)"
    if q: "path_ok 4 q" "length q = 4" for q
  proof (cases "q = p @ [i]")
    case True
    have "walk s' root p = Some t" using w [OF p(1)] p(3) by simp
    from resolve_append [OF this, of "[i]"] True show ?thesis by (simp add: s')
  next
    case False
    then have "\<not> prefix (p @ [i]) q" using q(2) p(2) by (auto simp: prefix_def)
    with un [OF q(1)] False show ?thesis by simp
  qed
qed

section \<open>Translation\<close>

definition va_path :: "u64 \<Rightarrow> u64 list" where
  "va_path va = [PML4_index (address_to_map va), PDP_index (address_to_map va), PD_index (address_to_map va),
     PT_index (address_to_map va)]"

fun phys_of :: "u64 \<Rightarrow> u64 \<times> nat \<Rightarrow> u64" where
  "phys_of va (e, k) =
     (if k = 0 then push_bit 12 (fget regular_PDPP e) OR (va AND 0xfff)
      else if k = 1 then push_bit 21 (fget big_PDPP e) OR (va AND 0x1fffff)
      else push_bit 30 (fget huge_PDPP e) OR (va AND 0x3fffffff))"

definition translate :: "vmm \<Rightarrow> u64 \<Rightarrow> u64 \<Rightarrow> u64 option" where
  "translate s root va = map_option (phys_of va) (resolve s root (va_path va))"

lemma table_index_bound: "x AND 0x1ff < (512 :: u64)"
proof -
  have "unat (x AND mask 9) < 2 ^ 9" by (simp only: unat_and_mask) simp
  moreover have "(0x1ff :: u64) = mask 9" by (simp add: mask_eq_exp_minus_1)
  ultimately show ?thesis by (simp add: word_less_nat_alt)
qed

lemma va_index_bounds [simp]:
  "PML4_index (address_to_map va) < 512" "PDP_index (address_to_map va) < 512"
  "PD_index (address_to_map va) < 512" "PT_index (address_to_map va) < 512"
  by (simp_all add: address_to_map_def Let_def table_index_bound)

lemma va_path_ok [simp]: "path_ok 4 (va_path va)" "length (va_path va) = 4"
  by (simp_all add: va_path_def path_ok_def)

lemma ps_fields: "fget huge_PS e = fget dir_PS e" "fget big_PS e = fget dir_PS e"
  by (simp_all add: field_defs)

lemma get_physical_address_translate:
  assumes "pt_inv s root" and "check_k_regions va = 0"
  shows "get_physical_address root va s = Inr p \<longleftrightarrow> translate s root va = Some p"
proof -
  have "fget dir_PS (entry_at s (pml4_entry root va)) = 0" if "IS_PRESENT (entry_at s (pml4_entry root va))"
    using assms(1) that by (simp add: pt_inv_def)
  then show ?thesis
    by (auto simp: get_physical_address_def translate_def va_path_def assms(2) Let_def ps_fields)
qed

section \<open>Mapping one page\<close>

definition small_path :: "vmm \<Rightarrow> u64 \<Rightarrow> u64 \<Rightarrow> bool" where
  "small_path s root va \<longleftrightarrow> (\<forall>e k. resolve s root (va_path va) = Some (e, k) \<longrightarrow> k = 0)"

text \<open>The entry that maps a page with given flags.\<close>

definition maps_page :: "u64 \<Rightarrow> u64 \<Rightarrow> u8 \<Rightarrow> bool" where
  "maps_page e pa flags \<longleftrightarrow> IS_PRESENT e \<and> push_bit 12 (fget regular_PDPP e) = pa \<and>
     fget dir_RW e = of_bool (read_write (flags_to_perms flags)) \<and> fget dir_US e = of_bool (user (flags_to_perms flags)) \<and>
     fget dir_XD e = of_bool (no_execute (flags_to_perms flags))"

lemma level_not_large:
  assumes "walk s root p = Some t" and "va_path va = p @ i # r" and "r \<noteq> []" and "small_path s root va"
    and "IS_PRESENT (entry_at s (GET_ENTRY t i))"
  shows "fget dir_PS (entry_at s (GET_ENTRY t i)) = 0"
proof (rule ccontr)
  assume "fget dir_PS (entry_at s (GET_ENTRY t i)) \<noteq> 0"
  with assms(5) resolve_append [OF assms(1), of "i # r"] assms(2)
  have "resolve s root (va_path va) = Some (entry_at s (GET_ENTRY t i), length r)" by (simp add: Let_def)
  with assms(3,4) show False by (auto simp: small_path_def)
qed

lemma small_path_same: "same_resolve s s' root \<Longrightarrow> small_path s' root va = small_path s root va"
  by (simp add: same_resolve_def small_path_def)

lemma sz_4k: "(4096 :: u64) \<noteq> PAGE_SIZE_1GIB" "(4096 :: u64) \<noteq> PAGE_SIZE_2MIB"
  by (simp_all add: PAGE_SIZE_1GIB_def PAGE_SIZE_2MIB_def)

lemma aligned_mod: "aligned_page a \<longleftrightarrow> a mod PAGE_SIZE_4KIB = 0"
  by (simp add: aligned_page_def word_unat_eq_iff [of "a mod 4096" 0] unat_mod dvd_eq_mod_eq_0)

definition page_mapped :: "vmm \<Rightarrow> u64 \<Rightarrow> u64 \<Rightarrow> u64 \<Rightarrow> u8 \<Rightarrow> vmm res \<Rightarrow> bool" where
  "page_mapped s root va pa flags r \<longleftrightarrow>
     (case r of
        Inl x \<Rightarrow> out_of_memory x
      | Inr s' \<Rightarrow> pt_inv s' root \<and> (\<exists>e. maps_page e pa flags \<and> (\<forall>q. path_ok 4 q \<longrightarrow> length q = 4 \<longrightarrow>
          resolve s' root q = (if q = va_path va then Some (e, 0) else resolve s root q))))"

lemma page_mapped_bind:
  assumes "case r of Inl x \<Rightarrow> out_of_memory x | Inr s1 \<Rightarrow> Q s1"
    and "\<And>s1. Q s1 \<Longrightarrow> page_mapped s root va pa flags (f s1)"
  shows "page_mapped s root va pa flags (res_bind r f)"
  using assms by (cases r) (auto simp: page_mapped_def)

lemma page_mapped_same:
  "same_resolve s s1 root \<Longrightarrow> page_mapped s1 root va pa flags r \<Longrightarrow> page_mapped s root va pa flags r"
  unfolding page_mapped_def same_resolve_def by (cases r) auto

abbreviation va_prefix :: "nat \<Rightarrow> u64 \<Rightarrow> u64 list" where
  "va_prefix n va \<equiv> take n (va_path va)"

lemma va_nth:
  "va_path va ! 0 = PML4_index (address_to_map va)" "va_path va ! 1 = PDP_index (address_to_map va)"
  "va_path va ! 2 = PD_index (address_to_map va)" "va_path va ! 3 = PT_index (address_to_map va)"
  by (simp_all add: va_path_def)

lemma map_last:
  assumes inv: "pt_inv s root" and va: "aligned_page va" "check_k_regions va = 0"
    and pa: "aligned_page pa" "unat pa < 2 ^ 40" and t: "walk s root (va_prefix 3 va) = Some t"
  shows "page_mapped s root va pa flags
     (res_bind (init_entry (GET_ENTRY t (PT_index (address_to_map va))) PAGE_SIZE_4KIB pa (flags_to_perms flags) s)
        (check_mapping root va pa))"
proof -
  let ?a = "GET_ENTRY t (PT_index (address_to_map va))"
  let ?e = "fset regular_PDPP (drop_bit 12 pa) (init_value (flags_to_perms flags) (entry_at s ?a))"
  let ?s = "set_entry ?a ?e s"
  have e: "maps_page ?e pa flags"
    using init_value_fields [of "flags_to_perms flags" "entry_at s ?a"] frame_field [OF pa]
    unfolding maps_page_def IS_PRESENT_def by (simp add: field_simps)
  have p: "path_ok 3 (va_prefix 3 va)" "length (va_prefix 3 va) = 3"
    and v: "va_prefix 3 va @ [PT_index (address_to_map va)] = va_path va"
    by (simp_all add: path_ok_def va_path_def)
  note l = leaf_step [OF inv p t va_index_bounds(4), where s' = ?s and e' = ?e, OF refl, unfolded v]
  have r: "resolve ?s root q = (if q = va_path va then Some (?e, 0) else resolve s root q)"
    if "path_ok 4 q" "length q = 4" for q using l(2) [OF that] e by (simp add: maps_page_def)
  have "va AND 0xfff = 0"
  proof -
    have m: "(0xfff :: u64) = mask 12" by (simp add: mask_eq_exp_minus_1)
    show ?thesis unfolding m by (rule bit_word_eqI) (use aligned_low_bits [OF va(1)] in \<open>auto simp: bit_simps\<close>)
  qed
  then have "translate ?s root va = Some pa" using r [OF va_path_ok] e by (simp add: translate_def maps_page_def)
  then have "check_mapping root va pa ?s = Inr ?s"
    using get_physical_address_translate [OF l(1) va(2), of pa] by (simp add: check_mapping_def)
  then have "res_bind (init_entry ?a PAGE_SIZE_4KIB pa (flags_to_perms flags) s) (check_mapping root va pa) = Inr ?s"
    by (simp only: init_entry_4k [OF pa(1)] res_bind_simps)
  with l(1) e r show ?thesis by (auto simp: page_mapped_def)
qed

text \<open>The stages of \<open>map_address\<close> for a page of 4 KiB, from the directory of each level.\<close>

definition table_for :: "u64 \<Rightarrow> vmm \<Rightarrow> vmm res" where
  "table_for a s = (if \<not> IS_PRESENT (entry_at s a) then init_dir a s else Inr s)"

definition map_in_pd :: "u64 \<Rightarrow> u64 \<Rightarrow> u64 \<Rightarrow> u8 \<Rightarrow> u64 \<Rightarrow> vmm \<Rightarrow> vmm res" where
  "map_in_pd root va pa flags t s =
     (let a = GET_ENTRY t (PD_index (address_to_map va)) in
      if IS_PRESENT (entry_at s a) \<and> fget dir_PS (entry_at s a) \<noteq> 0 then Inl (Panic ''2MiB Mapping overlap detected'')
      else res_bind (table_for a s) (\<lambda>s'.
        res_bind (init_entry (pt_entry s' (entry_at s' a) va) PAGE_SIZE_4KIB pa (flags_to_perms flags) s')
          (check_mapping root va pa)))"

definition map_in_pdpt :: "u64 \<Rightarrow> u64 \<Rightarrow> u64 \<Rightarrow> u8 \<Rightarrow> u64 \<Rightarrow> vmm \<Rightarrow> vmm res" where
  "map_in_pdpt root va pa flags t s =
     (let a = GET_ENTRY t (PDP_index (address_to_map va)) in
      if IS_PRESENT (entry_at s a) \<and> fget dir_PS (entry_at s a) \<noteq> 0 then Inl (Panic ''1GiB Mapping overlap detected'')
      else res_bind (table_for a s) (\<lambda>s'. map_in_pd root va pa flags (next_table s' (entry_at s' a)) s'))"

lemma map_address_stages:
  assumes "aligned_page va" and "aligned_page pa"
  shows "map_address root va pa PAGE_SIZE_4KIB flags s =
    res_bind (table_for (pml4_entry root va) s)
      (\<lambda>s'. map_in_pdpt root va pa flags (next_table s' (entry_at s' (pml4_entry root va))) s')"
  using assms unfolding map_address_def map_in_pdpt_def map_in_pd_def table_for_def Let_def aligned_mod ps_fields
  by (simp add: sz_4k cong: if_cong)

text \<open>One stage: where the path has a table, or gets one, the rest of the work may go on from it.\<close>

lemma stage:
  assumes inv: "pt_inv s root" and small: "small_path s root va" and n: "n < 3"
    and w: "walk s root (va_prefix n va) = Some t" and a: "a = GET_ENTRY t (va_path va ! n)"
    and cont: "\<And>s'. pt_inv s' root \<Longrightarrow> small_path s' root va \<Longrightarrow>
        walk s' root (va_prefix (Suc n) va) = Some (next_table s' (entry_at s' a)) \<Longrightarrow> page_mapped s' root va pa flags (f s')"
  shows "fget dir_PS (entry_at s a) = 0 \<or> \<not> IS_PRESENT (entry_at s a)"
    and "page_mapped s root va pa flags (res_bind (table_for a s) f)"
proof -
  have len: "length (va_path va) = 4" by simp
  have path: "va_path va = va_prefix n va @ va_path va ! n # drop (Suc n) (va_path va)"
    using n len by (simp add: id_take_nth_drop)
  have "path_ok 2 (va_prefix n va)" "va_path va ! n < 512"
    using n va_path_ok(1) [of va] set_take_subset [of n "va_path va"] by (auto simp: path_ok_def len)
  note ok = this
  have ps: "IS_PRESENT (entry_at s a) \<Longrightarrow> fget dir_PS (entry_at s a) = 0"
    unfolding a by (rule level_not_large [OF w path _ small]) (use n len in auto)
  then show "fget dir_PS (entry_at s a) = 0 \<or> \<not> IS_PRESENT (entry_at s a)" by blast
  show "page_mapped s root va pa flags (res_bind (table_for a s) f)"
    unfolding table_for_def a
  proof (rule page_mapped_bind [OF ensure_step [OF inv ok(1) w ok(2) ps [unfolded a]]])
    fix s'
    assume h: "pt_inv s' root \<and> same_resolve s s' root \<and>
      walk s' root (va_prefix n va @ [va_path va ! n]) = Some (next_table s' (entry_at s' (GET_ENTRY t (va_path va ! n))))"
    then have "page_mapped s' root va pa flags (f s')"
      using small small_path_same [of s s' root va] n len by (intro cont) (auto simp: a take_Suc_conv_app_nth)
    with h show "page_mapped s root va pa flags (f s')" by (blast intro: page_mapped_same)
  qed
qed

lemma map_in_pd_ok:
  assumes "pt_inv s root" "small_path s root va" "walk s root (va_prefix 2 va) = Some t"
    and va: "aligned_page va" "check_k_regions va = 0" and pa: "aligned_page pa" "unat pa < 2 ^ 40"
  shows "page_mapped s root va pa flags (map_in_pd root va pa flags t s)"
proof -
  let ?a = "GET_ENTRY t (PD_index (address_to_map va))"
  let ?f = "\<lambda>s'. res_bind (init_entry (pt_entry s' (entry_at s' ?a) va) PAGE_SIZE_4KIB pa (flags_to_perms flags) s')
    (check_mapping root va pa)"
  have f: "page_mapped s' root va pa flags (?f s')"
    if "pt_inv s' root" "walk s' root (va_prefix (Suc 2) va) = Some (next_table s' (entry_at s' ?a))" for s'
    by (rule map_last [OF that(1) va pa]) (use that(2) in \<open>simp add: numeral_3_eq_3 [symmetric]\<close>)
  note st = stage [OF assms(1,2) _ assms(3), of ?a pa flags ?f, unfolded va_nth, OF _ refl f]
  from st show ?thesis unfolding map_in_pd_def Let_def by auto
qed

lemma map_in_pdpt_ok:
  assumes "pt_inv s root" "small_path s root va" "walk s root (va_prefix 1 va) = Some t"
    and va: "aligned_page va" "check_k_regions va = 0" and pa: "aligned_page pa" "unat pa < 2 ^ 40"
  shows "page_mapped s root va pa flags (map_in_pdpt root va pa flags t s)"
proof -
  let ?a = "GET_ENTRY t (PDP_index (address_to_map va))"
  let ?f = "\<lambda>s'. map_in_pd root va pa flags (next_table s' (entry_at s' ?a)) s'"
  have f: "page_mapped s' root va pa flags (?f s')"
    if "pt_inv s' root" "small_path s' root va" "walk s' root (va_prefix (Suc 1) va) = Some (next_table s' (entry_at s' ?a))" for s'
    by (rule map_in_pd_ok [OF that(1,2) _ va pa]) (use that(3) in \<open>simp add: numeral_2_eq_2\<close>)
  note st = stage [OF assms(1,2) _ assms(3), of ?a pa flags ?f, unfolded va_nth, OF _ refl f]
  from st show ?thesis unfolding map_in_pdpt_def Let_def by auto
qed

lemma map_address_4k:
  assumes inv: "pt_inv s root" and va: "aligned_page va" "check_k_regions va = 0"
    and pa: "aligned_page pa" "unat pa < 2 ^ 40" and small: "small_path s root va"
  shows "page_mapped s root va pa flags (map_address root va pa PAGE_SIZE_4KIB flags s)"
  unfolding map_address_stages [OF va(1) pa(1)]
proof (rule stage(2) [OF inv small, of 0 root])
  fix s'
  assume "pt_inv s' root" "small_path s' root va"
    "walk s' root (va_prefix (Suc 0) va) = Some (next_table s' (entry_at s' (pml4_entry root va)))"
  then show "page_mapped s' root va pa flags (map_in_pdpt root va pa flags (next_table s' (entry_at s' (pml4_entry root va))) s')"
    using map_in_pdpt_ok [OF _ _ _ va pa] by simp
qed (simp_all add: va_nth)

section \<open>Unmapping one page\<close>

lemma unmap_memory_4k:
  assumes inv: "pt_inv s root" and small: "small_path s root va"
  shows "\<exists>s'. unmap_memory root va s = Inr s' \<and> pt_inv s' root \<and>
    (\<forall>q. path_ok 4 q \<longrightarrow> length q = 4 \<longrightarrow> resolve s' root q = (if q = va_path va then None else resolve s root q))"
proof (cases "walk s root (va_prefix 3 va)")
  case None
  have "fget dir_PS (entry_at s (pml4_entry root va)) = 0" if "IS_PRESENT (entry_at s (pml4_entry root va))"
    using inv that by (simp add: pt_inv_def)
  with None small have "unmap_memory root va s = Inr s" and "resolve s root (va_path va) = None"
    by (auto simp: unmap_memory_def small_path_def va_path_def Let_def ps_fields descends_def numeral_3_eq_3 split: if_splits)
  with inv show ?thesis by auto
next
  case (Some t)
  let ?a = "GET_ENTRY t (PT_index (address_to_map va))"
  have v: "va_prefix 3 va @ [PT_index (address_to_map va)] = va_path va"
    and p: "path_ok 3 (va_prefix 3 va)" "length (va_prefix 3 va) = 3" by (simp_all add: va_path_def path_ok_def)
  have u: "unmap_memory root va s = Inr (if IS_PRESENT (entry_at s ?a) then set_entry ?a (fset dir_P 0 (entry_at s ?a)) s else s)"
    using Some by (auto simp: unmap_memory_def va_path_def Let_def ps_fields descends_def numeral_3_eq_3 split: if_splits)
  show ?thesis
  proof (cases "IS_PRESENT (entry_at s ?a)")
    case True
    have "\<not> IS_PRESENT (fset dir_P 0 (entry_at s ?a))" by (simp add: IS_PRESENT_def field_simps)
    with leaf_step [OF inv p Some va_index_bounds(4) [of va], where e' = "fset dir_P 0 (entry_at s ?a)", OF refl, unfolded v] u True
    show ?thesis by simp
  next
    case False
    with walk_blocked(2) [OF Some False, of "[]"] u inv v show ?thesis by auto
  qed
qed

end
