(* ===== verification/Paging_Properties.thy ===== *)
theory Paging_Properties
  imports Paging_Map
begin

text \<open>
  What the page tables promise, and where the permission and large-page paths do not keep the
  promise of their interface.
\<close>

section \<open>A small address space\<close>

text \<open>One megabyte of memory, a first page taken for the root directory, the identity map in place.\<close>

definition demo_root :: u64 where "demo_root = 0xFFFFB00000002000"

definition demo_frames :: pmm where
  "demo_frames = (case pmm_alloc_page demo_pmm of Inr (_, pm) \<Rightarrow> pm | Inl _ \<Rightarrow> demo_pmm)"

definition demo_vmm :: vmm where
  "demo_vmm = \<lparr>ac_pmm = demo_frames, physical_memory_offset = 0xFFFFB00000000000, vmm_dir_list = [], vm_mem = (\<lambda>_. 0)\<rparr>"

lemma demo_pmm_frames_ok: "frames_ok demo_pmm"
proof -
  have "bf_inv (pmm_bf demo_pmm)"
    unfolding demo_pmm_def pmm_init_def
    by (rule bitfield_init_Some [of "0x100000" "\<lambda>_. 0" 0])
       (simp_all add: BOOTLOADER_MEMMAP_USABLE_def page_size_ucast)
  moreover have "bf_bitmap_size (pmm_bf demo_pmm) = 32" "bf_available_size (pmm_bf demo_pmm) = 0xFFF98" by code_simp+
  then have "bf_limit (pmm_bf demo_pmm) = 288" by (simp add: bf_limit_def demo_pmm_fields)
  ultimately show ?thesis
    using demo_pmm_fields by (simp add: frames_ok_def aligned_page_def)
qed

lemma demo_frames_ok: "frames_ok demo_frames" "frame_used demo_vmm 0x2000"
proof -
  have "case allocate (pmm_bf demo_pmm) PAGE_SIZE of Inr (p, _) \<Rightarrow> p = 0x2000 | Inl _ \<Rightarrow> False" by code_simp
  then obtain bf where al: "allocate (pmm_bf demo_pmm) PAGE_SIZE = Inr (0x2000, bf)" by (auto split: sum.splits)
  then have f: "demo_frames = demo_pmm\<lparr>pmm_bf := bf\<rparr>"
    using demo_pmm_fields(1) by (simp add: demo_frames_def pmm_alloc_page_def)
  from allocate_page_ok(4) [OF demo_pmm_frames_ok al] show "frames_ok demo_frames" by (simp add: f)
  have "bf_inv (pmm_bf demo_pmm)" using demo_pmm_frames_ok by (simp add: frames_ok_def)
  from allocate_ok [OF this al] show "frame_used demo_vmm 0x2000" by (auto simp: frame_used_def demo_vmm_def f)
qed

lemma rd64_zero: "rd64 (\<lambda>_. 0) a = 0" by (rule bit_word_eqI) (simp add: bit_rd64)

lemma demo_walk: "walk demo_vmm t p = (if p = [] then Some t else None)"
  by (cases p) (simp_all add: demo_vmm_def rd64_zero Let_def descends_def)

lemma demo_vmm_fields:
  "ac_pmm demo_vmm = demo_frames" "physical_memory_offset demo_vmm = 0xFFFFB00000000000" "entry_at demo_vmm a = 0"
  by (simp_all add: demo_vmm_def rd64_zero)

lemma demo_pt_inv: "pt_inv demo_vmm demo_root"
proof -
  have "pt_tree demo_vmm demo_root"
    by (auto simp: pt_tree_def demo_walk aligned_page_def demo_root_def demo_vmm_fields split: if_splits)
  moreover have "frame_used demo_vmm (demo_root - physical_memory_offset demo_vmm)"
    using demo_frames_ok(2) by (simp add: demo_root_def demo_vmm_fields)
  ultimately show ?thesis
    using demo_frames_ok(1) by (auto simp: pt_inv_def demo_walk demo_vmm_fields split: if_splits)
qed

lemma demo_small: "small_path demo_vmm demo_root va"
  by (simp add: small_path_def va_path_def demo_vmm_fields)

section \<open>Properties\<close>

text \<open>C27: Mapping a page of 4 KiB either runs out of physical pages or succeeds; then the address
  translates to the given page, with the offset carried over, every address with other table indices translates as
  before, and the tables still form a tree in distinct physical pages.\<close>

theorem map_address_correct:
  assumes "pt_inv s root" and "aligned_page va" and "check_k_regions va = 0" and "aligned_page pa"
    and "unat pa < 2 ^ 40" and "small_path s root va"
  shows "case map_address root va pa PAGE_SIZE_4KIB flags s of
      Inl x \<Rightarrow> out_of_memory x
    | Inr s' \<Rightarrow> pt_inv s' root \<and> (\<forall>va' p. check_k_regions va' = 0 \<longrightarrow>
        (get_physical_address root va' s' = Inr p \<longleftrightarrow>
           (if va_path va' = va_path va then p = pa OR (va' AND 0xfff) else get_physical_address root va' s = Inr p)))"
proof (cases "map_address root va pa PAGE_SIZE_4KIB flags s")
  case (Inl x)
  with map_address_4k [OF assms, of flags] show ?thesis by (simp add: page_mapped_def)
next
  case (Inr s')
  with map_address_4k [OF assms, of flags] obtain e where inv': "pt_inv s' root" and e: "maps_page e pa flags"
    and r: "\<And>q. path_ok 4 q \<Longrightarrow> length q = 4 \<Longrightarrow> resolve s' root q = (if q = va_path va then Some (e, 0) else resolve s root q)"
    by (auto simp: page_mapped_def)
  have "translate s' root va' = (if va_path va' = va_path va then Some (pa OR (va' AND 0xfff)) else translate s root va')" for va'
    using r [OF va_path_ok, of va'] e by (simp add: translate_def maps_page_def)
  with Inr inv' show ?thesis
    by (auto simp: get_physical_address_translate [OF inv'] get_physical_address_translate [OF assms(1)])
qed

theorem map_address_correct_witness:
  "case map_address demo_root 0x400000001000 0x5000 PAGE_SIZE_4KIB 3 demo_vmm of
      Inl x \<Rightarrow> out_of_memory x
    | Inr s' \<Rightarrow> pt_inv s' demo_root \<and> get_physical_address demo_root 0x400000001234 s' = Inr 0x5234"
proof -
  have k: "check_k_regions 0x400000001000 = 0" "check_k_regions 0x400000001234 = 0" by code_simp+
  have v: "va_path 0x400000001234 = va_path 0x400000001000" by code_simp
  have "0x5000 OR (0x400000001234 AND 0xfff) = (0x5234 :: u64)" by simp
  then show ?thesis
    using map_address_correct [OF demo_pt_inv _ k(1), of "0x5000" 3] demo_small k(2) v
    by (auto simp: aligned_page_def split: sum.splits)
qed

text \<open>C28: Unmapping a page of 4 KiB always returns; afterwards its address has no translation, every
  address with other table indices translates as before, and the invariant is kept.\<close>

theorem unmap_memory_correct:
  assumes "pt_inv s root" and "small_path s root va"
  shows "\<exists>s'. unmap_memory root va s = Inr s' \<and> pt_inv s' root \<and> (\<forall>va' p. check_k_regions va' = 0 \<longrightarrow>
     (get_physical_address root va' s' = Inr p \<longleftrightarrow> va_path va' \<noteq> va_path va \<and> get_physical_address root va' s = Inr p))"
proof -
  from unmap_memory_4k [OF assms] obtain s' where s': "unmap_memory root va s = Inr s'" "pt_inv s' root"
    and r: "\<And>q. path_ok 4 q \<Longrightarrow> length q = 4 \<Longrightarrow> resolve s' root q = (if q = va_path va then None else resolve s root q)"
    by blast
  have "translate s' root va' = (if va_path va' = va_path va then None else translate s root va')" for va'
    using r [OF va_path_ok, of va'] by (simp add: translate_def)
  with s' show ?thesis
    by (auto simp: get_physical_address_translate [OF s'(2)] get_physical_address_translate [OF assms(1)])
qed

theorem unmap_memory_correct_witness:
  "\<exists>s'. unmap_memory demo_root 0x400000001000 demo_vmm = Inr s' \<and> pt_inv s' demo_root"
  using unmap_memory_correct [OF demo_pt_inv demo_small, of "0x400000001000"] by blast

lemma join_index:
  "push_bit 9 (drop_bit 9 x AND mask k) OR (x AND mask 9) = x AND mask (k + 9)" for x :: u64
proof (rule bit_word_eqI)
  fix n :: nat
  assume "n < LENGTH(64)"
  then show "bit (push_bit 9 (drop_bit 9 x AND mask k) OR (x AND mask 9)) n = bit (x AND mask (k + 9)) n"
    by (cases "n < 9") (auto simp: bit_simps)
qed

text \<open>Splitting an address into table indices and joining them again gives the address of its page
  without the sixteen sign bits.\<close>

theorem address_map_roundtrip:
  "map_to_address (address_to_map a) = a AND 0x0000FFFFFFFFF000"
proof -
  have m9: "(0x1ff :: u64) = mask 9" and m: "(0x0000FFFFFFFFF000 :: u64) = push_bit 12 (mask 36)"
    by (simp_all add: mask_eq_exp_minus_1 push_bit_eq_mult)
  have "map_to_address (address_to_map a) = push_bit 12 (drop_bit 12 a AND mask 36)"
    unfolding map_to_address_def address_to_map_def Let_def m9 page_map_index.simps join_index by simp
  also have "\<dots> = a AND push_bit 12 (mask 36)"
    by (rule bit_word_eqI) (auto simp: bit_simps)
  finally show ?thesis by (simp only: m)
qed

lemma low_flag: "(ucast (flags AND c) :: u64) AND 1 = of_bool (bit flags 0 \<and> bit c 0)" for flags c :: u8
  by (rule bit_word_eqI) (auto simp: bit_simps bit_1_iff)

text \<open>The flags of \<open>mprotect\<close> other than write are lost when they are stored in one-bit fields, whatever
  is requested, and \<open>is_executable\<close> always answers no.\<close>

theorem permission_flags_lost:
  "fget dir_RW (set_permissions flags e) = of_bool (flags AND VMM_WRITE_BIT \<noteq> 0) \<and>
   fget dir_US (set_permissions flags e) = 0 \<and> fget dir_PCD (set_permissions flags e) = 0 \<and>
   fget dir_XD (set_permissions flags e) = 0 \<and> is_executable pml4 address s = 0"
proof (intro conjI)
  show "fget dir_RW (set_permissions flags e) = of_bool (flags AND VMM_WRITE_BIT \<noteq> 0)"
    "fget dir_US (set_permissions flags e) = 0" "fget dir_PCD (set_permissions flags e) = 0"
    "fget dir_XD (set_permissions flags e) = 0"
    unfolding set_permissions_def Let_def
    by (simp_all add: field_simps low_flag VMM_WRITE_BIT_def VMM_USER_BIT_def VMM_CACHE_DISABLE_BIT_def VMM_NX_BIT_def
        and_exp_eq_0_iff_bit [of flags 0, simplified])
  have u: "\<not> bit (pack_perms (u AND x) e) 5" if "\<And>n. 0 < n \<Longrightarrow> \<not> bit u n" for u x e
    using that unfolding pack_perms_def bit_unsigned_iff bit_or_iff bit_push_bit_iff by (auto simp: bit_simps bit_fget field_defs)
  have f: "0 < n \<Longrightarrow> \<not> bit (fget dir_US e) n" for n e by (simp add: bit_fget field_defs)
  have "\<not> bit (get_page_perms pml4 address s) 5"
    unfolding get_page_perms_def Let_def by (auto intro!: u simp: f bit_and_iff)
  then show "is_executable pml4 address s = 0"
    unfolding is_executable_def VMM_NX_BIT_def using and_exp_eq_0_iff_bit [of "get_page_perms pml4 address s" 5] by simp
qed

text \<open>Unmapping an address of a 2 MiB page does not panic as intended: it takes the contents of the
  page for a page table and clears the lowest bit of a word of data, or does nothing.\<close>

theorem unmap_enters_large_page:
  assumes "resolve s root (va_path va) = Some (e, 1)"
  shows "unmap_memory root va s =
     (let a = GET_ENTRY (get_pdpp s e PAGE_SIZE_DIR) (PT_index (address_to_map va))
      in Inr (if IS_PRESENT (entry_at s a) then set_entry a (fset dir_P 0 (entry_at s a)) s else s))"
  using assms by (auto simp: unmap_memory_def va_path_def Let_def ps_fields split: if_splits)

definition demo_large :: vmm where
  "demo_large = set_entry 0xFFFFB00000002400 0x3003 (set_entry 0xFFFFB00000003000 0x4003
     (set_entry 0xFFFFB00000004000 0x8000000000200083 (set_entry 0xFFFFB00000200008 0x41 demo_vmm)))"

theorem unmap_enters_large_page_witness:
  "unmap_memory demo_root 0x400000001000 demo_large = Inr (set_entry 0xFFFFB00000200008 0x40 demo_large)"
proof -
  have "resolve demo_large demo_root (va_path 0x400000001000) = Some (0x8000000000200083, 1)"
    "GET_ENTRY (get_pdpp demo_large 0x8000000000200083 PAGE_SIZE_DIR) (PT_index (address_to_map 0x400000001000)) = 0xFFFFB00000200008"
    "entry_at demo_large 0xFFFFB00000200008 = 0x41" "IS_PRESENT 0x41" "fset dir_P 0 0x41 = 0x40"
    by code_simp+
  then show ?thesis using unmap_enters_large_page [of demo_large demo_root "0x400000001000"] by (simp add: Let_def)
qed

end
