(* ===== verification/Vmarea.thy ===== *)
theory Vmarea
  imports Paging_Map Vfs
begin

text \<open>
  The areas of a process's address space, modules/managers/cpu/vmarea.c.  The linked list of a
  process is the list of its areas, newest first; the operations on page tables and on files are
  those of the paging and file system theories.
\<close>

record vm_area =
  va_start :: u64
  va_end :: u64
  va_flags :: u8
  va_extended_flags :: u8
  va_page_size :: u64
  va_fd :: int
  va_offset :: u64

definition VMAREA_EXT_COW :: u8 where "VMAREA_EXT_COW = 0x1"

definition VMAREA_EXT_SHARED :: u8 where "VMAREA_EXT_SHARED = 0x2"

definition VMAREA_EXT_REQ_SYNC :: u8 where "VMAREA_EXT_REQ_SYNC = 0x8"

definition VMAREA_EXT_STACK_GUARD :: u8 where "VMAREA_EXT_STACK_GUARD = 0x10"

definition VMAREA_CLONE_WITH_COW :: u8 where "VMAREA_CLONE_WITH_COW = 1"

section \<open>Operations\<close>

definition is_in_vmarea :: "vm_area list \<Rightarrow> u64 \<Rightarrow> vm_area option" where
  "is_in_vmarea areas address = List.find (\<lambda>a. va_start a \<le> address \<and> address < va_end a) areas"

definition create_vmarea :: "u64 \<Rightarrow> u64 \<Rightarrow> u8 \<Rightarrow> u8 \<Rightarrow> u64 \<Rightarrow> int \<Rightarrow> u64 \<Rightarrow> vm_area list \<Rightarrow> vm_area list" where
  "create_vmarea start stop flags extended_flags page_size fd offset areas =
     \<lparr>va_start = start, va_end = stop, va_flags = flags, va_extended_flags = extended_flags, va_page_size = page_size,
      va_fd = fd, va_offset = offset\<rparr> # areas"

primrec remove_vmarea :: "u64 \<Rightarrow> vm_area list \<Rightarrow> vm_area list" where
  "remove_vmarea start [] = []"
| "remove_vmarea start (a # areas) = (if va_start a = start then areas else a # remove_vmarea start areas)"

text \<open>Cloning marks the areas of the old process too; the result is the old and the new list.\<close>

definition mark_cow :: "u8 \<Rightarrow> vm_area \<Rightarrow> vm_area" where
  "mark_cow cow a =
     (if cow = VMAREA_CLONE_WITH_COW then a\<lparr>va_extended_flags := va_extended_flags a OR VMAREA_EXT_COW\<rparr> else a)"

definition duplicate_vmareas :: "u8 \<Rightarrow> vm_area list \<Rightarrow> vm_area list \<times> vm_area list" where
  "duplicate_vmareas cow old =
     (let old' = map (mark_cow cow) old
      in (old', fold (\<lambda>a. create_vmarea (va_start a) (va_end a) (va_flags a) (va_extended_flags a) (va_page_size a)
                           (va_fd a) (va_offset a)) old' []))"

definition engrave_area :: "u64 \<Rightarrow> u64 \<Rightarrow> vm_area \<Rightarrow> vmm \<Rightarrow> vmm res option" where
  "engrave_area child_vmm parent_vmm a s =
     (case (if va_extended_flags a AND VMAREA_EXT_SHARED \<noteq> 0
            then res_bind (get_physical_address parent_vmm (va_start a) s) (\<lambda>parent_physical.
                   map_range child_vmm (va_start a) parent_physical (va_page_size a) (va_end a - va_start a) (va_flags a) s)
            else Inr s) of
        Inl e \<Rightarrow> Some (Inl e)
      | Inr s1 \<Rightarrow>
          if va_extended_flags a AND VMAREA_EXT_COW \<noteq> 0 \<and> va_extended_flags a AND VMAREA_EXT_STACK_GUARD = 0
          then let flags = (if va_flags a AND VMM_WRITE_BIT \<noteq> 0 then va_flags a AND NOT VMM_WRITE_BIT else va_flags a);
                   sz = va_end a - va_start a
               in Option.bind (mprotect child_vmm (va_start a) sz flags s1) (\<lambda>r. case r of
                    Inl e \<Rightarrow> Some (Inl e)
                  | Inr s2 \<Rightarrow> mprotect parent_vmm (va_start a) sz flags s2)
          else Some (Inr s1))"

primrec engrave_vmareas :: "u64 \<Rightarrow> u64 \<Rightarrow> vm_area list \<Rightarrow> vmm \<Rightarrow> vmm res option" where
  "engrave_vmareas child_vmm parent_vmm [] s = Some (Inr s)"
| "engrave_vmareas child_vmm parent_vmm (a # areas) s =
     Option.bind (engrave_area child_vmm parent_vmm a s) (\<lambda>r. case r of
       Inl e \<Rightarrow> Some (Inl e)
     | Inr s1 \<Rightarrow> engrave_vmareas child_vmm parent_vmm areas s1)"

definition duplicate_vmarea_cow :: "u64 \<Rightarrow> vm_area \<Rightarrow> vmm \<Rightarrow> (vm_area \<times> vmm) res" where
  "duplicate_vmarea_cow vmm a s =
     res_bind (remap_allocate_cow vmm (va_start a) (va_end a - va_start a) (va_page_size a) (va_flags a) s) (\<lambda>s1.
       Inr (a\<lparr>va_extended_flags := va_extended_flags a AND NOT VMAREA_EXT_COW\<rparr>, s1))"

definition overlaps :: "vm_area \<Rightarrow> u64 \<Rightarrow> u64 \<Rightarrow> bool" where
  "overlaps a start stop \<longleftrightarrow> va_start a < stop \<and> start < va_end a"

definition vmarea_collides :: "vm_area list \<Rightarrow> u64 \<Rightarrow> u64 \<Rightarrow> vm_area option" where
  "vmarea_collides areas start stop = List.find (\<lambda>a. overlaps a start stop) areas"

definition page_align :: "u64 \<Rightarrow> u64" where
  "page_align a = (a + PAGE_SIZE_4KIB - 1) AND NOT (PAGE_SIZE_4KIB - 1)"

text \<open>The search loop; the result 0 is the null pointer.\<close>

partial_function (option) shm_loop :: "vm_area list \<Rightarrow> u64 \<Rightarrow> u64 \<Rightarrow> u64 \<Rightarrow> bool \<Rightarrow> u64 option" where
  "shm_loop areas sz start stop wrapped =
     (case vmarea_collides areas start stop of
        None \<Rightarrow> Some start
      | Some c \<Rightarrow>
          let start' = page_align (va_end c) in
          if start' > VMM_REGION_U_SHM_MMAP + VMM_REGION_SIZE then
            if wrapped then Some 0
            else shm_loop areas sz VMM_REGION_U_SHM_MMAP (VMM_REGION_U_SHM_MMAP + sz) True
          else shm_loop areas sz start' (start' + sz) wrapped)"

definition find_shm_vmarea :: "vm_area list \<Rightarrow> u64 \<Rightarrow> u64 \<Rightarrow> u64 option" where
  "find_shm_vmarea areas hint sz =
     (let start = (if hint = 0 then VMM_REGION_U_SHM_MMAP else hint) in shm_loop areas sz start (start + sz) False)"

definition vmarea_sync :: "'st vfs \<Rightarrow> u64 \<Rightarrow> vm_area \<Rightarrow> 'st world \<Rightarrow> (vm_area \<times> 'st world) res" where
  "vmarea_sync v sz a w =
     (let sync_size = (if sz \<noteq> 0 then sz else va_end a - va_start a) in
      if va_fd a \<noteq> 0
      then res_bind (vfs_file_seek v (va_fd a) (va_offset a) 0 w) (\<lambda>(_, w1).
           res_bind (vfs_file_write v (va_fd a) (va_start a) sync_size w1) (\<lambda>(_, w2).
           res_bind (vfs_file_seek v (va_fd a) (va_offset a) 0 w2) (\<lambda>(_, w3).
             Inr (a\<lparr>va_extended_flags := va_extended_flags a AND NOT VMAREA_EXT_REQ_SYNC\<rparr>, w3))))
      else Inr (a, w))"

primrec vmarea_sync_all_files :: "'st vfs \<Rightarrow> vm_area list \<Rightarrow> 'st world \<Rightarrow> (vm_area list \<times> 'st world) res" where
  "vmarea_sync_all_files v [] w = Inr ([], w)"
| "vmarea_sync_all_files v (a # areas) w =
     res_bind (if va_extended_flags a AND VMAREA_EXT_REQ_SYNC \<noteq> 0 then vmarea_sync v 0 a w else Inr (a, w)) (\<lambda>(a', w1).
     res_bind (vmarea_sync_all_files v areas w1) (\<lambda>(areas', w2). Inr (a' # areas', w2)))"

definition remove_all_vmareas :: "vm_area list \<Rightarrow> vm_area list" where
  "remove_all_vmareas areas = []"

section \<open>Areas stay apart\<close>

definition area_ok :: "vm_area \<Rightarrow> bool" where
  "area_ok a \<longleftrightarrow> va_start a < va_end a \<and> va_end a \<le> 0x7FFFFFFFFFFFFFFF"

definition apart :: "vm_area \<Rightarrow> vm_area \<Rightarrow> bool" where
  "apart a b \<longleftrightarrow> va_end a \<le> va_start b \<or> va_end b \<le> va_start a"

definition areas_inv :: "vm_area list \<Rightarrow> bool" where
  "areas_inv areas \<longleftrightarrow> (\<forall>a \<in> set areas. area_ok a) \<and> sorted_wrt apart areas"

lemma collides_None: "vmarea_collides areas start stop = None \<longleftrightarrow> (\<forall>a \<in> set areas. \<not> overlaps a start stop)"
  by (auto simp: vmarea_collides_def find_None_iff)

lemma collides_Some: "vmarea_collides areas start stop = Some c \<Longrightarrow> c \<in> set areas \<and> overlaps c start stop"
  by (auto simp: vmarea_collides_def find_Some_iff)

lemma page_align_ge:
  assumes "a \<le> 0x7FFFFFFFFFFFFFFF"
  shows "a \<le> page_align a"
proof -
  let ?b = "4095 + a"
  have u: "unat ?b = 4095 + unat a" using assms by (subst unat_add_no_wrap) (simp_all add: word_le_nat_alt)
  have m: "(4095 :: u64) = mask 12" by (simp add: mask_eq_exp_minus_1)
  have "b AND NOT (mask 12) = push_bit 12 (drop_bit 12 b)" for b :: u64
    by (rule bit_word_eqI) (auto simp: bit_simps)
  then have "?b AND NOT 4095 = push_bit 12 (drop_bit 12 ?b)" by (metis m)
  then have "page_align a = push_bit 12 (drop_bit 12 ?b)" by (simp add: page_align_def)
  also have "\<dots> = drop_bit 12 ?b * 4096" by (simp add: push_bit_eq_mult)
  finally have "page_align a = drop_bit 12 ?b * 4096" .
  moreover have d: "unat (drop_bit 12 ?b) = (4095 + unat a) div 4096" by (simp add: drop_bit_eq_div unat_div u)
  moreover have "(4095 + unat a) div 4096 * 4096 < 2 ^ 64"
    using assms div_times_less_eq_dividend [of "4095 + unat a" 4096] by (simp add: word_le_nat_alt)
  ultimately have "unat (page_align a) = (4095 + unat a) div 4096 * 4096" by (simp add: unat_word_ariths)
  moreover have "unat a \<le> (4095 + unat a) div 4096 * 4096"
    using div_mult_mod_eq [of "4095 + unat a" 4096] mod_less_divisor [of 4096 "4095 + unat a"] by linarith
  ultimately show ?thesis by (simp add: word_le_nat_alt)
qed

definition pending_areas :: "vm_area list \<Rightarrow> u64 \<Rightarrow> nat" where
  "pending_areas areas start = length (filter (\<lambda>a. start < va_end a) areas)"

lemma pending_decreases:
  assumes "c \<in> set areas" and "start < va_end c" and "va_end c \<le> start'"
  shows "pending_areas areas start' < pending_areas areas start"
proof -
  have sub: "filter (\<lambda>a. start' < va_end a) areas = filter (\<lambda>a. start' < va_end a) (filter (\<lambda>a. start < va_end a) areas)"
    using assms(2,3) by (auto simp: filter_filter intro!: filter_cong)
  have "c \<in> set (filter (\<lambda>a. start < va_end a) areas)" using assms(1,2) by simp
  then show ?thesis unfolding pending_areas_def sub
    by (rule length_filter_less) (use assms(3) in \<open>simp add: not_less\<close>)
qed

lemma shm_loop_returns:
  assumes ok: "\<forall>a \<in> set areas. area_ok a"
  shows "\<exists>r. shm_loop areas sz start stop wrapped = Some r \<and>
     (r \<noteq> 0 \<longrightarrow> r = start \<and> vmarea_collides areas start stop = None \<or> vmarea_collides areas r (r + sz) = None)"
proof (induction "(if wrapped then 0 else Suc (length areas)) + pending_areas areas start"
    arbitrary: start stop wrapped rule: less_induct)
  case less
  show ?case
  proof (cases "vmarea_collides areas start stop")
    case None
    then show ?thesis by (subst shm_loop.simps) simp
  next
    case (Some c)
    then have c: "c \<in> set areas" "start < va_end c" using collides_Some [OF Some] by (auto simp: overlaps_def)
    let ?s = "page_align (va_end c)"
    have ge: "va_end c \<le> ?s" using ok c(1) by (intro page_align_ge) (auto simp: area_ok_def)
    have step: "pending_areas areas ?s < pending_areas areas start" by (rule pending_decreases [OF c ge])
    show ?thesis
    proof (cases "?s > VMM_REGION_U_SHM_MMAP + VMM_REGION_SIZE")
      case False
      have "\<exists>r. shm_loop areas sz ?s (?s + sz) wrapped = Some r \<and> (r \<noteq> 0 \<longrightarrow> r = ?s \<and>
          vmarea_collides areas ?s (?s + sz) = None \<or> vmarea_collides areas r (r + sz) = None)"
        by (rule less.hyps) (use step in simp)
      with Some False show ?thesis by (subst shm_loop.simps) auto
    next
      case True
      show ?thesis
      proof (cases wrapped)
        case True
        with Some \<open>?s > _\<close> show ?thesis by (subst shm_loop.simps) (simp add: Let_def)
      next
        case w: False
        let ?m = VMM_REGION_U_SHM_MMAP
        have "pending_areas areas ?m \<le> length areas" by (simp add: pending_areas_def)
        then have "\<exists>r. shm_loop areas sz ?m (?m + sz) True = Some r \<and> (r \<noteq> 0 \<longrightarrow> r = ?m \<and>
            vmarea_collides areas ?m (?m + sz) = None \<or> vmarea_collides areas r (r + sz) = None)"
          by (intro less.hyps) (use w step in simp)
        with Some True w show ?thesis by (subst shm_loop.simps) auto
      qed
    qed
  qed
qed

lemma create_keeps_inv:
  assumes "areas_inv areas" and "vmarea_collides areas start stop = None" and "start < stop" and "stop \<le> 0x7FFFFFFFFFFFFFFF"
  shows "areas_inv (create_vmarea start stop flags ext page_size fd offset areas)"
  using assms by (auto simp: areas_inv_def create_vmarea_def area_ok_def apart_def collides_None overlaps_def not_less)

lemma remove_keeps_inv: "areas_inv areas \<Longrightarrow> areas_inv (remove_vmarea start areas)"
proof (induction areas)
  case (Cons a areas)
  have "set (remove_vmarea start areas) \<subseteq> set areas" by (induction areas) auto
  with Cons show ?case by (auto simp: areas_inv_def)
qed simp

section \<open>Properties\<close>

text \<open>C29: The search for a free range of shared memory ends; a range it returns collides with no
  area of the process, so that an area created there keeps the areas of the process apart.\<close>

theorem find_shm_vmarea_free:
  assumes "areas_inv areas" and "sz \<noteq> 0"
  shows "\<exists>r. find_shm_vmarea areas hint sz = Some r \<and> (r \<noteq> 0 \<longrightarrow> vmarea_collides areas r (r + sz) = None \<and>
     (r < r + sz \<and> r + sz \<le> 0x7FFFFFFFFFFFFFFF \<longrightarrow> areas_inv (create_vmarea r (r + sz) flags ext page_size fd offset areas)))"
proof -
  have "\<forall>a \<in> set areas. area_ok a" using assms by (simp add: areas_inv_def)
  from shm_loop_returns [OF this, of sz "if hint = 0 then VMM_REGION_U_SHM_MMAP else hint"
      "(if hint = 0 then VMM_REGION_U_SHM_MMAP else hint) + sz" False]
  obtain r where "find_shm_vmarea areas hint sz = Some r" "r \<noteq> 0 \<longrightarrow> vmarea_collides areas r (r + sz) = None"
    by (auto simp: find_shm_vmarea_def Let_def)
  with create_keeps_inv [OF assms(1), of r "r + sz"] show ?thesis by blast
qed

definition demo_areas :: "vm_area list" where
  "demo_areas = create_vmarea 0x500000001000 0x500000002010 2 2 0x1000 3 0
     (create_vmarea 0x500000000000 0x500000001000 2 2 0x1000 3 0 [])"

theorem find_shm_vmarea_free_witness:
  "\<exists>r. find_shm_vmarea demo_areas 0 0x1000 = Some r \<and> (r \<noteq> 0 \<longrightarrow> vmarea_collides demo_areas r (r + 0x1000) = None \<and>
     (r < r + 0x1000 \<and> r + 0x1000 \<le> 0x7FFFFFFFFFFFFFFF \<longrightarrow> areas_inv (create_vmarea r (r + 0x1000) 2 2 0x1000 4 0 demo_areas)))"
  by (rule find_shm_vmarea_free) (simp_all add: demo_areas_def areas_inv_def create_vmarea_def area_ok_def apart_def)

end
