(* ===== verification/Devices.thy ===== *)
theory Devices
  imports Omen_Prelude "HOL-Library.Sublist"
begin

text \<open>
  The device and driver tables, modules/managers/dev/devices.c.  Driver tables are indexed by a byte
  and have 256 entries; the device table is a list of 256 entries.  Operations of a driver are functions on a
  state that the tables do not know.  Names are kept in fixed buffers of 256 characters, copied
  without their terminator as the source does; reading a buffer without terminator is a fault.
\<close>

definition SUCCESS :: int where "SUCCESS = 0"

definition INVALID_ARGUMENT :: int where "INVALID_ARGUMENT = -2"

definition CHAR_MIN_MAJOR :: u8 where "CHAR_MIN_MAJOR = 0x80"

definition MAX_DEVICES :: nat where "MAX_DEVICES = 256"

definition DEVICE_NAME_MAX_SIZE :: nat where "DEVICE_NAME_MAX_SIZE = 256"

definition DEVICE_BLOCK :: u8 where "DEVICE_BLOCK = 0"

definition DEVICE_CHAR :: u8 where "DEVICE_CHAR = 1"

definition DEVICE_IDENTIFIERS :: "string option list" where
  "DEVICE_IDENTIFIERS =
     [Some ''none'', Some ''none'', Some ''none'', Some ''none'', Some ''none'', Some ''none'', Some ''none'', Some ''none'',
      Some ''hd'', Some ''cd'', Some ''semb'', Some ''pm'', Some ''sd'', Some ''none'', Some ''tty'', Some ''none'',
      Some ''mouse'', Some ''net'', Some ''fb'', Some ''none''] @ replicate (0x8d - 20) None @
     [Some ''serial'', Some ''fifo'', Some ''kbd'', Some ''dcon'']"

record 'w file_operations =
  fop_read :: "(u64 \<Rightarrow> u64 \<Rightarrow> u64 \<Rightarrow> u64 \<Rightarrow> 'w \<Rightarrow> (u64 \<times> 'w) res) option"
  fop_write :: "(u64 \<Rightarrow> u64 \<Rightarrow> u64 \<Rightarrow> u64 \<Rightarrow> 'w \<Rightarrow> (u64 \<times> 'w) res) option"
  fop_ioctl :: "(u64 \<Rightarrow> u32 \<Rightarrow> u64 \<Rightarrow> 'w \<Rightarrow> (u64 \<times> 'w) res) option"

record 'w network_operations =
  nop_send :: "(u64 \<Rightarrow> u64 \<Rightarrow> u16 \<Rightarrow> 'w \<Rightarrow> u64 \<times> 'w) option"
  nop_recv :: "(u64 \<Rightarrow> u64 \<Rightarrow> u16 \<Rightarrow> 'w \<Rightarrow> u64 \<times> 'w) option"
  nop_ioctl :: "(u64 \<Rightarrow> u32 \<Rightarrow> u64 \<Rightarrow> 'w \<Rightarrow> u64 \<times> 'w) option"

record 'w device_driver =
  fops :: "'w file_operations option"
  nops :: "'w network_operations option"
  registered :: bool
  drv_name :: string

record device =
  bc :: u8
  valid :: bool
  major :: u8
  minor :: u8
  dev_name :: string
  internal_id :: u64
  device_control_structure :: u64

record 'w devices =
  char_device_drivers :: "u8 \<Rightarrow> 'w device_driver"
  block_device_drivers :: "u8 \<Rightarrow> 'w device_driver"
  net_device_drivers :: "u8 \<Rightarrow> 'w device_driver"
  char_device_count :: u32
  block_device_count :: u32
  devs :: "device list"
  device_count :: u32

section \<open>Names in buffers\<close>

definition NUL :: char where "NUL = CHR 0x00"

definition put_name :: "string \<Rightarrow> string \<Rightarrow> string" where
  "put_name name buf = name @ drop (length name) buf"

definition get_name :: "string \<Rightarrow> string res" where
  "get_name buf = (if NUL \<in> set buf then Inr (takeWhile (\<lambda>c. c \<noteq> NUL) buf) else Inl (Panic ''unterminated name''))"

fun hex_digit :: "nat \<Rightarrow> char" where
  "hex_digit d = ''0123456789abcdef'' ! (d mod 16)"

fun to_hex :: "nat \<Rightarrow> string" where
  "to_hex n = (if n < 16 then [hex_digit n] else to_hex (n div 16) @ [hex_digit n])"

section \<open>Drivers\<close>

definition register_char :: "u8 \<Rightarrow> string \<Rightarrow> 'w file_operations option \<Rightarrow> 'w devices \<Rightarrow> int \<times> 'w devices" where
  "register_char maj name ops t =
     (if maj < CHAR_MIN_MAJOR then (INVALID_ARGUMENT, t)
      else if length name > DEVICE_NAME_MAX_SIZE then (INVALID_ARGUMENT, t)
      else if ops = None then (INVALID_ARGUMENT, t)
      else let major_id = maj AND 0x7f; d = char_device_drivers t major_id
           in if registered d then (INVALID_ARGUMENT, t)
              else (SUCCESS, t\<lparr>char_device_drivers := (char_device_drivers t)(major_id :=
                 d\<lparr>drv_name := put_name name (drv_name d), fops := ops, registered := True, nops := None\<rparr>)\<rparr>))"

definition register_block :: "u8 \<Rightarrow> string \<Rightarrow> 'w file_operations option \<Rightarrow> 'w devices \<Rightarrow> int \<times> 'w devices" where
  "register_block maj name ops t =
     (if length name > DEVICE_NAME_MAX_SIZE then (INVALID_ARGUMENT, t)
      else if ops = None then (INVALID_ARGUMENT, t)
      else let d = block_device_drivers t maj
           in if registered d then (INVALID_ARGUMENT, t)
              else (SUCCESS, t\<lparr>block_device_drivers := (block_device_drivers t)(maj :=
                 d\<lparr>drv_name := put_name name (drv_name d), fops := ops, registered := True, nops := None\<rparr>)\<rparr>))"

definition register_network :: "u8 \<Rightarrow> string \<Rightarrow> 'w network_operations option \<Rightarrow> 'w devices \<Rightarrow> int \<times> 'w devices" where
  "register_network maj name ops t =
     (if length name > DEVICE_NAME_MAX_SIZE then (INVALID_ARGUMENT, t)
      else if ops = None then (INVALID_ARGUMENT, t)
      else let d = net_device_drivers t maj
           in if registered d then (INVALID_ARGUMENT, t)
              else (SUCCESS, t\<lparr>net_device_drivers := (net_device_drivers t)(maj :=
                 d\<lparr>drv_name := put_name name (drv_name d), nops := ops, registered := True, fops := None\<rparr>)\<rparr>))"

definition unregister_char :: "u8 \<Rightarrow> 'w devices \<Rightarrow> int \<times> 'w devices" where
  "unregister_char maj t =
     (if maj < CHAR_MIN_MAJOR then (INVALID_ARGUMENT, t)
      else let major_id = maj AND 0x7f; d = char_device_drivers t major_id
           in if \<not> registered d then (INVALID_ARGUMENT, t)
              else (SUCCESS, t\<lparr>char_device_drivers := (char_device_drivers t)(major_id := d\<lparr>registered := False\<rparr>)\<rparr>))"

definition unregister_block :: "u8 \<Rightarrow> 'w devices \<Rightarrow> int \<times> 'w devices" where
  "unregister_block maj t =
     (let d = block_device_drivers t maj
      in if \<not> registered d then (INVALID_ARGUMENT, t)
         else (SUCCESS, t\<lparr>block_device_drivers := (block_device_drivers t)(maj := d\<lparr>registered := False\<rparr>)\<rparr>))"

definition unregister_network :: "u8 \<Rightarrow> 'w devices \<Rightarrow> int \<times> 'w devices" where
  "unregister_network maj t =
     (let d = net_device_drivers t maj
      in if \<not> registered d then (INVALID_ARGUMENT, t)
         else (SUCCESS, t\<lparr>net_device_drivers := (net_device_drivers t)(maj := d\<lparr>registered := False\<rparr>)\<rparr>))"

section \<open>Devices\<close>

text \<open>The scan of the table keeps the next minor number and the first free slot.\<close>

definition scan_slot :: "u8 \<Rightarrow> nat \<Rightarrow> device \<Rightarrow> u16 \<times> nat option \<Rightarrow> u16 \<times> nat option" where
  "scan_slot maj i d acc =
     (case acc of (mn, index) \<Rightarrow>
        if valid d then (if major d = maj \<and> ucast (minor d) \<ge> mn then (ucast (minor d) + 1, index) else (mn, index))
        else (mn, case index of None \<Rightarrow> Some i | Some j \<Rightarrow> Some j))"

primrec scan_slots :: "u8 \<Rightarrow> nat \<Rightarrow> device list \<Rightarrow> u16 \<times> nat option \<Rightarrow> u16 \<times> nat option" where
  "scan_slots maj i [] acc = acc"
| "scan_slots maj i (d # ds) acc = scan_slots maj (Suc i) ds (scan_slot maj i d acc)"

text \<open>The result is the index of the new entry, whose \<open>name\<close> the C function returns.\<close>

definition device_create :: "u64 \<Rightarrow> u8 \<Rightarrow> u64 \<Rightarrow> 'w devices \<Rightarrow> (nat option \<times> 'w devices) res" where
  "device_create dcs maj i t =
     (if unat maj \<ge> length DEVICE_IDENTIFIERS then Inl (Panic ''array index out of bounds'')
      else case DEVICE_IDENTIFIERS ! unat maj of None \<Rightarrow> Inr (None, t)
        | Some ident \<Rightarrow>
            (case scan_slots maj 0 (devs t) (0, None) of
               (mn, None) \<Rightarrow> Inr (None, t)
             | (mn, Some index) \<Rightarrow>
                 let name = ident @ to_hex (unat mn + 0xA); d = devs t ! index;
                     d' = d\<lparr>major := maj AND 0x7f, bc := drop_bit 7 (maj AND 0x80), minor := ucast mn,
                            internal_id := i, device_control_structure := dcs,
                            dev_name := put_name name (dev_name d), valid := True\<rparr>
                 in Inr (Some index, t\<lparr>devs := (devs t)[index := d'], device_count := device_count t + 1\<rparr>)))"

definition get_device_count :: "'w devices \<Rightarrow> u32" where
  "get_device_count t = device_count t"

definition counted :: "'w devices \<Rightarrow> device list" where
  "counted t = take (unat (device_count t)) (devs t)"

definition get_device_count_by_major :: "u8 \<Rightarrow> 'w devices \<Rightarrow> u32" where
  "get_device_count_by_major maj t = of_nat (length (filter (\<lambda>d. major d = maj) (counted t)))"

primrec search_names :: "string \<Rightarrow> nat \<Rightarrow> device list \<Rightarrow> nat option res" where
  "search_names name i [] = Inr None"
| "search_names name i (d # ds) =
     res_bind (get_name (dev_name d)) (\<lambda>n. if n = name then Inr (Some i) else search_names name (Suc i) ds)"

definition device_search :: "string \<Rightarrow> 'w devices \<Rightarrow> nat option res" where
  "device_search name t = search_names name 0 (counted t)"

definition driver_get :: "u8 \<Rightarrow> u8 \<Rightarrow> 'w devices \<Rightarrow> 'w device_driver" where
  "driver_get b maj t =
     (if b = DEVICE_BLOCK then block_device_drivers t maj
      else if b = DEVICE_CHAR then char_device_drivers t maj else net_device_drivers t maj)"

definition with_driver :: "string \<Rightarrow> 'w devices \<Rightarrow> (device \<Rightarrow> 'w device_driver \<Rightarrow> (int \<times> 'w) res) \<Rightarrow> 'w \<Rightarrow> (int \<times> 'w) res" where
  "with_driver name t k w =
     res_bind (device_search name t) (\<lambda>r. case r of None \<Rightarrow> Inr (INVALID_ARGUMENT, w)
       | Some i \<Rightarrow>
           let d = devs t ! i; drv = driver_get (bc d) (major d) t
           in if \<not> valid d then Inr (INVALID_ARGUMENT, w)
              else if \<not> registered drv then Inr (INVALID_ARGUMENT, w) else k d drv)"

definition call_op :: "(u64 \<times> 'w) res \<Rightarrow> (int \<times> 'w) res" where
  "call_op r = res_bind r (\<lambda>(v, w). Inr (sint v, w))"

definition device_write :: "string \<Rightarrow> u64 \<Rightarrow> u64 \<Rightarrow> u64 \<Rightarrow> 'w devices \<Rightarrow> 'w \<Rightarrow> (int \<times> 'w) res" where
  "device_write name sz offset buffer t w =
     with_driver name t (\<lambda>d drv.
       case fops drv of None \<Rightarrow> Inr (INVALID_ARGUMENT, w)
       | Some ops \<Rightarrow> (case fop_write ops of None \<Rightarrow> Inr (INVALID_ARGUMENT, w)
           | Some f \<Rightarrow> call_op (f (internal_id d) sz offset buffer w))) w"

definition device_read :: "string \<Rightarrow> u64 \<Rightarrow> u64 \<Rightarrow> u64 \<Rightarrow> 'w devices \<Rightarrow> 'w \<Rightarrow> (int \<times> 'w) res" where
  "device_read name sz offset buffer t w =
     with_driver name t (\<lambda>d drv.
       case fops drv of None \<Rightarrow> Inr (INVALID_ARGUMENT, w)
       | Some ops \<Rightarrow> (case fop_read ops of None \<Rightarrow> Inr (INVALID_ARGUMENT, w)
           | Some f \<Rightarrow> call_op (f (internal_id d) sz offset buffer w))) w"

definition device_ioctl :: "string \<Rightarrow> u64 \<Rightarrow> u64 \<Rightarrow> 'w devices \<Rightarrow> 'w \<Rightarrow> (int \<times> 'w) res" where
  "device_ioctl name request data t w =
     with_driver name t (\<lambda>d drv.
       case fops drv of None \<Rightarrow> Inr (INVALID_ARGUMENT, w)
       | Some ops \<Rightarrow> (case fop_ioctl ops of None \<Rightarrow> Inr (INVALID_ARGUMENT, w)
           | Some f \<Rightarrow> call_op (f (internal_id d) (ucast request) data w))) w"

definition device_identify :: "string \<Rightarrow> string \<Rightarrow> 'w devices \<Rightarrow> int res" where
  "device_identify name driver_name t =
     res_bind (device_search name t) (\<lambda>r. case r of None \<Rightarrow> Inr INVALID_ARGUMENT
       | Some i \<Rightarrow>
           let d = devs t ! i; drv = driver_get (bc d) (major d) t
           in if \<not> valid d then Inr INVALID_ARGUMENT
              else if \<not> registered drv then Inr INVALID_ARGUMENT
              else res_bind (get_name (drv_name drv)) (\<lambda>n. Inr (if n \<noteq> driver_name then INVALID_ARGUMENT else SUCCESS)))"

definition get_first_device :: "'w devices \<Rightarrow> nat option" where
  "get_first_device t = List.find (\<lambda>i. valid (devs t ! i)) [0..<length (devs t)]"

definition get_next_device :: "nat \<Rightarrow> 'w devices \<Rightarrow> nat option" where
  "get_next_device current t = List.find (\<lambda>i. valid (devs t ! i) \<and> i > current) [0..<length (devs t)]"

definition init_devices :: "'w devices \<Rightarrow> 'w devices" where
  "init_devices t = t\<lparr>devs := map (\<lambda>d. d\<lparr>valid := False\<rparr>) (devs t),
     char_device_drivers := (\<lambda>m. char_device_drivers t m\<lparr>registered := False\<rparr>),
     block_device_drivers := (\<lambda>m. block_device_drivers t m\<lparr>registered := False\<rparr>),
     net_device_drivers := (\<lambda>m. net_device_drivers t m\<lparr>registered := False\<rparr>),
     device_count := 0, char_device_count := 0, block_device_count := 0\<rparr>"

section \<open>Names of devices\<close>

definition ident_names :: "string list" where
  "ident_names = [''none'', ''hd'', ''cd'', ''semb'', ''pm'', ''sd'', ''tty'', ''mouse'', ''net'', ''fb'', ''serial'', ''fifo'', ''kbd'', ''dcon'']"

definition ident_of :: "u8 \<Rightarrow> string option" where
  "ident_of maj = (if unat maj < length DEVICE_IDENTIFIERS then DEVICE_IDENTIFIERS ! unat maj else None)"

lemma length_identifiers: "length DEVICE_IDENTIFIERS = 0x91"
  by (simp add: DEVICE_IDENTIFIERS_def)

lemma ident_names_complete: "ident_of maj = Some x \<Longrightarrow> x \<in> set ident_names"
proof -
  assume "ident_of maj = Some x"
  then have "Some x \<in> set DEVICE_IDENTIFIERS" by (auto simp: ident_of_def in_set_conv_nth split: if_splits)
  then show ?thesis by (auto simp: DEVICE_IDENTIFIERS_def ident_names_def)
qed

lemma ident_names_prefix_free: "\<forall>x \<in> set ident_names. \<forall>y \<in> set ident_names. prefix x y \<longrightarrow> x = y"
  by code_simp

lemma ident_names_plain: "\<forall>x \<in> set ident_names. NUL \<notin> set x \<and> length x \<le> 6"
  by code_simp

lemma nth_filter_distinct:
  "distinct (filter P xs) \<Longrightarrow> i < length xs \<Longrightarrow> j < length xs \<Longrightarrow> P (xs ! i) \<Longrightarrow> xs ! i = xs ! j \<Longrightarrow> i = j"
proof (induction xs arbitrary: i j)
  case (Cons x xs)
  then show ?case by (cases i; cases j) (auto split: if_splits simp: in_set_conv_nth)
qed simp

lemma ident_of_inj:
  assumes "ident_of a = Some x" and "ident_of b = Some x" and "x \<noteq> ''none''"
  shows "a = b"
proof -
  have d: "distinct (filter (\<lambda>y. y \<noteq> None \<and> y \<noteq> Some ''none'') DEVICE_IDENTIFIERS)" by (simp add: DEVICE_IDENTIFIERS_def)
  have a: "unat a < length DEVICE_IDENTIFIERS" "DEVICE_IDENTIFIERS ! unat a = Some x"
    and b: "unat b < length DEVICE_IDENTIFIERS" "DEVICE_IDENTIFIERS ! unat b = Some x"
    using assms(1,2) by (simp_all add: ident_of_def split: if_splits)
  have "unat a = unat b" by (rule nth_filter_distinct [OF d a(1) b(1)]) (simp_all only: a(2) b(2) assms(3) option.inject option.distinct not_False_eq_True simp_thms)
  then show ?thesis by (simp add: word_unat_eq_iff)
qed

declare to_hex.simps [simp del]

lemma hex_digit_inj: "a < 16 \<Longrightarrow> b < 16 \<Longrightarrow> hex_digit a = hex_digit b \<Longrightarrow> a = b"
proof -
  have "distinct ''0123456789abcdef''" by simp
  then show "a < 16 \<Longrightarrow> b < 16 \<Longrightarrow> hex_digit a = hex_digit b \<Longrightarrow> a = b"
    using nth_eq_iff_index_eq [of "''0123456789abcdef''" a b] by simp
qed

lemma to_hex_nonempty: "to_hex n \<noteq> []"
  by (subst to_hex.simps) simp

lemma hex_digit_mod: "hex_digit n = hex_digit (n mod 16)"
  by simp

lemma to_hex_inj: "to_hex a = to_hex b \<Longrightarrow> a = b"
proof (induction a arbitrary: b rule: to_hex.induct)
  case (1 a)
  have digit: "hex_digit a = hex_digit b"
    using 1(2) by (subst (asm) to_hex.simps, subst (asm) to_hex.simps [of b]) (auto split: if_splits simp del: hex_digit.simps)
  then have m: "a mod 16 = b mod 16"
    using hex_digit_inj [of "a mod 16" "b mod 16"] by simp
  show ?case
  proof (cases "a < 16 \<or> b < 16")
    case True
    then have "a < 16 \<and> b < 16"
      using 1(2) by (subst (asm) to_hex.simps, subst (asm) to_hex.simps [of b])
        (auto split: if_splits simp: to_hex_nonempty append_eq_Cons_conv Cons_eq_append_conv simp del: hex_digit.simps)
    then show ?thesis using m by simp
  next
    case False
    then have "to_hex (a div 16) = to_hex (b div 16)"
      using 1(2) by (subst (asm) to_hex.simps, subst (asm) to_hex.simps [of b]) simp
    with 1(1) False have "a div 16 = b div 16" by simp
    then show ?thesis using m by (metis div_mult_mod_eq)
  qed
qed

lemma set_to_hex: "set (to_hex n) \<subseteq> set ''0123456789abcdef''"
proof (induction n rule: to_hex.induct)
  case (1 n)
  have "hex_digit n \<in> set ''0123456789abcdef''" by (subst hex_digit.simps, rule nth_mem) simp
  with 1 show ?case by (subst to_hex.simps) (auto simp del: hex_digit.simps)
qed

lemma length_to_hex: "n < 4096 \<Longrightarrow> length (to_hex n) \<le> 3"
  by (subst to_hex.simps, subst to_hex.simps, subst to_hex.simps) auto

definition device_name :: "string \<Rightarrow> nat \<Rightarrow> string" where
  "device_name ident mn = ident @ to_hex (mn + 0xA)"

lemma device_name_inj:
  assumes "device_name x m = device_name y n" and "x \<in> set ident_names" and "y \<in> set ident_names"
  shows "x = y \<and> m = n"
proof -
  from assms(1) have "prefix x y \<or> prefix y x"
    unfolding device_name_def by (metis prefixI prefix_same_cases)
  then have "x = y" using assms(2,3) ident_names_prefix_free by blast
  with assms(1) to_hex_inj [of "m + 0xA" "n + 0xA"] show ?thesis by (simp add: device_name_def)
qed

lemma get_put_name:
  assumes "x \<in> set ident_names" and "m \<le> 256"
  shows "get_name (put_name (device_name x m) (replicate 256 NUL)) = Inr (device_name x m)"
    and "length (put_name (device_name x m) (replicate 256 NUL)) = 256"
proof -
  have x: "NUL \<notin> set x" "length x \<le> 6" using assms(1) ident_names_plain by auto
  have h: "NUL \<notin> set (to_hex (m + 10))" using set_to_hex [of "m + 10"] by (auto simp: NUL_def)
  have l: "length (to_hex (m + 10)) \<le> 3" using length_to_hex [of "m + 10"] assms(2) by simp
  let ?n = "device_name x m"
  have n: "NUL \<notin> set ?n" "length ?n < 256" using x h l by (auto simp: device_name_def)
  then have r: "drop (length ?n) (replicate 256 NUL) = NUL # replicate (255 - length ?n) NUL"
    by (simp add: Suc_diff_Suc flip: replicate_Suc)
  have "takeWhile (\<lambda>c. c \<noteq> NUL) (?n @ NUL # ys) = ?n" for ys using n(1) by (subst takeWhile_append2) auto
  then show "get_name (put_name ?n (replicate 256 NUL)) = Inr ?n" by (simp add: put_name_def r get_name_def del: drop_replicate)
  show "length (put_name ?n (replicate 256 NUL)) = 256" using n(2) by (simp add: put_name_def)
qed

section \<open>The table\<close>

definition full_major :: "device \<Rightarrow> u8" where
  "full_major d = push_bit 7 (bc d) OR major d"

definition named :: "nat \<Rightarrow> device \<Rightarrow> bool" where
  "named i d \<longleftrightarrow> valid d \<and> unat (minor d) \<le> i \<and> major d < 0x80 \<and>
     (\<exists>x. ident_of (full_major d) = Some x \<and> get_name (dev_name d) = Inr (device_name x (unat (minor d))))"

definition devices_ok :: "'w devices \<Rightarrow> bool" where
  "devices_ok t \<longleftrightarrow> length (devs t) = 256 \<and> unat (device_count t) \<le> 256 \<and>
     (\<forall>i < 256. if i < unat (device_count t) then named i (devs t ! i)
        else \<not> valid (devs t ! i) \<and> dev_name (devs t ! i) = replicate 256 NUL)"

lemma scan_invalid:
  "\<forall>d \<in> set ds. \<not> valid d \<Longrightarrow>
     scan_slots maj i ds (m, ix) = (m, case ix of Some j \<Rightarrow> Some j | None \<Rightarrow> if ds = [] then None else Some i)"
  by (induction ds arbitrary: i ix) (auto simp: scan_slot_def split: option.split)

lemma unat_ucast_minor [simp]: "unat (ucast (w :: u8) :: u16) = unat w"
  using unsigned_less [of w, where 'a = nat] by (simp add: unsigned_ucast_eq take_bit_nat_eq_self)

lemma scan_valid:
  assumes "\<forall>j < length ds. valid (ds ! j) \<and> unat (minor (ds ! j)) \<le> i + j" and "unat m \<le> i" and "i + length ds \<le> 256"
  shows "\<exists>m' \<ge> m. scan_slots maj i ds (m, ix) = (m', ix) \<and> unat m' \<le> i + length ds \<and>
     (\<forall>d \<in> set ds. major d = maj \<longrightarrow> unat (minor d) < unat m') \<and> ((\<forall>d \<in> set ds. major d \<noteq> maj) \<longrightarrow> m' = m)"
  using assms
proof (induction ds arbitrary: i m)
  case (Cons d ds)
  define m1 where "m1 = (if major d = maj \<and> ucast (minor d) \<ge> m then ucast (minor d) + 1 else m)"
  have d: "valid d" "unat (minor d) \<le> i" using Cons.prems(1) by (auto dest: spec [of _ 0])
  have u: "unat (ucast (minor d) + 1 :: u16) = unat (minor d) + 1"
    using unsigned_less [of "minor d", where 'a = nat] by (simp add: unat_word_ariths)
  have m1: "m \<le> m1" "unat m1 \<le> Suc i" "major d = maj \<longrightarrow> unat (minor d) < unat m1" "major d \<noteq> maj \<longrightarrow> m1 = m"
    using u d(2) Cons.prems(2) by (auto simp: m1_def word_le_nat_alt)
  have step: "scan_slots maj i (d # ds) (m, ix) = scan_slots maj (Suc i) ds (m1, ix)"
    using d(1) by (simp add: scan_slot_def m1_def)
  have "\<forall>j < length ds. valid (ds ! j) \<and> unat (minor (ds ! j)) \<le> Suc i + j" using Cons.prems(1) by fastforce
  from Cons.IH [OF this m1(2)] Cons.prems(3) obtain m' where m': "m' \<ge> m1" "scan_slots maj (Suc i) ds (m1, ix) = (m', ix)"
    "unat m' \<le> Suc i + length ds" "\<forall>d \<in> set ds. major d = maj \<longrightarrow> unat (minor d) < unat m'"
    "(\<forall>d \<in> set ds. major d \<noteq> maj) \<longrightarrow> m' = m1" by auto
  moreover have "unat m1 \<le> unat m'" using m'(1) by (simp add: word_le_nat_alt)
  ultimately show ?case using m1 step by (intro exI [of _ m']) auto
qed auto

lemma device_create_slot:
  assumes "devices_ok t" and "unat (device_count t) < 256" and "ident_of maj = Some x"
  obtains mn t' where "device_create dcs maj k t = Inr (Some (unat (device_count t)), t')" and "devices_ok t'"
    and "unat (device_count t') = Suc (unat (device_count t))"
    and "\<And>i. i < unat (device_count t) \<Longrightarrow> devs t' ! i = devs t ! i"
    and "internal_id (devs t' ! unat (device_count t)) = k"
    and "get_name (dev_name (devs t' ! unat (device_count t))) = Inr (device_name x mn)"
    and "\<And>i. i < unat (device_count t) \<Longrightarrow> major (devs t ! i) = maj \<Longrightarrow> unat (minor (devs t ! i)) < mn"
    and "(\<And>i. i < unat (device_count t) \<Longrightarrow> major (devs t ! i) \<noteq> maj) \<Longrightarrow> mn = 0"
proof -
  let ?n = "unat (device_count t)"
  let ?pre = "take ?n (devs t)" and ?post = "drop ?n (devs t)"
  have len: "length (devs t) = 256" using assms(1) by (simp add: devices_ok_def)
  have ok: "i < ?n \<Longrightarrow> named i (devs t ! i)" and free: "?n \<le> i \<Longrightarrow> i < 256 \<Longrightarrow> \<not> valid (devs t ! i) \<and> dev_name (devs t ! i) = replicate 256 NUL" for i
    using assms(1,2) by (auto simp: devices_ok_def split: if_splits)
  have "\<forall>j < length ?pre. valid (?pre ! j) \<and> unat (minor (?pre ! j)) \<le> 0 + j" using ok by (simp add: named_def)
  from scan_valid [OF this, of 0 maj None] obtain m where m: "scan_slots maj 0 ?pre (0, None) = (m, None)" "unat m \<le> ?n"
    "\<forall>d \<in> set ?pre. major d = maj \<longrightarrow> unat (minor d) < unat m" "(\<forall>d \<in> set ?pre. major d \<noteq> maj) \<longrightarrow> m = 0"
    using assms(2) len by auto
  have app: "scan_slots maj i (xs @ ys) acc = scan_slots maj (i + length xs) ys (scan_slots maj i xs acc)" for i xs ys acc
    by (induction xs arbitrary: i acc) auto
  have "\<forall>d \<in> set ?post. \<not> valid d" using free len by (auto simp: in_set_conv_nth)
  then have scan: "scan_slots maj 0 (devs t) (0, None) = (m, Some ?n)"
    using app [of 0 ?pre ?post] m(1) assms(2) len by (simp add: scan_invalid)
  define d' where "d' = (devs t ! ?n)\<lparr>major := maj AND 0x7f, bc := drop_bit 7 (maj AND 0x80), minor := ucast m,
     internal_id := k, device_control_structure := dcs, dev_name := put_name (device_name x (unat m)) (dev_name (devs t ! ?n)), valid := True\<rparr>"
  define t' where "t' = t\<lparr>devs := (devs t)[?n := d'], device_count := device_count t + 1\<rparr>"
  have create: "device_create dcs maj k t = Inr (Some ?n, t')"
    using assms(3) scan by (simp add: device_create_def ident_of_def d'_def t'_def device_name_def Let_def split: if_splits)
  have cnt: "unat (device_count t') = Suc ?n"
    using assms(2) by (simp add: t'_def unat_word_ariths)
  have um: "unat (ucast m :: u8) = unat m" using m(2) assms(2) by (simp add: unsigned_ucast_eq take_bit_nat_eq_self)
  have name: "get_name (dev_name d') = Inr (device_name x (unat m))"
    using get_put_name [OF ident_names_complete [OF assms(3)], of "unat m"] free [of ?n] assms(2) m(2) by (simp add: d'_def)
  have maj: "push_bit 7 (drop_bit 7 (maj AND 0x80)) OR (maj AND 0x7f) = maj"
  proof (rule bit_word_eqI)
    fix n :: nat
    assume n: "n < LENGTH(8)"
    have "(0x80 :: u8) = push_bit 7 1" by simp
    moreover have "bit (0x7f :: u8) n \<longleftrightarrow> n < 7"
      using bit_mask_iff [of 7 n, where 'a = "8 word"] n by (auto simp: mask_eq_exp_minus_1)
    ultimately show "bit (push_bit 7 (drop_bit 7 (maj AND 0x80)) OR (maj AND 0x7f)) n = bit maj n"
      using n by (cases "n = 7") (auto simp: bit_simps bit_1_iff)
  qed
  have "maj AND 0x7f < 0x80" using word_and_le1 [of maj "0x7f"] by (auto intro: le_less_trans)
  then have "named ?n d'"
    using assms(3) name m(2) um maj by (simp add: named_def d'_def full_major_def)
  then have "devices_ok t'"
    using assms(1,2) cnt len ok free by (auto simp: devices_ok_def nth_list_update t'_def less_Suc_eq)
  moreover have "\<And>i. i < ?n \<Longrightarrow> major (devs t ! i) = maj \<Longrightarrow> unat (minor (devs t ! i)) < unat m"
    using m(3) len assms(2) by (simp add: all_set_conv_all_nth)
  moreover have "unat m = 0" if "\<And>i. i < ?n \<Longrightarrow> major (devs t ! i) \<noteq> maj"
    using m(4) that len assms(2) by (simp add: all_set_conv_all_nth)
  moreover have "devs t' ! i = devs t ! i" if "i < ?n" for i using that by (simp add: t'_def)
  moreover have "devs t' ! ?n = d'" using len assms(2) by (simp add: t'_def)
  ultimately show thesis using create cnt name by (intro that [of t' "unat m"]) (simp_all add: d'_def)
qed

definition name_at :: "'w devices \<Rightarrow> nat \<Rightarrow> string" where
  "name_at t i = takeWhile (\<lambda>c. c \<noteq> NUL) (dev_name (devs t ! i))"

lemma get_name_takeWhile: "get_name b = Inr n \<Longrightarrow> n = takeWhile (\<lambda>c. c \<noteq> NUL) b"
  by (simp add: get_name_def split: if_splits)

lemma search_names_find:
  assumes "\<forall>j < length ds. get_name (dev_name (ds ! j)) = Inr (f (i + j))"
  shows "search_names name i ds = Inr (List.find (\<lambda>j. f j = name) [i..<i + length ds])"
  using assms
proof (induction ds arbitrary: i)
  case (Cons d ds)
  have "get_name (dev_name d) = Inr (f i)" using Cons.prems by (auto dest: spec [of _ 0])
  moreover have "\<forall>j < length ds. get_name (dev_name (ds ! j)) = Inr (f (Suc i + j))" using Cons.prems by fastforce
  ultimately show ?case using Cons.IH [of "Suc i"] by (simp add: upt_conv_Cons del: upt_Suc)
qed simp

lemma devices_ok_named: "devices_ok t \<Longrightarrow> i < unat (device_count t) \<Longrightarrow> named i (devs t ! i)"
  by (simp add: devices_ok_def)

lemma named_name: "named i (devs t ! i) \<Longrightarrow> get_name (dev_name (devs t ! i)) = Inr (name_at t i)"
  by (auto simp: named_def name_at_def get_name_def split: if_splits)

lemma device_search_find:
  assumes "devices_ok t"
  shows "device_search name t = Inr (List.find (\<lambda>j. name_at t j = name) [0..<unat (device_count t)])"
proof -
  have len: "length (counted t) = unat (device_count t)" using assms by (simp add: devices_ok_def counted_def)
  have "\<forall>j < length (counted t). get_name (dev_name (counted t ! j)) = Inr (name_at t (0 + j))"
    unfolding len by (simp add: counted_def named_name devices_ok_named [OF assms])
  from search_names_find [OF this] show ?thesis by (simp add: device_search_def len)
qed

lemma devices_ok_names:
  assumes "devices_ok t" and "i < unat (device_count t)"
  shows "\<exists>x. ident_of (full_major (devs t ! i)) = Some x \<and> name_at t i = device_name x (unat (minor (devs t ! i)))"
  using devices_ok_named [OF assms] named_name [of i t] by (auto simp: named_def)

lemma find_upt_Suc: "List.find P [0..<Suc n] = (case List.find P [0..<n] of Some j \<Rightarrow> Some j | None \<Rightarrow> if P n then Some n else None)"
proof -
  have "List.find P (xs @ [n]) = (case List.find P xs of Some j \<Rightarrow> Some j | None \<Rightarrow> if P n then Some n else None)" for xs
    by (induction xs) auto
  then show ?thesis by simp
qed

lemma name_at_cong: "devs t' ! i = devs t ! i \<Longrightarrow> name_at t' i = name_at t i"
  by (simp add: name_at_def)

lemma find_cong_upt: "(\<And>i. i < n \<Longrightarrow> P i = Q i) \<Longrightarrow> List.find P [0..<n] = List.find Q [0..<n]"
  by (rule find_cong) auto

lemma full_major_block:
  assumes "full_major d = maj" and "maj < 0x80" and "major d < 0x80"
  shows "major d = maj"
proof -
  have "\<not> bit maj 7"
    using assms(2) by (simp add: bit_iff_odd div_word_less)
  moreover have "bit maj 7 = (bit (bc d) 0 \<or> bit (major d) 7)"
    using assms(1) by (auto simp: full_major_def bit_simps)
  ultimately have b: "\<not> bit (bc d) 0" by blast
  have "push_bit 7 (bc d) = 0"
    by (rule bit_word_eqI) (use b in \<open>auto simp: bit_simps less_Suc_eq_le dest!: le_antisym\<close>)
  then show ?thesis using assms(1) by (simp add: full_major_def)
qed

section \<open>Properties\<close>

text \<open>Creating a block device of a named kind in a table with room succeeds, keeps the table well
  formed, and the new device is then found under a name no earlier device has; every other name is found where
  it was found before.\<close>

theorem device_create_found:
  assumes "devices_ok t" and "unat (device_count t) < 256" and "maj < 0x80" and "ident_of maj = Some x" and "x \<noteq> ''none''"
  shows "\<exists>i t' name. device_create dcs maj k t = Inr (Some i, t') \<and> devices_ok t' \<and> internal_id (devs t' ! i) = k \<and>
     get_name (dev_name (devs t' ! i)) = Inr name \<and> device_search name t = Inr None \<and> device_search name t' = Inr (Some i) \<and>
     (\<forall>name'. name' \<noteq> name \<longrightarrow> device_search name' t' = device_search name' t)"
proof -
  let ?n = "unat (device_count t)"
  obtain mn t' where c: "device_create dcs maj k t = Inr (Some ?n, t')" "devices_ok t'" "unat (device_count t') = Suc ?n"
    and same: "\<And>i. i < ?n \<Longrightarrow> devs t' ! i = devs t ! i" and k: "internal_id (devs t' ! ?n) = k"
    and name: "get_name (dev_name (devs t' ! ?n)) = Inr (device_name x mn)"
    and fresh: "\<And>i. i < ?n \<Longrightarrow> major (devs t ! i) = maj \<Longrightarrow> unat (minor (devs t ! i)) < mn"
    by (rule device_create_slot [OF assms(1,2,4), where dcs = dcs and k = k]) blast
  let ?name = "device_name x mn"
  have old: "name_at t i \<noteq> ?name" if i: "i < ?n" for i
  proof
    assume eq: "name_at t i = ?name"
    obtain y where y: "ident_of (full_major (devs t ! i)) = Some y" "name_at t i = device_name y (unat (minor (devs t ! i)))"
      using devices_ok_names [OF assms(1) i] by blast
    have "y = x" and m: "unat (minor (devs t ! i)) = mn"
      using device_name_inj [of y _ x mn] y eq ident_names_complete [OF y(1)] ident_names_complete [OF assms(4)] by auto
    then have "full_major (devs t ! i) = maj" using ident_of_inj [OF _ assms(4,5)] y(1) by simp
    moreover have "major (devs t ! i) < 0x80" using devices_ok_named [OF assms(1) i] by (simp add: named_def)
    ultimately have "major (devs t ! i) = maj" using full_major_block assms(3) by blast
    with fresh [OF i] m show False by simp
  qed
  have "name_at t' ?n = ?name" using name named_name devices_ok_named [OF c(2), of ?n] c(3) by (metis lessI sum.inject(2))
  moreover have "name_at t' i = name_at t i" if "i < ?n" for i using same [OF that] by (rule name_at_cong)
  then have "List.find (\<lambda>j. name_at t' j = nm) [0..<?n] = List.find (\<lambda>j. name_at t j = nm) [0..<?n]" for nm
    by (intro find_cong_upt) simp
  ultimately have "device_search nm t' = (case device_search nm t of Inr (Some j) \<Rightarrow> Inr (Some j) | _ \<Rightarrow> Inr (if ?name = nm then Some ?n else None))" for nm
    using device_search_find [OF c(2)] device_search_find [OF assms(1)] c(3) by (simp add: find_upt_Suc del: upt_Suc split: option.split)
  moreover have none: "device_search ?name t = Inr None"
    using device_search_find [OF assms(1)] old by (simp add: find_None_iff)
  moreover have "device_search nm t = Inr r \<Longrightarrow> r = None \<or> (\<exists>j. r = Some j)" for nm r by (cases r) auto
  ultimately show ?thesis
    using c k name device_search_find [OF assms(1)]
    by (intro exI [of _ ?n] exI [of _ t'] exI [of _ ?name]) (auto split: option.split)
qed

definition no_driver :: "'w device_driver" where
  "no_driver = \<lparr>fops = None, nops = None, registered = False, drv_name = replicate 256 NUL\<rparr>"

definition empty_slot :: device where
  "empty_slot = \<lparr>bc = 0, valid = False, major = 0, minor = 0, dev_name = replicate 256 NUL, internal_id = 0, device_control_structure = 0\<rparr>"

definition no_devices :: "unit devices" where
  "no_devices = \<lparr>char_device_drivers = (\<lambda>_. no_driver), block_device_drivers = (\<lambda>_. no_driver), net_device_drivers = (\<lambda>_. no_driver),
     char_device_count = 0, block_device_count = 0, devs = replicate 256 empty_slot, device_count = 0\<rparr>"

lemma no_devices_ok: "devices_ok no_devices" "unat (device_count no_devices) < 255"
  by (simp_all add: devices_ok_def no_devices_def empty_slot_def)

theorem device_create_found_witness:
  "\<exists>i t' name. device_create 0x5000 8 7 no_devices = Inr (Some i, t') \<and> internal_id (devs t' ! i) = 7 \<and>
     get_name (dev_name (devs t' ! i)) = Inr name \<and> device_search name t' = Inr (Some i)"
proof -
  have "ident_of 8 = Some ''hd''" by (simp add: ident_of_def DEVICE_IDENTIFIERS_def)
  from device_create_found [OF no_devices_ok(1) _ _ this, of "0x5000" 7] no_devices_ok(2) show ?thesis by auto
qed

text \<open>Two character devices of the same kind get the same name, whatever the table holds: the scan compares
  the stored seven-bit number with the full one, so both get minor number 0, and the second is never
  found by its name.\<close>

theorem char_devices_share_name:
  assumes "devices_ok t" and "unat (device_count t) < 255" and "maj \<ge> 0x80" and "ident_of maj = Some x"
  shows "\<exists>i j t1 t2. device_create c1 maj k1 t = Inr (Some i, t1) \<and> device_create c2 maj k2 t1 = Inr (Some j, t2) \<and> i \<noteq> j \<and>
     get_name (dev_name (devs t2 ! i)) = Inr (device_name x 0) \<and> get_name (dev_name (devs t2 ! j)) = Inr (device_name x 0) \<and>
     device_search (device_name x 0) t2 \<noteq> Inr (Some j)"
proof -
  have block: "major (devs t' ! i) \<noteq> maj" if "devices_ok t'" "i < unat (device_count t')" for t' :: "'a devices" and i
    using devices_ok_named [OF that] assms(3) by (auto simp: named_def)
  let ?n = "unat (device_count t)"
  have n: "?n < 256" using assms(2) by simp
  obtain m1 t1 where t1: "device_create c1 maj k1 t = Inr (Some ?n, t1)" "devices_ok t1" "unat (device_count t1) = Suc ?n"
    "get_name (dev_name (devs t1 ! ?n)) = Inr (device_name x m1)" "m1 = 0"
    by (rule device_create_slot [OF assms(1) n assms(4), where dcs = c1 and k = k1]) (use block [OF assms(1)] in blast)
  have n1: "unat (device_count t1) < 256" using t1(3) assms(2) by simp
  obtain m2 t2 where t2: "device_create c2 maj k2 t1 = Inr (Some (Suc ?n), t2)" "devices_ok t2" "unat (device_count t2) = Suc (Suc ?n)"
    "get_name (dev_name (devs t2 ! Suc ?n)) = Inr (device_name x m2)" "m2 = 0" "devs t2 ! ?n = devs t1 ! ?n"
    by (rule device_create_slot [OF t1(2) n1 assms(4), where dcs = c2 and k = k2]) (use block [OF t1(2)] t1(3) in auto)
  have "name_at t2 ?n = device_name x 0"
    using get_name_takeWhile [OF t1(4)] t1(5) t2(6) by (simp add: name_at_def)
  then have "\<exists>j. List.find (\<lambda>j. name_at t2 j = device_name x 0) [0..<Suc ?n] = Some j \<and> j < Suc ?n"
    by (cases "List.find (\<lambda>j. name_at t2 j = device_name x 0) [0..<Suc ?n]") (auto simp: find_None_iff find_Some_iff simp del: upt_Suc)
  then have "device_search (device_name x 0) t2 \<noteq> Inr (Some (Suc ?n))"
    using device_search_find [OF t2(2)] t2(3) by (auto simp: find_upt_Suc [of _ "Suc ?n"] simp del: upt_Suc)
  then show ?thesis using t1 t2 by (intro exI [of _ ?n] exI [of _ "Suc ?n"] exI [of _ t1] exI [of _ t2]) simp
qed

theorem char_devices_share_name_witness:
  "\<exists>i j t1 t2. device_create 0 0x8d 0x3f8 no_devices = Inr (Some i, t1) \<and> device_create 0 0x8d 0x2f8 t1 = Inr (Some j, t2) \<and>
     device_search (device_name ''serial'' 0) t2 \<noteq> Inr (Some j)"
proof -
  have "ident_of 0x8d = Some ''serial''" by (simp add: ident_of_def DEVICE_IDENTIFIERS_def nth_append)
  from char_devices_share_name [OF no_devices_ok _ this, of 0 "0x3f8" 0 "0x2f8"] show ?thesis by auto
qed

end
