(* ===== verification/Disk.thy ===== *)
theory Disk
  imports Devices
begin

text \<open>
  The disk driver and its interface, drivers/disk/disk.c and drivers/disk/disk_interface.c.  A
  buffer is given by the bytes behind its pointer, as a function of the offset; copying overwrites a
  range of it.  The drive behind an AHCI port is hardware: it transfers one sector of 512 bytes, or the command fails.
  Which sectors it can transfer and what they hold is its state.
\<close>

type_synonym bytes = "nat \<Rightarrow> u8"

definition blit :: "bytes \<Rightarrow> nat \<Rightarrow> bytes \<Rightarrow> nat \<Rightarrow> bytes" where
  "blit dst off src n = (\<lambda>k. if off \<le> k \<and> k < off + n then src (k - off) else dst k)"

definition get16 :: "bytes \<Rightarrow> nat \<Rightarrow> u16" where
  "get16 b k = ucast (b k) OR push_bit 8 (ucast (b (k + 1)))"

definition get32 :: "bytes \<Rightarrow> nat \<Rightarrow> u32" where
  "get32 b k = ucast (get16 b k) OR push_bit 16 (ucast (get16 b (k + 2)))"

definition get64 :: "bytes \<Rightarrow> nat \<Rightarrow> u64" where
  "get64 b k = ucast (get32 b k) OR push_bit 32 (ucast (get32 b (k + 4)))"

definition put16 :: "bytes \<Rightarrow> nat \<Rightarrow> u16 \<Rightarrow> bytes" where
  "put16 b k v = b(k := ucast v, k + 1 := ucast (drop_bit 8 v))"

definition put64 :: "bytes \<Rightarrow> nat \<Rightarrow> u64 \<Rightarrow> bytes" where
  "put64 b k v = (\<lambda>j. if k \<le> j \<and> j < k + 8 then ucast (drop_bit (8 * (j - k)) v) else b j)"

definition put32 :: "bytes \<Rightarrow> nat \<Rightarrow> u32 \<Rightarrow> bytes" where
  "put32 b k v = put16 (put16 b k (ucast v)) (k + 2) (ucast (drop_bit 16 v))"

record drive =
  dr_sector :: "u64 \<Rightarrow> bytes"
  dr_ok :: "u64 \<Rightarrow> bool"
  dr_ident :: bytes

section \<open>The driver\<close>

definition size_to_blocks :: "u64 \<Rightarrow> u64" where
  "size_to_blocks sz = (sz + 511) div 512"

definition block_to_size :: "u64 \<Rightarrow> u64" where
  "block_to_size blocks = blocks * 512"

primrec read_sectors :: "nat \<Rightarrow> drive \<Rightarrow> u64 \<Rightarrow> nat \<Rightarrow> bytes \<Rightarrow> nat \<Rightarrow> nat \<times> bytes" where
  "read_sectors 0 d off i buf pos = (i, buf)"
| "read_sectors (Suc n) d off i buf pos =
     (if dr_ok d (off + of_nat i)
      then read_sectors n d off (Suc i) (blit buf (pos + 512 * i) (dr_sector d (off + of_nat i)) 512) pos
      else (i, buf))"

definition dd_disk_read :: "drive \<Rightarrow> u64 \<Rightarrow> u64 \<Rightarrow> bytes \<Rightarrow> nat \<Rightarrow> u64 \<times> bytes" where
  "dd_disk_read d nbytes off buf pos =
     (let sz = size_to_blocks nbytes; (i, buf') = read_sectors (unat sz) d off 0 buf pos
      in (if i = unat sz then nbytes else block_to_size (of_nat i), buf'))"

definition put_sector :: "drive \<Rightarrow> u64 \<Rightarrow> bytes \<Rightarrow> nat \<Rightarrow> drive" where
  "put_sector d s src pos =
     d\<lparr>dr_sector := (dr_sector d)(s := (\<lambda>k. if k < 512 then src (pos + k) else dr_sector d s k))\<rparr>"

primrec write_sectors :: "nat \<Rightarrow> drive \<Rightarrow> u64 \<Rightarrow> nat \<Rightarrow> bytes \<Rightarrow> nat \<Rightarrow> nat \<times> drive" where
  "write_sectors 0 d off i src pos = (i, d)"
| "write_sectors (Suc n) d off i src pos =
     (if dr_ok d (off + of_nat i)
      then write_sectors n (put_sector d (off + of_nat i) src (pos + 512 * i)) off (Suc i) src pos
      else (i, d))"

definition dd_disk_write :: "drive \<Rightarrow> u64 \<Rightarrow> u64 \<Rightarrow> bytes \<Rightarrow> nat \<Rightarrow> u64 \<times> drive" where
  "dd_disk_write d nbytes off src pos =
     (let sz = size_to_blocks nbytes; (i, d') = write_sectors (unat sz) d off 0 src pos
      in (if i = unat sz then nbytes else block_to_size (of_nat i), d'))"

text \<open>A packet drive transfers all sectors with one command.\<close>

definition dd_disk_atapi_read :: "drive \<Rightarrow> u64 \<Rightarrow> u64 \<Rightarrow> bytes \<Rightarrow> nat \<Rightarrow> u64 \<times> bytes" where
  "dd_disk_atapi_read d nbytes off buf pos =
     (let sz = size_to_blocks nbytes
      in if \<not> (\<forall>i \<in> {0..<unat sz}. dr_ok d (off + of_nat i)) then (0, buf)
         else (nbytes, blit buf pos (\<lambda>k. dr_sector d (off + of_nat (k div 512)) (k mod 512)) (512 * unat sz)))"

definition dd_disk_atapi_write :: "u64 \<Rightarrow> u64 \<Rightarrow> u64 \<Rightarrow> u64 \<Rightarrow> 'w \<Rightarrow> (u64 \<times> 'w) res" where
  "dd_disk_atapi_write port nbytes off ptr w = Inl (Panic ''ATAPI WRITE NOT IMPLEMENTED'')"

definition IOCTL_ATAPI_IDENTIFY :: u32 where "IOCTL_ATAPI_IDENTIFY = 1"

definition IOCTL_INIT :: u32 where "IOCTL_INIT = 3"

definition IOCTL_CTRL_SYNC :: u32 where "IOCTL_CTRL_SYNC = 4"

definition IOCTL_CTRL_TRIM :: u32 where "IOCTL_CTRL_TRIM = 5"

definition IOCTL_GET_SECTOR_SIZE :: u32 where "IOCTL_GET_SECTOR_SIZE = 6"

definition IOCTL_GET_SECTOR_COUNT :: u32 where "IOCTL_GET_SECTOR_COUNT = 7"

definition IOCTL_GET_BLOCK_SIZE :: u32 where "IOCTL_GET_BLOCK_SIZE = 8"

definition sident_capacity :: "bytes \<Rightarrow> u64" where
  "sident_capacity ident = get64 ident 114"

definition dd_ioctl :: "drive \<Rightarrow> u32 \<Rightarrow> bytes \<Rightarrow> u64 \<times> bytes" where
  "dd_ioctl d op data =
     (if op = IOCTL_ATAPI_IDENTIFY then (0, blit data 0 (dr_ident d) 512)
      else if op = IOCTL_INIT \<or> op = IOCTL_CTRL_SYNC \<or> op = IOCTL_CTRL_TRIM then (1, put32 data 0 1)
      else if op = IOCTL_GET_SECTOR_SIZE \<or> op = IOCTL_GET_BLOCK_SIZE then (512, put32 data 0 512)
      else if op = IOCTL_GET_SECTOR_COUNT
        then (sident_capacity (dr_ident d), put64 data 0 (sident_capacity (dr_ident d)))
      else (0, data))"

text \<open>The operations of the driver as the device layer calls them; the state holds the drives by
  port and the buffer of the call.\<close>

record disk_io =
  drives :: "u8 \<Rightarrow> drive"
  io_buf :: bytes

definition DISK_ATA_DD_NAME :: string where "DISK_ATA_DD_NAME = ''ATA DRIVER''"

definition DISK_ATAPI_DD_NAME :: string where "DISK_ATAPI_DD_NAME = ''ATAPI DRIVER''"

definition io_read :: "(drive \<Rightarrow> u64 \<Rightarrow> u64 \<Rightarrow> bytes \<Rightarrow> nat \<Rightarrow> u64 \<times> bytes) \<Rightarrow> u64 \<Rightarrow> u64 \<Rightarrow> u64 \<Rightarrow> u64 \<Rightarrow> disk_io \<Rightarrow> (u64 \<times> disk_io) res" where
  "io_read f port nbytes off ptr w =
     (case f (drives w (ucast port)) nbytes off (io_buf w) 0 of (r, b) \<Rightarrow> Inr (r, w\<lparr>io_buf := b\<rparr>))"

definition io_write :: "u64 \<Rightarrow> u64 \<Rightarrow> u64 \<Rightarrow> u64 \<Rightarrow> disk_io \<Rightarrow> (u64 \<times> disk_io) res" where
  "io_write port nbytes off ptr w =
     (case dd_disk_write (drives w (ucast port)) nbytes off (io_buf w) 0 of
        (r, d) \<Rightarrow> Inr (r, w\<lparr>drives := (drives w)(ucast port := d)\<rparr>))"

definition io_ioctl :: "u64 \<Rightarrow> u32 \<Rightarrow> u64 \<Rightarrow> disk_io \<Rightarrow> (u64 \<times> disk_io) res" where
  "io_ioctl port op ptr w = (case dd_ioctl (drives w (ucast port)) op (io_buf w) of (r, b) \<Rightarrow> Inr (r, w\<lparr>io_buf := b\<rparr>))"

definition ata_fops :: "disk_io file_operations" where
  "ata_fops = \<lparr>fop_read = Some (io_read dd_disk_read), fop_write = Some io_write, fop_ioctl = Some io_ioctl\<rparr>"

definition atapi_fops :: "disk_io file_operations" where
  "atapi_fops = \<lparr>fop_read = Some (io_read dd_disk_atapi_read), fop_write = Some dd_disk_atapi_write, fop_ioctl = Some io_ioctl\<rparr>"

definition init_drive :: "disk_io devices \<Rightarrow> disk_io devices" where
  "init_drive t = snd (register_block 9 DISK_ATAPI_DD_NAME (Some atapi_fops) (snd (register_block 8 DISK_ATA_DD_NAME (Some ata_fops) t)))"

section \<open>The interface\<close>

definition STATUS_NOT_READY :: u8 where "STATUS_NOT_READY = 0"

definition STATUS_READY :: u8 where "STATUS_READY = 1"

definition disk_get_status :: "string \<Rightarrow> disk_io devices \<Rightarrow> u8 res" where
  "disk_get_status disk t =
     res_bind (device_search disk t) (\<lambda>r. Inr (if r \<noteq> None then STATUS_READY else STATUS_NOT_READY))"

definition get_disk_status :: "string \<Rightarrow> disk_io devices \<Rightarrow> int res" where
  "get_disk_status drive t = res_bind (device_search drive t) (\<lambda>r. Inr (if r \<noteq> None then 1 else 0))"

definition disk_ioctl :: "string \<Rightarrow> u32 \<Rightarrow> disk_io devices \<Rightarrow> disk_io \<Rightarrow> (u64 \<times> disk_io) res" where
  "disk_ioctl name op t w =
     res_bind (device_ioctl name (ucast op) 0 t w) (\<lambda>(r, w'). Inr (if r \<noteq> 0 then 1 else 0, w'))"

definition ioctl_disk :: "string \<Rightarrow> u32 \<Rightarrow> disk_io devices \<Rightarrow> disk_io \<Rightarrow> (int \<times> disk_io) res" where
  "ioctl_disk name request t w =
     res_bind (device_ioctl name (scast request) 0 t w) (\<lambda>(r, w'). Inr (if r \<noteq> 0 then 1 else 0, w'))"

definition disk_initialize :: "string \<Rightarrow> disk_io devices \<Rightarrow> disk_io \<Rightarrow> (u8 \<times> disk_io) res" where
  "disk_initialize name t w =
     res_bind (device_ioctl name (ucast IOCTL_INIT) 0 t w) (\<lambda>(r, w'). Inr (if r \<noteq> 0 then 1 else 0, w'))"

definition init_disk :: "string \<Rightarrow> disk_io devices \<Rightarrow> disk_io \<Rightarrow> (int \<times> disk_io) res" where
  "init_disk name t w =
     res_bind (device_ioctl name (ucast IOCTL_INIT) 0 t w) (\<lambda>(r, w'). Inr (if r \<noteq> 0 then 1 else 0, w'))"

definition disk_read :: "string \<Rightarrow> u32 \<Rightarrow> u32 \<Rightarrow> disk_io devices \<Rightarrow> disk_io \<Rightarrow> (u8 \<times> disk_io) res" where
  "disk_read name lba count t w =
     res_bind (device_read name (ucast count) (ucast lba) 0 t w) (\<lambda>(r, w'). Inr (word_of_int r, w'))"

definition read_disk :: "string \<Rightarrow> u32 \<Rightarrow> u32 \<Rightarrow> disk_io devices \<Rightarrow> disk_io \<Rightarrow> (int \<times> disk_io) res" where
  "read_disk name sector count t w =
     res_bind (device_read name (scast count) (scast sector) 0 t w) (\<lambda>(r, w'). Inr (sint (word_of_int r :: u32), w'))"

text \<open>The same transfer seen from a client that holds the drive: \<open>disk_in\<close> and \<open>disk_out\<close> are what
  \<open>read_disk\<close> and \<open>write_disk\<close> do on the drive of their disk.\<close>

definition disk_in :: "drive \<Rightarrow> u32 \<Rightarrow> u32 \<Rightarrow> bytes \<Rightarrow> nat \<Rightarrow> int \<times> bytes" where
  "disk_in d sector count buf pos =
     (case dd_disk_read d (scast count) (scast sector) buf pos of (r, b) \<Rightarrow> (sint (word_of_int (sint r) :: u32), b))"

definition disk_out :: "drive \<Rightarrow> u32 \<Rightarrow> u32 \<Rightarrow> bytes \<Rightarrow> nat \<Rightarrow> int \<times> drive" where
  "disk_out d sector count src pos =
     (case dd_disk_write d (scast count) (scast sector) src pos of (r, d') \<Rightarrow> (sint (word_of_int (sint r) :: u32), d'))"

definition disk_write :: "string \<Rightarrow> u32 \<Rightarrow> u32 \<Rightarrow> disk_io devices \<Rightarrow> disk_io \<Rightarrow> (u8 \<times> disk_io) res" where
  "disk_write name lba count t w =
     res_bind (device_write name (ucast count) (ucast lba) 0 t w) (\<lambda>(r, w'). Inr (word_of_int r, w'))"

definition write_disk :: "string \<Rightarrow> u32 \<Rightarrow> u32 \<Rightarrow> disk_io devices \<Rightarrow> disk_io \<Rightarrow> (int \<times> disk_io) res" where
  "write_disk name sector count t w =
     res_bind (device_write name (scast count) (scast sector) 0 t w) (\<lambda>(r, w'). Inr (sint (word_of_int r :: u32), w'))"

definition disk_identify :: "string \<Rightarrow> disk_io devices \<Rightarrow> u8 res" where
  "disk_identify name t =
     res_bind (device_identify name DISK_ATA_DD_NAME t) (\<lambda>found.
       if (word_of_int found :: u8) = 0
       then res_bind (device_identify name DISK_ATAPI_DD_NAME t) (\<lambda>found. Inr (word_of_int found))
       else Inr (word_of_int found))"

section \<open>Transfers of whole sectors\<close>

lemma blit_same [simp]: "off \<le> k \<Longrightarrow> k < off + n \<Longrightarrow> blit dst off src n k = src (k - off)"
  by (simp add: blit_def)

lemma blit_outside [simp]: "k < off \<or> off + n \<le> k \<Longrightarrow> blit dst off src n k = dst k"
  by (auto simp: blit_def)

lemma blit_0 [simp]: "blit dst off src 0 = dst"
  by (auto simp: blit_def fun_eq_iff)

text \<open>The bytes of a drive from a sector on, when they are taken as one sequence.\<close>

definition drive_bytes :: "drive \<Rightarrow> u64 \<Rightarrow> bytes" where
  "drive_bytes d off = (\<lambda>k. dr_sector d (off + of_nat (k div 512)) (k mod 512))"

definition sectors_ok :: "drive \<Rightarrow> u64 \<Rightarrow> nat \<Rightarrow> bool" where
  "sectors_ok d off n \<longleftrightarrow> (\<forall>i < n. dr_ok d (off + of_nat i))"

lemma read_sectors_ok:
  assumes "\<forall>j < n. dr_ok d (off + of_nat (i + j))"
  shows "read_sectors n d off i buf pos =
    (i + n, blit buf (pos + 512 * i) (\<lambda>k. drive_bytes d off (512 * i + k)) (512 * n))"
  using assms
proof (induction n arbitrary: i buf)
  case (Suc n)
  have 0: "dr_ok d (off + of_nat i)" using Suc.prems by (auto dest: spec [of _ 0])
  have "\<forall>j < n. dr_ok d (off + of_nat (Suc i + j))" using Suc.prems by (metis Suc_less_eq add_Suc_shift)
  note IH = Suc.IH [OF this]
  have "blit (blit buf (pos + 512 * i) (dr_sector d (off + of_nat i)) 512) (pos + 512 * Suc i) (\<lambda>k. drive_bytes d off (512 * Suc i + k)) (512 * n)
    = blit buf (pos + 512 * i) (\<lambda>k. drive_bytes d off (512 * i + k)) (512 * Suc n)" (is "?l = ?r")
  proof
    fix k
    show "?l k = ?r k"
    proof (cases "pos + 512 * i \<le> k \<and> k < pos + 512 * i + 512")
      case True
      then obtain r where "k = pos + 512 * i + r" "r < 512" by (metis add_less_cancel_left le_Suc_ex)
      then show ?thesis by (simp add: drive_bytes_def)
    next
      case False
      then show ?thesis by (auto simp: blit_def intro!: arg_cong [where f = "drive_bytes d off"])
    qed
  qed
  with 0 IH show ?case by simp
qed simp

lemma size_to_blocks_mult:
  assumes "512 * n < 2 ^ 32"
  shows "unat (size_to_blocks (512 * of_nat n)) = n"
proof -
  have "unat (of_nat (512 * n) + 511 :: u64) = 512 * n + 511"
    using assms unat_of_nat_u64 [of "512 * n"] by (subst unat_word_ariths(1)) (simp del: of_nat_mult)
  then show ?thesis by (simp add: size_to_blocks_def unat_div)
qed

lemma dd_disk_read_ok:
  assumes "512 * n < 2 ^ 32" and "sectors_ok d off n"
  shows "dd_disk_read d (of_nat (512 * n)) off buf pos = (of_nat (512 * n), blit buf pos (drive_bytes d off) (512 * n))"
  using read_sectors_ok [of n d off 0 buf pos] assms by (simp add: dd_disk_read_def size_to_blocks_mult sectors_ok_def Let_def)

lemma put_sector_simps [simp]:
  "dr_ok (put_sector d s src pos) = dr_ok d" "dr_ident (put_sector d s src pos) = dr_ident d"
  by (simp_all add: put_sector_def)

definition write_range :: "drive \<Rightarrow> u64 \<Rightarrow> nat \<Rightarrow> bytes \<Rightarrow> nat \<Rightarrow> drive" where
  "write_range d off n src pos = fold (\<lambda>i d. put_sector d (off + of_nat i) src (pos + 512 * i)) [0..<n] d"

lemma write_sectors_ok:
  assumes "\<forall>j < n. dr_ok d (off + of_nat (i + j))"
  shows "write_sectors n d off i src pos = (i + n, fold (\<lambda>i d. put_sector d (off + of_nat i) src (pos + 512 * i)) [i..<i + n] d)"
  using assms
proof (induction n arbitrary: i d)
  case (Suc n)
  have 0: "dr_ok d (off + of_nat i)" using Suc.prems by (auto dest: spec [of _ 0])
  have "\<forall>j < n. dr_ok (put_sector d (off + of_nat i) src (pos + 512 * i)) (off + of_nat (Suc i + j))"
    using Suc.prems by (metis Suc_less_eq add_Suc_shift put_sector_simps(1))
  with 0 Suc.IH [OF this] show ?case by (simp add: upt_conv_Cons del: upt_Suc)
qed simp

lemma dd_disk_write_ok:
  assumes "512 * n < 2 ^ 32" and "sectors_ok d off n"
  shows "dd_disk_write d (of_nat (512 * n)) off src pos = (of_nat (512 * n), write_range d off n src pos)"
  using write_sectors_ok [of n d off 0 src pos] assms
  by (simp add: dd_disk_write_def size_to_blocks_mult sectors_ok_def write_range_def Let_def)

lemma write_range_frame [simp]: "dr_ok (write_range d off n src pos) = dr_ok d" "dr_ident (write_range d off n src pos) = dr_ident d"
  by (induction n) (simp_all add: write_range_def)

lemma write_range_sector:
  assumes "n \<le> 2 ^ 32"
  shows "dr_sector (write_range d off n src pos) s =
     (if unat (s - off) < n then (\<lambda>k. if k < 512 then src (pos + 512 * unat (s - off) + k) else dr_sector d s k) else dr_sector d s)"
  using assms
proof (induction n)
  case (Suc n)
  have u: "s = off + of_nat n \<longleftrightarrow> unat (s - off) = n"
    using Suc.prems by (auto simp: unat_of_nat_u64 algebra_simps word_unat_eq_iff [of "s - off"] dest!: arg_cong [where f = of_nat])
  have step: "write_range d off (Suc n) src pos = put_sector (write_range d off n src pos) (off + of_nat n) src (pos + 512 * n)"
    by (simp add: write_range_def)
  show ?case
  proof (cases "s = off + of_nat n")
    case True
    then show ?thesis using Suc u by (auto simp: step put_sector_def)
  next
    case False
    then have "unat (s - off) \<noteq> n" using u by simp
    with False Suc show ?thesis by (auto simp: step put_sector_def less_Suc_eq)
  qed
qed (simp add: write_range_def)

lemma sint_of_nat_u32: "n < 2 ^ 31 \<Longrightarrow> sint (of_nat n :: u32) = int n"
  by (simp add: signed_of_nat signed_take_bit_int_eq_self)

lemma scast_of_nat_u32: "n < 2 ^ 31 \<Longrightarrow> (scast (of_nat n :: u32) :: u64) = of_nat n"
  using sint_of_nat_u32 [of n] by (simp add: scast_eq)

lemma sint_of_nat_u64: "n < 2 ^ 63 \<Longrightarrow> sint (of_nat n :: u64) = int n"
  by (simp add: signed_of_nat signed_take_bit_int_eq_self)

lemma drive_bytes_write:
  assumes "n \<le> 2 ^ 32" and "k < 512 * n"
  shows "drive_bytes (write_range d off n src pos) off k = src (pos + k)"
proof -
  have "k div 512 < n" using assms(2) by (simp add: less_mult_imp_div_less mult.commute)
  then have "unat (of_nat (k div 512) :: u64) = k div 512" using assms(1) by simp
  then show ?thesis
    using \<open>k div 512 < n\<close> write_range_sector [OF assms(1), of d off src pos "off + of_nat (k div 512)"]
    by (simp add: drive_bytes_def add.commute)
qed

section \<open>Through the device table\<close>

definition ata_disk :: "disk_io devices \<Rightarrow> string \<Rightarrow> u64 \<Rightarrow> bool" where
  "ata_disk t name port \<longleftrightarrow> (\<exists>i. device_search name t = Inr (Some i) \<and> valid (devs t ! i) \<and> bc (devs t ! i) = 0 \<and>
     major (devs t ! i) = 8 \<and> internal_id (devs t ! i) = port) \<and>
     registered (block_device_drivers t 8) \<and> fops (block_device_drivers t 8) = Some ata_fops"

lemma read_disk_ata:
  assumes "ata_disk t name port"
  shows "read_disk name s c t w = Inr (case disk_in (drives w (ucast port)) s c (io_buf w) 0 of (r, b) \<Rightarrow> (r, w\<lparr>io_buf := b\<rparr>))"
  using assms
  by (auto simp: read_disk_def disk_in_def ata_disk_def device_read_def with_driver_def driver_get_def DEVICE_BLOCK_def ata_fops_def
      io_read_def call_op_def Let_def split: prod.split)

lemma write_disk_ata:
  assumes "ata_disk t name port"
  shows "write_disk name s c t w =
    Inr (case disk_out (drives w (ucast port)) s c (io_buf w) 0 of (r, d) \<Rightarrow> (r, w\<lparr>drives := (drives w)(ucast port := d)\<rparr>))"
  using assms
  by (auto simp: write_disk_def disk_out_def ata_disk_def device_write_def with_driver_def driver_get_def DEVICE_BLOCK_def ata_fops_def
      io_write_def call_op_def Let_def split: prod.split)

lemma transfer_count:
  assumes "n < 2 ^ 31"
  shows "sint (word_of_int (sint (of_nat n :: u64)) :: u32) = int n"
  using assms sint_of_nat_u64 [of n] sint_of_nat_u32 [of n] by simp

lemma disk_in_ok:
  assumes "512 * n < 2 ^ 31" and "s < 2 ^ 31" and "sectors_ok d (of_nat s) n"
  shows "disk_in d (of_nat s) (of_nat (512 * n)) buf pos = (int (512 * n), blit buf pos (drive_bytes d (of_nat s)) (512 * n))"
  using dd_disk_read_ok [of n d "of_nat s" buf pos] assms transfer_count [OF assms(1)]
  by (simp only: disk_in_def scast_of_nat_u32) simp

lemma disk_out_ok:
  assumes "512 * n < 2 ^ 31" and "s < 2 ^ 31" and "sectors_ok d (of_nat s) n"
  shows "disk_out d (of_nat s) (of_nat (512 * n)) src pos = (int (512 * n), write_range d (of_nat s) n src pos)"
  using dd_disk_write_ok [of n d "of_nat s" src pos] assms transfer_count [OF assms(1)]
  by (simp only: disk_out_def scast_of_nat_u32) simp

section \<open>Properties\<close>

text \<open>C35: Sectors written through the whole stack of disk interface, device table and driver are read back
  unchanged, and a write changes no other sector of the drive and no other drive.\<close>

theorem disk_write_read:
  assumes "ata_disk t name port" and "512 * n < 2 ^ 31" and "s < 2 ^ 31" and "sectors_ok (drives w (ucast port)) (of_nat s) n"
  shows "\<exists>w1 w2. write_disk name (of_nat s) (of_nat (512 * n)) t w = Inr (int (512 * n), w1) \<and>
     read_disk name (of_nat s) (of_nat (512 * n)) t (w1\<lparr>io_buf := buf\<rparr>) = Inr (int (512 * n), w2) \<and>
     (\<forall>k < 512 * n. io_buf w2 k = io_buf w k) \<and> (\<forall>k \<ge> 512 * n. io_buf w2 k = buf k) \<and>
     (\<forall>p x. p \<noteq> ucast port \<or> unat (x - of_nat s) \<ge> n \<longrightarrow> dr_sector (drives w2 p) x = dr_sector (drives w p) x)"
proof -
  let ?d = "drives w (ucast port)"
  let ?d' = "write_range ?d (of_nat s) n (io_buf w) 0"
  let ?w1 = "w\<lparr>drives := (drives w)(ucast port := ?d')\<rparr>"
  have n: "n \<le> 2 ^ 32" using assms(2) by simp
  have ok: "sectors_ok (drives (?w1\<lparr>io_buf := buf\<rparr>) (ucast port)) (of_nat s) n" using assms(4) by (simp add: sectors_ok_def)
  have "write_disk name (of_nat s) (of_nat (512 * n)) t w = Inr (int (512 * n), ?w1)" using write_disk_ata [OF assms(1)] disk_out_ok [OF assms(2-4)] by simp
  moreover have "read_disk name (of_nat s) (of_nat (512 * n)) t (?w1\<lparr>io_buf := buf\<rparr>) =
    Inr (int (512 * n), ?w1\<lparr>io_buf := blit buf 0 (drive_bytes ?d' (of_nat s)) (512 * n)\<rparr>)"
    using read_disk_ata [OF assms(1)] disk_in_ok [OF assms(2,3) ok] by simp
  moreover have "blit buf 0 (drive_bytes ?d' (of_nat s)) (512 * n) k = io_buf w k" if "k < 512 * n" for k
    using that drive_bytes_write [OF n that] by simp
  ultimately show ?thesis using write_range_sector [OF n] by fastforce
qed

definition ata_stack :: "disk_io devices" where
  "ata_stack = \<lparr>char_device_drivers = (\<lambda>_. no_driver),
     block_device_drivers = (\<lambda>_. no_driver)(8 := \<lparr>fops = Some ata_fops, nops = None, registered = True, drv_name = ''ATA DRIVER'' @ [NUL]\<rparr>),
     net_device_drivers = (\<lambda>_. no_driver), char_device_count = 0, block_device_count = 0,
     devs = [\<lparr>bc = 0, valid = True, major = 8, minor = 0, dev_name = ''hda'' @ [NUL], internal_id = 3, device_control_structure = 0\<rparr>],
     device_count = 1\<rparr>"

definition blank_drive :: drive where
  "blank_drive = \<lparr>dr_sector = (\<lambda>_ _. 0), dr_ok = (\<lambda>_. True), dr_ident = (\<lambda>_. 0)\<rparr>"

lemma ata_stack_disk: "ata_disk ata_stack ''hda'' 3"
  by (simp add: ata_disk_def ata_stack_def device_search_def counted_def get_name_def NUL_def)

theorem disk_write_read_witness:
  "\<exists>w1 w2. write_disk ''hda'' 7 1024 ata_stack \<lparr>drives = (\<lambda>_. blank_drive), io_buf = of_nat\<rparr> = Inr (1024, w1) \<and>
     read_disk ''hda'' 7 1024 ata_stack (w1\<lparr>io_buf := (\<lambda>_. 0)\<rparr>) = Inr (1024, w2) \<and> io_buf w2 600 = 88"
  using disk_write_read [OF ata_stack_disk, of 2 7 "\<lparr>drives = (\<lambda>_. blank_drive), io_buf = of_nat\<rparr>" "\<lambda>_. 0"]
  by (fastforce simp: sectors_ok_def blank_drive_def)

lemma device_identify_form:
  "(\<exists>e. \<forall>a. device_identify name a t = Inl e) \<or>
   (\<exists>n. \<forall>a. device_identify name a t = Inr (if n = Some a then SUCCESS else INVALID_ARGUMENT))"
proof (cases "device_search name t")
  case (Inl e)
  then show ?thesis by (simp add: device_identify_def)
next
  case (Inr r)
  have none: ?thesis if "\<And>a. device_identify name a t = Inr INVALID_ARGUMENT"
    using that by (intro disjI2 exI [of _ None]) simp
  show ?thesis
  proof (cases r)
    case None
    with Inr show ?thesis by (intro none) (simp add: device_identify_def)
  next
    case (Some i)
    let ?drv = "driver_get (bc (devs t ! i)) (major (devs t ! i)) t"
    show ?thesis
    proof (cases "valid (devs t ! i) \<and> registered ?drv")
      case False
      with Inr Some show ?thesis by (intro none) (auto simp: device_identify_def Let_def)
    next
      case True
      show ?thesis
      proof (cases "get_name (drv_name ?drv)")
        case (Inl e)
        with True Inr Some show ?thesis by (simp add: device_identify_def Let_def)
      next
        case (Inr n)
        with True \<open>device_search name t = Inr r\<close> Some show ?thesis
          by (intro disjI2 exI [of _ "Some n"]) (simp add: device_identify_def Let_def)
      qed
    qed
  qed
qed

text \<open>\<open>disk_identify\<close> gives the same answer, 254, for every disk: a device that is an ATA disk is
  checked against the other driver name as well, and fails that check.\<close>

theorem disk_identify_constant:
  assumes "disk_identify name t = Inr r"
  shows "r = 254"
proof -
  have ne: "DISK_ATA_DD_NAME \<noteq> DISK_ATAPI_DD_NAME" by (simp add: DISK_ATA_DD_NAME_def DISK_ATAPI_DD_NAME_def)
  from device_identify_form [of name t] obtain n where
    "\<And>a. device_identify name a t = Inr (if n = Some a then SUCCESS else INVALID_ARGUMENT)"
    using assms by (auto simp: disk_identify_def)
  with ne assms show ?thesis
    by (cases "n = Some DISK_ATA_DD_NAME") (simp_all add: disk_identify_def SUCCESS_def INVALID_ARGUMENT_def split: if_splits)
qed

theorem disk_identify_constant_witness: "disk_identify ''hda'' ata_stack = Inr 254"
proof -
  obtain r where "disk_identify ''hda'' ata_stack = Inr r"
    by (simp add: ata_stack_def disk_identify_def device_identify_def device_search_def counted_def get_name_def NUL_def
        driver_get_def DEVICE_BLOCK_def DISK_ATA_DD_NAME_def DISK_ATAPI_DD_NAME_def SUCCESS_def)
  with disk_identify_constant [OF this] show ?thesis by simp
qed

end
