(* ===== verification/Partition_Table.thy ===== *)
theory Partition_Table
  imports Disk
begin

text \<open>
  Partition tables, drivers/vfs/partition/gpt.c and mbr.c.  Partitions are reported by a callback; the
  model returns the list of its calls.  The textual comparison of a printed type GUID with the
  all-zero GUID is the test that the sixteen bytes are zero.  The on-stack arrays are buffers of unlimited extent.
\<close>

record part_call =
  pc_lba :: u32
  pc_size :: u32
  pc_status :: u8
  pc_type :: u8

definition MBR_BOOT_SIG :: nat where "MBR_BOOT_SIG = 510"

definition MBR_BOOT_SIG_VALUE :: u16 where "MBR_BOOT_SIG_VALUE = 0xAA55"

definition GPT_SIGNATURE :: u64 where "GPT_SIGNATURE = 0x5452415020494645"

text \<open>One sector read into a cleared buffer.\<close>

definition read_sector :: "string \<Rightarrow> u32 \<Rightarrow> disk_io devices \<Rightarrow> disk_io \<Rightarrow> (u8 \<times> bytes) res" where
  "read_sector name lba t w =
     res_bind (disk_read name lba 1 t (w\<lparr>io_buf := (\<lambda>_. 0)\<rparr>)) (\<lambda>(r, w'). Inr (r, io_buf w'))"

definition gpt_partition_count :: "bytes \<Rightarrow> u32" where "gpt_partition_count h = get32 h 80"

definition gpt_entry_size :: "bytes \<Rightarrow> u32" where "gpt_entry_size h = get32 h 84"

definition gpt_table_lba :: "bytes \<Rightarrow> u64" where "gpt_table_lba h = get64 h 72"

definition gpt_first_lba :: "bytes \<Rightarrow> nat \<Rightarrow> u64" where "gpt_first_lba e i = get64 e (128 * i + 32)"

definition gpt_last_lba :: "bytes \<Rightarrow> nat \<Rightarrow> u64" where "gpt_last_lba e i = get64 e (128 * i + 40)"

definition gpt_no_entry :: "bytes \<Rightarrow> nat \<Rightarrow> bool" where
  "gpt_no_entry e i \<longleftrightarrow> (\<forall>k \<in> {0..<16}. e (128 * i + k) = 0)"

text \<open>The entries are read four at a time, one sector each; a count large enough
  to wrap the 32-bit counter does not fit the array on the stack.\<close>

function read_entries :: "nat \<Rightarrow> nat \<Rightarrow> string \<Rightarrow> bytes \<Rightarrow> disk_io devices \<Rightarrow> disk_io \<Rightarrow> bytes \<Rightarrow> bytes option res" where
  "read_entries i n name h t w e =
     (if i < n
      then let lba = ucast (gpt_table_lba h) + drop_bit 9 (of_nat i * gpt_entry_size h)
           in res_bind (read_sector name lba t w) (\<lambda>(r, b).
                if r = 0 then Inr None else read_entries (i + 4) n name h t w (blit e (128 * i) b 512))
      else Inr (Some e))"
  by auto
termination by (relation "measure (\<lambda>(i, n, _). n - i)") auto

function count_valid :: "nat \<Rightarrow> nat \<Rightarrow> bytes \<Rightarrow> nat" where
  "count_valid i n e = (if i < n then (if gpt_no_entry e i then 0 else Suc (count_valid (i + 1) n e)) else 0)"
  by auto
termination by (relation "measure (\<lambda>(i, n, _). n - i)") auto

text \<open>The reporting loop counts in a byte: with more than 255 partitions it never ends.\<close>

definition report_loop :: "nat \<Rightarrow> bytes \<Rightarrow> part_call list res" where
  "report_loop n e =
     (if n > 255 then Inl Spin
      else Inr (map (\<lambda>i. \<lparr>pc_lba = ucast (gpt_first_lba e i), pc_size = ucast (gpt_last_lba e i - gpt_first_lba e i),
                  pc_status = 0, pc_type = 0\<rparr>) [0..<n]))"

definition read_gpt :: "string \<Rightarrow> disk_io devices \<Rightarrow> disk_io \<Rightarrow> (u32 \<times> part_call list) res" where
  "read_gpt disk t w =
     res_bind (read_sector disk 0 t w) (\<lambda>(r, mount_buffer).
       if r = 0 then Inr (0, [])
       else if get16 mount_buffer MBR_BOOT_SIG \<noteq> MBR_BOOT_SIG_VALUE then Inr (0, [])
       else res_bind (read_sector disk 1 t w) (\<lambda>(r, h).
         if r = 0 then Inr (0, [])
         else if get64 h 0 \<noteq> GPT_SIGNATURE then Inr (0, [])
         else res_bind (read_entries 0 (unat (gpt_partition_count h)) disk h t w (\<lambda>_. 0)) (\<lambda>me.
           case me of None \<Rightarrow> Inr (0, [])
           | Some e \<Rightarrow>
               let valid_partitions = count_valid 0 (unat (gpt_partition_count h)) e
               in res_bind (report_loop valid_partitions e) (\<lambda>calls. Inr (of_nat valid_partitions, calls)))))"

definition mbr_start :: "bytes \<Rightarrow> nat \<Rightarrow> u32" where "mbr_start b i = get32 b (446 + 16 * i + 8)"

definition mbr_sectors :: "bytes \<Rightarrow> nat \<Rightarrow> u32" where "mbr_sectors b i = get32 b (446 + 16 * i + 12)"

definition mbr_type :: "bytes \<Rightarrow> nat \<Rightarrow> u8" where "mbr_type b i = b (446 + 16 * i + 4)"

function mbr_loop :: "nat \<Rightarrow> bytes \<Rightarrow> part_call list" where
  "mbr_loop i b =
     (if i < 4
      then if mbr_sectors b i \<noteq> 0
           then \<lparr>pc_lba = mbr_start b i, pc_size = mbr_sectors b i, pc_status = 1, pc_type = mbr_type b i\<rparr> # mbr_loop (i + 1) b
           else mbr_loop (i + 1) b
      else [])"
  by auto
termination by (relation "measure (\<lambda>(i, _). 4 - i)") auto

definition read_mbr :: "string \<Rightarrow> disk_io devices \<Rightarrow> disk_io \<Rightarrow> (u32 \<times> part_call list) res" where
  "read_mbr disk t w =
     res_bind (read_sector disk 0 t w) (\<lambda>(r, b).
       if r = 0 then Inr (0, [])
       else if get16 b MBR_BOOT_SIG \<noteq> MBR_BOOT_SIG_VALUE then Inr (0, [])
       else let calls = mbr_loop 0 b in Inr (of_nat (length calls), calls))"

section \<open>What is reported\<close>

declare read_entries.simps [simp del] count_valid.simps [simp del] mbr_loop.simps [simp del]

lemma count_valid_takeWhile: "count_valid i n e = length (takeWhile (\<lambda>j. \<not> gpt_no_entry e j) [i..<n])"
proof (induction "n - i" arbitrary: i)
  case 0
  then show ?case by (simp add: count_valid.simps)
next
  case (Suc m)
  then have "i < n" and "[i..<n] = i # [Suc i..<n]" by (simp_all add: upt_conv_Cons)
  with Suc show ?case by (subst count_valid.simps) simp
qed

lemma takeWhile_upt: "takeWhile P [0..<n] = [0..<length (takeWhile P [0..<n])]"
proof -
  have "length (takeWhile P [0..<n]) \<le> n" using length_takeWhile_le [of P "[0..<n]"] by simp
  then show ?thesis by (metis add.left_neutral take_upt takeWhile_eq_take)
qed

text \<open>When the loops of the GPT reader end, what it reports is the entries before the first empty one, in
  order, each with its first block and the distance to its last block.\<close>

lemma gpt_reports_prefix:
  assumes "count_valid 0 n e \<le> 255"
  shows "report_loop (count_valid 0 n e) e =
     Inr (map (\<lambda>i. \<lparr>pc_lba = ucast (gpt_first_lba e i), pc_size = ucast (gpt_last_lba e i - gpt_first_lba e i),
                  pc_status = 0, pc_type = 0\<rparr>) (takeWhile (\<lambda>j. \<not> gpt_no_entry e j) [0..<n]))"
  using assms takeWhile_upt [of "\<lambda>j. \<not> gpt_no_entry e j" n] by (simp add: report_loop_def count_valid_takeWhile)

lemma mbr_loop_filter:
  "mbr_loop 0 b = map (\<lambda>i. \<lparr>pc_lba = mbr_start b i, pc_size = mbr_sectors b i, pc_status = 1, pc_type = mbr_type b i\<rparr>)
     (filter (\<lambda>i. mbr_sectors b i \<noteq> 0) [0..<4])"
  by (simp add: mbr_loop.simps upt_rec)

end
