(* ===== verification/Ext2_Base.thy ===== *)
theory Ext2_Base
  imports Disk
begin

text \<open>
  Data of the ext2 driver, drivers/vfs/generic/ext2: the layout of ext2_structs.h as offsets into byte
  buffers, the partition of ext2_structs.h with its copies of the superblock and of the group
  descriptors, and the code of ext2_util.c, ext2_bg.c, ext2_sb.c and the flushing of ext2_integrity.c.  Log messages
  (\<open>EXT2_ERROR\<close> and its like) have no effect here.  \<open>kmalloc\<close> returns cleared
  memory.  Group descriptors beyond the table are whatever bytes follow it.
\<close>

section \<open>Layout\<close>

definition s_blocks_count :: "bytes \<Rightarrow> u32" where "s_blocks_count b = get32 b 4"

definition s_inodes_count :: "bytes \<Rightarrow> u32" where "s_inodes_count b = get32 b 0"

definition s_free_blocks_count :: "bytes \<Rightarrow> u32" where "s_free_blocks_count b = get32 b 12"

definition s_free_inodes_count :: "bytes \<Rightarrow> u32" where "s_free_inodes_count b = get32 b 16"

definition s_log_block_size :: "bytes \<Rightarrow> u32" where "s_log_block_size b = get32 b 24"

definition s_blocks_per_group :: "bytes \<Rightarrow> u32" where "s_blocks_per_group b = get32 b 32"

definition s_inodes_per_group :: "bytes \<Rightarrow> u32" where "s_inodes_per_group b = get32 b 40"

definition s_magic :: "bytes \<Rightarrow> u16" where "s_magic b = get16 b 56"

definition s_rev_level :: "bytes \<Rightarrow> u32" where "s_rev_level b = get32 b 76"

definition s_inode_size :: "bytes \<Rightarrow> u16" where "s_inode_size b = get16 b 88"

definition bg_off :: "u32 \<Rightarrow> nat" where "bg_off g = 32 * unat g"

definition bg_block_bitmap :: "bytes \<Rightarrow> u32 \<Rightarrow> u32" where "bg_block_bitmap gd g = get32 gd (bg_off g)"

definition bg_inode_bitmap :: "bytes \<Rightarrow> u32 \<Rightarrow> u32" where "bg_inode_bitmap gd g = get32 gd (bg_off g + 4)"

definition bg_inode_table :: "bytes \<Rightarrow> u32 \<Rightarrow> u32" where "bg_inode_table gd g = get32 gd (bg_off g + 8)"

definition bg_free_blocks_count :: "bytes \<Rightarrow> u32 \<Rightarrow> u16" where "bg_free_blocks_count gd g = get16 gd (bg_off g + 12)"

definition bg_free_inodes_count :: "bytes \<Rightarrow> u32 \<Rightarrow> u16" where "bg_free_inodes_count gd g = get16 gd (bg_off g + 14)"

definition bg_used_dirs_count :: "bytes \<Rightarrow> u32 \<Rightarrow> u16" where "bg_used_dirs_count gd g = get16 gd (bg_off g + 16)"

definition i_mode :: "bytes \<Rightarrow> u16" where "i_mode b = get16 b 0"

definition i_uid :: "bytes \<Rightarrow> u16" where "i_uid b = get16 b 2"

definition i_size :: "bytes \<Rightarrow> u32" where "i_size b = get32 b 4"

definition i_atime :: "bytes \<Rightarrow> u32" where "i_atime b = get32 b 8"

definition i_ctime :: "bytes \<Rightarrow> u32" where "i_ctime b = get32 b 12"

definition i_mtime :: "bytes \<Rightarrow> u32" where "i_mtime b = get32 b 16"

definition i_gid :: "bytes \<Rightarrow> u16" where "i_gid b = get16 b 24"

definition i_links_count :: "bytes \<Rightarrow> u16" where "i_links_count b = get16 b 26"

definition i_sectors :: "bytes \<Rightarrow> u32" where "i_sectors b = get32 b 28"

definition i_block :: "bytes \<Rightarrow> nat \<Rightarrow> u32" where "i_block b k = get32 b (40 + 4 * k)"

definition de_inode :: "bytes \<Rightarrow> nat \<Rightarrow> u32" where "de_inode b p = get32 b p"

definition de_rec_len :: "bytes \<Rightarrow> nat \<Rightarrow> u16" where "de_rec_len b p = get16 b (p + 4)"

definition de_name_len :: "bytes \<Rightarrow> nat \<Rightarrow> u8" where "de_name_len b p = b (p + 6)"

definition de_file_type :: "bytes \<Rightarrow> nat \<Rightarrow> u8" where "de_file_type b p = b (p + 7)"

definition de_name :: "bytes \<Rightarrow> nat \<Rightarrow> bytes" where "de_name b p = (\<lambda>k. b (p + 8 + k))"

section \<open>Partitions\<close>

record ext2_partition =
  p_name :: string
  p_disk :: string
  backup_bgs :: "nat \<Rightarrow> int"
  backup_bgs_count :: u32
  p_lba :: u32
  group_number :: u32
  sector_size :: u32
  bgdt_block :: u32
  sb_block :: u32
  flush_required :: bool
  p_sb :: bytes
  p_gd :: bytes

text \<open>The partition together with the drive it lies on, the counter of \<open>ext2_get_unique_id\<close>
  and the time of day.\<close>

record ext2_fs = ext2_partition +
  fs_drive :: drive
  unique_id :: u32
  epoch_now :: u32

definition div_up :: "'a::len word \<Rightarrow> 'a word \<Rightarrow> 'a word" where
  "div_up x y = (if x mod y \<noteq> 0 then (x + y - 1) div y else x div y)"

definition block_size :: "ext2_fs \<Rightarrow> u32" where
  "block_size fs = push_bit (unat (s_log_block_size (p_sb fs))) 1024"

section \<open>Utilities\<close>

definition EXT2_UNIQUE_START :: u32 where "EXT2_UNIQUE_START = 0x00CAFE00"

definition ext2_get_uid :: u32 where "ext2_get_uid = 0"

definition ext2_get_gid :: u32 where "ext2_get_gid = 0"

definition ext2_get_unique_id :: "ext2_fs \<Rightarrow> u32 \<times> ext2_fs" where
  "ext2_get_unique_id fs =
     (let i = (if unique_id fs = 0xFFFFFFFF then EXT2_UNIQUE_START else unique_id fs + 1) in (i, fs\<lparr>unique_id := i\<rparr>))"

definition last_slash :: "string \<Rightarrow> nat" where
  "last_slash s = fold (\<lambda>i l. if s ! i = CHR ''/'' then i else l) [0..<length s] 0"

text \<open>With no slash but the first position, the name is what follows the first character.\<close>

definition ext2_path_to_parent_and_name :: "string \<Rightarrow> (string \<times> string) option" where
  "ext2_path_to_parent_and_name source =
     (if length source = 0 then None
      else let l = last_slash source
           in if l = 0 then Some (''/'', drop 1 source) else Some (take l source, drop (l + 1) source))"

section \<open>Group descriptors and superblock\<close>

text \<open>The callback may change the partition; its result stops the loop when it is not zero.\<close>

primrec operate_loop :: "nat \<Rightarrow> u32 \<Rightarrow> (ext2_fs \<Rightarrow> u32 \<Rightarrow> int \<times> ext2_fs) \<Rightarrow> ext2_fs \<Rightarrow> int \<times> ext2_fs" where
  "operate_loop 0 i f fs = (-1, fs)"
| "operate_loop (Suc n) i f fs = (case f fs i of (r, fs') \<Rightarrow> if r \<noteq> 0 then (sint i, fs') else operate_loop n (i + 1) f fs')"

definition ext2_operate_on_bg :: "(ext2_fs \<Rightarrow> u32 \<Rightarrow> int \<times> ext2_fs) \<Rightarrow> ext2_fs \<Rightarrow> int \<times> ext2_fs" where
  "ext2_operate_on_bg f fs = operate_loop (unat (group_number fs)) 0 f fs"

definition sectors_per_group :: "ext2_fs \<Rightarrow> u32" where
  "sectors_per_group fs = s_blocks_per_group (p_sb fs) * (block_size fs div sector_size fs)"

definition ext2_flush_bg :: "ext2_fs \<Rightarrow> u32 \<Rightarrow> int \<times> ext2_fs" where
  "ext2_flush_bg fs bgid =
     (let descriptors_size = ucast (div_up (ucast (group_number fs) * 32 :: u64) (ucast (sector_size fs)))
      in case disk_out (fs_drive fs) (p_lba fs + sectors_per_group fs * bgid + bgdt_block fs) descriptors_size
                (\<lambda>k. p_gd fs (bg_off bgid + k)) 0 of
           (r, d) \<Rightarrow> (if r = 0 then -1 else 0, fs\<lparr>fs_drive := d\<rparr>))"

definition ext2_flush_sb :: "ext2_fs \<Rightarrow> u32 \<Rightarrow> int \<times> ext2_fs" where
  "ext2_flush_sb fs bgid =
     (if bgid \<ge> backup_bgs_count fs \<or> backup_bgs fs (unat bgid) = -1 then (-1, fs)
      else case disk_out (fs_drive fs) (p_lba fs + sectors_per_group fs * bgid + sb_block fs) 2 (p_sb fs) 0 of
             (r, d) \<Rightarrow> (if r = 0 then -1 else 0, fs\<lparr>fs_drive := d\<rparr>))"

definition ext2_bg_has_free_inodes :: "ext2_fs \<Rightarrow> u32 \<Rightarrow> int \<times> ext2_fs" where
  "ext2_bg_has_free_inodes fs bgid = (if bg_free_inodes_count (p_gd fs) bgid > 0 then 1 else 0, fs)"

definition ext2_flush_required :: "ext2_fs \<Rightarrow> ext2_fs" where
  "ext2_flush_required fs = fs\<lparr>flush_required := True\<rparr>"

definition ext2_flush_partition :: "ext2_fs \<Rightarrow> ext2_fs" where
  "ext2_flush_partition fs =
     (let (_, fs1) = ext2_operate_on_bg ext2_flush_bg fs; (_, fs2) = ext2_operate_on_bg ext2_flush_sb fs1
      in fs2\<lparr>flush_required := False\<rparr>)"

definition ext2_is_flush_required :: "ext2_fs \<Rightarrow> bool" where
  "ext2_is_flush_required fs = flush_required fs"

section \<open>Inodes on disk\<close>

definition inode_size :: "ext2_fs \<Rightarrow> u32" where
  "inode_size fs = (if s_rev_level (p_sb fs) < 1 then 128 else ucast (s_inode_size (p_sb fs)))"

definition sectors_per_block :: "ext2_fs \<Rightarrow> u32" where
  "sectors_per_block fs = div_up (block_size fs) (sector_size fs)"

definition inode_group :: "ext2_fs \<Rightarrow> u32 \<Rightarrow> u32" where
  "inode_group fs n = (n - 1) div s_inodes_per_group (p_sb fs)"

definition inode_index :: "ext2_fs \<Rightarrow> u32 \<Rightarrow> u32" where
  "inode_index fs n = (n - 1) mod s_inodes_per_group (p_sb fs)"

text \<open>First sector of the block of the inode table that holds an inode, and the inode's place in it.\<close>

definition inode_lba :: "ext2_fs \<Rightarrow> u32 \<Rightarrow> u32" where
  "inode_lba fs n =
     p_lba fs + (bg_inode_table (p_gd fs) (inode_group fs n) * block_size fs) div sector_size fs +
       (inode_index fs n * inode_size fs) div block_size fs * sectors_per_block fs"

definition inode_offset :: "ext2_fs \<Rightarrow> u32 \<Rightarrow> u32" where
  "inode_offset fs n = (inode_index fs n * inode_size fs) mod block_size fs"

definition ext2_read_inode :: "ext2_fs \<Rightarrow> u32 \<Rightarrow> bytes option" where
  "ext2_read_inode fs n =
     (case disk_in (fs_drive fs) (inode_lba fs n) (sectors_per_block fs * sector_size fs) (\<lambda>_. 0) 0 of
        (r, buf) \<Rightarrow>
          if r = 0 then None
          else Some (blit (\<lambda>_. 0) 0 (\<lambda>k. buf (unat (inode_offset fs n) + k)) (unat (inode_size fs))))"

definition ext2_write_inode :: "ext2_fs \<Rightarrow> u32 \<Rightarrow> bytes \<Rightarrow> u8 \<times> ext2_fs" where
  "ext2_write_inode fs n inode =
     (case disk_in (fs_drive fs) (inode_lba fs n) (sectors_per_block fs * sector_size fs) (\<lambda>_. 0) 0 of
        (r, buf) \<Rightarrow>
          if r = 0 then (1, fs)
          else let buf' = blit buf (unat (inode_offset fs n)) inode (unat (inode_size fs))
               in case disk_out (fs_drive fs) (inode_lba fs n) (sectors_per_block fs * sector_size fs) buf' 0 of
                    (r, d) \<Rightarrow> (if r = 0 then 1 else 0, fs\<lparr>fs_drive := d\<rparr>))"

end
