(* ===== verification/Ext2_Block.thy ===== *)
theory Ext2_Block
  imports Ext2_Base
begin

unbundle bit_operations_syntax

text \<open>
  Blocks of the ext2 driver, ext2_block.c: transfers of single blocks, of the blocks behind the
  direct and the indirect pointers of an inode, allocation and release of blocks in the bitmaps of
  the groups, and byte ranges of a file.  Results of type \<open>int64_t\<close> are integers;
  a destination or source pointer is a buffer and a position in it; \<open>blocks\<close> arrays are functions of the index.
  The failure codes are positive numbers, as in the code.  Division by a
  zero field of the superblock, which traps, is not modelled.
\<close>

section \<open>Transfers\<close>

definition EXT2_READ_FAILED :: int where "EXT2_READ_FAILED = 0xFFFFFFFE"

definition EXT2_WRITE_FAILED :: int where "EXT2_WRITE_FAILED = 0xFFFFFFFD"

definition block_lba :: "ext2_fs \<Rightarrow> u32 \<Rightarrow> u32" where
  "block_lba fs block = p_lba fs + (block * block_size fs) div sector_size fs"

definition ext2_read_block :: "ext2_fs \<Rightarrow> u32 \<Rightarrow> bytes \<Rightarrow> nat \<Rightarrow> int \<times> bytes" where
  "ext2_read_block fs block dst pos =
     (if block > 0
      then case disk_in (fs_drive fs) (block_lba fs block) (sectors_per_block fs * sector_size fs) dst pos of
             (r, dst') \<Rightarrow> (if r = 0 then EXT2_READ_FAILED else 1, dst')
      else (0, dst))"

primrec read_direct_loop :: "nat \<Rightarrow> nat \<Rightarrow> ext2_fs \<Rightarrow> (nat \<Rightarrow> u32) \<Rightarrow> bytes \<Rightarrow> nat \<Rightarrow> u64 \<Rightarrow> u64 \<Rightarrow> u64 \<Rightarrow> int \<times> u64 \<times> bytes" where
  "read_direct_loop 0 i fs blocks dst pos cnt skip br = (sint br, skip, dst)"
| "read_direct_loop (Suc n) i fs blocks dst pos cnt skip br =
     (if skip > 0 then read_direct_loop n (Suc i) fs blocks dst pos cnt (skip - 1) br
      else case ext2_read_block fs (blocks i) dst pos of
             (r, dst') \<Rightarrow>
               if r = EXT2_READ_FAILED then (EXT2_READ_FAILED, skip, dst')
               else if r = 0 then (sint br, skip, dst')
               else let br' = br + word_of_int r
                    in if br' = cnt then (sint br', skip, dst')
                       else read_direct_loop n (Suc i) fs blocks dst' (pos + unat (block_size fs)) cnt skip br')"

definition ext2_read_direct_blocks :: "ext2_fs \<Rightarrow> (nat \<Rightarrow> u32) \<Rightarrow> nat \<Rightarrow> bytes \<Rightarrow> nat \<Rightarrow> u64 \<Rightarrow> u64 \<Rightarrow> int \<times> u64 \<times> bytes" where
  "ext2_read_direct_blocks fs blocks mx dst pos cnt skip = read_direct_loop mx 0 fs blocks dst pos cnt skip 0"

text \<open>The blocks of pointers, and the loop the three indirect levels share.  The counter of the
  first level has 64 bits and that of the others 32, which \<open>narrow\<close> says.\<close>

definition pointers :: "bytes \<Rightarrow> nat \<Rightarrow> u32" where "pointers b = (\<lambda>j. get32 b (4 * j))"

definition entries_per_block :: "ext2_fs \<Rightarrow> nat" where "entries_per_block fs = unat (block_size fs div 4)"

definition cut32 :: "u64 \<Rightarrow> u64" where "cut32 x = ucast (ucast x :: u32)"

primrec indirect_read_loop ::
  "nat \<Rightarrow> nat \<Rightarrow> (u64 \<Rightarrow> u64) \<Rightarrow> ((nat \<Rightarrow> u32) \<Rightarrow> nat \<Rightarrow> bytes \<Rightarrow> nat \<Rightarrow> u64 \<Rightarrow> u64 \<Rightarrow> int \<times> u64 \<times> bytes) \<Rightarrow>
   ext2_fs \<Rightarrow> (nat \<Rightarrow> u32) \<Rightarrow> bytes \<Rightarrow> nat \<Rightarrow> u64 \<Rightarrow> u64 \<Rightarrow> u64 \<Rightarrow> int \<times> u64 \<times> bytes" where
  "indirect_read_loop 0 i narrow inner fs blocks dst pos cnt skip br = (sint br, skip, dst)"
| "indirect_read_loop (Suc n) i narrow inner fs blocks dst pos cnt skip br =
     (case ext2_read_block fs (blocks i) (\<lambda>_. 0) 0 of
        (e, table) \<Rightarrow>
          if e \<le> 0 then (EXT2_READ_FAILED, skip, dst)
          else case inner (pointers table) (entries_per_block fs) dst pos (cnt - br) skip of
                 (r, skip', dst') \<Rightarrow>
                   if r = EXT2_READ_FAILED \<or> r = 0 \<and> skip' = 0 then (r, skip', dst')
                   else let br' = narrow (br + word_of_int r)
                        in if br' = cnt then (sint br', skip', dst')
                           else indirect_read_loop n (Suc i) narrow inner fs blocks dst' (pos + nat (r * uint (block_size fs))) cnt skip' br')"

definition ext2_read_indirect_blocks :: "ext2_fs \<Rightarrow> (nat \<Rightarrow> u32) \<Rightarrow> nat \<Rightarrow> bytes \<Rightarrow> nat \<Rightarrow> u64 \<Rightarrow> u64 \<Rightarrow> int \<times> u64 \<times> bytes" where
  "ext2_read_indirect_blocks fs blocks mx dst pos cnt skip =
     indirect_read_loop mx 0 id (ext2_read_direct_blocks fs) fs blocks dst pos cnt skip 0"

definition ext2_read_double_indirect_blocks :: "ext2_fs \<Rightarrow> (nat \<Rightarrow> u32) \<Rightarrow> nat \<Rightarrow> bytes \<Rightarrow> nat \<Rightarrow> u64 \<Rightarrow> u64 \<Rightarrow> int \<times> u64 \<times> bytes" where
  "ext2_read_double_indirect_blocks fs blocks mx dst pos cnt skip =
     indirect_read_loop mx 0 cut32 (ext2_read_indirect_blocks fs) fs blocks dst pos cnt skip 0"

definition ext2_read_triple_indirect_blocks :: "ext2_fs \<Rightarrow> (nat \<Rightarrow> u32) \<Rightarrow> nat \<Rightarrow> bytes \<Rightarrow> nat \<Rightarrow> u64 \<Rightarrow> u64 \<Rightarrow> int \<times> u64 \<times> bytes" where
  "ext2_read_triple_indirect_blocks fs blocks mx dst pos cnt skip =
     indirect_read_loop mx 0 cut32 (ext2_read_double_indirect_blocks fs) fs blocks dst pos cnt skip 0"

text \<open>Writing passes the number of sectors where the disk interface takes a number of bytes.\<close>

definition ext2_write_block :: "ext2_fs \<Rightarrow> u32 \<Rightarrow> bytes \<Rightarrow> nat \<Rightarrow> int \<times> ext2_fs" where
  "ext2_write_block fs block src pos =
     (if block \<noteq> 0
      then case disk_out (fs_drive fs) (block_lba fs block) (sectors_per_block fs) src pos of
             (r, d) \<Rightarrow> (if r = 0 then EXT2_WRITE_FAILED else 1, fs\<lparr>fs_drive := d\<rparr>)
      else (0, fs))"

primrec write_direct_loop :: "nat \<Rightarrow> nat \<Rightarrow> ext2_fs \<Rightarrow> (nat \<Rightarrow> u32) \<Rightarrow> bytes \<Rightarrow> nat \<Rightarrow> u64 \<Rightarrow> u64 \<Rightarrow> u64 \<Rightarrow> int \<times> u64 \<times> ext2_fs" where
  "write_direct_loop 0 i fs blocks src pos cnt skip bw = (sint bw, skip, fs)"
| "write_direct_loop (Suc n) i fs blocks src pos cnt skip bw =
     (if skip > 0 then write_direct_loop n (Suc i) fs blocks src pos cnt (skip - 1) bw
      else case ext2_write_block fs (blocks i) src pos of
             (r, fs') \<Rightarrow>
               if r = EXT2_WRITE_FAILED then (EXT2_WRITE_FAILED, skip, fs')
               else if r = 0 then (sint bw, skip, fs')
               else let bw' = bw + word_of_int r
                    in if bw' = cnt then (sint bw', skip, fs')
                       else write_direct_loop n (Suc i) fs' blocks src (pos + unat (block_size fs)) cnt skip bw')"

definition ext2_write_direct_blocks :: "ext2_fs \<Rightarrow> (nat \<Rightarrow> u32) \<Rightarrow> nat \<Rightarrow> bytes \<Rightarrow> nat \<Rightarrow> u64 \<Rightarrow> u64 \<Rightarrow> int \<times> u64 \<times> ext2_fs" where
  "ext2_write_direct_blocks fs blocks mx src pos cnt skip = write_direct_loop mx 0 fs blocks src pos cnt skip 0"

primrec indirect_write_loop ::
  "nat \<Rightarrow> nat \<Rightarrow> (u64 \<Rightarrow> u64) \<Rightarrow> (ext2_fs \<Rightarrow> (nat \<Rightarrow> u32) \<Rightarrow> nat \<Rightarrow> bytes \<Rightarrow> nat \<Rightarrow> u64 \<Rightarrow> u64 \<Rightarrow> int \<times> u64 \<times> ext2_fs) \<Rightarrow>
   ext2_fs \<Rightarrow> (nat \<Rightarrow> u32) \<Rightarrow> bytes \<Rightarrow> nat \<Rightarrow> u64 \<Rightarrow> u64 \<Rightarrow> u64 \<Rightarrow> int \<times> u64 \<times> ext2_fs" where
  "indirect_write_loop 0 i narrow inner fs blocks src pos cnt skip bw = (sint bw, skip, fs)"
| "indirect_write_loop (Suc n) i narrow inner fs blocks src pos cnt skip bw =
     (case ext2_read_block fs (blocks i) (\<lambda>_. 0) 0 of
        (e, table) \<Rightarrow>
          if e \<le> 0 then (EXT2_WRITE_FAILED, skip, fs)
          else case inner fs (pointers table) (entries_per_block fs) src pos (cnt - bw) skip of
                 (r, skip', fs') \<Rightarrow>
                   if r = EXT2_WRITE_FAILED \<or> r = 0 then (r, skip', fs')
                   else let bw' = narrow (bw + word_of_int r)
                        in if bw' = cnt then (sint bw', skip', fs')
                           else indirect_write_loop n (Suc i) narrow inner fs' blocks src (pos + nat (r * uint (block_size fs))) cnt skip' bw')"

definition ext2_write_indirect_blocks :: "ext2_fs \<Rightarrow> (nat \<Rightarrow> u32) \<Rightarrow> nat \<Rightarrow> bytes \<Rightarrow> nat \<Rightarrow> u64 \<Rightarrow> u64 \<Rightarrow> int \<times> u64 \<times> ext2_fs" where
  "ext2_write_indirect_blocks fs blocks mx src pos cnt skip =
     indirect_write_loop mx 0 id ext2_write_direct_blocks fs blocks src pos cnt skip 0"

definition ext2_write_double_indirect_blocks :: "ext2_fs \<Rightarrow> (nat \<Rightarrow> u32) \<Rightarrow> nat \<Rightarrow> bytes \<Rightarrow> nat \<Rightarrow> u64 \<Rightarrow> u64 \<Rightarrow> int \<times> u64 \<times> ext2_fs" where
  "ext2_write_double_indirect_blocks fs blocks mx src pos cnt skip =
     indirect_write_loop mx 0 cut32 ext2_write_indirect_blocks fs blocks src pos cnt skip 0"

definition ext2_write_triple_indirect_blocks :: "ext2_fs \<Rightarrow> (nat \<Rightarrow> u32) \<Rightarrow> nat \<Rightarrow> bytes \<Rightarrow> nat \<Rightarrow> u64 \<Rightarrow> u64 \<Rightarrow> int \<times> u64 \<times> ext2_fs" where
  "ext2_write_triple_indirect_blocks fs blocks mx src pos cnt skip =
     indirect_write_loop mx 0 cut32 ext2_write_double_indirect_blocks fs blocks src pos cnt skip 0"

section \<open>Block bitmaps\<close>

definition set_bg_free_blocks :: "u32 \<Rightarrow> u16 \<Rightarrow> ext2_fs \<Rightarrow> ext2_fs" where
  "set_bg_free_blocks g v fs = fs\<lparr>p_gd := put16 (p_gd fs) (bg_off g + 12) v\<rparr>"

definition set_s_free_blocks :: "u32 \<Rightarrow> ext2_fs \<Rightarrow> ext2_fs" where
  "set_s_free_blocks v fs = fs\<lparr>p_sb := put32 (p_sb fs) 12 v\<rparr>"

definition take_free_block :: "u32 \<Rightarrow> ext2_fs \<Rightarrow> ext2_fs" where
  "take_free_block g fs =
     set_s_free_blocks (s_free_blocks_count (p_sb fs) - 1) (set_bg_free_blocks g (bg_free_blocks_count (p_gd fs) g - 1) fs)"

definition give_free_block :: "u32 \<Rightarrow> ext2_fs \<Rightarrow> ext2_fs" where
  "give_free_block g fs =
     set_s_free_blocks (s_free_blocks_count (p_sb fs) + 1) (set_bg_free_blocks g (bg_free_blocks_count (p_gd fs) g + 1) fs)"

definition clear_bit :: "u32 \<Rightarrow> nat option" where
  "clear_bit w = find (\<lambda>k. \<not> bit w k) [0..<32]"

primrec scan_bitmap :: "nat \<Rightarrow> nat \<Rightarrow> bytes \<Rightarrow> (nat \<times> nat) option" where
  "scan_bitmap 0 j b = None"
| "scan_bitmap (Suc n) j b =
     (if get32 b (4 * j) = 0xFFFFFFFF then scan_bitmap n (Suc j) b
      else case clear_bit (get32 b (4 * j)) of Some k \<Rightarrow> Some (j, k) | None \<Rightarrow> scan_bitmap n (Suc j) b)"

primrec allocate_loop :: "nat \<Rightarrow> u32 \<Rightarrow> ext2_fs \<Rightarrow> u32 \<times> ext2_fs" where
  "allocate_loop 0 i fs = (0, fs)"
| "allocate_loop (Suc n) i fs =
     (if bg_free_blocks_count (p_gd fs) i = 0 then allocate_loop n (i + 1) fs
      else case ext2_read_block fs (bg_block_bitmap (p_gd fs) i) (\<lambda>_. 0) 0 of
             (e, b) \<Rightarrow>
               if e = 0 then (0, fs)
               else case scan_bitmap (entries_per_block fs) 0 b of
                      None \<Rightarrow> allocate_loop n (i + 1) fs
                    | Some (j, k) \<Rightarrow>
                        (let b' = put32 b (4 * j) (get32 b (4 * j) OR push_bit k 1)
                         in case ext2_write_block (take_free_block i fs) (bg_block_bitmap (p_gd fs) i) b' 0 of
                              (r, fs') \<Rightarrow>
                                if r \<le> 0 then (0, give_free_block i fs')
                                else (of_nat (j * 32 + k + 1) + i * s_blocks_per_group (p_sb fs'), ext2_flush_required fs')))"

definition ext2_allocate_block :: "ext2_fs \<Rightarrow> u32 \<times> ext2_fs" where
  "ext2_allocate_block fs = allocate_loop (unat (group_number fs)) 0 fs"

definition block_group :: "ext2_fs \<Rightarrow> u32 \<Rightarrow> u32" where
  "block_group fs block = (block - 1) div s_blocks_per_group (p_sb fs)"

definition block_index :: "ext2_fs \<Rightarrow> u32 \<Rightarrow> nat" where
  "block_index fs block = unat ((block - 1) mod s_blocks_per_group (p_sb fs))"

definition ext2_deallocate_block :: "ext2_fs \<Rightarrow> u32 \<Rightarrow> u32 \<times> ext2_fs" where
  "ext2_deallocate_block fs block =
     (let g = block_group fs block; j = block_index fs block div 32; k = block_index fs block mod 32
      in case ext2_read_block fs (bg_block_bitmap (p_gd fs) g) (\<lambda>_. 0) 0 of
           (e, b) \<Rightarrow>
             if e = 0 then (0, fs)
             else if bit (get32 b (4 * j)) k
             then (let b' = put32 b (4 * j) (get32 b (4 * j) AND NOT (push_bit k 1))
                   in case ext2_write_block (give_free_block g fs) (bg_block_bitmap (p_gd fs) g) b' 0 of
                        (r, fs') \<Rightarrow> if r \<le> 0 then (0, take_free_block g fs') else (1, ext2_flush_required fs'))
             else (0, fs))"

text \<open>The blocks are released from the last to the first.\<close>

primrec deallocate_loop :: "nat \<Rightarrow> ext2_fs \<Rightarrow> (nat \<Rightarrow> u32) \<Rightarrow> u32 \<Rightarrow> u32 \<times> ext2_fs" where
  "deallocate_loop 0 fs blocks freed = (freed, ext2_flush_required fs)"
| "deallocate_loop (Suc i) fs blocks freed =
     (case ext2_deallocate_block fs (blocks i) of
        (r, fs') \<Rightarrow> if r = 0 then (0, fs') else deallocate_loop i fs' blocks (freed + 1))"

definition ext2_deallocate_blocks :: "ext2_fs \<Rightarrow> (nat \<Rightarrow> u32) \<Rightarrow> u32 \<Rightarrow> u32 \<times> ext2_fs" where
  "ext2_deallocate_blocks fs blocks n = deallocate_loop (nat (sint (n - 1) + 1)) fs blocks 0"

section \<open>Blocks for an inode\<close>

text \<open>Each allocation returns the number of blocks, the block the target pointer is set to, and the
  new state.\<close>

primrec fill_pointers :: "nat \<Rightarrow> nat \<Rightarrow> ext2_fs \<Rightarrow> bytes \<Rightarrow> u32 \<Rightarrow> u32 \<Rightarrow> (u32 \<times> bytes) option \<times> ext2_fs" where
  "fill_pointers 0 j fs b written wanted = (Some (written, b), fs)"
| "fill_pointers (Suc n) j fs b written wanted =
     (if written = wanted then (Some (written, b), fs)
      else case ext2_allocate_block fs of
             (blk, fs') \<Rightarrow>
               if blk = 0 then (None, fs') else fill_pointers n (Suc j) fs' (put32 b (4 * j) blk) (written + 1) wanted)"

definition ext2_allocate_indirect_block :: "ext2_fs \<Rightarrow> u32 \<Rightarrow> u32 \<times> u32 \<times> ext2_fs" where
  "ext2_allocate_indirect_block fs wanted =
     (case ext2_allocate_block fs of
        (target, fs1) \<Rightarrow>
          if target = 0 then (0, target, fs1)
          else case fill_pointers (entries_per_block fs1) 0 fs1 (\<lambda>_. 0) 0 wanted of
                 (None, fs2) \<Rightarrow> (0, target, fs2)
               | (Some (written, b), fs2) \<Rightarrow>
                   (case ext2_write_block fs2 target b 0 of (r, fs3) \<Rightarrow> (if r \<le> 0 then 0 else written, target, fs3)))"

primrec fill_level :: "nat \<Rightarrow> nat \<Rightarrow> (ext2_fs \<Rightarrow> u32 \<Rightarrow> u32 \<times> u32 \<times> ext2_fs) \<Rightarrow> ext2_fs \<Rightarrow> bytes \<Rightarrow> u32 \<Rightarrow> u32 \<Rightarrow> u32 \<times> bytes \<times> ext2_fs" where
  "fill_level 0 j inner fs b written wanted = (written, b, fs)"
| "fill_level (Suc n) j inner fs b written wanted =
     (if written = wanted then (written, b, fs)
      else case inner fs (wanted - written) of
             (c, t, fs') \<Rightarrow> fill_level n (Suc j) inner fs' (put32 b (4 * j) t) (written + c) wanted)"

definition allocate_level :: "(ext2_fs \<Rightarrow> u32 \<Rightarrow> u32 \<times> u32 \<times> ext2_fs) \<Rightarrow> ext2_fs \<Rightarrow> u32 \<Rightarrow> u32 \<times> u32 \<times> ext2_fs" where
  "allocate_level inner fs wanted =
     (case ext2_allocate_block fs of
        (target, fs1) \<Rightarrow>
          if target = 0 then (0, target, fs1)
          else case fill_level (entries_per_block fs1) 0 inner fs1 (\<lambda>_. 0) 0 wanted of
                 (written, b, fs2) \<Rightarrow>
                   (case ext2_write_block fs2 target b 0 of (r, fs3) \<Rightarrow> (if r \<le> 0 then 0 else written, target, fs3)))"

definition ext2_allocate_double_indirect_block :: "ext2_fs \<Rightarrow> u32 \<Rightarrow> u32 \<times> u32 \<times> ext2_fs" where
  "ext2_allocate_double_indirect_block = allocate_level ext2_allocate_indirect_block"

definition ext2_allocate_triple_indirect_block :: "ext2_fs \<Rightarrow> u32 \<Rightarrow> u32 \<times> u32 \<times> ext2_fs" where
  "ext2_allocate_triple_indirect_block = allocate_level ext2_allocate_double_indirect_block"

definition set_i_block :: "nat \<Rightarrow> u32 \<Rightarrow> bytes \<Rightarrow> bytes" where "set_i_block k v inode = put32 inode (40 + 4 * k) v"

primrec allocate_direct :: "nat \<Rightarrow> nat \<Rightarrow> ext2_fs \<Rightarrow> bytes \<Rightarrow> u32 \<Rightarrow> u32 \<Rightarrow> u32 option \<times> bytes \<times> ext2_fs" where
  "allocate_direct 0 i fs inode got wanted = (Some got, inode, fs)"
| "allocate_direct (Suc n) i fs inode got wanted =
     (if got = wanted then (Some got, inode, fs)
      else if i_block inode i = 0
      then case ext2_allocate_block fs of
             (blk, fs') \<Rightarrow>
               if blk = 0 then (None, set_i_block i blk inode, fs')
               else allocate_direct n (Suc i) fs' (set_i_block i blk inode) (got + 1) wanted
      else allocate_direct n (Suc i) fs inode got wanted)"

primrec allocate_stages :: "(nat \<times> (ext2_fs \<Rightarrow> u32 \<Rightarrow> u32 \<times> u32 \<times> ext2_fs)) list \<Rightarrow> ext2_fs \<Rightarrow> bytes \<Rightarrow> u32 \<Rightarrow> u32 \<Rightarrow> u8 \<times> bytes \<times> ext2_fs" where
  "allocate_stages [] fs inode got wanted = (if got = wanted then 0 else 1, inode, fs)"
| "allocate_stages (s # ss) fs inode got wanted =
     (if got = wanted then (0, inode, fs)
      else case snd s fs (wanted - got) of
             (c, t, fs') \<Rightarrow> allocate_stages ss fs' (set_i_block (fst s) t inode) (got + c) wanted)"

definition ext2_allocate_blocks :: "ext2_fs \<Rightarrow> bytes \<Rightarrow> u32 \<Rightarrow> u8 \<times> bytes \<times> ext2_fs" where
  "ext2_allocate_blocks fs inode wanted =
     (case allocate_direct 12 0 fs inode 0 wanted of
        (None, inode', fs') \<Rightarrow> (1, inode', fs')
      | (Some got, inode', fs') \<Rightarrow>
          allocate_stages [(12, ext2_allocate_indirect_block), (13, ext2_allocate_double_indirect_block), (14, ext2_allocate_triple_indirect_block)]
            fs' inode' got wanted)"

section \<open>Byte ranges of a file\<close>

primrec read_stages :: "(bytes \<Rightarrow> nat \<Rightarrow> u64 \<Rightarrow> u64 \<Rightarrow> int \<times> u64 \<times> bytes) list \<Rightarrow> ext2_fs \<Rightarrow> bytes \<Rightarrow> nat \<Rightarrow> u64 \<Rightarrow> u64 \<Rightarrow> u32 \<Rightarrow> int \<times> bytes" where
  "read_stages [] fs dst pos cnt skip br = (EXT2_READ_FAILED, dst)"
| "read_stages (f # stages) fs dst pos cnt skip br =
     (case f dst pos (cnt - ucast br) skip of
        (r, skip', dst') \<Rightarrow>
          if r = EXT2_READ_FAILED then (r, dst')
          else let br' = br + word_of_int r
               in if ucast br' \<ge> cnt then (uint br', dst')
                  else read_stages stages fs dst' (pos + nat (r * uint (block_size fs))) cnt skip' br')"

definition ext2_read_inode_blocks :: "ext2_fs \<Rightarrow> u32 \<Rightarrow> bytes \<Rightarrow> nat \<Rightarrow> u64 \<Rightarrow> u64 \<Rightarrow> int \<times> bytes" where
  "ext2_read_inode_blocks fs n dst pos cnt skip =
     (if cnt = 0 then (0, dst)
      else case ext2_read_inode fs n of
             None \<Rightarrow> (EXT2_READ_FAILED, dst)
           | Some inode \<Rightarrow>
               read_stages
                 [ext2_read_direct_blocks fs (i_block inode) 12,
                  ext2_read_indirect_blocks fs (\<lambda>i. i_block inode (12 + i)) 1,
                  ext2_read_double_indirect_blocks fs (\<lambda>i. i_block inode (13 + i)) 1,
                  ext2_read_triple_indirect_blocks fs (\<lambda>i. i_block inode (14 + i)) 1]
                 fs dst pos cnt skip 0)"

text \<open>The last part of a read, when bytes remain: one block through a buffer.\<close>

definition read_tail :: "ext2_fs \<Rightarrow> u32 \<Rightarrow> bytes \<Rightarrow> nat \<Rightarrow> u64 \<Rightarrow> u64 \<Rightarrow> u64 \<Rightarrow> int \<times> bytes" where
  "read_tail fs n dst pos cnt got skip_blocks =
     (let remaining = cnt - got
      in if sint remaining > 0
         then case ext2_read_inode_blocks fs n (\<lambda>_. 0) 0 1 skip_blocks of
                (r, temp) \<Rightarrow> if r \<noteq> 1 then (EXT2_READ_FAILED, dst) else (sint (got + remaining), blit dst pos temp (unat remaining))
         else (sint got, dst))"

definition read_rest :: "ext2_fs \<Rightarrow> u32 \<Rightarrow> bytes \<Rightarrow> nat \<Rightarrow> u64 \<Rightarrow> u64 \<Rightarrow> u64 \<Rightarrow> u64 \<Rightarrow> int \<times> bytes" where
  "read_rest fs n dst pos cnt blocks got skip_blocks =
     (if sint (cnt - got) > 0
      then case ext2_read_inode_blocks fs n dst pos (blocks - 1) skip_blocks of
             (r, dst') \<Rightarrow>
               if r = EXT2_READ_FAILED \<or> r < 0 then (EXT2_READ_FAILED, dst')
               else read_tail fs n dst' (pos + nat (r * uint (block_size fs))) cnt
                      (got + word_of_int (r * uint (block_size fs))) (skip_blocks + word_of_int r)
      else (sint got, dst))"

definition ext2_read_inode_bytes :: "ext2_fs \<Rightarrow> u32 \<Rightarrow> bytes \<Rightarrow> nat \<Rightarrow> u64 \<Rightarrow> u64 \<Rightarrow> int \<times> bytes" where
  "ext2_read_inode_bytes fs n dst pos cnt skip =
     (let bs = ucast (block_size fs); blocks = div_up cnt bs; skip_blocks = skip div bs; skip_bytes = skip mod bs
      in if skip_bytes \<noteq> 0
         then case ext2_read_inode_blocks fs n (\<lambda>_. 0) 0 1 skip_blocks of
                (r, temp) \<Rightarrow>
                  if r \<noteq> 1 then (EXT2_READ_FAILED, dst)
                  else read_rest fs n (blit dst pos (\<lambda>k. temp (unat skip_bytes + k)) (unat (bs - skip_bytes))) (pos + unat (bs - skip_bytes))
                         cnt blocks (bs - skip_bytes) (skip_blocks + 1)
         else read_rest fs n dst pos cnt blocks 0 skip_blocks)"

primrec write_stages :: "(ext2_fs \<Rightarrow> bytes \<Rightarrow> nat \<Rightarrow> u64 \<Rightarrow> u64 \<Rightarrow> int \<times> u64 \<times> ext2_fs) list \<Rightarrow> ext2_fs \<Rightarrow> bytes \<Rightarrow> nat \<Rightarrow> u64 \<Rightarrow> u64 \<Rightarrow> u32 \<Rightarrow> int \<times> ext2_fs" where
  "write_stages [] fs src pos cnt skip bw = (EXT2_WRITE_FAILED, fs)"
| "write_stages (f # stages) fs src pos cnt skip bw =
     (case f fs src pos (cnt - ucast bw) skip of
        (r, skip', fs') \<Rightarrow>
          if r = EXT2_WRITE_FAILED \<or> r = 0 then (r, fs')
          else let bw' = bw + word_of_int r
               in if ucast bw' \<ge> cnt then (uint bw', fs')
                  else write_stages stages fs' src (pos + nat (r * uint (block_size fs))) cnt skip' bw')"

definition ext2_write_inode_blocks :: "ext2_fs \<Rightarrow> u32 \<Rightarrow> bytes \<Rightarrow> nat \<Rightarrow> u64 \<Rightarrow> u64 \<Rightarrow> int \<times> ext2_fs" where
  "ext2_write_inode_blocks fs n src pos cnt skip =
     (if cnt = 0 then (0, fs)
      else case ext2_read_inode fs n of
             None \<Rightarrow> (EXT2_WRITE_FAILED, fs)
           | Some inode \<Rightarrow>
               write_stages
                 [\<lambda>fs. ext2_write_direct_blocks fs (i_block inode) 12,
                  \<lambda>fs. ext2_write_indirect_blocks fs (\<lambda>i. i_block inode (12 + i)) 1,
                  \<lambda>fs. ext2_write_double_indirect_blocks fs (\<lambda>i. i_block inode (13 + i)) 1,
                  \<lambda>fs. ext2_write_triple_indirect_blocks fs (\<lambda>i. i_block inode (14 + i)) 1]
                 fs src pos cnt skip 0)"

text \<open>One block of a file is replaced through a buffer: \<open>len\<close> bytes of it, from \<open>at\<close> on.\<close>

definition patch_block :: "ext2_fs \<Rightarrow> u32 \<Rightarrow> u64 \<Rightarrow> nat \<Rightarrow> bytes \<Rightarrow> nat \<Rightarrow> nat \<Rightarrow> bool \<times> ext2_fs" where
  "patch_block fs n blk off src pos len =
     (case ext2_read_inode_blocks fs n (\<lambda>_. 0) 0 1 blk of
        (r, temp) \<Rightarrow>
          if r \<noteq> 1 then (False, fs)
          else case ext2_write_inode_blocks fs n (blit temp off (\<lambda>k. src (pos + k)) len) 0 1 blk of (w, fs') \<Rightarrow> (w = 1, fs'))"

definition write_tail :: "ext2_fs \<Rightarrow> u32 \<Rightarrow> bytes \<Rightarrow> nat \<Rightarrow> u64 \<Rightarrow> u64 \<Rightarrow> u64 \<Rightarrow> int \<times> ext2_fs" where
  "write_tail fs n src pos cnt put skip_blocks =
     (let remaining = cnt - put
      in if sint remaining > 0
         then case patch_block fs n skip_blocks 0 src (pos + unat put) (unat remaining) of
                (ok, fs') \<Rightarrow> (if ok then sint (put + remaining) else EXT2_WRITE_FAILED, fs')
         else (sint put, fs))"

definition write_rest :: "ext2_fs \<Rightarrow> u32 \<Rightarrow> bytes \<Rightarrow> nat \<Rightarrow> u64 \<Rightarrow> u64 \<Rightarrow> u64 \<Rightarrow> u64 \<Rightarrow> int \<times> ext2_fs" where
  "write_rest fs n src pos cnt blocks put skip_blocks =
     (if sint (cnt - put) > 0
      then case ext2_write_inode_blocks fs n src pos (blocks - 1) skip_blocks of
             (r, fs') \<Rightarrow>
               if r = EXT2_WRITE_FAILED \<or> r < 0 then (EXT2_WRITE_FAILED, fs')
               else write_tail fs' n src pos cnt (put + word_of_int (r * uint (block_size fs))) (skip_blocks + word_of_int r)
      else (sint put, fs))"

definition ext2_write_inode_bytes :: "ext2_fs \<Rightarrow> u32 \<Rightarrow> bytes \<Rightarrow> nat \<Rightarrow> u64 \<Rightarrow> u64 \<Rightarrow> int \<times> ext2_fs" where
  "ext2_write_inode_bytes fs n src pos cnt skip =
     (case ext2_read_inode fs n of
        None \<Rightarrow> (EXT2_WRITE_FAILED, fs)
      | Some inode \<Rightarrow>
          (let bs = ucast (block_size fs); blocks = div_up cnt bs; skip_blocks = skip div bs; skip_bytes = skip mod bs
           in if skip_bytes \<noteq> 0
              then case patch_block fs n skip_blocks (unat skip_bytes) src pos (unat skip_bytes) of
                     (ok, fs') \<Rightarrow>
                       if \<not> ok then (EXT2_WRITE_FAILED, fs')
                       else write_rest fs' n src (pos + unat (bs - skip_bytes)) cnt blocks (bs - skip_bytes) (skip_blocks + 1)
              else write_rest fs n src pos cnt blocks 0 skip_blocks))"

end
