(* ===== verification/Ext2_Inode.thy ===== *)
theory Ext2_Inode
  imports Ext2_Block
begin

unbundle bit_operations_syntax

text \<open>
  Inodes of the ext2 driver, ext2_inode.c: allocation in the bitmap of a group, initialisation,
  deletion, the list of blocks of a file, and the translation of paths to inodes.  A loop over
  directory entries need not end (a record length of zero stands still); it is a partial
  function, and its callers turn the absence of a result into the fault \<open>Spin\<close>.  The printing functions are not modelled.
\<close>

section \<open>Constants and fields\<close>

definition INODE_TYPE_DIR :: u16 where "INODE_TYPE_DIR = 0x4000"

definition INODE_BLOCK_END :: u32 where "INODE_BLOCK_END = 0xFFFFFFFF"

definition EXT2_INO_PAP_NOTFOUND :: int where "EXT2_INO_PAP_NOTFOUND = - 1"

definition EXT2_INO_PAP_ERROR :: int where "EXT2_INO_PAP_ERROR = - 2"

definition EXT2_INO_PTI_ERROR :: u32 where "EXT2_INO_PTI_ERROR = 0"

definition EXT2_ROOT_INO_INDEX :: u32 where "EXT2_ROOT_INO_INDEX = 2"

definition is_dir :: "bytes \<Rightarrow> bool" where "is_dir inode \<longleftrightarrow> i_mode inode AND INODE_TYPE_DIR \<noteq> 0"

definition set_bg_free_inodes :: "u32 \<Rightarrow> u16 \<Rightarrow> ext2_fs \<Rightarrow> ext2_fs" where
  "set_bg_free_inodes g v fs = fs\<lparr>p_gd := put16 (p_gd fs) (bg_off g + 14) v\<rparr>"

definition set_bg_used_dirs :: "u32 \<Rightarrow> u16 \<Rightarrow> ext2_fs \<Rightarrow> ext2_fs" where
  "set_bg_used_dirs g v fs = fs\<lparr>p_gd := put16 (p_gd fs) (bg_off g + 16) v\<rparr>"

definition set_s_free_inodes :: "u32 \<Rightarrow> ext2_fs \<Rightarrow> ext2_fs" where
  "set_s_free_inodes v fs = fs\<lparr>p_sb := put32 (p_sb fs) 16 v\<rparr>"

section \<open>Allocation\<close>

text \<open>The first byte that is not full ends the search.\<close>

primrec scan_inodes :: "nat \<Rightarrow> nat \<Rightarrow> bytes \<Rightarrow> u32" where
  "scan_inodes 0 i b = 0"
| "scan_inodes (Suc n) i b =
     (if b i \<noteq> 0xFF
      then case find (\<lambda>j. \<not> bit (b i) j) [0..<8] of Some j \<Rightarrow> of_nat (i * 8 + j + 1) | None \<Rightarrow> 0
      else scan_inodes n (Suc i) b)"

definition ext2_allocate_inode :: "ext2_fs \<Rightarrow> u32 \<times> ext2_fs" where
  "ext2_allocate_inode fs =
     (case ext2_operate_on_bg ext2_bg_has_free_inodes fs of
        (g, _) \<Rightarrow>
          if g = -1 then (0, fs)
          else let bg = word_of_int g
               in case ext2_read_block fs (bg_inode_bitmap (p_gd fs) bg) (\<lambda>_. 0) 0 of
                    (e, b) \<Rightarrow>
                      if e \<noteq> 1 then (0, fs)
                      else let n = scan_inodes (unat (block_size fs)) 0 b
                           in if n = 0 then (0, fs)
                              else let at = unat ((n - 1) div 8); b' = b(at := b at OR push_bit (unat ((n - 1) mod 8)) 1)
                                   in case ext2_write_block fs (bg_inode_bitmap (p_gd fs) bg) b' 0 of
                                        (r, fs1) \<Rightarrow>
                                          if r \<le> 0 then (0, fs1)
                                          else (n, ext2_flush_required
                                                     (set_s_free_inodes (s_free_inodes_count (p_sb fs1) - 1)
                                                       (set_bg_free_inodes bg (bg_free_inodes_count (p_gd fs1) bg - 1) fs1))))"

text \<open>The inode is read, and all its fields but the twelve last bytes are set.\<close>

definition fresh_inode :: "bytes \<Rightarrow> u16 \<Rightarrow> u32 \<Rightarrow> u32 \<Rightarrow> bytes" where
  "fresh_inode inode mode now unique =
     put32 (put32 (put32 (put32
       (blit (put32 (put32 (put32 (put16 (put16 (put32 (put32 (put32 (put32 (put32 (put16 (put16 inode
          0 mode) 2 (ucast ext2_get_uid)) 4 0) 8 now) 12 now) 16 now) 20 0) 24 (ucast ext2_get_gid)) 26 1) 28 0) 32 0) 36 0)
          40 (\<lambda>_. 0) 60)
       100 unique) 104 0) 108 0) 112 0"

definition ext2_initialize_inode :: "ext2_fs \<Rightarrow> u32 \<Rightarrow> u32 \<Rightarrow> u32 \<Rightarrow> bytes option \<times> ext2_fs" where
  "ext2_initialize_inode fs n type permissions =
     (case ext2_read_inode fs n of
        None \<Rightarrow> (None, fs)
      | Some inode \<Rightarrow>
          (case ext2_get_unique_id fs of
             (u, fs') \<Rightarrow>
               if u = 0 then (None, fs') else (Some (fresh_inode inode (ucast (type OR permissions)) (epoch_now fs') u), fs')))"

section \<open>Inode bitmaps\<close>

definition inode_bitmap_lba :: "ext2_fs \<Rightarrow> u32 \<Rightarrow> u32" where
  "inode_bitmap_lba fs n = p_lba fs + (bg_inode_bitmap (p_gd fs) (inode_group fs n) * block_size fs) div sector_size fs"

definition ext2_read_inode_bitmap :: "ext2_fs \<Rightarrow> u32 \<Rightarrow> bytes option" where
  "ext2_read_inode_bitmap fs n =
     (case disk_in (fs_drive fs) (inode_bitmap_lba fs n) (block_size fs div sector_size fs * sector_size fs) (\<lambda>_. 0) 0 of
        (r, b) \<Rightarrow> if r = 0 then None else Some b)"

definition ext2_write_inode_bitmap :: "ext2_fs \<Rightarrow> u32 \<Rightarrow> bytes \<Rightarrow> u8 \<times> ext2_fs" where
  "ext2_write_inode_bitmap fs n b =
     (case disk_out (fs_drive fs) (inode_bitmap_lba fs n) (block_size fs div sector_size fs) b 0 of
        (r, d) \<Rightarrow> (if r = 0 then 1 else 0, fs\<lparr>fs_drive := d\<rparr>))"

section \<open>Paths\<close>

definition str_bytes :: "string \<Rightarrow> bytes" where
  "str_bytes s = (\<lambda>k. if k < length s then of_char (s ! k) else 0)"

text \<open>Whether \<open>strncmp\<close> finds no difference in the first \<open>n\<close> characters.\<close>

primrec strn_equal :: "nat \<Rightarrow> bytes \<Rightarrow> bytes \<Rightarrow> bool" where
  "strn_equal 0 a b = True"
| "strn_equal (Suc n) a b = (a 0 = b 0 \<and> (a 0 = 0 \<or> strn_equal n (\<lambda>k. a (Suc k)) (\<lambda>k. b (Suc k))))"

partial_function (option) find_entry :: "bytes \<Rightarrow> u32 \<Rightarrow> string \<Rightarrow> u32 \<Rightarrow> u32 option option" where
  "find_entry b sz path parsed =
     (if parsed < sz
      then if strn_equal (unat (de_name_len b (unat parsed))) (de_name b (unat parsed)) (str_bytes path)
           then Some (Some (de_inode b (unat parsed)))
           else find_entry b sz path (parsed + ucast (de_rec_len b (unat parsed)))
      else Some None)"

definition returned :: "'a option \<Rightarrow> 'a res" where
  "returned x = (case x of None \<Rightarrow> Inl Spin | Some y \<Rightarrow> Inr y)"

definition ext2_inode_from_path_and_parent :: "ext2_fs \<Rightarrow> u32 \<Rightarrow> string \<Rightarrow> int res" where
  "ext2_inode_from_path_and_parent fs parent path =
     (if path = [] then Inr (sint parent)
      else case ext2_read_inode fs parent of
             None \<Rightarrow> Inr EXT2_INO_PAP_ERROR
           | Some inode \<Rightarrow>
               if \<not> is_dir inode then Inr EXT2_INO_PAP_NOTFOUND
               else case ext2_read_inode_bytes fs parent (\<lambda>_. 0) 0 (ucast (i_size inode)) 0 of
                      (r, b) \<Rightarrow>
                        if r = EXT2_READ_FAILED then Inr EXT2_INO_PAP_ERROR
                        else res_bind (returned (find_entry b (i_size inode) path 0))
                               (\<lambda>e. Inr (case e of Some n \<Rightarrow> sint n | None \<Rightarrow> EXT2_INO_PAP_NOTFOUND)))"

text \<open>The tokens \<open>strtok\<close> gives with the delimiter \<open>/\<close>: slashes at the end, skipped before a token, give
  an empty token, because the character after a skipped delimiter is not compared with the terminator.\<close>

function path_tokens :: "string \<Rightarrow> string list" where
  "path_tokens s =
     (if s = [] then []
      else let t = dropWhile (\<lambda>c. c = CHR ''/'') s
           in if t = [] then [[]]
              else takeWhile (\<lambda>c. c \<noteq> CHR ''/'') t # path_tokens (drop 1 (dropWhile (\<lambda>c. c \<noteq> CHR ''/'') t)))"
  by pat_completeness auto
termination
proof (relation "measure length", simp, goal_cases)
  case (1 s t)
  have "length (dropWhile (\<lambda>c. c \<noteq> CHR ''/'') t) \<le> length t" by (rule length_dropWhile_le)
  moreover have "length t \<le> length s" using 1(2) length_dropWhile_le by metis
  moreover have "0 < length t" using 1(3) by simp
  ultimately have "length (dropWhile (\<lambda>c. c \<noteq> CHR ''/'') t) - 1 < length s" by linarith
  then show ?case by simp
qed

declare path_tokens.simps [simp del]

primrec walk_tokens :: "ext2_fs \<Rightarrow> string list \<Rightarrow> u32 \<Rightarrow> u32 option res" where
  "walk_tokens fs [] n = Inr (Some n)"
| "walk_tokens fs (t # ts) n =
     res_bind (ext2_inode_from_path_and_parent fs n t)
       (\<lambda>r. if r = EXT2_INO_PAP_ERROR \<or> r = EXT2_INO_PAP_NOTFOUND then Inr None else walk_tokens fs ts (word_of_int r))"

definition ext2_path_to_inode :: "ext2_fs \<Rightarrow> string \<Rightarrow> u32 res" where
  "ext2_path_to_inode fs path =
     res_bind (walk_tokens fs (path_tokens path) EXT2_ROOT_INO_INDEX)
       (\<lambda>r. case r of None \<Rightarrow> Inr EXT2_INO_PTI_ERROR | Some n \<Rightarrow> if n = 0 then Inl (Panic ''Inode Zer0'') else Inr n)"

section \<open>Block lists\<close>

text \<open>A list that is loaded, or \<open>None\<close> for \<open>EXT2_READ_FAILED\<close>; the writes run through the
  buffer from its start.\<close>

definition table_entries :: "ext2_fs \<Rightarrow> u32 \<Rightarrow> u32 list option" where
  "table_entries fs block =
     (case ext2_read_block fs block (\<lambda>_. 0) 0 of
        (r, b) \<Rightarrow>
          if r = EXT2_READ_FAILED then None
          else Some (takeWhile (\<lambda>x. x \<noteq> 0 \<and> x \<noteq> INODE_BLOCK_END) (map (pointers b) [0..<entries_per_block fs])))"

definition ext2_load_indirect_block_list :: "ext2_fs \<Rightarrow> u32 \<Rightarrow> u32 list option" where
  "ext2_load_indirect_block_list fs block = table_entries fs block"

primrec load_all :: "(u32 \<Rightarrow> u32 list option) \<Rightarrow> u32 list \<Rightarrow> u32 list option" where
  "load_all f [] = Some []"
| "load_all f (x # xs) = (case f x of None \<Rightarrow> None | Some ys \<Rightarrow> map_option (\<lambda>zs. ys @ zs) (load_all f xs))"

definition ext2_load_double_indirect_block_list :: "ext2_fs \<Rightarrow> u32 \<Rightarrow> u32 list option" where
  "ext2_load_double_indirect_block_list fs block =
     Option.bind (table_entries fs block) (load_all (ext2_load_indirect_block_list fs))"

definition ext2_load_triple_indirect_block_list :: "ext2_fs \<Rightarrow> u32 \<Rightarrow> u32 list option" where
  "ext2_load_triple_indirect_block_list fs block =
     Option.bind (table_entries fs block) (load_all (ext2_load_double_indirect_block_list fs))"

primrec load_stages :: "(u32 list option) list \<Rightarrow> nat \<Rightarrow> u32 list \<Rightarrow> u32 list option" where
  "load_stages [] bn acc = (if length acc = bn then Some acc else None)"
| "load_stages (l # ls) bn acc =
     (if length acc < bn then case l of None \<Rightarrow> None | Some ys \<Rightarrow> load_stages ls bn (acc @ ys) else load_stages ls bn acc)"

definition file_block_count :: "ext2_fs \<Rightarrow> bytes \<Rightarrow> u32" where
  "file_block_count fs inode = div_up (i_size inode) (block_size fs)"

definition ext2_load_block_list :: "ext2_fs \<Rightarrow> u32 \<Rightarrow> u32 list option" where
  "ext2_load_block_list fs n =
     (case ext2_read_inode fs n of
        None \<Rightarrow> None
      | Some inode \<Rightarrow>
          (let bn = unat (file_block_count fs inode)
           in load_stages
                [ext2_load_indirect_block_list fs (i_block inode 12),
                 ext2_load_double_indirect_block_list fs (i_block inode 13),
                 ext2_load_triple_indirect_block_list fs (i_block inode 14)]
                bn (take bn (filter (\<lambda>x. x > 0) (map (i_block inode) [0..<12])))))"

section \<open>Deletion\<close>

definition listed :: "u32 list \<Rightarrow> nat \<Rightarrow> u32" where
  "listed xs = (\<lambda>i. if i < length xs then xs ! i else 0)"

definition ext2_delete_file_blocks :: "ext2_fs \<Rightarrow> u32 \<Rightarrow> int \<times> ext2_fs" where
  "ext2_delete_file_blocks fs n =
     (case ext2_read_inode fs n of
        None \<Rightarrow> (1, fs)
      | Some inode \<Rightarrow>
          (case ext2_load_block_list fs n of
             None \<Rightarrow> (1, fs)
           | Some bl \<Rightarrow>
               (case ext2_deallocate_blocks fs (listed bl) (file_block_count fs inode) of
                  (r, fs') \<Rightarrow> (if r \<noteq> file_block_count fs inode then 1 else 0, fs'))))"

definition ext2_delete_n_blocks :: "ext2_fs \<Rightarrow> u32 \<Rightarrow> u32 \<Rightarrow> u8 \<times> ext2_fs" where
  "ext2_delete_n_blocks fs n k =
     (case ext2_read_inode fs n of
        None \<Rightarrow> (1, fs)
      | Some inode \<Rightarrow>
          (case ext2_load_block_list fs n of
             None \<Rightarrow> (1, fs)
           | Some bl \<Rightarrow> (case ext2_deallocate_blocks fs (listed bl) k of (r, fs') \<Rightarrow> (if r \<noteq> k then 1 else 0, fs'))))"

definition dead_inode :: "bytes \<Rightarrow> u32 \<Rightarrow> bytes" where
  "dead_inode inode now = put32 (put16 (put32 (put16 (put32 inode 20 now) 26 0) 4 0) 0 0) 28 0"

text \<open>The byte of the bitmap whose index is that of the inode is cleared.\<close>

definition ext2_delete_inode :: "ext2_fs \<Rightarrow> u32 \<Rightarrow> u8 \<times> ext2_fs" where
  "ext2_delete_inode fs n =
     (case ext2_read_inode fs n of
        None \<Rightarrow> (1, fs)
      | Some inode \<Rightarrow>
          (case ext2_write_inode fs n (dead_inode inode (epoch_now fs)) of
             (w, fs1) \<Rightarrow>
               if w \<noteq> 0 then (1, fs1)
               else case ext2_read_inode_bitmap fs1 n of
                      None \<Rightarrow> (1, fs1)
                    | Some b \<Rightarrow>
                        (case ext2_write_inode_bitmap fs1 n (b(unat (inode_index fs1 n) := 0)) of
                           (w, fs2) \<Rightarrow>
                             if w \<noteq> 0 then (1, fs2)
                             else let g = inode_group fs2 n;
                                      fs3 = set_bg_free_inodes g (bg_free_inodes_count (p_gd fs2) g + 1) fs2;
                                      fs4 = (if is_dir inode then set_bg_used_dirs g (bg_used_dirs_count (p_gd fs3) g - 1) fs3 else fs3)
                                  in (0, ext2_flush_required (set_s_free_inodes (s_free_inodes_count (p_sb fs4) + 1) fs4)))))"

end
