(* ===== verification/Ext2_Dentry.thy ===== *)
theory Ext2_Dentry
  imports Ext2_Inode
begin

unbundle bit_operations_syntax

text \<open>
  Directory entries of the ext2 driver, ext2_dentry.c.  A directory is the byte contents of its
  file, a chain of records; \<open>p\<close> is the offset of a record.  The loops that follow the chain to the
  size of the directory are partial functions.  \<open>ext2_list_dentry\<close> prints, so only its
  look-up remains.
\<close>

section \<open>Chains of records\<close>

definition LIST_MAX :: nat where "LIST_MAX = 65535"

definition EXT2_DIR_TYPE_DIRECTORY :: u8 where "EXT2_DIR_TYPE_DIRECTORY = 2"

definition dentry_size :: nat where "dentry_size = 263"

definition next_entry :: "bytes \<Rightarrow> u32 \<Rightarrow> u32" where
  "next_entry b p = p + ucast (de_rec_len b (unat p))"

partial_function (option) dir_positions :: "bytes \<Rightarrow> u32 \<Rightarrow> u32 \<Rightarrow> u32 list option" where
  "dir_positions b sz p = (if p < sz then Option.bind (dir_positions b sz (next_entry b p)) (\<lambda>ps. Some (p # ps)) else Some [])"

text \<open>The contents of a directory given by its inode number, or \<open>None\<close> where the functions below give up; they
  all start in this way.\<close>

definition read_dir :: "ext2_fs \<Rightarrow> u32 \<Rightarrow> bytes \<Rightarrow> bytes option" where
  "read_dir fs n inode =
     (case ext2_read_inode_bytes fs n (\<lambda>_. 0) 0 (ucast (i_size inode)) 0 of
        (r, b) \<Rightarrow> if r = EXT2_READ_FAILED then None else Some b)"

section \<open>Removal\<close>

partial_function (option) find_target :: "bytes \<Rightarrow> u32 \<Rightarrow> u32 \<Rightarrow> u32 \<Rightarrow> u32 option \<Rightarrow> (u32 \<times> u32 option) option option" where
  "find_target b sz target p prev =
     (if p < sz
      then if de_inode b (unat p) = target then Some (Some (p, prev))
           else find_target b sz target (next_entry b p) (Some p)
      else Some None)"

definition clear_entry :: "bytes \<Rightarrow> nat \<Rightarrow> bytes" where
  "clear_entry b p = (put32 b p 0)(p + 6 := 0, p + 7 := 0, p + 8 := 0)"

definition unlink_entry :: "bytes \<Rightarrow> u32 \<Rightarrow> u32 option \<Rightarrow> bytes" where
  "unlink_entry b p prev =
     (let b1 = clear_entry b (unat p);
          b2 = (case prev of None \<Rightarrow> b1
                | Some q \<Rightarrow> put16 b1 (unat q + 4) (de_rec_len b1 (unat q) + de_rec_len b1 (unat p)))
      in put16 b2 (unat p + 4) 0)"

definition ext2_delete_dentry :: "ext2_fs \<Rightarrow> string \<Rightarrow> (u8 \<times> ext2_fs) res" where
  "ext2_delete_dentry fs path =
     (case ext2_path_to_parent_and_name path of
        None \<Rightarrow> Inr (1, fs)
      | Some (parent_path, name) \<Rightarrow>
          res_bind (ext2_path_to_inode fs parent_path) (\<lambda>parent.
            if parent = EXT2_INO_PTI_ERROR then Inr (1, fs)
            else case ext2_read_inode fs parent of
                   None \<Rightarrow> Inr (1, fs)
                 | Some inode \<Rightarrow>
                     res_bind (ext2_path_to_inode fs path) (\<lambda>target.
                       if target = EXT2_INO_PTI_ERROR then Inr (1, fs)
                       else if \<not> is_dir inode then Inr (1, fs)
                       else case read_dir fs parent inode of
                              None \<Rightarrow> Inr (1, fs)
                            | Some b \<Rightarrow>
                                res_bind (returned (find_target b (i_size inode) target 0 None)) (\<lambda>found.
                                  case found of
                                    None \<Rightarrow> Inr (1, fs)
                                  | Some (p, prev) \<Rightarrow>
                                      (case ext2_write_inode_bytes fs parent (unlink_entry b p prev) 0 (ucast (i_size inode)) 0 of
                                         (r, fs') \<Rightarrow> Inr (if r = EXT2_WRITE_FAILED then 1 else 0, fs'))))))"

section \<open>Look-up and listing\<close>

text \<open>The name of a record as it is copied into a cleared buffer.\<close>

definition entry_name :: "bytes \<Rightarrow> nat \<Rightarrow> bytes" where
  "entry_name b p =
     (\<lambda>k. if k < unat (de_name_len b p) \<and> (\<forall>j \<in> {0..<k}. de_name b p j \<noteq> 0) then de_name b p k else 0)"

definition dentry_at :: "bytes \<Rightarrow> nat \<Rightarrow> bytes" where
  "dentry_at b p = blit (\<lambda>_. 0) 0 (\<lambda>k. b (p + k)) dentry_size"

primrec search_dentry :: "nat \<Rightarrow> bytes \<Rightarrow> u32 \<Rightarrow> string \<Rightarrow> bytes option" where
  "search_dentry 0 b p name = None"
| "search_dentry (Suc n) b p name =
     (if de_rec_len b (unat p) = 0 \<or> de_inode b (unat p) = 0 then None
      else if strn_equal (length name) (entry_name b (unat p)) (str_bytes name) then Some (dentry_at b (unat p))
      else search_dentry n b (next_entry b p) name)"

definition ext2_dentry_get_dentry :: "ext2_fs \<Rightarrow> string \<Rightarrow> string \<Rightarrow> bytes \<Rightarrow> (u8 \<times> bytes) res" where
  "ext2_dentry_get_dentry fs parent_path name entry =
     res_bind (ext2_path_to_inode fs parent_path) (\<lambda>n.
       if n = EXT2_INO_PTI_ERROR then Inr (1, entry)
       else case ext2_read_inode fs n of
              None \<Rightarrow> Inr (1, entry)
            | Some inode \<Rightarrow>
                if \<not> is_dir inode then Inr (1, entry)
                else case read_dir fs n inode of
                       None \<Rightarrow> Inr (1, entry)
                     | Some b \<Rightarrow>
                         (case search_dentry LIST_MAX b 0 name of
                            Some e \<Rightarrow> Inr (0, blit entry 0 e dentry_size)
                          | None \<Rightarrow> Inr (1, blit entry 0 (\<lambda>_. 0) dentry_size)))"

definition ext2_list_dentry :: "ext2_fs \<Rightarrow> string \<Rightarrow> unit res" where
  "ext2_list_dentry fs path = res_bind (ext2_path_to_inode fs path) (\<lambda>_. Inr ())"

text \<open>The entries that are in use, in order; nothing where the directory cannot be read.\<close>

definition ext2_get_all_dirs :: "ext2_fs \<Rightarrow> string \<Rightarrow> bytes list res" where
  "ext2_get_all_dirs fs parent_path =
     res_bind (ext2_path_to_inode fs parent_path) (\<lambda>n.
       if n = EXT2_INO_PTI_ERROR then Inr []
       else case ext2_read_inode fs n of
              None \<Rightarrow> Inr []
            | Some inode \<Rightarrow>
                if \<not> is_dir inode then Inr []
                else case read_dir fs n inode of
                       None \<Rightarrow> Inr []
                     | Some b \<Rightarrow>
                         res_bind (returned (dir_positions b (i_size inode) 0)) (\<lambda>ps.
                           Inr (map (\<lambda>p. dentry_at b (unat p)) (filter (\<lambda>p. de_inode b (unat p) \<noteq> 0) ps))))"

partial_function (option) operate_dentries ::
  "(ext2_fs \<Rightarrow> u32 \<Rightarrow> u8 \<times> ext2_fs) \<Rightarrow> ext2_fs \<Rightarrow> bytes \<Rightarrow> u32 \<Rightarrow> u32 \<Rightarrow> (u8 \<times> ext2_fs) option" where
  "operate_dentries callback fs b sz p =
     (if p < sz
      then case callback fs (de_inode b (unat p)) of
             (r, fs') \<Rightarrow> if r \<noteq> 0 then Some (1, fs') else operate_dentries callback fs' b sz (next_entry b p)
      else Some (0, fs))"

definition ext2_operate_on_dentry :: "ext2_fs \<Rightarrow> string \<Rightarrow> (ext2_fs \<Rightarrow> u32 \<Rightarrow> u8 \<times> ext2_fs) \<Rightarrow> (u8 \<times> ext2_fs) res" where
  "ext2_operate_on_dentry fs path callback =
     res_bind (ext2_path_to_inode fs path) (\<lambda>n.
       if n = EXT2_INO_PTI_ERROR then Inr (0, fs)
       else case ext2_read_inode fs n of
              None \<Rightarrow> Inr (0, fs)
            | Some inode \<Rightarrow>
                if \<not> is_dir inode then Inr (0, fs)
                else case read_dir fs n inode of
                       None \<Rightarrow> Inr (0, fs)
                     | Some b \<Rightarrow> returned (operate_dentries callback fs b (i_size inode) 0))"

section \<open>Creation\<close>

text \<open>A record with its fixed part and its name.\<close>

definition dentry_bytes :: "u32 \<Rightarrow> u16 \<Rightarrow> u8 \<Rightarrow> u8 \<Rightarrow> string \<Rightarrow> bytes" where
  "dentry_bytes n rec_len name_len type name =
     blit ((put16 (put32 (\<lambda>_. 0) 0 n) 4 rec_len)(6 := name_len, 7 := type)) 8 (str_bytes name) (length name)"

definition entry_size :: "u8 \<Rightarrow> u32" where
  "entry_size name_len = 263 + ucast name_len - 255"

definition align4 :: "u32 \<Rightarrow> u32" where
  "align4 x = (x + 3) AND NOT 3"

definition dot_entries :: "bytes \<Rightarrow> u32 \<Rightarrow> u32 \<Rightarrow> bytes" where
  "dot_entries b n parent =
     (let r0 = ucast (align4 (entry_size 1)) :: u16
      in blit (blit b 0 (dentry_bytes n r0 1 EXT2_DIR_TYPE_DIRECTORY ''.'') (unat (entry_size 1)))
           (unat r0) (dentry_bytes parent (1024 - r0) 2 EXT2_DIR_TYPE_DIRECTORY ''..'') (unat (entry_size 2)))"

definition ext2_initialize_directory :: "ext2_fs \<Rightarrow> u32 \<Rightarrow> u32 \<Rightarrow> u8 \<times> ext2_fs" where
  "ext2_initialize_directory fs n parent =
     (case ext2_read_inode fs n of
        None \<Rightarrow> (1, fs)
      | Some inode \<Rightarrow>
          (case read_dir fs n inode of
             None \<Rightarrow> (1, fs)
           | Some b \<Rightarrow>
               (case ext2_write_inode_bytes fs n (dot_entries b n parent) 0 (ucast (i_size inode)) 0 of
                  (r, fs') \<Rightarrow> (if r = EXT2_WRITE_FAILED then 1 else 0, fs'))))"

text \<open>The new record takes the slack of the last one.\<close>

definition insert_entry :: "bytes \<Rightarrow> u32 \<Rightarrow> u32 \<Rightarrow> string \<Rightarrow> u32 \<Rightarrow> bytes option" where
  "insert_entry b p child name type =
     (let name_len = of_nat (length name) :: u8;
          rec_len = ucast (align4 (entry_size name_len)) :: u16;
          aligned = align4 (entry_size (de_name_len b (unat p)));
          original = de_rec_len b (unat p);
          at = unat p + unat aligned
      in if aligned + ucast rec_len > ucast original then None
         else let b1 = put16 b (unat p + 4) (ucast aligned);
                  b2 = blit b1 at (dentry_bytes child (original - ucast aligned) name_len (ucast type) []) 8
              in Some (blit b2 (at + 8) (str_bytes name) (unat name_len)))"

definition ext2_create_directory_entry :: "ext2_fs \<Rightarrow> u32 \<Rightarrow> u32 \<Rightarrow> string \<Rightarrow> u32 \<Rightarrow> (int \<times> ext2_fs) res" where
  "ext2_create_directory_entry fs n child name type =
     (case ext2_read_inode fs n of
        None \<Rightarrow> Inr (1, fs)
      | Some inode \<Rightarrow>
          if \<not> is_dir inode then Inr (1, fs)
          else case read_dir fs n inode of
                 None \<Rightarrow> Inr (1, fs)
               | Some b \<Rightarrow>
                   res_bind (returned (dir_positions b (i_size inode) 0)) (\<lambda>ps.
                     if ps = [] then Inr (1, fs)
                     else case insert_entry b (last ps) child name type of
                            None \<Rightarrow> Inr (1, fs)
                          | Some b' \<Rightarrow>
                              (case ext2_write_inode_bytes fs n b' 0 (ucast (i_size inode)) 0 of
                                 (r, fs') \<Rightarrow> Inr (if r = EXT2_WRITE_FAILED then 1 else 0, fs'))))"

end
