(* ===== verification/Ext2.thy ===== *)
theory Ext2
  imports Ext2_Dentry
begin

unbundle bit_operations_syntax

text \<open>
  The ext2 driver as its clients see it: files by path (ext2.c) and the registration of partitions
  (ext2_partition.c).  Dereferencing the null pointer of an inode that could not be read is the fault \<open>null_inode\<close>.
  Registration runs on the device table and the disk interface; more than 64 groups, for which the code
  writes past its array, are outside the model.
\<close>

section \<open>Files\<close>

definition EXT2_RESULT_ERROR :: int where "EXT2_RESULT_ERROR = - 1"

definition EXT2_RESULT_OK :: int where "EXT2_RESULT_OK = 1"

definition EXT2_FILE_TYPE_REGULAR :: u32 where "EXT2_FILE_TYPE_REGULAR = 1"

definition EXT2_FILE_TYPE_DIRECTORY :: u32 where "EXT2_FILE_TYPE_DIRECTORY = 2"

definition EXT2_FILE_TYPE_SYMLINK :: u32 where "EXT2_FILE_TYPE_SYMLINK = 7"

text \<open>Types of directory entries, which are the native ones, and types of inodes.\<close>

definition file_type_translator :: "(u32 \<times> u32) list" where
  "file_type_translator =
     [(0, 0), (1, 0x8000), (2, 0x4000), (3, 0x2000), (4, 0x6000), (5, 0x1000), (6, 0xC000), (7, 0xA000)]"

definition null_inode :: fault where "null_inode = Panic ''null inode''"

definition is_directory :: "bytes \<Rightarrow> bool" where
  "is_directory entry \<longleftrightarrow> de_file_type entry 0 = EXT2_DIR_TYPE_DIRECTORY"

definition is_regular_file :: "bytes \<Rightarrow> bool" where
  "is_regular_file entry \<longleftrightarrow> de_file_type entry 0 = 1"

definition ext2_sync :: "ext2_fs \<Rightarrow> u8 \<times> ext2_fs" where
  "ext2_sync fs = (1, ext2_flush_partition fs)"

definition split_into_path_and_name :: "string \<Rightarrow> (string \<times> string) option" where
  "split_into_path_and_name path =
     (if path = [] then None
      else if CHR ''/'' \<notin> set path then Some ([], path)
      else let l = last_slash path in Some (if l = 0 then take 1 path else take l path, drop (l + 1) path))"

definition ext2_get_file_size :: "ext2_fs \<Rightarrow> string \<Rightarrow> int res" where
  "ext2_get_file_size fs path =
     res_bind (ext2_path_to_inode fs path) (\<lambda>n.
       if n = EXT2_INO_PTI_ERROR then Inr EXT2_RESULT_ERROR
       else case ext2_read_inode fs n of None \<Rightarrow> Inr EXT2_RESULT_ERROR | Some inode \<Rightarrow> Inr (uint (i_size inode)))"

definition ext2_list_directory :: "ext2_fs \<Rightarrow> string \<Rightarrow> int res" where
  "ext2_list_directory fs path = res_bind (ext2_list_dentry fs path) (\<lambda>_. Inr EXT2_RESULT_OK)"

definition ext2_get_dentry :: "ext2_fs \<Rightarrow> string \<Rightarrow> bytes \<Rightarrow> (int \<times> bytes) res" where
  "ext2_get_dentry fs path entry =
     (case split_into_path_and_name path of
        None \<Rightarrow> Inr (EXT2_RESULT_ERROR, entry)
      | Some (parent_path, name) \<Rightarrow>
          res_bind (ext2_dentry_get_dentry fs parent_path name entry)
            (\<lambda>(r, e). Inr (if r \<noteq> 0 then EXT2_RESULT_ERROR else EXT2_RESULT_OK, e)))"

definition ext2_read_directory :: "ext2_fs \<Rightarrow> string \<Rightarrow> (int \<times> bytes list) res" where
  "ext2_read_directory fs path = res_bind (ext2_get_all_dirs fs path) (\<lambda>es. Inr (EXT2_RESULT_OK, es))"

text \<open>Growing allocates a block for every begun block of the growth; shrinking releases blocks from
  the front of the list.\<close>

definition resize_blocks :: "ext2_fs \<Rightarrow> u32 \<Rightarrow> bytes \<Rightarrow> u32 \<Rightarrow> bytes option \<times> ext2_fs" where
  "resize_blocks fs n inode new_size =
     (if i_size inode > new_size
      then let k = (i_size inode - new_size) div block_size fs
           in case ext2_load_block_list fs n of
                None \<Rightarrow> (None, fs)
              | Some bl \<Rightarrow> (case ext2_deallocate_blocks fs (listed bl) k of (r, fs') \<Rightarrow> (if r \<noteq> k then None else Some inode, fs'))
      else let d = new_size - i_size inode; k = d div block_size fs + (if d mod block_size fs \<noteq> 0 then 1 else 0)
           in case ext2_allocate_blocks fs inode k of (e, inode', fs') \<Rightarrow> (if e \<noteq> 0 then None else Some inode', fs'))"

definition ext2_resize_file :: "ext2_fs \<Rightarrow> u32 \<Rightarrow> u32 \<Rightarrow> int \<times> ext2_fs" where
  "ext2_resize_file fs n new_size =
     (case ext2_read_inode fs n of
        None \<Rightarrow> (EXT2_RESULT_ERROR, fs)
      | Some inode \<Rightarrow>
          if i_size inode = new_size then (EXT2_RESULT_OK, fs)
          else case resize_blocks fs n inode new_size of
                 (None, fs1) \<Rightarrow> (EXT2_RESULT_ERROR, fs1)
               | (Some inode1, fs1) \<Rightarrow>
                   (case ext2_write_inode fs1 n (put32 (put32 inode1 4 new_size) 28 (div_up new_size (sector_size fs1))) of
                      (w, fs2) \<Rightarrow> if w \<noteq> 0 then (EXT2_RESULT_ERROR, fs2) else (EXT2_RESULT_OK, ext2_flush_partition fs2)))"

definition make_directory :: "ext2_fs \<Rightarrow> u32 \<Rightarrow> u32 \<Rightarrow> bool \<times> ext2_fs" where
  "make_directory fs n parent =
     (case ext2_resize_file fs n (block_size fs) of
        (r, fs1) \<Rightarrow>
          if r \<noteq> EXT2_RESULT_OK then (False, fs1)
          else case ext2_initialize_directory (ext2_flush_partition fs1) n parent of (e, fs2) \<Rightarrow> (e = 0, fs2))"

text \<open>What follows once the inode is allocated.\<close>

definition enter_file :: "ext2_fs \<Rightarrow> u32 \<Rightarrow> u32 \<Rightarrow> string \<Rightarrow> string \<Rightarrow> u32 \<Rightarrow> (int \<times> ext2_fs) res" where
  "enter_file fs parent n name path type =
     (case (if type = EXT2_FILE_TYPE_DIRECTORY then make_directory fs n parent else (True, fs)) of
        (ok, fs1) \<Rightarrow>
          if \<not> ok then Inr (EXT2_RESULT_ERROR, fs1)
          else res_bind (ext2_create_directory_entry fs1 parent n name (fst (file_type_translator ! unat type))) (\<lambda>(r, fs2).
                 if r \<noteq> 0 then Inr (EXT2_RESULT_ERROR, fs2)
                 else res_bind (ext2_list_directory fs2 path) (\<lambda>_. Inr (EXT2_RESULT_OK, fs2))))"

definition ext2_create_file :: "ext2_fs \<Rightarrow> string \<Rightarrow> u32 \<Rightarrow> u32 \<Rightarrow> (int \<times> ext2_fs) res" where
  "ext2_create_file fs path type permissions =
     (case ext2_path_to_parent_and_name path of
        None \<Rightarrow> Inr (EXT2_RESULT_ERROR, fs)
      | Some (parent_path, name) \<Rightarrow>
          res_bind (ext2_path_to_inode fs parent_path) (\<lambda>parent.
            if parent = EXT2_INO_PTI_ERROR then Inr (EXT2_RESULT_ERROR, fs)
            else case ext2_read_inode fs parent of
                   None \<Rightarrow> Inl null_inode
                 | Some pinode \<Rightarrow>
                     if \<not> is_dir pinode then Inr (EXT2_RESULT_ERROR, fs)
                     else case ext2_allocate_inode fs of
                            (n, fs1) \<Rightarrow>
                              if n = 0 then Inr (EXT2_RESULT_ERROR, fs1)
                              else case ext2_initialize_inode fs1 n (snd (file_type_translator ! unat type)) permissions of
                                     (None, fs2) \<Rightarrow> Inl null_inode
                                   | (Some inode, fs2) \<Rightarrow>
                                       (case ext2_write_inode fs2 n inode of
                                          (w, fs3) \<Rightarrow>
                                            if w \<noteq> 0 then Inr (EXT2_RESULT_ERROR, fs3) else enter_file fs3 parent n name path type)))"

text \<open>The size is cut to the file; the comparison with zero is one of unsigned numbers.\<close>

definition ext2_read_file :: "ext2_fs \<Rightarrow> string \<Rightarrow> bytes \<Rightarrow> nat \<Rightarrow> u64 \<Rightarrow> u64 \<Rightarrow> (int \<times> bytes) res" where
  "ext2_read_file fs path dst pos sz skip =
     res_bind (ext2_path_to_inode fs path) (\<lambda>n.
       if n = EXT2_INO_PTI_ERROR then Inr (EXT2_RESULT_ERROR, dst)
       else case ext2_read_inode fs n of
              None \<Rightarrow> Inl null_inode
            | Some inode \<Rightarrow>
                if is_dir inode then Inr (EXT2_RESULT_ERROR, dst)
                else let past = skip + sz > ucast (i_size inode); sz' = (if past then ucast (i_size inode) - skip else sz)
                     in if past \<and> sz' \<le> 0 then Inr (0, dst)
                        else case ext2_read_inode_bytes fs n dst pos sz' skip of
                               (r, dst') \<Rightarrow>
                                 if r = EXT2_READ_FAILED \<or> r \<le> 0 then Inr (EXT2_RESULT_ERROR, dst')
                                 else Inr (if word_of_int r > sz' then sint sz' else r, dst'))"

definition ext2_get_inode_index :: "ext2_fs \<Rightarrow> string \<Rightarrow> u32 res" where
  "ext2_get_inode_index fs path =
     res_bind (ext2_path_to_inode fs path) (\<lambda>n.
       if n = EXT2_INO_PTI_ERROR then Inr (word_of_int EXT2_RESULT_ERROR)
       else case ext2_read_inode fs n of None \<Rightarrow> Inr (word_of_int EXT2_RESULT_ERROR) | Some inode \<Rightarrow> Inr n)"

definition ext2_write_file :: "ext2_fs \<Rightarrow> string \<Rightarrow> bytes \<Rightarrow> nat \<Rightarrow> u64 \<Rightarrow> u64 \<Rightarrow> (int \<times> ext2_fs) res" where
  "ext2_write_file fs path src pos sz skip =
     res_bind (ext2_path_to_inode fs path) (\<lambda>n.
       if n = EXT2_INO_PTI_ERROR then Inr (EXT2_RESULT_ERROR, fs)
       else case ext2_read_inode fs n of
              None \<Rightarrow> Inl null_inode
            | Some inode \<Rightarrow>
                if is_dir inode then Inr (EXT2_RESULT_ERROR, fs)
                else case (if sz + skip > ucast (i_size inode) then ext2_resize_file fs n (ucast (sz + skip)) else (EXT2_RESULT_OK, fs)) of
                       (e, fs1) \<Rightarrow>
                         if e \<noteq> EXT2_RESULT_OK then Inr (EXT2_RESULT_ERROR, fs1)
                         else case ext2_write_inode_bytes fs1 n src pos sz skip of
                                (r, fs2) \<Rightarrow>
                                  if r = EXT2_WRITE_FAILED \<or> r \<le> 0 \<or> word_of_int r \<noteq> sz then Inr (EXT2_RESULT_ERROR, fs2)
                                  else Inr (r, fs2))"

record stat =
  st_dev :: u64
  st_ino :: u64
  st_nlink :: u64
  st_mode :: u32
  st_uid :: u32
  st_gid :: u32
  st_rdev :: u64
  st_size :: int
  st_blksize :: int
  st_blocks :: int
  st_atim :: "int \<times> int"
  st_mtim :: "int \<times> int"
  st_ctim :: "int \<times> int"

definition epoch_to_timespec :: "u32 \<Rightarrow> int \<times> int" where
  "epoch_to_timespec epoch = (uint epoch, 0)"

definition ext2_get_stat :: "ext2_fs \<Rightarrow> string \<Rightarrow> stat option res" where
  "ext2_get_stat fs path =
     res_bind (ext2_path_to_inode fs path) (\<lambda>n.
       if n = EXT2_INO_PTI_ERROR then Inr None
       else case ext2_read_inode fs n of
              None \<Rightarrow> Inr None
            | Some inode \<Rightarrow>
                Inr (Some \<lparr>st_dev = ucast (p_lba fs), st_ino = ucast n, st_nlink = ucast (i_links_count inode),
                  st_mode = ucast (i_mode inode), st_uid = ucast (i_uid inode), st_gid = ucast (i_gid inode), st_rdev = 0,
                  st_size = uint (i_size inode), st_blksize = sint (block_size fs), st_blocks = uint (i_sectors inode),
                  st_atim = epoch_to_timespec (i_atime inode), st_mtim = epoch_to_timespec (i_mtime inode),
                  st_ctim = epoch_to_timespec (i_ctime inode)\<rparr>))"

definition ext2_delete_file :: "ext2_fs \<Rightarrow> string \<Rightarrow> (int \<times> ext2_fs) res" where
  "ext2_delete_file fs path =
     res_bind (ext2_path_to_inode fs path) (\<lambda>n.
       if n = EXT2_INO_PTI_ERROR then Inr (EXT2_RESULT_ERROR, fs)
       else case ext2_delete_file_blocks fs n of
              (e1, fs1) \<Rightarrow>
                if e1 \<noteq> 0 then Inr (EXT2_RESULT_ERROR, fs1)
                else case ext2_delete_inode fs1 n of
                       (e2, fs2) \<Rightarrow>
                         if e2 \<noteq> 0 then Inr (EXT2_RESULT_ERROR, fs2)
                         else res_bind (ext2_delete_dentry fs2 path) (\<lambda>(e3, fs3).
                                if e3 \<noteq> 0 then Inr (EXT2_RESULT_ERROR, fs3) else Inr (EXT2_RESULT_OK, ext2_flush_partition fs3)))"

definition ext2_get_file_permissions :: "ext2_fs \<Rightarrow> string \<Rightarrow> u16 res" where
  "ext2_get_file_permissions fs path =
     res_bind (ext2_path_to_inode fs path) (\<lambda>n.
       if n = EXT2_INO_PTI_ERROR then Inr (word_of_int EXT2_RESULT_ERROR)
       else case ext2_read_inode fs n of
              None \<Rightarrow> Inl null_inode
            | Some inode \<Rightarrow> if is_dir inode then Inr (word_of_int EXT2_RESULT_ERROR) else Inr (i_mode inode AND 0x1FF))"

section \<open>Partitions\<close>

definition SB_OFFSET_LBA :: u32 where "SB_OFFSET_LBA = 2"

definition EXT2_SUPER_MAGIC :: u16 where "EXT2_SUPER_MAGIC = 0xEF53"

definition ext2_disk_from_partition :: "string \<Rightarrow> string option" where
  "ext2_disk_from_partition name =
     map_option (\<lambda>i. take i name) (find (\<lambda>i. name ! i = CHR ''p'') (rev [0..<length name]))"

definition ext2_check_status :: "string \<Rightarrow> disk_io devices \<Rightarrow> disk_io \<Rightarrow> (bool \<times> disk_io) res" where
  "ext2_check_status disk t w =
     res_bind (get_disk_status disk t) (\<lambda>status.
       if status = 1 then Inr (True, w)
       else res_bind (init_disk disk t w) (\<lambda>(r, w1).
              if r \<noteq> 0 then Inr (False, w1)
              else res_bind (get_disk_status disk t) (\<lambda>status. Inr (status = 1, w1))))"

definition get_partition :: "ext2_partition list \<Rightarrow> string \<Rightarrow> ext2_partition option" where
  "get_partition ps partno = find (\<lambda>p. p_name p = partno) ps"

definition ext2_partition_get_partition_by_index :: "ext2_partition list \<Rightarrow> u32 \<Rightarrow> ext2_partition option" where
  "ext2_partition_get_partition_by_index ps i = (if unat i < length ps then Some (ps ! unat i) else None)"

definition ext2_partition_count_partitions :: "ext2_partition list \<Rightarrow> u32" where
  "ext2_partition_count_partitions ps = of_nat (length ps)"

definition ext2_is_any_flush_required :: "ext2_partition list \<Rightarrow> bool" where
  "ext2_is_any_flush_required ps = list_ex flush_required ps"

definition ext2_partition_search :: "string \<Rightarrow> u32 \<Rightarrow> disk_io devices \<Rightarrow> disk_io \<Rightarrow> (u8 \<times> disk_io) res" where
  "ext2_partition_search name lba t w =
     res_bind (read_disk name (lba + 2) 1024 t w) (\<lambda>(r, w').
       Inr (if r \<noteq> 0 \<and> s_magic (io_buf w') = EXT2_SUPER_MAGIC then 1 else 0, w'))"

text \<open>The groups whose superblock can be read, in the order they are found; only the first element
  of the array starts with \<open>-1\<close>.\<close>

primrec find_backups :: "nat \<Rightarrow> u32 \<Rightarrow> string \<Rightarrow> u32 \<Rightarrow> u32 \<Rightarrow> disk_io devices \<Rightarrow> disk_io \<Rightarrow> (nat \<Rightarrow> int) \<Rightarrow> u32 \<Rightarrow>
    (((nat \<Rightarrow> int) \<times> u32) option \<times> disk_io) res" where
  "find_backups 0 i disk lba spg t w bgs n = Inr (Some (bgs, n), w)"
| "find_backups (Suc k) i disk lba spg t w bgs n =
     res_bind (read_disk disk (lba + i * spg + SB_OFFSET_LBA) 1024 t w) (\<lambda>(r, w').
       if r = 0 then Inr (None, w')
       else if s_magic (io_buf w') = EXT2_SUPER_MAGIC
       then find_backups k (i + 1) disk lba spg t w' (bgs(unat n := sint i)) (n + 1)
       else find_backups k (i + 1) disk lba spg t w' bgs n)"

definition mounted_partition :: "string \<Rightarrow> u32 \<Rightarrow> string \<Rightarrow> u32 \<Rightarrow> u32 \<Rightarrow> u32 \<Rightarrow> (nat \<Rightarrow> int) \<Rightarrow> u32 \<Rightarrow> bytes \<Rightarrow> bytes \<Rightarrow> ext2_partition" where
  "mounted_partition disk lba mountpoint groups ssz bgdt bgs n sb gd =
     \<lparr>p_name = take 31 mountpoint, p_disk = take 31 disk, backup_bgs = bgs, backup_bgs_count = n, p_lba = lba, group_number = groups,
      sector_size = ssz, bgdt_block = bgdt, sb_block = SB_OFFSET_LBA, flush_required = False, p_sb = sb, p_gd = gd\<rparr>"

text \<open>Registration from a superblock that was read; the descriptors are read behind it.\<close>

definition read_groups :: "string \<Rightarrow> u32 \<Rightarrow> string \<Rightarrow> u32 \<Rightarrow> bytes \<Rightarrow> disk_io devices \<Rightarrow> disk_io \<Rightarrow> (ext2_partition option \<times> disk_io) res" where
  "read_groups disk lba mountpoint ssz sb t w =
     (let bs = push_bit (unat (s_log_block_size sb)) 1024 :: u32;
          spb = div_up bs ssz;
          bgdt = (if bs = 1024 then 2 else 1) :: u32;
          groups = div_up (s_blocks_count sb) (s_blocks_per_group sb)
      in if groups \<noteq> div_up (s_inodes_count sb) (s_inodes_per_group sb) then Inr (None, w)
         else res_bind (find_backups (unat groups) 0 disk lba (s_blocks_per_group sb * spb) t w ((\<lambda>_. 0)(0 := -1)) 0) (\<lambda>(found, w1).
                case found of
                  None \<Rightarrow> Inr (None, w1)
                | Some (bgs, n) \<Rightarrow>
                    (let gds = ucast (div_up (ucast groups * 32 :: u64) (ucast ssz)) :: u32
                     in res_bind (read_disk disk (lba + spb * bgdt) (gds * ssz) t (w1\<lparr>io_buf := (\<lambda>_. 0)\<rparr>)) (\<lambda>(r, w2).
                          if r = 0 then Inr (None, w2)
                          else Inr (Some (mounted_partition disk lba mountpoint groups ssz bgdt bgs n sb
                                     (blit (\<lambda>_. 0) 0 (io_buf w2) (unat (gds * ssz)))), w2)))))"

definition ext2_partition_register_partition ::
  "string \<Rightarrow> u32 \<Rightarrow> string \<Rightarrow> disk_io devices \<Rightarrow> disk_io \<Rightarrow> ext2_partition list \<Rightarrow> (ext2_partition option \<times> disk_io \<times> ext2_partition list) res" where
  "ext2_partition_register_partition disk lba mountpoint t w ps =
     res_bind (ext2_check_status disk t w) (\<lambda>(ok, w1).
       if \<not> ok then Inr (None, w1, ps)
       else res_bind (ioctl_disk disk IOCTL_GET_SECTOR_SIZE t w1) (\<lambda>(r, w2).
              let ssz = get32 (io_buf w2) 0
              in if r = 0 \<or> ssz = 0 \<or> ssz > 4096 then Inr (None, w2, ps)
                 else res_bind (read_disk disk (lba + SB_OFFSET_LBA) 1024 t w2) (\<lambda>(r, w3).
                        let sb = blit (\<lambda>_. 0) 0 (io_buf w3) 1024
                        in if r = 0 \<or> s_magic sb \<noteq> EXT2_SUPER_MAGIC then Inr (None, w3, ps)
                           else res_bind (read_groups disk lba mountpoint ssz sb t w3) (\<lambda>(p, w4).
                                  Inr (p, w4, case p of None \<Rightarrow> ps | Some q \<Rightarrow> ps @ [q])))))"

definition ext2_register_partition ::
  "string \<Rightarrow> u32 \<Rightarrow> string \<Rightarrow> disk_io devices \<Rightarrow> disk_io \<Rightarrow> ext2_partition list \<Rightarrow> (ext2_partition option \<times> disk_io \<times> ext2_partition list) res" where
  "ext2_register_partition = ext2_partition_register_partition"

definition ext2_search :: "string \<Rightarrow> u32 \<Rightarrow> disk_io devices \<Rightarrow> disk_io \<Rightarrow> (u8 \<times> disk_io) res" where
  "ext2_search = ext2_partition_search"

definition ext2_unregister_partition :: "ext2_partition list \<Rightarrow> u8 \<times> ext2_partition list" where
  "ext2_unregister_partition ps = (0, ps)"

end
