(* ===== verification/Ext2_Layout.thy ===== *)
theory Ext2_Layout
  imports Ext2
begin

unbundle bit_operations_syntax

text \<open>
  Where the blocks and inodes of a well-formed ext2 partition lie on its drive, and what single
  transfers do: the arithmetic of the driver on 32-bit numbers is carried over to natural numbers
  once, here.
\<close>

section \<open>Well-formed partitions\<close>

definition fs_wf :: "ext2_fs \<Rightarrow> bool" where
  "fs_wf fs \<longleftrightarrow> sector_size fs = 512 \<and> s_log_block_size (p_sb fs) \<le> 2"

definition spb :: "ext2_fs \<Rightarrow> nat" where "spb fs = 2 * 2 ^ unat (s_log_block_size (p_sb fs))"

definition bsz :: "ext2_fs \<Rightarrow> nat" where "bsz fs = 512 * spb fs"

lemma log_cases:
  assumes "fs_wf fs"
  obtains "s_log_block_size (p_sb fs) = 0" | "s_log_block_size (p_sb fs) = 1" | "s_log_block_size (p_sb fs) = 2"
proof -
  have "unat (s_log_block_size (p_sb fs)) \<le> 2" using assms by (simp add: fs_wf_def word_le_nat_alt)
  then consider "unat (s_log_block_size (p_sb fs)) = 0" | "unat (s_log_block_size (p_sb fs)) = 1" | "unat (s_log_block_size (p_sb fs)) = 2"
    by linarith
  then show ?thesis by cases (auto intro: that simp: word_unat_eq_iff)
qed

lemma size_facts:
  assumes "fs_wf fs"
  shows "unat (block_size fs) = bsz fs" "block_size fs = of_nat (bsz fs)" "sectors_per_block fs = of_nat (spb fs)"
    "bsz fs = 512 * spb fs" "2 \<le> spb fs" "spb fs \<le> 8" "sector_size fs = 512" "entries_per_block fs = bsz fs div 4"
proof -
  show s: "sector_size fs = 512" using assms by (simp add: fs_wf_def)
  show "unat (block_size fs) = bsz fs" "block_size fs = of_nat (bsz fs)" "sectors_per_block fs = of_nat (spb fs)"
    "bsz fs = 512 * spb fs" "2 \<le> spb fs" "spb fs \<le> 8" "entries_per_block fs = bsz fs div 4"
    by (rule log_cases [OF assms];
        simp add: block_size_def bsz_def spb_def sectors_per_block_def div_up_def s entries_per_block_def unat_div
          word_unat_eq_iff unat_mod)+
qed

section \<open>Blocks\<close>

definition block_start :: "ext2_fs \<Rightarrow> u32 \<Rightarrow> nat" where
  "block_start fs blk = unat (p_lba fs) + unat blk * spb fs"

definition block_ok :: "ext2_fs \<Rightarrow> u32 \<Rightarrow> bool" where
  "block_ok fs blk \<longleftrightarrow> 0 < blk \<and> unat blk * bsz fs < 2 ^ 32 \<and> block_start fs blk + spb fs < 2 ^ 31 \<and>
     sectors_ok (fs_drive fs) (of_nat (block_start fs blk)) (spb fs)"

definition block_bytes :: "ext2_fs \<Rightarrow> u32 \<Rightarrow> bytes" where
  "block_bytes fs blk = drive_bytes (fs_drive fs) (of_nat (block_start fs blk))"

lemma block_lba_start:
  assumes "fs_wf fs" and "unat blk * bsz fs < 2 ^ 32"
  shows "p_lba fs + (blk * block_size fs) div sector_size fs = of_nat (block_start fs blk)"
proof -
  note z = size_facts [OF assms(1)]
  have "unat (blk * block_size fs) = unat blk * bsz fs"
    using assms(2) z(1) by (simp add: unat_word_ariths(2))
  then have "unat ((blk * block_size fs) div sector_size fs) = unat blk * spb fs"
    using z(4,7) by (simp add: unat_div)
  then have "of_nat (unat ((blk * block_size fs) div sector_size fs)) = (of_nat (unat blk * spb fs) :: u32)" by (rule arg_cong)
  then have "(blk * block_size fs) div sector_size fs = of_nat (unat blk * spb fs)" by (simp only: of_nat_unat ucast_id)
  then show ?thesis by (simp add: block_start_def)
qed

lemma read_block_ok:
  assumes "fs_wf fs" and "block_ok fs blk"
  shows "ext2_read_block fs blk dst pos = (1, blit dst pos (block_bytes fs blk) (bsz fs))"
proof -
  note z = size_facts [OF assms(1)]
  have o: "0 < blk" "unat blk * bsz fs < 2 ^ 32" "block_start fs blk + spb fs < 2 ^ 31"
    "sectors_ok (fs_drive fs) (of_nat (block_start fs blk)) (spb fs)" using assms(2) by (auto simp: block_ok_def)
  have "sectors_per_block fs * sector_size fs = of_nat (512 * spb fs)" using z(3,7) by (simp add: mult.commute)
  then have "disk_in (fs_drive fs) (block_lba fs blk) (sectors_per_block fs * sector_size fs) dst pos =
      (int (512 * spb fs), blit dst pos (block_bytes fs blk) (512 * spb fs))"
    using disk_in_ok [of "spb fs" "block_start fs blk" "fs_drive fs" dst pos] o(3,4) z(6) block_lba_start [OF assms(1) o(2)]
    by (simp only: block_lba_def block_bytes_def) simp
  then show ?thesis using o(1) z(4,5) by (simp add: ext2_read_block_def)
qed

text \<open>The count of a write is one of bytes: a block of two, four or eight sectors is given a count of as many bytes,
  and one sector goes out.\<close>

lemma unat_u64_small: "n < 2 ^ 32 \<Longrightarrow> unat (of_nat n :: u64) = n"
  using unat_of_nat_u64 [of n] by simp

lemma disk_out_few:
  assumes "0 < n" and "n \<le> 512" and "s < 2 ^ 31" and "dr_ok d (of_nat s)"
  shows "disk_out d (of_nat s) (of_nat n) src pos = (int n, write_range d (of_nat s) 1 src pos)"
proof -
  have "unat (of_nat n + 511 :: u64) = n + 511" using assms(2) unat_u64_small [of n] by (subst unat_word_ariths(1)) simp
  then have "unat (size_to_blocks (of_nat n)) = 1" using assms(1,2) by (simp add: size_to_blocks_def unat_div)
  moreover have "(scast (of_nat n :: u32) :: u64) = of_nat n" "(scast (of_nat s :: u32) :: u64) = of_nat s"
    using assms(2,3) scast_of_nat_u32 by simp_all
  moreover have "sint (word_of_int (sint (of_nat n :: u64)) :: u32) = int n" using assms(2) transfer_count [of n] by simp
  ultimately show ?thesis using assms(4) by (simp add: disk_out_def dd_disk_write_def write_range_def Let_def)
qed

lemma sectors_ok_first: "sectors_ok d s n \<Longrightarrow> 0 < n \<Longrightarrow> dr_ok d s"
  by (auto simp: sectors_ok_def dest: spec [of _ 0])

lemma write_block_ok:
  assumes "fs_wf fs" and "block_ok fs blk"
  shows "ext2_write_block fs blk src pos = (1, fs\<lparr>fs_drive := write_range (fs_drive fs) (of_nat (block_start fs blk)) 1 src pos\<rparr>)"
proof -
  note z = size_facts [OF assms(1)]
  have o: "0 < blk" "unat blk * bsz fs < 2 ^ 32" "block_start fs blk + spb fs < 2 ^ 31"
    "sectors_ok (fs_drive fs) (of_nat (block_start fs blk)) (spb fs)" using assms(2) by (auto simp: block_ok_def)
  have "disk_out (fs_drive fs) (block_lba fs blk) (sectors_per_block fs) src pos =
      (int (spb fs), write_range (fs_drive fs) (of_nat (block_start fs blk)) 1 src pos)"
    using disk_out_few [of "spb fs" "block_start fs blk" "fs_drive fs" src pos] o(3,4) z(5,6) block_lba_start [OF assms(1) o(2)]
      sectors_ok_first [OF o(4)]
    by (simp only: block_lba_def z(3))
  then show ?thesis using o(1) z(5) by (simp add: ext2_write_block_def word_neq_0_conv)
qed

section \<open>Fields of a buffer\<close>

lemma put16_outside [simp]: "j < k \<or> k + 2 \<le> j \<Longrightarrow> put16 b k v j = b j"
  by (auto simp: put16_def)

lemma put32_outside [simp]: "j < k \<or> k + 4 \<le> j \<Longrightarrow> put32 b k v j = b j"
  by (auto simp: put32_def)

lemma get16_cong: "b k = c k \<Longrightarrow> b (k + 1) = c (k + 1) \<Longrightarrow> get16 b k = get16 c k"
  by (simp add: get16_def)

lemma get32_cong: "(\<And>i. i < 4 \<Longrightarrow> b (k + i) = c (k + i)) \<Longrightarrow> get32 b k = get32 c k"
proof -
  assume "\<And>i. i < 4 \<Longrightarrow> b (k + i) = c (k + i)"
  from this [of 0] this [of 1] this [of 2] this [of 3] show ?thesis
    by (simp add: get32_def get16_def numeral_eq_Suc)
qed

lemma get16_put16 [simp]: "get16 (put16 b k v) k = v"
  by (rule bit_eqI) (auto simp: get16_def put16_def bit_simps)

lemma get32_put32 [simp]: "get32 (put32 b k v) k = v"
proof -
  have "get16 (put32 b k v) k = ucast v"
  proof -
    have "get16 (put32 b k v) k = get16 (put16 b k (ucast v)) k" by (rule get16_cong) (simp_all add: put32_def)
    then show ?thesis by simp
  qed
  moreover have "get16 (put32 b k v) (k + 2) = ucast (drop_bit 16 v)" by (simp add: put32_def)
  ultimately have "get32 (put32 b k v) k = ucast (ucast v :: u16) OR push_bit 16 (ucast (ucast (drop_bit 16 v) :: u16))"
    by (simp add: get32_def)
  also have "\<dots> = v" by (rule bit_eqI) (auto simp: bit_simps)
  finally show ?thesis .
qed

lemma get16_put16_other [simp]: "q + 2 \<le> k \<or> k + 2 \<le> q \<Longrightarrow> get16 (put16 b k v) q = get16 b q"
  by (rule get16_cong) auto

lemma get16_put32_other [simp]: "q + 2 \<le> k \<or> k + 4 \<le> q \<Longrightarrow> get16 (put32 b k v) q = get16 b q"
  by (rule get16_cong) auto

lemma get32_put32_other [simp]: "q + 4 \<le> k \<or> k + 4 \<le> q \<Longrightarrow> get32 (put32 b k v) q = get32 b q"
  by (rule get32_cong) auto

lemma get32_put16_other [simp]: "q + 4 \<le> k \<or> k + 2 \<le> q \<Longrightarrow> get32 (put16 b k v) q = get32 b q"
  by (rule get32_cong) auto

lemma get32_blit_in [simp]: "off \<le> k \<Longrightarrow> k + 4 \<le> off + n \<Longrightarrow> get32 (blit b off s n) k = get32 s (k - off)"
  by (rule get32_cong [of _ k "\<lambda>i. s (i - off)", THEN trans]) (auto simp: get32_def get16_def Suc_diff_le)

lemma get32_blit_out [simp]: "k + 4 \<le> off \<or> off + n \<le> k \<Longrightarrow> get32 (blit b off s n) k = get32 b k"
  by (rule get32_cong) auto

section \<open>Blocks after a write\<close>

definition put_block :: "ext2_fs \<Rightarrow> u32 \<Rightarrow> bytes \<Rightarrow> nat \<Rightarrow> ext2_fs" where
  "put_block fs blk src pos = fs\<lparr>fs_drive := write_range (fs_drive fs) (of_nat (block_start fs blk)) 1 src pos\<rparr>"

lemma put_block_frame [simp]:
  "p_sb (put_block fs blk src pos) = p_sb fs" "p_gd (put_block fs blk src pos) = p_gd fs"
  "p_lba (put_block fs blk src pos) = p_lba fs" "sector_size (put_block fs blk src pos) = sector_size fs"
  "group_number (put_block fs blk src pos) = group_number fs" "dr_ok (fs_drive (put_block fs blk src pos)) = dr_ok (fs_drive fs)"
  by (simp_all add: put_block_def)

text \<open>Everything about the layout depends on four fields and on which sectors work.\<close>

lemma layout_cong:
  assumes "s_log_block_size (p_sb fs) = s_log_block_size (p_sb fs')" and "p_lba fs = p_lba fs'" and "sector_size fs = sector_size fs'"
    and "dr_ok (fs_drive fs) = dr_ok (fs_drive fs')"
  shows "fs_wf fs = fs_wf fs'" "spb fs = spb fs'" "bsz fs = bsz fs'" "block_start fs = block_start fs'" "block_ok fs = block_ok fs'"
proof -
  show "fs_wf fs = fs_wf fs'" "spb fs = spb fs'" using assms by (simp_all add: fs_wf_def spb_def)
  then show "bsz fs = bsz fs'" by (simp add: bsz_def)
  show "block_start fs = block_start fs'" using \<open>spb fs = spb fs'\<close> assms(2) by (simp add: block_start_def fun_eq_iff)
  then show "block_ok fs = block_ok fs'"
    using \<open>spb fs = spb fs'\<close> \<open>bsz fs = bsz fs'\<close> assms(4) by (simp add: block_ok_def sectors_ok_def fun_eq_iff)
qed

lemma put_block_layout [simp]:
  "fs_wf (put_block fs blk src pos) = fs_wf fs" "spb (put_block fs blk src pos) = spb fs" "bsz (put_block fs blk src pos) = bsz fs"
  "block_start (put_block fs blk src pos) = block_start fs" "block_ok (put_block fs blk src pos) = block_ok fs"
  by (rule layout_cong; simp)+

lemma block_start_apart:
  assumes "fs_wf fs" and "a \<noteq> b" and "i < spb fs" and "j < spb fs"
  shows "block_start fs a + i \<noteq> block_start fs b + j"
proof -
  have "unat a \<noteq> unat b" using assms(2) by (simp add: word_unat_eq_iff)
  then consider "Suc (unat a) \<le> unat b" | "Suc (unat b) \<le> unat a" by linarith
  then show ?thesis
  proof cases
    case 1
    then have "Suc (unat a) * spb fs \<le> unat b * spb fs" by (rule mult_le_mono1)
    then show ?thesis using assms(3) by (simp add: block_start_def)
  next
    case 2
    then have "Suc (unat b) * spb fs \<le> unat a * spb fs" by (rule mult_le_mono1)
    then show ?thesis using assms(4) by (simp add: block_start_def)
  qed
qed

lemma write_block_put: "fs_wf fs \<Longrightarrow> block_ok fs blk \<Longrightarrow> ext2_write_block fs blk src pos = (1, put_block fs blk src pos)"
  by (simp only: write_block_ok put_block_def)

text \<open>A write reaches the first sector of its block and nothing else of any block.\<close>

lemma block_bytes_put:
  assumes "fs_wf fs" and "block_ok fs blk" and "block_ok fs c" and "k < bsz fs"
  shows "block_bytes (put_block fs blk src pos) c k = (if c = blk \<and> k < 512 then src (pos + k) else block_bytes fs c k)"
proof -
  let ?s = "block_start fs c + k div 512" and ?t = "block_start fs blk"
  have k: "k div 512 < spb fs" using assms(4) size_facts(4) [OF assms(1)] by (simp add: less_mult_imp_div_less mult.commute)
  have b: "?s < 2 ^ 31" "?t < 2 ^ 31" using assms(2,3) k by (auto simp: block_ok_def)
  have iff: "unat (of_nat ?s - of_nat ?t :: u64) < 1 \<longleftrightarrow> ?s = ?t"
    using b of_nat_u64_inj [of ?s ?t] by (simp add: unat_eq_0 del: of_nat_add)
  have m: "block_bytes (put_block fs blk src pos) c k = dr_sector (write_range (fs_drive fs) (of_nat ?t) 1 src pos) (of_nat ?s) (k mod 512)"
    by (simp add: block_bytes_def put_block_layout(4)) (simp add: drive_bytes_def put_block_def)
  show ?thesis
  proof (cases "?s = ?t")
    case True
    have "c = blk" by (rule ccontr) (use block_start_apart [OF assms(1), of c blk "k div 512" 0] True k in auto)
    moreover have "k < 512" using True calculation by (simp add: div_eq_0_iff)
    ultimately show ?thesis using m write_range_sector [of 1 "fs_drive fs" "of_nat ?t" src pos "of_nat ?s"] iff True
      by (simp del: of_nat_add)
  next
    case False
    then have "\<not> (c = blk \<and> k < 512)" by auto
    moreover have "block_bytes fs c k = dr_sector (fs_drive fs) (of_nat ?s) (k mod 512)"
      by (simp add: block_bytes_def drive_bytes_def)
    ultimately show ?thesis using m write_range_sector [of 1 "fs_drive fs" "of_nat ?t" src pos "of_nat ?s"] iff False
      by (auto simp del: of_nat_add)
  qed
qed

section \<open>An example\<close>

text \<open>A partition with one group of 8192 blocks of 1024 bytes, 16 inodes, on an empty drive.\<close>

lemma get16_zero [simp]: "get16 (\<lambda>_. 0) k = 0"
  by (simp add: get16_def)

lemma get32_zero [simp]: "get32 (\<lambda>_. 0) k = 0"
  by (simp add: get32_def)

definition demo_sb :: bytes where
  "demo_sb = put32 (put32 (put32 (put32 (\<lambda>_. 0) 12 100) 16 10) 32 8192) 40 16"

definition demo_gd :: bytes where
  "demo_gd = put16 (put16 (put32 (put32 (put32 (\<lambda>_. 0) 0 3) 4 4) 8 5) 12 100) 14 10"

definition demo_fs :: ext2_fs where
  "demo_fs = \<lparr>p_name = ''hd'', p_disk = ''hda'', backup_bgs = (\<lambda>_. 0), backup_bgs_count = 1, p_lba = 64, group_number = 1,
     sector_size = 512, bgdt_block = 2, sb_block = 2, flush_required = False, p_sb = demo_sb, p_gd = demo_gd,
     fs_drive = blank_drive, unique_id = EXT2_UNIQUE_START, epoch_now = 0\<rparr>"

lemma demo_fields [simp]:
  "s_log_block_size demo_sb = 0" "s_rev_level demo_sb = 0" "s_inodes_per_group demo_sb = 16" "s_blocks_per_group demo_sb = 8192"
  "s_free_blocks_count demo_sb = 100" "s_free_inodes_count demo_sb = 10"
  "bg_block_bitmap demo_gd 0 = 3" "bg_inode_bitmap demo_gd 0 = 4" "bg_inode_table demo_gd 0 = 5"
  "bg_free_blocks_count demo_gd 0 = 100" "bg_free_inodes_count demo_gd 0 = 10"
  by (simp_all add: demo_sb_def demo_gd_def s_log_block_size_def s_rev_level_def s_inodes_per_group_def s_blocks_per_group_def
      s_free_blocks_count_def s_free_inodes_count_def bg_block_bitmap_def bg_inode_bitmap_def bg_inode_table_def
      bg_free_blocks_count_def bg_free_inodes_count_def bg_off_def)

lemma demo_state [simp]:
  "p_sb demo_fs = demo_sb" "p_gd demo_fs = demo_gd" "sector_size demo_fs = 512" "p_lba demo_fs = 64" "group_number demo_fs = 1"
  "fs_drive demo_fs = blank_drive"
  by (simp_all add: demo_fs_def)

lemma demo_wf [simp]: "fs_wf demo_fs" "spb demo_fs = 2" "bsz demo_fs = 1024"
  by (simp_all add: fs_wf_def spb_def bsz_def)

lemma demo_sectors [simp]: "sectors_ok blank_drive s n"
  by (simp add: sectors_ok_def blank_drive_def)

lemma demo_block_ok: "0 < b \<Longrightarrow> unat b < 8192 \<Longrightarrow> block_ok demo_fs b"
  by (simp add: block_ok_def block_start_def)

end
