(* ===== verification/Ext2_Inode_Table.thy ===== *)
theory Ext2_Inode_Table
  imports Ext2_Layout
begin

unbundle bit_operations_syntax

text \<open>
  The inode table as a store: reading an inode gives what was last written to it.  The contract is
  the locale \<open>keyed_store\<close>; the inode table and the first sectors of blocks are its instances.
\<close>

section \<open>Stores\<close>

locale keyed_store =
  fixes okay :: "'s \<Rightarrow> 'k \<Rightarrow> bool" and rd :: "'s \<Rightarrow> 'k \<Rightarrow> 'v" and wr :: "'s \<Rightarrow> 'k \<Rightarrow> 'v \<Rightarrow> 's" and stored :: "'s \<Rightarrow> 'v \<Rightarrow> 'v"
  assumes okay_wr: "okay s k \<Longrightarrow> okay (wr s k v) j = okay s j"
    and stored_wr: "okay s k \<Longrightarrow> stored (wr s k v) = stored s"
    and rd_same: "okay s k \<Longrightarrow> rd (wr s k v) k = stored s v"
    and rd_other: "okay s k \<Longrightarrow> okay s j \<Longrightarrow> j \<noteq> k \<Longrightarrow> rd (wr s k v) j = rd s j"
begin

definition wr_all :: "'s \<Rightarrow> ('k \<times> 'v) list \<Rightarrow> 's" where
  "wr_all s ws = foldl (\<lambda>s (k, v). wr s k v) s ws"

lemma wr_all_okay: "\<forall>(k, v) \<in> set ws. okay s k \<Longrightarrow> okay (wr_all s ws) j = okay s j \<and> stored (wr_all s ws) = stored s"
proof (induction ws arbitrary: j rule: rev_induct)
  case (snoc w ws)
  obtain k v where w: "w = (k, v)" by (cases w)
  have "okay (wr_all s ws) k" using snoc.IH [of k] snoc.prems by (simp add: w)
  then show ?case using snoc.IH [of j] snoc.prems by (simp add: w wr_all_def okay_wr stored_wr)
qed (simp add: wr_all_def)

lemma wr_all_map:
  assumes "\<forall>(k, v) \<in> set ws. okay s k" and "okay s j"
  shows "rd (wr_all s ws) j = (case map_of (rev ws) j of Some v \<Rightarrow> stored s v | None \<Rightarrow> rd s j)"
  using assms
proof (induction ws rule: rev_induct)
  case (snoc w ws)
  obtain k v where w: "w = (k, v)" by (cases w)
  have "okay (wr_all s ws) k" "stored (wr_all s ws) = stored s" "okay (wr_all s ws) j"
    using snoc.prems wr_all_okay [of ws s] by (auto simp: w)
  then show ?case using snoc.IH snoc.prems by (cases "j = k") (simp_all add: w wr_all_def rd_same rd_other)
qed (simp add: wr_all_def)

end

section \<open>First sectors of blocks\<close>

definition first_sector :: "ext2_fs \<Rightarrow> u32 \<Rightarrow> bytes" where
  "first_sector fs blk = blit (\<lambda>_. 0) 0 (block_bytes fs blk) 512"

interpretation blk: keyed_store "\<lambda>fs blk. fs_wf fs \<and> block_ok fs blk" first_sector
  "\<lambda>fs blk src. snd (ext2_write_block fs blk src 0)" "\<lambda>fs src. blit (\<lambda>_. 0) 0 src 512"
proof (unfold_locales, goal_cases)
  case (1 fs k v j)
  then show ?case by (simp add: write_block_put)
next
  case (2 fs k v)
  then show ?case by simp
next
  case (3 fs k v)
  have b: "512 \<le> bsz fs" using 3 size_facts(4,5) [of fs] by simp
  have "block_bytes (put_block fs k v 0) k i = v i" if "i < 512" for i
    using block_bytes_put [of fs k k i v 0] 3 that b by simp
  then have "first_sector (put_block fs k v 0) k = blit (\<lambda>_. 0) 0 v 512" by (auto simp: first_sector_def blit_def)
  then show ?case using 3 by (simp add: write_block_put)
next
  case (4 fs k j v)
  have b: "512 \<le> bsz fs" using 4 size_facts(4,5) [of fs] by simp
  have "block_bytes (put_block fs k v 0) j i = block_bytes fs j i" if "i < 512" for i
    using block_bytes_put [of fs k j i v 0] 4 that b by simp
  then have "first_sector (put_block fs k v 0) j = first_sector fs j" by (auto simp: first_sector_def blit_def)
  then show ?case using 4 by (simp add: write_block_put)
qed

section \<open>Inodes\<close>

definition isz :: "ext2_fs \<Rightarrow> nat" where "isz fs = unat (inode_size fs)"

definition ipg :: "ext2_fs \<Rightarrow> nat" where "ipg fs = unat (s_inodes_per_group (p_sb fs))"

text \<open>First sector of the table of a group, and the place of an inode behind it.\<close>

definition table_start :: "ext2_fs \<Rightarrow> u32 \<Rightarrow> nat" where
  "table_start fs g = block_start fs (bg_inode_table (p_gd fs) g)"

definition inode_off :: "ext2_fs \<Rightarrow> u32 \<Rightarrow> nat" where
  "inode_off fs n = unat (inode_index fs n) * isz fs"

definition inode_start :: "ext2_fs \<Rightarrow> u32 \<Rightarrow> nat" where
  "inode_start fs n = table_start fs (inode_group fs n) + inode_off fs n div bsz fs * spb fs"

definition inode_ok :: "ext2_fs \<Rightarrow> u32 \<Rightarrow> bool" where
  "inode_ok fs n \<longleftrightarrow> 0 < n \<and> inode_group fs n < group_number fs \<and>
     unat (bg_inode_table (p_gd fs) (inode_group fs n)) * bsz fs < 2 ^ 32 \<and> inode_off fs n < 2 ^ 32 \<and>
     inode_start fs n + spb fs < 2 ^ 31 \<and> sectors_ok (fs_drive fs) (of_nat (inode_start fs n)) (spb fs)"

text \<open>The size of an inode divides that of a block, and the tables of the groups do not overlap.\<close>

definition tables_wf :: "ext2_fs \<Rightarrow> bool" where
  "tables_wf fs \<longleftrightarrow> fs_wf fs \<and> 0 < isz fs \<and> isz fs dvd bsz fs \<and> 0 < ipg fs \<and>
     (\<forall>g < group_number fs. \<forall>h < group_number fs. g \<noteq> h \<longrightarrow>
        512 * table_start fs g + ipg fs * isz fs \<le> 512 * table_start fs h \<or> 512 * table_start fs h + ipg fs * isz fs \<le> 512 * table_start fs g)"

lemma inode_place:
  assumes "tables_wf fs" and "inode_ok fs n"
  shows "inode_lba fs n = of_nat (inode_start fs n)" "unat (inode_offset fs n) = inode_off fs n mod bsz fs"
    "inode_off fs n mod bsz fs + isz fs \<le> bsz fs"
proof -
  have wf: "fs_wf fs" "isz fs dvd bsz fs" "0 < isz fs" using assms(1) by (auto simp: tables_wf_def)
  note z = size_facts [OF wf(1)]
  have o: "unat (bg_inode_table (p_gd fs) (inode_group fs n)) * bsz fs < 2 ^ 32" "inode_off fs n < 2 ^ 32"
    using assms(2) by (auto simp: inode_ok_def)
  have u: "unat (inode_index fs n * inode_size fs) = inode_off fs n"
    using o(2) by (simp add: inode_off_def isz_def unat_word_ariths(2))
  have d: "unat ((inode_index fs n * inode_size fs) div block_size fs) = inode_off fs n div bsz fs" using u z(1) by (simp add: unat_div)
  have "of_nat (unat ((inode_index fs n * inode_size fs) div block_size fs)) = (of_nat (inode_off fs n div bsz fs) :: u32)"
    using d by (rule arg_cong)
  then have "(inode_index fs n * inode_size fs) div block_size fs = of_nat (inode_off fs n div bsz fs)" by (simp only: of_nat_unat ucast_id)
  then show "inode_lba fs n = of_nat (inode_start fs n)"
    using block_lba_start [OF wf(1) o(1)] z(3) by (simp add: inode_lba_def inode_start_def table_start_def)
  show "unat (inode_offset fs n) = inode_off fs n mod bsz fs" using u z(1) by (simp add: inode_offset_def unat_mod)
  obtain q where q: "bsz fs = isz fs * q" using wf(2) by (elim dvdE)
  have "inode_off fs n mod bsz fs = isz fs * (unat (inode_index fs n) mod q)"
    using mult_mod_right [of "isz fs" "unat (inode_index fs n)" q] by (simp only: inode_off_def q mult.commute [of "unat (inode_index fs n)"])
  moreover have "0 < q" using q z(4,5) by (cases q) auto
  ultimately have "inode_off fs n mod bsz fs + isz fs = isz fs * Suc (unat (inode_index fs n) mod q)" by simp
  also have "\<dots> \<le> isz fs * q" using \<open>0 < q\<close> by (intro mult_le_mono2) (simp add: Suc_leI)
  finally show "inode_off fs n mod bsz fs + isz fs \<le> bsz fs" using q by simp
qed

text \<open>The drive as one sequence of bytes.\<close>

definition disk_byte :: "drive \<Rightarrow> nat \<Rightarrow> u8" where
  "disk_byte d a = dr_sector d (of_nat (a div 512)) (a mod 512)"

lemma drive_bytes_flat: "drive_bytes d (of_nat s) k = disk_byte d (512 * s + k)"
  by (simp add: drive_bytes_def disk_byte_def)

lemma write_range_flat:
  assumes "s + n < 2 ^ 32" and "a < 512 * 2 ^ 32"
  shows "disk_byte (write_range d (of_nat s) n src pos) a =
    (if 512 * s \<le> a \<and> a < 512 * (s + n) then src (pos + (a - 512 * s)) else disk_byte d a)"
proof -
  have a: "a div 512 < 2 ^ 32" using assms(2) by (simp add: less_mult_imp_div_less mult.commute)
  have n: "n \<le> 2 ^ 32" using assms(1) by simp
  note w = write_range_sector [OF n, of d "of_nat s" src pos "of_nat (a div 512)"]
  consider "s \<le> a div 512" "a div 512 < s + n" | "a div 512 < s" | "s + n \<le> a div 512" by linarith
  then show ?thesis
  proof cases
    case 1
    then have u: "unat (of_nat (a div 512) - of_nat s :: u64) = a div 512 - s"
      using a by (simp add: of_nat_diff [symmetric] del: of_nat_diff)
    have "512 * s \<le> a" "a < 512 * (s + n)" using 1 by (simp_all add: div_less_iff_less_mult less_eq_div_iff_mult_less_eq mult.commute)
    moreover have "512 * (a div 512 - s) + a mod 512 = a - 512 * s" using 1(1) by (simp add: algebra_simps)
    moreover have "a div 512 - s < n" using 1 by linarith
    ultimately show ?thesis using w u by (simp add: disk_byte_def add.assoc)
  next
    case 2
    have "\<not> unat (of_nat (a div 512) - of_nat s :: u64) < n"
    proof
      let ?u = "unat (of_nat (a div 512) - of_nat s :: u64)"
      assume u: "?u < n"
      have "(of_nat ?u :: u64) = of_nat (a div 512) - of_nat s" by (simp only: of_nat_unat ucast_id)
      then have "(of_nat (a div 512) :: u64) = of_nat (s + ?u)" by (simp only: of_nat_add) simp
      then have "a div 512 = s + ?u" using a u assms(1) of_nat_u64_inj [of "a div 512" "s + ?u"] by simp
      then show False using 2 by linarith
    qed
    moreover have "\<not> 512 * s \<le> a" using 2 by (simp add: div_less_iff_less_mult mult.commute)
    ultimately show ?thesis using w by (simp add: disk_byte_def)
  next
    case 3
    then have u: "unat (of_nat (a div 512) - of_nat s :: u64) = a div 512 - s"
      using a by (simp add: of_nat_diff [symmetric] del: of_nat_diff)
    have "\<not> a < 512 * (s + n)" using 3 by (simp add: less_eq_div_iff_mult_less_eq mult.commute)
    moreover have "\<not> a div 512 - s < n" using 3 by linarith
    ultimately show ?thesis using w u by (simp add: disk_byte_def)
  qed
qed

lemma blit_cong: "(\<And>k. k < n \<Longrightarrow> a k = b k) \<Longrightarrow> blit d off a n = blit d off b n"
  by (auto simp: blit_def fun_eq_iff)

definition inode_addr :: "ext2_fs \<Rightarrow> u32 \<Rightarrow> nat" where
  "inode_addr fs n = 512 * table_start fs (inode_group fs n) + inode_off fs n"

lemma inode_addr_start:
  assumes "fs_wf fs"
  shows "512 * inode_start fs n + inode_off fs n mod bsz fs = inode_addr fs n"
proof -
  have "512 * (inode_off fs n div bsz fs * spb fs) + inode_off fs n mod bsz fs = inode_off fs n"
    using div_mult_mod_eq [of "inode_off fs n" "bsz fs"] size_facts(4) [OF assms] by (simp add: algebra_simps)
  then show ?thesis by (simp add: inode_addr_def inode_start_def algebra_simps)
qed

lemma read_inode_ok:
  assumes "tables_wf fs" and "inode_ok fs n"
  shows "ext2_read_inode fs n = Some (blit (\<lambda>_. 0) 0 (\<lambda>k. disk_byte (fs_drive fs) (inode_addr fs n + k)) (isz fs))"
proof -
  have wf: "fs_wf fs" using assms(1) by (simp add: tables_wf_def)
  note z = size_facts [OF wf] and p = inode_place [OF assms]
  have o: "inode_start fs n + spb fs < 2 ^ 31" "sectors_ok (fs_drive fs) (of_nat (inode_start fs n)) (spb fs)"
    using assms(2) by (auto simp: inode_ok_def)
  have "sectors_per_block fs * sector_size fs = of_nat (512 * spb fs)" using z(3,7) by (simp add: mult.commute)
  then have r: "disk_in (fs_drive fs) (inode_lba fs n) (sectors_per_block fs * sector_size fs) (\<lambda>_. 0) 0 =
      (int (512 * spb fs), blit (\<lambda>_. 0) 0 (drive_bytes (fs_drive fs) (of_nat (inode_start fs n))) (bsz fs))"
    using disk_in_ok [of "spb fs" "inode_start fs n" "fs_drive fs" "\<lambda>_. 0" 0] o z(4,6) p(1) by simp
  have "blit (\<lambda>_. 0) 0 (drive_bytes (fs_drive fs) (of_nat (inode_start fs n))) (bsz fs) (inode_off fs n mod bsz fs + k) =
      disk_byte (fs_drive fs) (inode_addr fs n + k)" if "k < isz fs" for k
    using that p(3) inode_addr_start [OF wf, of n] by (simp add: drive_bytes_flat flip: add.assoc)
  then have "blit (\<lambda>_. 0) 0 (\<lambda>k. blit (\<lambda>_. 0) 0 (drive_bytes (fs_drive fs) (of_nat (inode_start fs n))) (bsz fs) (inode_off fs n mod bsz fs + k)) (isz fs) =
      blit (\<lambda>_. 0) 0 (\<lambda>k. disk_byte (fs_drive fs) (inode_addr fs n + k)) (isz fs)" by (rule blit_cong)
  then show ?thesis using r p(2) z(5) by (simp add: ext2_read_inode_def isz_def)
qed

definition put_inode :: "ext2_fs \<Rightarrow> u32 \<Rightarrow> bytes \<Rightarrow> ext2_fs" where
  "put_inode fs n v = fs\<lparr>fs_drive := write_range (fs_drive fs) (of_nat (inode_start fs n)) (spb fs)
     (blit (blit (\<lambda>_. 0) 0 (drive_bytes (fs_drive fs) (of_nat (inode_start fs n))) (bsz fs)) (inode_off fs n mod bsz fs) v (isz fs)) 0\<rparr>"

lemma write_inode_ok:
  assumes "tables_wf fs" and "inode_ok fs n"
  shows "ext2_write_inode fs n v = (0, put_inode fs n v)"
proof -
  have wf: "fs_wf fs" using assms(1) by (simp add: tables_wf_def)
  note z = size_facts [OF wf] and p = inode_place [OF assms]
  have o: "inode_start fs n + spb fs < 2 ^ 31" "sectors_ok (fs_drive fs) (of_nat (inode_start fs n)) (spb fs)"
    using assms(2) by (auto simp: inode_ok_def)
  have c: "sectors_per_block fs * sector_size fs = of_nat (512 * spb fs)" using z(3,7) by (simp add: mult.commute)
  have b: "512 * spb fs < 2 ^ 31" "inode_start fs n < 2 ^ 31" using z(6) o(1) by simp_all
  have "ext2_write_inode fs n v = (let buf = blit (\<lambda>_. 0) 0 (drive_bytes (fs_drive fs) (of_nat (inode_start fs n))) (512 * spb fs)
    in (0, fs\<lparr>fs_drive := write_range (fs_drive fs) (of_nat (inode_start fs n)) (spb fs) (blit buf (inode_off fs n mod bsz fs) v (isz fs)) 0\<rparr>))"
    unfolding ext2_write_inode_def c p(1) disk_in_ok [OF b o(2)] disk_out_ok [OF b o(2)] using z(5) p(2) by (simp add: isz_def Let_def)
  then show ?thesis by (simp only: put_inode_def Let_def z(4))
qed

lemma put_inode_frame [simp]:
  "p_sb (put_inode fs n v) = p_sb fs" "p_gd (put_inode fs n v) = p_gd fs" "p_lba (put_inode fs n v) = p_lba fs"
  "sector_size (put_inode fs n v) = sector_size fs" "group_number (put_inode fs n v) = group_number fs"
  "dr_ok (fs_drive (put_inode fs n v)) = dr_ok (fs_drive fs)"
  by (simp_all add: put_inode_def)

lemma put_inode_layout [simp]:
  "fs_wf (put_inode fs n v) = fs_wf fs" "spb (put_inode fs n v) = spb fs" "bsz (put_inode fs n v) = bsz fs"
  "block_start (put_inode fs n v) = block_start fs" "block_ok (put_inode fs n v) = block_ok fs"
  by (rule layout_cong; simp)+

lemma put_inode_tables [simp]:
  "isz (put_inode fs n v) = isz fs" "ipg (put_inode fs n v) = ipg fs" "inode_group (put_inode fs n v) = inode_group fs"
  "inode_index (put_inode fs n v) = inode_index fs" "table_start (put_inode fs n v) = table_start fs"
  by (simp_all add: isz_def ipg_def inode_size_def inode_group_def inode_index_def table_start_def fun_eq_iff)

lemma put_inode_places [simp]:
  "inode_off (put_inode fs n v) = inode_off fs" "inode_start (put_inode fs n v) = inode_start fs"
  "inode_addr (put_inode fs n v) = inode_addr fs" "inode_ok (put_inode fs n v) = inode_ok fs" "tables_wf (put_inode fs n v) = tables_wf fs"
proof -
  show o: "inode_off (put_inode fs n v) = inode_off fs" by (simp add: inode_off_def fun_eq_iff)
  show s: "inode_start (put_inode fs n v) = inode_start fs" by (simp add: inode_start_def o fun_eq_iff)
  show "inode_addr (put_inode fs n v) = inode_addr fs" by (simp add: inode_addr_def o fun_eq_iff)
  show "inode_ok (put_inode fs n v) = inode_ok fs" by (simp add: inode_ok_def o s sectors_ok_def fun_eq_iff)
  show "tables_wf (put_inode fs n v) = tables_wf fs" by (simp add: tables_wf_def)
qed

text \<open>On the bytes of the drive, a write of an inode is a write of its bytes and of nothing else.\<close>

lemma put_inode_byte:
  assumes "tables_wf fs" and "inode_ok fs n" and "a < 512 * 2 ^ 32"
  shows "disk_byte (fs_drive (put_inode fs n v)) a =
    (if inode_addr fs n \<le> a \<and> a < inode_addr fs n + isz fs then v (a - inode_addr fs n) else disk_byte (fs_drive fs) a)"
proof -
  have wf: "fs_wf fs" using assms(1) by (simp add: tables_wf_def)
  note z = size_facts [OF wf] and p = inode_place [OF assms(1,2)] and d = inode_addr_start [OF wf, of n]
  have "inode_start fs n + spb fs < 2 ^ 32" using assms(2) by (auto simp: inode_ok_def)
  note w = write_range_flat [OF this assms(3), of "fs_drive fs"
      "blit (blit (\<lambda>_. 0) 0 (drive_bytes (fs_drive fs) (of_nat (inode_start fs n))) (bsz fs)) (inode_off fs n mod bsz fs) v (isz fs)" 0]
  have e: "512 * (inode_start fs n + spb fs) = 512 * inode_start fs n + bsz fs" using z(4) by simp
  show ?thesis
  proof (cases "512 * inode_start fs n \<le> a \<and> a < 512 * inode_start fs n + bsz fs")
    case True
    then obtain k where k: "a = 512 * inode_start fs n + k" "k < bsz fs" using le_Suc_ex by fastforce
    have "inode_addr fs n \<le> a \<longleftrightarrow> inode_off fs n mod bsz fs \<le> k" "a < inode_addr fs n + isz fs \<longleftrightarrow> k < inode_off fs n mod bsz fs + isz fs"
      "a - inode_addr fs n = k - inode_off fs n mod bsz fs" using d k(1) by linarith+
    then show ?thesis using w k unfolding e by (simp add: put_inode_def blit_def drive_bytes_flat)
  next
    case False
    then have "\<not> (inode_addr fs n \<le> a \<and> a < inode_addr fs n + isz fs)" using d p(3) by linarith
    then show ?thesis using w False unfolding e by (auto simp: put_inode_def)
  qed
qed

lemma inode_number_split: "unat (inode_group fs n) * ipg fs + unat (inode_index fs n) = unat (n - 1)"
  by (simp add: inode_group_def inode_index_def ipg_def unat_div unat_mod)

lemma inode_index_less: "0 < ipg fs \<Longrightarrow> unat (inode_index fs n) < ipg fs"
  by (simp add: inode_index_def ipg_def unat_mod)

lemma inodes_apart:
  assumes "tables_wf fs" and "inode_ok fs n" and "inode_ok fs m" and "m \<noteq> n"
  shows "inode_addr fs m + isz fs \<le> inode_addr fs n \<or> inode_addr fs n + isz fs \<le> inode_addr fs m"
proof (cases "inode_group fs m = inode_group fs n")
  case True
  have "n - 1 \<noteq> m - 1" using assms(4) by simp
  then have "unat (inode_index fs m) \<noteq> unat (inode_index fs n)"
    using inode_number_split [of fs n] inode_number_split [of fs m] True by (auto simp: word_unat_eq_iff)
  then consider "Suc (unat (inode_index fs m)) \<le> unat (inode_index fs n)" | "Suc (unat (inode_index fs n)) \<le> unat (inode_index fs m)" by linarith
  then show ?thesis
  proof cases
    case 1
    from mult_le_mono1 [OF this, of "isz fs"] show ?thesis using True by (simp add: inode_addr_def inode_off_def)
  next
    case 2
    from mult_le_mono1 [OF this, of "isz fs"] show ?thesis using True by (simp add: inode_addr_def inode_off_def)
  qed
next
  case False
  have i: "inode_off fs k + isz fs \<le> ipg fs * isz fs" for k
    using mult_le_mono1 [OF Suc_leI [OF inode_index_less [of fs k]], of "isz fs"] assms(1) by (simp add: inode_off_def tables_wf_def)
  have "512 * table_start fs (inode_group fs m) + ipg fs * isz fs \<le> 512 * table_start fs (inode_group fs n) \<or>
      512 * table_start fs (inode_group fs n) + ipg fs * isz fs \<le> 512 * table_start fs (inode_group fs m)"
    using assms False by (simp add: tables_wf_def inode_ok_def)
  then show ?thesis using i [of m] i [of n] by (auto simp: inode_addr_def)
qed

lemma inode_addr_bound:
  assumes "tables_wf fs" and "inode_ok fs n" and "k < isz fs"
  shows "inode_addr fs n + k < 512 * 2 ^ 32"
proof -
  have wf: "fs_wf fs" using assms(1) by (simp add: tables_wf_def)
  have "inode_start fs n + spb fs < 2147483648" using assms(2) by (simp add: inode_ok_def)
  then have "inode_addr fs n + k < 2199023255552"
    using inode_place(3) [OF assms(1,2)] inode_addr_start [OF wf, of n] assms(3) size_facts(4) [OF wf] by linarith
  then show ?thesis by simp
qed

definition inode_bytes :: "ext2_fs \<Rightarrow> u32 \<Rightarrow> bytes" where
  "inode_bytes fs n = blit (\<lambda>_. 0) 0 (\<lambda>k. disk_byte (fs_drive fs) (inode_addr fs n + k)) (isz fs)"

interpretation ino: keyed_store "\<lambda>fs n. tables_wf fs \<and> inode_ok fs n" inode_bytes
  "\<lambda>fs n v. snd (ext2_write_inode fs n v)" "\<lambda>fs v. blit (\<lambda>_. 0) 0 v (isz fs)"
proof (unfold_locales, goal_cases)
  case (1 fs k v j)
  then show ?case by (simp add: write_inode_ok)
next
  case (2 fs k v)
  then show ?case by (simp add: write_inode_ok)
next
  case (3 fs k v)
  have "disk_byte (fs_drive (put_inode fs k v)) (inode_addr fs k + i) = v i" if "i < isz fs" for i
    using put_inode_byte [of fs k "inode_addr fs k + i" v] inode_addr_bound [of fs k i] 3 that by simp
  then have "inode_bytes (put_inode fs k v) k = blit (\<lambda>_. 0) 0 v (isz fs)"
    unfolding inode_bytes_def put_inode_tables put_inode_places by (rule blit_cong)
  then show ?case using 3 by (simp add: write_inode_ok)
next
  case (4 fs k j v)
  have "disk_byte (fs_drive (put_inode fs k v)) (inode_addr fs j + i) = disk_byte (fs_drive fs) (inode_addr fs j + i)" if "i < isz fs" for i
    using put_inode_byte [of fs k "inode_addr fs j + i" v] inode_addr_bound [of fs j i] inodes_apart [of fs k j] 4 that by auto
  then have "inode_bytes (put_inode fs k v) j = inode_bytes fs j"
    unfolding inode_bytes_def put_inode_tables put_inode_places by (rule blit_cong)
  then show ?case using 4 by (simp add: write_inode_ok)
qed

section \<open>Properties\<close>

definition write_inodes :: "ext2_fs \<Rightarrow> (u32 \<times> bytes) list \<Rightarrow> ext2_fs" where
  "write_inodes fs ws = foldl (\<lambda>fs (n, v). snd (ext2_write_inode fs n v)) fs ws"

text \<open>C37: The inode table is a map from inode numbers to inodes.  After any sequence of writes, to inodes of any
  groups of a partition whose tables do not overlap, reading an inode succeeds and gives the bytes
  last written to it, or those it had before if it was not written.\<close>

theorem inode_table_refines_map:
  assumes "tables_wf fs" and "\<forall>(n, v) \<in> set ws. inode_ok fs n" and "inode_ok fs m"
  shows "ext2_read_inode (write_inodes fs ws) m =
    Some (case map_of (rev ws) m of Some v \<Rightarrow> blit (\<lambda>_. 0) 0 v (isz fs) | None \<Rightarrow> inode_bytes fs m)"
proof -
  have w: "ino.wr_all fs ws = write_inodes fs ws" by (simp add: ino.wr_all_def write_inodes_def)
  have k: "\<forall>(n, v) \<in> set ws. tables_wf fs \<and> inode_ok fs n" using assms by auto
  have "tables_wf (write_inodes fs ws)" "inode_ok (write_inodes fs ws) m"
    using ino.wr_all_okay [OF k, of m] assms(1,3) by (simp_all add: w)
  then show ?thesis using read_inode_ok ino.wr_all_map [OF k, of m] assms(1,3) by (simp add: w inode_bytes_def)
qed

lemma demo_tables [simp]: "isz demo_fs = 128" "ipg demo_fs = 16" "tables_wf demo_fs"
  by (simp_all add: tables_wf_def isz_def ipg_def inode_size_def)

lemma demo_inode_ok: "0 < n \<Longrightarrow> n \<le> 16 \<Longrightarrow> inode_ok demo_fs n"
proof -
  assume n: "0 < n" "n \<le> 16"
  then have u: "unat (n - 1) < 16" by (simp add: word_le_nat_alt unat_sub word_less_nat_alt)
  then have g: "inode_group demo_fs n = 0" "inode_index demo_fs n = n - 1"
    by (simp_all add: inode_group_def inode_index_def word_unat_eq_iff unat_div unat_mod)
  have "inode_off demo_fs n < 2048" using u by (simp add: inode_off_def g)
  moreover have "inode_off demo_fs n div 1024 < 2" using calculation by simp
  ultimately show ?thesis using n(1) by (simp add: inode_ok_def inode_start_def table_start_def block_start_def g)
qed

theorem inode_table_refines_map_witness:
  "ext2_read_inode (write_inodes demo_fs [(2, \<lambda>_. 7), (3, of_nat), (2, \<lambda>_. 9)]) 2 = Some (blit (\<lambda>_. 0) 0 (\<lambda>_. 9) 128) \<and>
   ext2_read_inode (write_inodes demo_fs [(2, \<lambda>_. 7), (3, of_nat)]) 5 = Some (inode_bytes demo_fs 5)"
  using inode_table_refines_map [of demo_fs "[(2, \<lambda>_. 7), (3, of_nat), (2, \<lambda>_. 9)]" 2]
    inode_table_refines_map [of demo_fs "[(2, \<lambda>_. 7), (3, of_nat)]" 5]
  by (simp add: demo_inode_ok)

end
