(* ===== verification/Ext2_Alloc.thy ===== *)
theory Ext2_Alloc
  imports Ext2_Inode_Table
begin

unbundle bit_operations_syntax

text \<open>
  What allocating a block does to the bitmap of its group: which block is chosen, what of the
  choice reaches the disk, and what the next allocation then sees.
\<close>

section \<open>The search\<close>

lemma clear_bit_Some: "clear_bit w = Some k \<Longrightarrow> k < 32 \<and> \<not> bit w k"
  by (auto simp: clear_bit_def find_Some_iff)

lemma clear_bit_None: "clear_bit w = None \<Longrightarrow> w = 0xFFFFFFFF"
proof -
  assume "clear_bit w = None"
  then have "\<forall>k < 32. bit w k" by (auto simp: clear_bit_def find_None_iff)
  then have "w = mask 32" by (intro bit_eqI) (simp add: bit_simps)
  then show ?thesis by (simp add: mask_eq_exp_minus_1)
qed

lemma scan_bitmap_Some:
  "scan_bitmap n i b = Some (j, k) \<Longrightarrow> i \<le> j \<and> j < i + n \<and> k < 32 \<and> \<not> bit (get32 b (4 * j)) k"
proof (induction n arbitrary: i)
  case (Suc n)
  then show ?case by (fastforce split: if_splits option.splits dest: clear_bit_Some)
qed simp

lemma scan_bitmap_cong: "(\<And>q. q < i + n \<Longrightarrow> get32 b (4 * q) = get32 c (4 * q)) \<Longrightarrow> scan_bitmap n i b = scan_bitmap n i c"
  by (induction n arbitrary: i) (simp_all split: option.split)

lemma allocate_loop_skip:
  assumes "\<forall>e < d. bg_free_blocks_count (p_gd fs) (i + of_nat e) = 0"
  shows "allocate_loop (d + n) i fs = allocate_loop n (i + of_nat d) fs"
  using assms
proof (induction d arbitrary: i)
  case (Suc d)
  have "bg_free_blocks_count (p_gd fs) i = 0" using Suc.prems by (auto dest: spec [of _ 0])
  moreover have "\<forall>e < d. bg_free_blocks_count (p_gd fs) (i + 1 + of_nat e) = 0"
    using Suc.prems by (auto simp: algebra_simps dest: spec [of _ "Suc _"])
  ultimately show ?case using Suc.IH [of "i + 1"] by (simp add: algebra_simps)
qed simp

section \<open>Counters\<close>

lemma bg_fields_put [simp]:
  "bg_block_bitmap (put16 gd (bg_off g + 12) v) h = bg_block_bitmap gd h"
  "bg_free_blocks_count (put16 gd (bg_off g + 12) v) h = (if h = g then v else bg_free_blocks_count gd h)"
proof -
  have n: "unat h \<noteq> unat g" if "h \<noteq> g" using that by (simp add: word_unat_eq_iff)
  have apart: "bg_off h + 32 \<le> bg_off g \<or> bg_off g + 32 \<le> bg_off h" if "h \<noteq> g"
    using n [OF that] unfolding bg_off_def by linarith
  have "bg_off h + 4 \<le> bg_off g + 12 \<or> bg_off g + 12 + 2 \<le> bg_off h" using apart by (cases "h = g") auto
  then show "bg_block_bitmap (put16 gd (bg_off g + 12) v) h = bg_block_bitmap gd h" by (simp only: bg_block_bitmap_def get32_put16_other)
  show "bg_free_blocks_count (put16 gd (bg_off g + 12) v) h = (if h = g then v else bg_free_blocks_count gd h)"
  proof (cases "h = g")
    case False
    then have "bg_off h + 12 + 2 \<le> bg_off g + 12 \<or> bg_off g + 12 + 2 \<le> bg_off h + 12" using apart by linarith
    then show ?thesis using False by (simp only: bg_free_blocks_count_def get16_put16_other) simp
  qed (simp add: bg_free_blocks_count_def)
qed

lemma take_free_block_fields [simp]:
  "bg_block_bitmap (p_gd (take_free_block g fs)) h = bg_block_bitmap (p_gd fs) h"
  "bg_free_blocks_count (p_gd (take_free_block g fs)) h = (if h = g then bg_free_blocks_count (p_gd fs) g - 1 else bg_free_blocks_count (p_gd fs) h)"
  "s_free_blocks_count (p_sb (take_free_block g fs)) = s_free_blocks_count (p_sb fs) - 1"
  "s_blocks_per_group (p_sb (take_free_block g fs)) = s_blocks_per_group (p_sb fs)"
  "s_log_block_size (p_sb (take_free_block g fs)) = s_log_block_size (p_sb fs)"
  "p_lba (take_free_block g fs) = p_lba fs" "sector_size (take_free_block g fs) = sector_size fs" "fs_drive (take_free_block g fs) = fs_drive fs"
  "group_number (take_free_block g fs) = group_number fs"
  by (simp_all add: take_free_block_def set_s_free_blocks_def set_bg_free_blocks_def s_free_blocks_count_def s_blocks_per_group_def
      s_log_block_size_def)

lemma take_free_block_layout [simp]:
  "fs_wf (take_free_block g fs) = fs_wf fs" "spb (take_free_block g fs) = spb fs" "bsz (take_free_block g fs) = bsz fs"
  "block_start (take_free_block g fs) = block_start fs" "block_ok (take_free_block g fs) = block_ok fs"
  by (rule layout_cong; simp)+

lemma block_bytes_take [simp]: "block_bytes (take_free_block g fs) = block_bytes fs"
  by (simp add: block_bytes_def fun_eq_iff)

lemma flush_required_fields [simp]:
  "p_sb (ext2_flush_required fs) = p_sb fs" "p_gd (ext2_flush_required fs) = p_gd fs" "p_lba (ext2_flush_required fs) = p_lba fs"
  "sector_size (ext2_flush_required fs) = sector_size fs" "fs_drive (ext2_flush_required fs) = fs_drive fs"
  "group_number (ext2_flush_required fs) = group_number fs"
  by (simp_all add: ext2_flush_required_def)

lemma flush_required_layout [simp]:
  "fs_wf (ext2_flush_required fs) = fs_wf fs" "spb (ext2_flush_required fs) = spb fs" "bsz (ext2_flush_required fs) = bsz fs"
  "block_start (ext2_flush_required fs) = block_start fs" "block_ok (ext2_flush_required fs) = block_ok fs"
  by (rule layout_cong; simp)+

lemma block_bytes_flush [simp]: "block_bytes (ext2_flush_required fs) = block_bytes fs"
  by (simp add: block_bytes_def fun_eq_iff)

section \<open>Allocation\<close>

definition bitmap_word :: "ext2_fs \<Rightarrow> u32 \<Rightarrow> nat \<Rightarrow> u32" where
  "bitmap_word fs g q = get32 (block_bytes fs (bg_block_bitmap (p_gd fs) g)) (4 * q)"

definition bitmap_bit :: "ext2_fs \<Rightarrow> u32 \<Rightarrow> nat \<Rightarrow> bool" where
  "bitmap_bit fs g i \<longleftrightarrow> bit (bitmap_word fs g (i div 32)) (i mod 32)"

text \<open>The first free bit of the group that is used: the first with a free block by its counter.\<close>

definition alloc_site :: "ext2_fs \<Rightarrow> u32 \<Rightarrow> nat \<Rightarrow> nat \<Rightarrow> bool" where
  "alloc_site fs g j k \<longleftrightarrow> fs_wf fs \<and> g < group_number fs \<and> (\<forall>h < g. bg_free_blocks_count (p_gd fs) h = 0) \<and>
     bg_free_blocks_count (p_gd fs) g \<noteq> 0 \<and> block_ok fs (bg_block_bitmap (p_gd fs) g) \<and>
     scan_bitmap (entries_per_block fs) 0 (block_bytes fs (bg_block_bitmap (p_gd fs) g)) = Some (j, k)"

definition marked :: "ext2_fs \<Rightarrow> u32 \<Rightarrow> nat \<Rightarrow> nat \<Rightarrow> bytes" where
  "marked fs g j k = (let b = blit (\<lambda>_. 0) 0 (block_bytes fs (bg_block_bitmap (p_gd fs) g)) (bsz fs)
     in put32 b (4 * j) (get32 b (4 * j) OR push_bit k 1))"

lemma allocate_at_site:
  assumes "alloc_site fs g j k"
  shows "ext2_allocate_block fs = (of_nat (j * 32 + k + 1) + g * s_blocks_per_group (p_sb fs),
    ext2_flush_required (put_block (take_free_block g fs) (bg_block_bitmap (p_gd fs) g) (marked fs g j k) 0))"
proof -
  let ?bm = "bg_block_bitmap (p_gd fs) g"
  have a: "fs_wf fs" "g < group_number fs" "\<forall>h < g. bg_free_blocks_count (p_gd fs) h = 0" "bg_free_blocks_count (p_gd fs) g \<noteq> 0"
    "block_ok fs ?bm" "scan_bitmap (entries_per_block fs) 0 (block_bytes fs ?bm) = Some (j, k)" using assms by (auto simp: alloc_site_def)
  note z = size_facts [OF a(1)]
  obtain n where n: "unat (group_number fs) = unat g + Suc n" using a(2) less_iff_Suc_add by (auto simp: word_less_nat_alt)
  have "\<forall>e < unat g. bg_free_blocks_count (p_gd fs) (0 + of_nat e) = 0"
  proof (intro allI impI)
    fix e assume e: "e < unat g"
    then have "unat (of_nat e :: u32) = e" using unsigned_less [of g, where 'a = nat] by (simp add: unat_of_nat)
    then show "bg_free_blocks_count (p_gd fs) (0 + of_nat e) = 0" using a(3) e by (simp add: word_less_nat_alt)
  qed
  from allocate_loop_skip [OF this, of "Suc n"] have l: "ext2_allocate_block fs = allocate_loop (Suc n) g fs"
    by (simp add: ext2_allocate_block_def n)
  have r: "ext2_read_block fs ?bm (\<lambda>_. 0) 0 = (1, blit (\<lambda>_. 0) 0 (block_bytes fs ?bm) (bsz fs))" by (rule read_block_ok [OF a(1,5)])
  have s: "scan_bitmap (entries_per_block fs) 0 (blit (\<lambda>_. 0) 0 (block_bytes fs ?bm) (bsz fs)) = Some (j, k)"
    unfolding a(6) [symmetric] by (rule scan_bitmap_cong) (use z(4,8) in simp)
  have w: "ext2_write_block (take_free_block g fs) ?bm (marked fs g j k) 0 =
      (1, put_block (take_free_block g fs) ?bm (marked fs g j k) 0)" using a(1,5) by (intro write_block_put) simp_all
  show ?thesis unfolding l using a(4) r s w by (simp add: marked_def Let_def)
qed

definition allocated :: "ext2_fs \<Rightarrow> u32 \<Rightarrow> nat \<Rightarrow> nat \<Rightarrow> ext2_fs" where
  "allocated fs g j k = ext2_flush_required (put_block (take_free_block g fs) (bg_block_bitmap (p_gd fs) g) (marked fs g j k) 0)"

lemma allocated_fields [simp]:
  "bg_block_bitmap (p_gd (allocated fs g j k)) h = bg_block_bitmap (p_gd fs) h"
  "bg_free_blocks_count (p_gd (allocated fs g j k)) h = (if h = g then bg_free_blocks_count (p_gd fs) g - 1 else bg_free_blocks_count (p_gd fs) h)"
  "s_free_blocks_count (p_sb (allocated fs g j k)) = s_free_blocks_count (p_sb fs) - 1"
  "s_blocks_per_group (p_sb (allocated fs g j k)) = s_blocks_per_group (p_sb fs)"
  "fs_wf (allocated fs g j k) = fs_wf fs" "bsz (allocated fs g j k) = bsz fs" "block_ok (allocated fs g j k) = block_ok fs"
  "group_number (allocated fs g j k) = group_number fs"
  by (simp_all add: allocated_def)

lemma bitmap_word_allocated:
  assumes "alloc_site fs g j k" and "q < bsz fs div 4"
  shows "bitmap_word (allocated fs g j k) g q = (if q = j \<and> j < 128 then bitmap_word fs g q OR push_bit k 1 else bitmap_word fs g q)"
proof -
  let ?bm = "bg_block_bitmap (p_gd fs) g"
  have a: "fs_wf fs" "block_ok fs ?bm" using assms(1) by (auto simp: alloc_site_def)
  have q: "4 * q + i < bsz fs" if "i < 4" for i using assms(2) that by linarith
  have p: "block_bytes (allocated fs g j k) ?bm (4 * q + i) = (if 4 * q + i < 512 then marked fs g j k (4 * q + i) else block_bytes fs ?bm (4 * q + i))"
    if "i < 4" for i
    using block_bytes_put [of "take_free_block g fs" ?bm ?bm "4 * q + i" "marked fs g j k" 0] a q [OF that] by (simp add: allocated_def)
  show ?thesis
  proof (cases "q < 128")
    case True
    then have "bitmap_word (allocated fs g j k) g q = get32 (marked fs g j k) (4 * q)"
      unfolding bitmap_word_def allocated_fields by (intro get32_cong) (use p in simp)
    also have "\<dots> = (if q = j then bitmap_word fs g q OR push_bit k 1 else bitmap_word fs g q)"
    proof (cases "q = j")
      case False
      then have "4 * q + 4 \<le> 4 * j \<or> 4 * j + 4 \<le> 4 * q" by linarith
      then show ?thesis using q [of 3] False by (simp add: marked_def Let_def bitmap_word_def)
    qed (use q [of 3] in \<open>simp add: marked_def Let_def bitmap_word_def\<close>)
    finally show ?thesis using True by auto
  next
    case False
    then have "bitmap_word (allocated fs g j k) g q = bitmap_word fs g q"
      unfolding bitmap_word_def allocated_fields by (intro get32_cong) (use p in simp)
    then show ?thesis using False by auto
  qed
qed

section \<open>Properties\<close>


text \<open>The example partition with the first sector of its block bitmap full.\<close>

definition demo_full :: ext2_fs where
  "demo_full = demo_fs\<lparr>fs_drive := blank_drive\<lparr>dr_sector := (\<lambda>_ _. 0)(70 := \<lambda>_. 255)\<rparr>\<rparr>"

lemma scan_bitmap_full:
  "\<forall>q < d. get32 b (4 * (i + q)) = 0xFFFFFFFF \<Longrightarrow> scan_bitmap (d + n) i b = scan_bitmap n (i + d) b"
proof (induction d arbitrary: i)
  case (Suc d)
  have "get32 b (4 * i) = 0xFFFFFFFF" using Suc.prems by (auto dest: spec [of _ 0])
  moreover have "\<forall>q < d. get32 b (4 * (Suc i + q)) = 0xFFFFFFFF"
  proof (intro allI impI)
    fix q assume "q < d"
    then show "get32 b (4 * (Suc i + q)) = 0xFFFFFFFF" using Suc.prems [rule_format, of "Suc q"] by simp
  qed
  ultimately show ?case using Suc.IH [of "Suc i"] by simp
qed simp

lemma demo_full_bytes: "k < 1024 \<Longrightarrow> block_bytes demo_full 3 k = (if k < 512 then 255 else 0)"
proof -
  assume k: "k < 1024"
  have "(of_nat (70 + k div 512) :: u64) = 70 \<longleftrightarrow> k < 512"
    using of_nat_u64_inj [of "70 + k div 512" 70] k by (simp add: div_eq_0_iff)
  then show ?thesis
    by (simp add: block_bytes_def block_start_def spb_def demo_full_def drive_bytes_def)
qed

lemma demo_full_site: "alloc_site demo_full 0 128 0"
proof -
  have f: "fs_wf demo_full" "bg_block_bitmap (p_gd demo_full) 0 = 3" "block_ok demo_full 3" "bg_free_blocks_count (p_gd demo_full) 0 = 100"
    "group_number demo_full = 1" "bsz demo_full = 1024"
    by (simp_all add: demo_full_def fs_wf_def block_ok_def block_start_def spb_def bsz_def sectors_ok_def blank_drive_def)
  have e: "entries_per_block demo_full = 128 + Suc 127" using size_facts(8) [OF f(1)] f(6) by simp
  have "get32 (block_bytes demo_full 3) (4 * q) = 0xFFFFFFFF" if "q < 128" for q
  proof -
    have "get32 (block_bytes demo_full 3) (4 * q) = get32 (\<lambda>_. 255) (4 * q)"
      by (rule get32_cong) (use that demo_full_bytes in simp)
    then show ?thesis by (simp add: get32_def get16_def push_bit_eq_mult)
  qed
  then have w: "scan_bitmap (128 + Suc 127) 0 (block_bytes demo_full 3) = scan_bitmap (Suc 127) (0 + 128) (block_bytes demo_full 3)"
    by (intro scan_bitmap_full) simp
  have "get32 (block_bytes demo_full 3) 512 = 0"
    using get32_cong [of "block_bytes demo_full 3" 512 "\<lambda>_. 0"] demo_full_bytes by simp
  moreover have "clear_bit 0 = Some 0" by (simp add: clear_bit_def upt_conv_Cons)
  ultimately have "scan_bitmap (Suc 127) (0 + 128) (block_bytes demo_full 3) = Some (128, 0)" by (subst scan_bitmap.simps(2)) simp
  with w have "scan_bitmap (128 + Suc 127) 0 (block_bytes demo_full 3) = Some (128, 0)" by (rule trans)
  then show ?thesis using f unfolding alloc_site_def e f(2) by simp
qed


end
