(* ===== verification/Ext2_Read.thy ===== *)
theory Ext2_Read
  imports Ext2_Alloc
begin

unbundle bit_operations_syntax

text \<open>
  Reading a file.  The reference is a direct description of the contents of a file: the blocks
  behind the twelve direct pointers and those behind the first indirect pointer, one after the
  other.  The loops of ext2_block.c are shown to read these bytes.
\<close>

section \<open>Copies\<close>

lemma blit_blit: "blit (blit dst pos f a) (pos + a) g b = blit dst pos (\<lambda>k. if k < a then f k else g (k - a)) (a + b)"
  by (auto simp: blit_def fun_eq_iff)

definition seq_bytes :: "ext2_fs \<Rightarrow> (nat \<Rightarrow> u32) \<Rightarrow> nat \<Rightarrow> bytes" where
  "seq_bytes fs blocks i = (\<lambda>k. block_bytes fs (blocks (i + k div bsz fs)) (k mod bsz fs))"

lemma bsz_pos: "fs_wf fs \<Longrightarrow> 0 < bsz fs"
  using size_facts(4,5) [of fs] by simp

lemma seq_bytes_first: "k < bsz fs \<Longrightarrow> seq_bytes fs blocks i k = block_bytes fs (blocks i) k"
  by (simp add: seq_bytes_def)

lemma seq_bytes_later:
  assumes "0 < bsz fs" and "a * bsz fs \<le> k"
  shows "seq_bytes fs blocks i k = seq_bytes fs blocks (i + a) (k - a * bsz fs)"
proof -
  obtain c where c: "k = a * bsz fs + c" using assms(2) le_Suc_ex by blast
  show ?thesis using assms(1) by (simp add: seq_bytes_def c add.assoc)
qed

lemma seq_bytes_split:
  assumes "fs_wf fs"
  shows "blit (blit dst pos (seq_bytes fs blocks i) (a * bsz fs)) (pos + a * bsz fs) (seq_bytes fs blocks (i + a)) (b * bsz fs) =
    blit dst pos (seq_bytes fs blocks i) ((a + b) * bsz fs)"
  unfolding blit_blit add_mult_distrib by (rule blit_cong) (use seq_bytes_later [OF bsz_pos [OF assms], of a _ blocks i] in auto)

lemma seq_bytes_cong:
  assumes "fs_wf fs" and "\<And>q. q < m \<Longrightarrow> blocks (i + q) = blocks' (j + q)"
  shows "blit dst pos (seq_bytes fs blocks i) (m * bsz fs) = blit dst pos (seq_bytes fs blocks' j) (m * bsz fs)"
proof (rule blit_cong)
  fix k assume "k < m * bsz fs"
  then have "k div bsz fs < m" by (simp add: less_mult_imp_div_less)
  then show "seq_bytes fs blocks i k = seq_bytes fs blocks' j k" using assms(2) by (simp add: seq_bytes_def)
qed

section \<open>Direct blocks\<close>

lemma of_nat_u64_sub: "b \<le> a \<Longrightarrow> (of_nat a :: u64) - of_nat b = of_nat (a - b)"
  by (simp add: of_nat_diff)

lemma sint_u64: "n < 2 ^ 40 \<Longrightarrow> sint (of_nat n :: u64) = int n"
  using sint_of_nat_u64 [of n] by simp

lemma of_nat_u64_pos: "n < 2 ^ 40 \<Longrightarrow> (of_nat n :: u64) > 0 \<longleftrightarrow> 0 < n"
  using of_nat_u64_inj [of n 0] by (auto simp: word_greater_zero_iff)

lemma read_direct_skip:
  assumes "s < 2 ^ 40"
  shows "read_direct_loop n i fs blocks dst pos cnt (of_nat s) br =
    (if n \<le> s then (sint br, of_nat (s - n), dst) else read_direct_loop (n - s) (i + s) fs blocks dst pos cnt 0 br)"
  using assms
proof (induction n arbitrary: i s)
  case (Suc n)
  show ?case
  proof (cases s)
    case (Suc t)
    have "(of_nat s :: u64) > 0" using of_nat_u64_pos [of s] Suc.prems Suc by simp
    moreover have "(of_nat s :: u64) - 1 = of_nat t" by (simp add: Suc)
    ultimately show ?thesis using Suc.IH [of t "Suc i"] Suc.prems by (simp add: Suc del: of_nat_Suc)
  qed simp
qed simp

lemma read_direct_run:
  assumes "fs_wf fs" and "r < c" and "c < 2 ^ 32 - 2" and "m = min n (c - r)" and "\<forall>q < m. block_ok fs (blocks (i + q))"
  shows "read_direct_loop n i fs blocks dst pos (of_nat c) 0 (of_nat r) =
    (int (r + m), 0, blit dst pos (seq_bytes fs blocks i) (m * bsz fs))"
  using assms(2-)
proof (induction n arbitrary: i dst pos r m)
  case 0
  then show ?case by (simp add: sint_u64)
next
  case (Suc n)
  have m: "0 < m" using Suc.prems by simp
  then have b: "block_ok fs (blocks i)" using Suc.prems(4) by (auto dest: spec [of _ 0])
  note rb = read_block_ok [OF assms(1) b, of dst pos]
  have one: "blit dst pos (block_bytes fs (blocks i)) (bsz fs) = blit dst pos (seq_bytes fs blocks i) (1 * bsz fs)"
    by (simp only: mult_1) (rule blit_cong, simp add: seq_bytes_first)
  have nf: "(1 :: int) \<noteq> EXT2_READ_FAILED" by (simp add: EXT2_READ_FAILED_def)
  have inj: "(of_nat r + 1 :: u64) = of_nat c \<longleftrightarrow> Suc r = c"
    using of_nat_u64_inj [of "Suc r" c] Suc.prems(1,2) by (simp add: add.commute)
  show ?case
  proof (cases "Suc r = c")
    case True
    then have "m = 1" using Suc.prems(1,3) by simp
    moreover have "sint (of_nat r + 1 :: u64) = int (Suc r)" using sint_u64 [of "Suc r"] Suc.prems(1,2) by (simp add: add.commute)
    ultimately show ?thesis using True rb nf inj one by simp
  next
    case False
    have m': "m - 1 = min n (c - Suc r)" using Suc.prems(1,3) by simp
    have q: "\<forall>q < m - 1. block_ok fs (blocks (Suc i + q))"
    proof (intro allI impI)
      fix q assume "q < m - 1"
      then show "block_ok fs (blocks (Suc i + q))" using Suc.prems(4) [rule_format, of "Suc q"] by simp
    qed
    have "read_direct_loop (Suc n) i fs blocks dst pos (of_nat c) 0 (of_nat r) =
        read_direct_loop n (Suc i) fs blocks (blit dst pos (seq_bytes fs blocks i) (1 * bsz fs)) (pos + 1 * bsz fs) (of_nat c) 0 (of_nat (Suc r))"
      using rb nf inj False one size_facts(1) [OF assms(1)] by (simp add: add.commute)
    also have "\<dots> = (int (Suc r + (m - 1)), 0,
        blit (blit dst pos (seq_bytes fs blocks i) (1 * bsz fs)) (pos + 1 * bsz fs) (seq_bytes fs blocks (Suc i)) ((m - 1) * bsz fs))"
      using Suc.IH [of "Suc r" "m - 1" "Suc i"] Suc.prems(1,2) False m' q by simp
    finally show ?thesis using seq_bytes_split [OF assms(1), of dst pos blocks i 1 "m - 1"] m by simp
  qed
qed

text \<open>The two together: a request for \<open>c\<close> blocks after \<open>s\<close> that are skipped.\<close>

lemma read_direct_blocks_ok:
  assumes "fs_wf fs" and "0 < c" and "c < 2 ^ 32 - 2" and "s < 2 ^ 40" and "m = min (n - s) c" and "\<forall>q < m. block_ok fs (blocks (s + q))"
  shows "ext2_read_direct_blocks fs blocks n dst pos (of_nat c) (of_nat s) =
    (int m, of_nat (s - n), blit dst pos (seq_bytes fs blocks s) (m * bsz fs))"
proof (cases "n \<le> s")
  case True
  then show ?thesis using assms by (simp add: ext2_read_direct_blocks_def read_direct_skip)
next
  case False
  then show ?thesis
    using read_direct_run [OF assms(1), of 0 c m "n - s" blocks s dst pos] assms by (simp add: ext2_read_direct_blocks_def read_direct_skip)
qed

section \<open>The first indirect block\<close>

lemma pointers_block: "fs_wf fs \<Longrightarrow> q < entries_per_block fs \<Longrightarrow>
    pointers (blit (\<lambda>_. 0) 0 (block_bytes fs blk) (bsz fs)) q = pointers (block_bytes fs blk) q"
  using size_facts(8) [of fs] by (simp add: pointers_def)

lemma read_indirect_one_ok:
  assumes "fs_wf fs" and "0 < c" and "c < 2 ^ 32 - 2" and "s < 2 ^ 40" and "m = min (entries_per_block fs - s) c"
    and "block_ok fs (blocks 0)" and "\<forall>q < m. block_ok fs (pointers (block_bytes fs (blocks 0)) (s + q))"
  shows "ext2_read_indirect_blocks fs blocks 1 dst pos (of_nat c) (of_nat s) =
    (int m, of_nat (s - entries_per_block fs), blit dst pos (seq_bytes fs (pointers (block_bytes fs (blocks 0))) s) (m * bsz fs))"
proof -
  let ?t = "blit (\<lambda>_. 0) 0 (block_bytes fs (blocks 0)) (bsz fs)"
  have p: "pointers ?t (s + q) = pointers (block_bytes fs (blocks 0)) (s + q)" if "q < m" for q
  proof -
    have "s + q < entries_per_block fs" using that assms(5) by simp linarith
    then show ?thesis by (rule pointers_block [OF assms(1)])
  qed
  have "ext2_read_direct_blocks fs (pointers ?t) (entries_per_block fs) dst pos (of_nat c) (of_nat s) =
      (int m, of_nat (s - entries_per_block fs), blit dst pos (seq_bytes fs (pointers ?t) s) (m * bsz fs))"
    by (rule read_direct_blocks_ok [OF assms(1-5)]) (use assms(7) p in simp)
  moreover have "blit dst pos (seq_bytes fs (pointers ?t) s) (m * bsz fs) = blit dst pos (seq_bytes fs (pointers (block_bytes fs (blocks 0))) s) (m * bsz fs)"
    by (rule seq_bytes_cong [OF assms(1)]) (rule p)
  moreover have "int m \<noteq> EXT2_READ_FAILED" "sint (of_nat m :: u64) = int m"
    using assms(3,5) by (simp_all add: EXT2_READ_FAILED_def sint_u64)
  ultimately show ?thesis using read_block_ok [OF assms(1,6), of "\<lambda>_. 0" 0]
    by (auto simp: ext2_read_indirect_blocks_def Let_def)
qed

section \<open>Blocks of a file\<close>

definition file_block :: "ext2_fs \<Rightarrow> bytes \<Rightarrow> nat \<Rightarrow> u32" where
  "file_block fs inode q = (if q < 12 then i_block inode q else pointers (block_bytes fs (i_block inode 12)) (q - 12))"

definition file_byte :: "ext2_fs \<Rightarrow> bytes \<Rightarrow> nat \<Rightarrow> u8" where
  "file_byte fs inode a = block_bytes fs (file_block fs inode (a div bsz fs)) (a mod bsz fs)"

lemma file_byte_seq: "fs_wf fs \<Longrightarrow> file_byte fs inode (s * bsz fs + k) = seq_bytes fs (file_block fs inode) s k"
  using bsz_pos [of fs] by (simp add: file_byte_def seq_bytes_def)

definition blocks_readable :: "ext2_fs \<Rightarrow> bytes \<Rightarrow> nat \<Rightarrow> nat \<Rightarrow> bool" where
  "blocks_readable fs inode s c \<longleftrightarrow> s + c \<le> 12 + entries_per_block fs \<and>
     (\<forall>q. s \<le> q \<and> q < s + c \<longrightarrow> block_ok fs (file_block fs inode q)) \<and> (12 < s + c \<longrightarrow> block_ok fs (i_block inode 12))"

lemma of_nat_u32_facts:
  assumes "m < 2 ^ 32"
  shows "word_of_int (int m) = (of_nat m :: u32)" "(ucast (of_nat m :: u32) :: u64) = of_nat m" "uint (of_nat m :: u32) = int m"
proof -
  show "word_of_int (int m) = (of_nat m :: u32)" by simp
  have u: "unat (of_nat m :: u32) = m" using assms by (simp add: unat_of_nat)
  have "unat (ucast (of_nat m :: u32) :: u64) = m" using u assms by (simp add: unsigned_ucast_eq take_bit_nat_eq_self)
  then show "(ucast (of_nat m :: u32) :: u64) = of_nat m" using assms by (simp add: word_unat_eq_iff)
  show "uint (of_nat m :: u32) = int m" using u by (simp add: uint_nat)
qed

text \<open>One stage that reads \<open>m\<close> of the \<open>c\<close> blocks that are left.\<close>

lemma read_stage_step:
  assumes "f dst pos (of_nat (c - r)) skip = (int m, skip', dst')" and "r < c" and "r + m \<le> c" and "c < 2 ^ 32 - 2"
  shows "read_stages (f # stages) fs dst pos (of_nat c) skip (of_nat r) =
    (if r + m = c then (int c, dst')
     else read_stages stages fs dst' (pos + m * unat (block_size fs)) (of_nat c) skip' (of_nat (r + m)))"
proof -
  have a: "(of_nat c :: u64) - ucast (of_nat r :: u32) = of_nat (c - r)" using assms(2,4) of_nat_u32_facts(2) [of r] by (simp add: of_nat_diff)
  have b: "(of_nat r :: u32) + word_of_int (int m) = of_nat (r + m)" by simp
  have l: "ucast (of_nat (r + m) :: u32) \<ge> (of_nat c :: u64) \<longleftrightarrow> r + m = c"
    using assms(3,4) of_nat_u32_facts(2) [of "r + m"] by (auto simp: word_le_nat_alt simp del: of_nat_add)
  have n: "int m \<noteq> EXT2_READ_FAILED" using assms(3,4) by (simp add: EXT2_READ_FAILED_def)
  have p: "nat (int m * uint (block_size fs)) = m * unat (block_size fs)" by (simp add: nat_mult_distrib)
  show ?thesis unfolding read_stages.simps a assms(1) prod.case b
    using l n p assms(3,4) of_nat_u32_facts(3) [of "r + m"] by (auto simp: Let_def simp del: of_nat_add)
qed

lemma blocks_readable_at: "blocks_readable fs inode s c \<Longrightarrow> q < c \<Longrightarrow> block_ok fs (file_block fs inode (s + q))"
  by (simp add: blocks_readable_def)

lemma direct_stage:
  assumes "fs_wf fs" and "0 < c" and "c < 2 ^ 32 - 2" and "s < 2 ^ 40" and "blocks_readable fs inode s c" and "m = min (12 - s) c"
  shows "read_stages (ext2_read_direct_blocks fs (i_block inode) 12 # stages) fs dst pos (of_nat c) (of_nat s) 0 =
    (let dst' = blit dst pos (seq_bytes fs (file_block fs inode) s) (m * bsz fs)
     in if m = c then (int c, dst') else read_stages stages fs dst' (pos + m * bsz fs) (of_nat c) (of_nat (s - 12)) (of_nat m))"
proof -
  have "i_block inode (s + q) = file_block fs inode (s + q)" if "q < m" for q using that assms(6) by (auto simp: file_block_def)
  moreover from this have "\<forall>q < m. block_ok fs (i_block inode (s + q))" using blocks_readable_at [OF assms(5)] assms(6) by simp
  ultimately have "ext2_read_direct_blocks fs (i_block inode) 12 dst pos (of_nat (c - 0)) (of_nat s) =
      (int m, of_nat (s - 12), blit dst pos (seq_bytes fs (file_block fs inode) s) (m * bsz fs))"
    using read_direct_blocks_ok [OF assms(1), of c s m 12 "i_block inode" dst pos] assms(2-4,6)
      seq_bytes_cong [OF assms(1), of m "i_block inode" s "file_block fs inode" s dst pos] by simp
  from read_stage_step [of "ext2_read_direct_blocks fs (i_block inode) 12" dst pos c 0 "of_nat s", OF this, of stages fs]
  show ?thesis using assms(2,3,6) size_facts(1) [OF assms(1)] by (simp add: Let_def)
qed

lemma indirect_stage:
  assumes "fs_wf fs" and "c < 2 ^ 32 - 2" and "s < 2 ^ 40" and "blocks_readable fs inode s c" and "m = 12 - s" and "m < c"
  shows "read_stages (ext2_read_indirect_blocks fs (\<lambda>i. i_block inode (12 + i)) 1 # stages) fs dst pos (of_nat c) (of_nat (s - 12)) (of_nat m) =
    (int c, blit dst pos (seq_bytes fs (file_block fs inode) (s + m)) ((c - m) * bsz fs))"
proof -
  let ?ptr = "pointers (block_bytes fs (i_block inode 12))"
  have f: "file_block fs inode (s + m + q) = ?ptr (s - 12 + q)" for q
  proof -
    have "\<not> s + m + q < 12" "s + m + q - 12 = s - 12 + q" using assms(5) by linarith+
    then show ?thesis by (simp only: file_block_def if_False)
  qed
  have r: "c - m = min (entries_per_block fs - (s - 12)) (c - m)" "block_ok fs (i_block inode 12)"
    using assms(4-6) by (auto simp: blocks_readable_def)
  have b: "0 < c - m" "c - m < 2 ^ 32 - 2" "s - 12 < 2 ^ 40" using assms(2,3,6) by linarith+
  have "\<forall>q < c - m. block_ok fs (?ptr (s - 12 + q))"
  proof (intro allI impI)
    fix q assume "q < c - m"
    then show "block_ok fs (?ptr (s - 12 + q))" using blocks_readable_at [OF assms(4), of "m + q"] f [of q] by (simp add: add.assoc)
  qed
  then have "ext2_read_indirect_blocks fs (\<lambda>i. i_block inode (12 + i)) 1 dst pos (of_nat (c - m)) (of_nat (s - 12)) =
      (int (c - m), of_nat (s - 12 - entries_per_block fs), blit dst pos (seq_bytes fs ?ptr (s - 12)) ((c - m) * bsz fs))"
    using read_indirect_one_ok [OF assms(1) b r(1), of "\<lambda>i. i_block inode (12 + i)" dst pos] r(2) by (simp only: add_0_right)
  moreover have "blit dst pos (seq_bytes fs ?ptr (s - 12)) ((c - m) * bsz fs) =
      blit dst pos (seq_bytes fs (file_block fs inode) (s + m)) ((c - m) * bsz fs)"
    by (rule seq_bytes_cong [OF assms(1)]) (simp add: f)
  ultimately have i: "ext2_read_indirect_blocks fs (\<lambda>i. i_block inode (12 + i)) 1 dst pos (of_nat (c - m)) (of_nat (s - 12)) =
      (int (c - m), of_nat (s - 12 - entries_per_block fs), blit dst pos (seq_bytes fs (file_block fs inode) (s + m)) ((c - m) * bsz fs))" by simp
  have e: "m + (c - m) = c" "m + (c - m) \<le> c" using assms(6) by simp_all
  from read_stage_step [of "ext2_read_indirect_blocks fs (\<lambda>i. i_block inode (12 + i)) 1" dst pos c m "of_nat (s - 12)", OF i assms(6) e(2) assms(2)]
  show ?thesis by (simp only: e(1) refl if_True)
qed

lemma read_inode_blocks_ok:
  assumes "fs_wf fs" and "ext2_read_inode fs n = Some inode" and "0 < c" and "c < 2 ^ 32 - 2" and "blocks_readable fs inode s c"
  shows "ext2_read_inode_blocks fs n dst pos (of_nat c) (of_nat s) = (int c, blit dst pos (seq_bytes fs (file_block fs inode) s) (c * bsz fs))"
proof -
  have "s + c \<le> 12 + entries_per_block fs" "entries_per_block fs \<le> 1024" using assms(5) size_facts(4,6,8) [OF assms(1)] by (auto simp: blocks_readable_def)
  then have s40: "s < 2 ^ 40" by simp
  have c0: "(of_nat c :: u64) \<noteq> 0" using of_nat_u64_inj [of c 0] assms(3,4) by simp
  define m where "m = min (12 - s) c"
  show ?thesis
  proof (cases "m = c")
    case True
    then show ?thesis using direct_stage [OF assms(1,3,4) s40 assms(5) m_def] c0 assms(2) by (simp add: ext2_read_inode_blocks_def)
  next
    case False
    then have "m = 12 - s" "m < c" by (simp_all add: m_def)
    from indirect_stage [OF assms(1,4) s40 assms(5) this] show ?thesis
      using direct_stage [OF assms(1,3,4) s40 assms(5) m_def] False c0 assms(2) \<open>m < c\<close>
        seq_bytes_split [OF assms(1), of dst pos "file_block fs inode" s m "c - m"] by (simp add: ext2_read_inode_blocks_def Let_def)
  qed
qed

section \<open>Bytes of a file\<close>

definition blocks_for :: "ext2_fs \<Rightarrow> nat \<Rightarrow> nat" where
  "blocks_for fs c = (c - 1) div bsz fs + 1"

lemma blocks_for_bounds:
  assumes "fs_wf fs" and "0 < c"
  shows "(blocks_for fs c - 1) * bsz fs < c" "c \<le> blocks_for fs c * bsz fs" "0 < blocks_for fs c" "blocks_for fs c \<le> c"
proof -
  have b: "0 < bsz fs" by (rule bsz_pos [OF assms(1)])
  have "(c - 1) div bsz fs * bsz fs \<le> c - 1" by (rule div_times_less_eq_dividend)
  then have "(c - 1) div bsz fs * bsz fs < c" using assms(2) by linarith
  then show "(blocks_for fs c - 1) * bsz fs < c" by (simp only: blocks_for_def add_diff_cancel_right')
  have "c - 1 < (c - 1) div bsz fs * bsz fs + bsz fs" using b mod_less_divisor [OF b, of "c - 1"] div_mult_mod_eq [of "c - 1" "bsz fs"] by linarith
  then show "c \<le> blocks_for fs c * bsz fs" unfolding blocks_for_def add_mult_distrib mult_1 by linarith
  show "0 < blocks_for fs c" by (simp add: blocks_for_def)
  have "(c - 1) div bsz fs \<le> c - 1" by (rule div_le_dividend)
  then show "blocks_for fs c \<le> c" using assms(2) unfolding blocks_for_def by linarith
qed

lemma u64_div_mod:
  assumes "a < 2 ^ 40" and "b < 2 ^ 40"
  shows "(of_nat a :: u64) div of_nat b = of_nat (a div b)" "(of_nat a :: u64) mod of_nat b = of_nat (a mod b)"
proof -
  have "a div b < 2 ^ 40" using assms(1) div_le_dividend [of a b] by linarith
  then show "(of_nat a :: u64) div of_nat b = of_nat (a div b)" using assms by (simp add: word_unat_eq_iff unat_div)
  have "a mod b < 2 ^ 40" using assms(1) mod_less_eq_dividend [of a b] by linarith
  then show "(of_nat a :: u64) mod of_nat b = of_nat (a mod b)" using assms by (simp add: word_unat_eq_iff unat_mod)
qed

lemma div_up_blocks:
  assumes "fs_wf fs" and "0 < c" and "c < 2 ^ 32"
  shows "div_up (of_nat c) (of_nat (bsz fs) :: u64) = of_nat (blocks_for fs c)"
proof -
  have z: "0 < bsz fs" "bsz fs \<le> 4096" using size_facts(4,5,6) [OF assms(1)] by simp_all
  have m: "(of_nat c :: u64) mod of_nat (bsz fs) = of_nat (c mod bsz fs)" "(of_nat c :: u64) div of_nat (bsz fs) = of_nat (c div bsz fs)"
    using u64_div_mod [of c "bsz fs"] z(2) assms(3) by simp_all
  have "c mod bsz fs < 2 ^ 64" using mod_less_divisor [OF z(1), of c] z(2) by simp
  then have i: "(of_nat (c mod bsz fs) :: u64) = 0 \<longleftrightarrow> c mod bsz fs = 0" using of_nat_u64_inj [of "c mod bsz fs" 0] by simp
  have a: "(of_nat c :: u64) + of_nat (bsz fs) - 1 = of_nat (c + bsz fs - 1)" using assms(2) by (simp add: of_nat_diff)
  have "c + bsz fs - 1 = c - 1 + bsz fs" using assms(2) by simp
  then have s: "(c + bsz fs - 1) div bsz fs = blocks_for fs c" using z(1) by (simp only: blocks_for_def div_add_self2)
  have l: "c + bsz fs - 1 < 2 ^ 40" "bsz fs < 2 ^ 40" using z(2) assms(3) by simp_all
  have d: "((of_nat c :: u64) + of_nat (bsz fs) - 1) div of_nat (bsz fs) = of_nat (blocks_for fs c)"
    unfolding a u64_div_mod(1) [OF l] s by (rule refl)
  show ?thesis
  proof (cases "c mod bsz fs = 0")
    case True
    then obtain q where q: "c = bsz fs * q" by (auto elim: dvdE simp: mod_eq_0_iff_dvd)
    then obtain r where r: "q = Suc r" using assms(2) by (cases q) auto
    have e: "c - 1 = bsz fs - 1 + r * bsz fs" using z(1) by (simp add: q r algebra_simps)
    have "(bsz fs - 1 + r * bsz fs) div bsz fs = r + (bsz fs - 1) div bsz fs" using z(1) by (intro div_mult_self1) simp
    then have "(c - 1) div bsz fs = r" unfolding e using z(1) by (simp only: div_less diff_less zero_less_one add_0_right)
    then have "c div bsz fs = blocks_for fs c" using z(1) by (simp add: blocks_for_def q r)
    then show ?thesis using True m i by (simp add: div_up_def)
  next
    case False
    then show ?thesis using m i d by (simp add: div_up_def)
  qed
qed

lemma read_inode_blocks_any:
  assumes "fs_wf fs" and "ext2_read_inode fs n = Some inode" and "c < 2 ^ 32 - 2" and "blocks_readable fs inode s c"
  shows "ext2_read_inode_blocks fs n dst pos (of_nat c) (of_nat s) = (int c, blit dst pos (seq_bytes fs (file_block fs inode) s) (c * bsz fs))"
  using read_inode_blocks_ok [OF assms(1,2) _ assms(3,4)] by (cases "c = 0") (simp_all add: ext2_read_inode_blocks_def)

lemma blocks_readable_sub: "blocks_readable fs inode s c \<Longrightarrow> a + b \<le> c \<Longrightarrow> blocks_readable fs inode (s + a) b"
  by (auto simp: blocks_readable_def)

lemma read_tail_ok:
  assumes "fs_wf fs" and "ext2_read_inode fs n = Some inode" and "blocks_readable fs inode s 1" and "got < c" and "c \<le> got + bsz fs" and "c < 2 ^ 31"
  shows "read_tail fs n dst pos (of_nat c) (of_nat got) (of_nat s) = (int c, blit dst pos (seq_bytes fs (file_block fs inode) s) (c - got))"
proof -
  let ?t = "blit (\<lambda>_. 0) 0 (seq_bytes fs (file_block fs inode) s) (1 * bsz fs)"
  have r: "(of_nat c :: u64) - of_nat got = of_nat (c - got)" using assms(4) by (simp add: of_nat_diff)
  have "ext2_read_inode_blocks fs n (\<lambda>_. 0) 0 (of_nat 1) (of_nat s) = (int 1, ?t)"
    by (rule read_inode_blocks_any [OF assms(1,2) _ assms(3)]) simp
  then have b: "ext2_read_inode_blocks fs n (\<lambda>_. 0) 0 1 (of_nat s) = (1, ?t)" by simp
  have "sint (of_nat (c - got) :: u64) = int (c - got)" "sint (of_nat c :: u64) = int c" "unat (of_nat (c - got) :: u64) = c - got"
    using assms(6) sint_u64 [of "c - got"] sint_u64 [of c] unat_of_nat_u64 [of "c - got"] by simp_all
  moreover have "(of_nat got :: u64) + of_nat (c - got) = of_nat c" using assms(4) by (simp flip: of_nat_add)
  moreover have "blit dst pos ?t (c - got) = blit dst pos (seq_bytes fs (file_block fs inode) s) (c - got)"
    using assms(5) by (intro blit_cong) simp
  ultimately show ?thesis unfolding read_tail_def Let_def r b prod.case using assms(4) by simp
qed

lemma read_rest_ok:
  assumes "fs_wf fs" and "ext2_read_inode fs n = Some inode" and "blocks_readable fs inode s (Suc p)"
    and "p * bsz fs < c" and "c \<le> Suc p * bsz fs" and "c < 2 ^ 31" and "p < c"
  shows "read_rest fs n dst pos (of_nat c) (of_nat (Suc p)) 0 (of_nat s) = (int c, blit dst pos (seq_bytes fs (file_block fs inode) s) c)"
proof -
  let ?F = "file_block fs inode" and ?a = "p * bsz fs"
  note wf = assms(1) and z = size_facts [OF assms(1)]
  have q: "(of_nat (Suc p) :: u64) - 1 = of_nat p" by simp
  have pb: "p < 2 ^ 32 - 2" using assms(6,7) by simp
  have rd: "ext2_read_inode_blocks fs n dst pos (of_nat p) (of_nat s) = (int p, blit dst pos (seq_bytes fs ?F s) ?a)"
    using read_inode_blocks_any [OF wf assms(2) pb] blocks_readable_sub [OF assms(3), of 0 p] by simp
  have nr: "int p \<noteq> EXT2_READ_FAILED" using pb by (simp add: EXT2_READ_FAILED_def)
  have u: "int p * uint (block_size fs) = int ?a" using z(1) by (simp flip: z(1))
  have w: "(of_nat s :: u64) + word_of_int (int p) = of_nat (s + p)" "(0 :: u64) + word_of_int (int ?a) = of_nat ?a" "nat (int ?a) = ?a"
    by (simp_all only: of_int_of_nat_eq of_nat_add add_0_left nat_int)
  have t: "read_tail fs n (blit dst pos (seq_bytes fs ?F s) ?a) (pos + ?a) (of_nat c) (of_nat ?a) (of_nat (s + p)) =
      (int c, blit (blit dst pos (seq_bytes fs ?F s) ?a) (pos + ?a) (seq_bytes fs ?F (s + p)) (c - ?a))"
    using assms(4-6) blocks_readable_sub [OF assms(3), of p 1] by (intro read_tail_ok [OF wf assms(2)]) simp_all
  have e: "?a + (c - ?a) = c" using assms(4) by simp
  have "blit (blit dst pos (seq_bytes fs ?F s) ?a) (pos + ?a) (seq_bytes fs ?F (s + p)) (c - ?a) = blit dst pos (seq_bytes fs ?F s) c"
    unfolding blit_blit e by (rule blit_cong) (use seq_bytes_later [OF bsz_pos [OF wf], of p _ ?F s] in auto)
  moreover have "0 < sint (of_nat c - 0 :: u64)" using sint_u64 [of c] assms(6,7) by simp
  ultimately show ?thesis unfolding read_rest_def q rd prod.case u w using t nr by simp
qed

section \<open>Properties\<close>

text \<open>C36: Reading a range of a file that starts at a block boundary gives the bytes of the file.  The three
  stages of the code, which read whole blocks through the direct and the indirect pointers and
  the rest through a buffer, are equivalent to copying the bytes one by one from the blocks the inode
  points to; the count returned is the one asked for and no byte behind it is written.\<close>

theorem read_inode_bytes_equiv:
  assumes "fs_wf fs" and "ext2_read_inode fs n = Some inode" and "0 < c" and "c < 2 ^ 31"
    and "blocks_readable fs inode s (blocks_for fs c)"
  shows "ext2_read_inode_bytes fs n dst pos (of_nat c) (of_nat (s * bsz fs)) =
    (int c, blit dst pos (\<lambda>k. file_byte fs inode (s * bsz fs + k)) c)"
proof -
  note wf = assms(1) and bf = blocks_for_bounds [OF assms(1,3)] and z = size_facts [OF assms(1)]
  obtain p where p: "blocks_for fs c = Suc p" using bf(3) by (cases "blocks_for fs c") simp_all
  have bs: "(ucast (block_size fs) :: u64) = of_nat (bsz fs)" using of_nat_u32_facts(2) [of "bsz fs"] z(2,4,6) by simp
  have "entries_per_block fs \<le> 1024" "s \<le> 12 + entries_per_block fs" using assms(5) z(4,6,8) by (auto simp: blocks_readable_def)
  then have "s * bsz fs \<le> 1036 * 4096" using z(4,6) by (intro mult_le_mono) simp_all
  then have "s * bsz fs < 2 ^ 40" "bsz fs < 2 ^ 40" using z(4,6) by simp_all
  from u64_div_mod [OF this] have sb: "(of_nat (s * bsz fs) :: u64) div of_nat (bsz fs) = of_nat s" "(of_nat (s * bsz fs) :: u64) mod of_nat (bsz fs) = 0"
    using bsz_pos [OF wf] by (simp_all del: of_nat_mult)
  have "read_rest fs n dst pos (of_nat c) (of_nat (Suc p)) 0 (of_nat s) = (int c, blit dst pos (seq_bytes fs (file_block fs inode) s) c)"
    using read_rest_ok [OF wf assms(2), of s p c] assms(4,5) bf(1,2,4) by (simp add: p)
  moreover have "blit dst pos (seq_bytes fs (file_block fs inode) s) c = blit dst pos (\<lambda>k. file_byte fs inode (s * bsz fs + k)) c"
    by (rule blit_cong) (rule file_byte_seq [OF wf, symmetric])
  ultimately show ?thesis using div_up_blocks [OF wf assms(3)] assms(4)
    unfolding ext2_read_inode_bytes_def Let_def bs sb p by simp
qed

text \<open>The example partition with a file of two blocks.\<close>

definition demo_inode :: bytes where
  "demo_inode = put32 (put32 (put32 (put16 (\<lambda>_. 0) 0 0x8000) 4 1500) 40 20) 44 21"

definition demo_file :: ext2_fs where
  "demo_file = put_inode demo_fs 2 demo_inode"

lemma demo_file_inode: "ext2_read_inode demo_file 2 = Some (blit (\<lambda>_. 0) 0 demo_inode 128)"
proof -
  have k: "tables_wf demo_fs \<and> inode_ok demo_fs 2" by (simp add: demo_inode_ok)
  then have "tables_wf demo_file" "inode_ok demo_file 2" by (simp_all add: demo_file_def)
  from read_inode_ok [OF this] show ?thesis using ino.rd_same [OF k, of demo_inode] k
    by (simp add: inode_bytes_def demo_file_def write_inode_ok)
qed

lemma demo_file_readable: "blocks_readable demo_file (blit (\<lambda>_. 0) 0 demo_inode 128) 0 2"
proof -
  have w: "fs_wf demo_file" "bsz demo_file = 1024" by (simp_all add: demo_file_def)
  have "file_block demo_file (blit (\<lambda>_. 0) 0 demo_inode 128) 0 = 20" "file_block demo_file (blit (\<lambda>_. 0) 0 demo_inode 128) 1 = 21"
    by (simp_all add: file_block_def i_block_def demo_inode_def)
  moreover have "block_ok demo_file 20" "block_ok demo_file 21" by (simp_all add: demo_file_def demo_block_ok)
  moreover have "entries_per_block demo_file = 256" using size_facts(8) [OF w(1)] w(2) by simp
  ultimately show ?thesis by (auto simp: blocks_readable_def numeral_2_eq_2 less_Suc_eq)
qed

theorem read_inode_bytes_equiv_witness:
  "ext2_read_inode_bytes demo_file 2 (\<lambda>_. 1) 0 1500 0 =
    (1500, blit (\<lambda>_. 1) 0 (file_byte demo_file (blit (\<lambda>_. 0) 0 demo_inode 128)) 1500)"
proof -
  have w: "fs_wf demo_file" "blocks_for demo_file 1500 = 2" by (simp_all add: demo_file_def blocks_for_def)
  show ?thesis using read_inode_bytes_equiv [OF w(1) demo_file_inode, of 1500 0 "\<lambda>_. 1" 0] demo_file_readable w(2) by simp
qed

end
