(* ===== verification/Ext2_Directory.thy ===== *)
theory Ext2_Directory
  imports Ext2_Read "HOL-Library.Sublist"
begin

unbundle bit_operations_syntax

text \<open>
  Directories as lists of entries.  The bytes of a directory are a chain of records that ends at its
  size; its abstraction is the list of inode numbers, types and names.  Insertion appends to the
  list, and look-up is a search in it.
\<close>

section \<open>Chains\<close>

definition rlen :: "bytes \<Rightarrow> nat \<Rightarrow> nat" where "rlen b p = unat (de_rec_len b p)"

definition nlen :: "bytes \<Rightarrow> nat \<Rightarrow> nat" where "nlen b p = unat (de_name_len b p)"

primrec chain :: "bytes \<Rightarrow> nat \<Rightarrow> nat \<Rightarrow> nat list \<Rightarrow> bool" where
  "chain b sz p [] = (p = sz)"
| "chain b sz p (q # qs) = (q = p \<and> p < sz \<and> 8 + nlen b p \<le> rlen b p \<and> chain b sz (p + rlen b p) qs)"

lemma chain_end: "chain b sz p ps \<Longrightarrow> p \<le> sz"
  by (induction ps arbitrary: p) auto

lemma chain_bounds: "chain b sz p ps \<Longrightarrow> q \<in> set ps \<Longrightarrow> p \<le> q \<and> q + rlen b q \<le> sz"
proof (induction ps arbitrary: p)
  case (Cons x xs)
  then show ?case using chain_end [of b sz "p + rlen b p" xs] by fastforce
qed simp

lemma chain_append:
  "chain b sz p (ps @ qs) \<longleftrightarrow> (\<exists>m. chain b m p ps \<and> m \<le> sz \<and> chain b sz m qs)" if "qs \<noteq> []"
proof (induction ps arbitrary: p)
  case Nil
  then show ?case using that by (cases qs) auto
next
  case (Cons x xs)
  show ?case
  proof
    assume "chain b sz p ((x # xs) @ qs)"
    then obtain m where m: "x = p" "p < sz" "8 + nlen b p \<le> rlen b p" "chain b m (p + rlen b p) xs" "m \<le> sz" "chain b sz m qs"
      using Cons.IH [of "p + rlen b p"] by auto
    then show "\<exists>m. chain b m p (x # xs) \<and> m \<le> sz \<and> chain b sz m qs" using chain_end [OF m(4)] by (intro exI [of _ m]) simp
  next
    assume "\<exists>m. chain b m p (x # xs) \<and> m \<le> sz \<and> chain b sz m qs"
    then show "chain b sz p ((x # xs) @ qs)" using Cons.IH [of "p + rlen b p"] by auto
  qed
qed

text \<open>The positions the driver visits are those of the chain.\<close>

lemma next_entry_chain:
  assumes "p + rlen b p < 2 ^ 32"
  shows "next_entry b (of_nat p) = of_nat (p + rlen b p)" "unat (of_nat p :: u32) = p"
proof -
  show u: "unat (of_nat p :: u32) = p" using assms by (simp add: unat_of_nat)
  have "unat (ucast (de_rec_len b p) :: u32) = rlen b p"
    using unsigned_less [of "de_rec_len b p", where 'a = nat] by (simp add: rlen_def unsigned_ucast_eq take_bit_nat_eq_self)
  then have "(ucast (de_rec_len b p) :: u32) = of_nat (rlen b p)" using assms by (simp add: word_unat_eq_iff unat_of_nat)
  then show "next_entry b (of_nat p) = of_nat (p + rlen b p)" by (simp only: next_entry_def u of_nat_add)
qed

lemma of_nat_u32_less: "a < 2 ^ 32 \<Longrightarrow> b < 2 ^ 32 \<Longrightarrow> (of_nat a :: u32) < of_nat b \<longleftrightarrow> a < b"
  by (simp add: word_less_nat_alt unat_of_nat)

lemma dir_positions_chain:
  assumes "chain b sz p ps" and "sz < 2 ^ 32"
  shows "dir_positions b (of_nat sz) (of_nat p) = Some (map of_nat ps)"
  using assms(1)
proof (induction ps arbitrary: p)
  case Nil
  then show ?case by (subst dir_positions.simps) simp
next
  case (Cons q qs)
  have p: "p < sz" "chain b sz (p + rlen b p) qs" "q = p" using Cons.prems by auto
  have l: "p + rlen b p < 2 ^ 32" using chain_end [OF p(2)] assms(2) by simp
  have "(of_nat p :: u32) < of_nat sz" using of_nat_u32_less [of p sz] p(1) assms(2) by simp
  then show ?case using Cons.IH [OF p(2)] next_entry_chain(1) [OF l] p(3) by (subst dir_positions.simps) simp
qed

section \<open>Entries\<close>

definition ename :: "bytes \<Rightarrow> nat \<Rightarrow> u8 list" where "ename b p = map (de_name b p) [0..<nlen b p]"

definition entry_of :: "bytes \<Rightarrow> nat \<Rightarrow> u32 \<times> u8 \<times> u8 list" where
  "entry_of b p = (de_inode b p, de_file_type b p, ename b p)"

lemma entry_cong:
  assumes "\<And>k. k < 4 \<or> 6 \<le> k \<and> k < 8 + nlen b p \<Longrightarrow> b' (p + k) = b (p + k)"
  shows "entry_of b' p = entry_of b p" "nlen b' p = nlen b p"
proof -
  have n: "de_name_len b' p = de_name_len b p" "de_file_type b' p = de_file_type b p" using assms [of 6] assms [of 7] by (simp_all add: de_name_len_def de_file_type_def)
  then show l: "nlen b' p = nlen b p" by (simp add: nlen_def)
  have "de_inode b' p = de_inode b p" unfolding de_inode_def by (rule get32_cong) (use assms in simp)
  moreover have "ename b' p = ename b p" unfolding ename_def l using assms [of "8 + _"] by (simp add: de_name_def add.assoc)
  ultimately show "entry_of b' p = entry_of b p" using n by (simp add: entry_of_def)
qed

lemma rlen_cong: "b' (p + 4) = b (p + 4) \<Longrightarrow> b' (p + 5) = b (p + 5) \<Longrightarrow> rlen b' p = rlen b p"
  unfolding rlen_def de_rec_len_def by (subst get16_cong [of b' "p + 4" b]) (simp_all add: add.commute [of 5])

lemma chain_cong:
  assumes "chain b sz p ps" and "\<And>k. p \<le> k \<Longrightarrow> k < sz \<Longrightarrow> b' k = b k"
  shows "chain b' sz p ps" "map (entry_of b') ps = map (entry_of b) ps"
proof -
  have "chain b' sz p ps \<and> map (entry_of b') ps = map (entry_of b) ps"
    using assms
  proof (induction ps arbitrary: p)
    case (Cons q qs)
    have c: "q = p" "p < sz" "8 + nlen b p \<le> rlen b p" "chain b sz (p + rlen b p) qs" using Cons.prems(1) by auto
    have e: "p + rlen b p \<le> sz" by (rule chain_end [OF c(4)])
    have a: "b' (p + k) = b (p + k)" if "k < rlen b p" for k using Cons.prems(2) that e by simp
    have "entry_of b' p = entry_of b p" "nlen b' p = nlen b p" by (rule entry_cong; use a c(3) in auto)+
    moreover have "rlen b' p = rlen b p" by (rule rlen_cong; use a c(3) in auto)
    moreover have "chain b' sz (p + rlen b p) qs \<and> map (entry_of b') qs = map (entry_of b) qs"
      by (rule Cons.IH [OF c(4)]) (use Cons.prems(2) in auto)
    ultimately show ?case using c by simp
  qed simp
  then show "chain b' sz p ps" "map (entry_of b') ps = map (entry_of b) ps" by simp_all
qed

section \<open>Insertion\<close>

definition al4 :: "nat \<Rightarrow> nat" where "al4 n = (n + 3) div 4 * 4"

lemma al4_bounds: "n \<le> al4 n" "al4 n < n + 4"
  unfolding al4_def using div_mult_mod_eq [of "n + 3" 4] mod_less_divisor [of 4 "n + 3"] by linarith+

lemma align4_nat:
  assumes "n < 2 ^ 16"
  shows "align4 (of_nat n) = of_nat (al4 n)"
proof -
  have m: "(3 :: u32) = mask 2" by (simp add: mask_eq_exp_minus_1)
  have "w AND NOT (mask k) = push_bit k (drop_bit k w)" for w :: u32 and k
    by (rule bit_word_eqI) (auto simp: bit_simps)
  then have "w AND NOT 3 = push_bit 2 (drop_bit 2 w)" for w :: u32 by (metis m)
  then have "align4 (of_nat n) = push_bit 2 (drop_bit 2 (of_nat (n + 3)))" by (simp add: align4_def)
  moreover have "unat (drop_bit 2 (of_nat (n + 3) :: u32)) = (n + 3) div 4"
    using assms by (simp add: drop_bit_eq_div unat_div unat_of_nat del: of_nat_add)
  then have "drop_bit 2 (of_nat (n + 3) :: u32) = of_nat ((n + 3) div 4)"
    using assms by (simp add: word_unat_eq_iff unat_of_nat del: of_nat_add)
  ultimately show ?thesis by (simp add: al4_def push_bit_eq_mult mult.commute)
qed

lemma entry_size_nat: "entry_size w = of_nat (8 + unat w)"
  by (simp add: entry_size_def)

lemma align_entry: "align4 (entry_size w) = of_nat (al4 (8 + unat w))" "al4 (8 + unat w) < 512" for w :: u8
proof -
  have "unat w < 256" using unsigned_less [of w, where 'a = nat] by simp
  then show "align4 (entry_size w) = of_nat (al4 (8 + unat w))" "al4 (8 + unat w) < 512"
    using align4_nat [of "8 + unat w"] al4_bounds(2) [of "8 + unat w"] by (simp_all add: entry_size_nat)
qed

text \<open>The bytes of the new directory, over natural numbers.\<close>

definition inserted :: "bytes \<Rightarrow> nat \<Rightarrow> u32 \<Rightarrow> string \<Rightarrow> u32 \<Rightarrow> bytes" where
  "inserted b p child name type =
     (let a = al4 (8 + nlen b p)
      in blit (blit (put16 b (p + 4) (of_nat a)) (p + a) (dentry_bytes child (of_nat (rlen b p - a)) (of_nat (length name)) (ucast type) []) 8)
           (p + a + 8) (str_bytes name) (length name))"

lemma insert_entry_nat:
  assumes "p < 2 ^ 32" and "length name < 256"
  shows "insert_entry b (of_nat p) child name type =
    (if rlen b p < al4 (8 + nlen b p) + al4 (8 + length name) then None else Some (inserted b p child name type))"
proof -
  let ?a = "al4 (8 + nlen b p)" and ?r = "al4 (8 + length name)"
  have u: "unat (of_nat p :: u32) = p" using assms(1) by (simp add: unat_of_nat)
  have l: "unat (of_nat (length name) :: u8) = length name" using assms(2) by (simp add: unat_of_nat)
  have a: "align4 (entry_size (de_name_len b p)) = of_nat ?a" "?a < 512" using align_entry [of "de_name_len b p"] by (simp_all add: nlen_def)
  have r: "align4 (entry_size (of_nat (length name))) = of_nat ?r" "?r < 512" using align_entry [of "of_nat (length name)"] by (simp_all add: l)
  have r16: "(ucast (ucast (of_nat ?r :: u32) :: u16) :: u32) = of_nat ?r" using r(2) by (simp add: unsigned_of_nat take_bit_nat_eq_self)
  have o: "unat (ucast (de_rec_len b p) :: u32) = rlen b p" "rlen b p < 65536"
    using unsigned_less [of "de_rec_len b p", where 'a = nat] by (simp_all add: rlen_def unsigned_ucast_eq take_bit_nat_eq_self)
  have "unat (of_nat ?a + of_nat ?r :: u32) = ?a + ?r" using a(2) r(2) by (simp add: unat_of_nat flip: of_nat_add)
  then have c: "(of_nat ?a + of_nat ?r :: u32) > ucast (de_rec_len b p) \<longleftrightarrow> rlen b p < ?a + ?r" using o by (simp add: word_less_nat_alt)
  have x: "(ucast (of_nat ?a :: u32) :: u16) = of_nat ?a" "unat (of_nat ?a :: u32) = ?a"
    using a(2) by (simp_all add: unsigned_of_nat take_bit_nat_eq_self)
  have d: "de_rec_len b p - of_nat ?a = of_nat (rlen b p - ?a)" if "?a \<le> rlen b p" using that by (simp add: of_nat_diff rlen_def)
  show ?thesis unfolding insert_entry_def Let_def u a(1) r(1) r16 c x(2) l
    using d al4_bounds(1) [of "8 + length name"] by (auto simp: inserted_def Let_def x(1))
qed

lemma get32_at: "(\<And>i. i < 4 \<Longrightarrow> b (k + i) = c (j + i)) \<Longrightarrow> get32 b k = get32 c j"
proof -
  assume "\<And>i. i < 4 \<Longrightarrow> b (k + i) = c (j + i)"
  from this [of 0] this [of 1] this [of 2] this [of 3] show ?thesis by (simp add: get32_def get16_def numeral_eq_Suc)
qed

lemma dentry_fields:
  "get32 (dentry_bytes n r l t []) 0 = n" "get16 (dentry_bytes n r l t []) 4 = r"
  "dentry_bytes n r l t [] 6 = l" "dentry_bytes n r l t [] 7 = t"
proof -
  have "get32 (dentry_bytes n r l t []) 0 = get32 (put16 (put32 (\<lambda>_. 0) 0 n) 4 r) 0"
    by (rule get32_cong) (auto simp: dentry_bytes_def)
  then show "get32 (dentry_bytes n r l t []) 0 = n" by simp
  have "get16 (dentry_bytes n r l t []) 4 = get16 (put16 (put32 (\<lambda>_. 0) 0 n) 4 r) 4"
    by (rule get16_cong) (simp_all add: dentry_bytes_def)
  then show "get16 (dentry_bytes n r l t []) 4 = r" by simp
qed (simp_all add: dentry_bytes_def)

lemma inserted_bytes:
  fixes b p name
  defines "a \<equiv> al4 (8 + nlen b p)"
  shows "k \<noteq> p + 4 \<Longrightarrow> k \<noteq> p + 5 \<Longrightarrow> k < p + a \<or> p + a + 8 + length name \<le> k \<Longrightarrow> inserted b p child name type k = b k"
    "j < 8 \<Longrightarrow> inserted b p child name type (p + a + j) = dentry_bytes child (of_nat (rlen b p - a)) (of_nat (length name)) (ucast type) [] j"
    "j < length name \<Longrightarrow> inserted b p child name type (p + a + 8 + j) = of_char (name ! j)"
proof -
  assume "k \<noteq> p + 4" "k \<noteq> p + 5" "k < p + a \<or> p + a + 8 + length name \<le> k"
  moreover from this have "put16 b (p + 4) (of_nat a) k = b k" by (intro put16_outside) linarith
  ultimately show "inserted b p child name type k = b k" by (auto simp: inserted_def Let_def a_def blit_def)
qed (simp_all add: inserted_def Let_def str_bytes_def flip: a_def)

lemma inserted_last:
  assumes "al4 (8 + nlen b p) \<le> rlen b p"
  shows "entry_of (inserted b p child name type) p = entry_of b p" "nlen (inserted b p child name type) p = nlen b p"
    "rlen (inserted b p child name type) p = al4 (8 + nlen b p)"
proof -
  let ?a = "al4 (8 + nlen b p)"
  have a: "8 + nlen b p \<le> ?a" by (rule al4_bounds(1))
  show "entry_of (inserted b p child name type) p = entry_of b p" "nlen (inserted b p child name type) p = nlen b p"
    by (rule entry_cong; rule inserted_bytes(1); use a in auto)+
  have "get16 (inserted b p child name type) (p + 4) = get16 (put16 b (p + 4) (of_nat ?a)) (p + 4)"
    using a by (intro get16_cong) (simp_all add: inserted_def Let_def)
  moreover have "?a < 65536" using assms unsigned_less [of "de_rec_len b p", where 'a = nat] by (simp add: rlen_def)
  ultimately show "rlen (inserted b p child name type) p = ?a" by (simp add: rlen_def de_rec_len_def unat_of_nat)
qed

lemma inserted_new:
  fixes b p
  assumes "length name < 256"
  defines "q \<equiv> p + al4 (8 + nlen b p)"
  shows "entry_of (inserted b p child name type) q = (child, ucast type, map of_char name)" "nlen (inserted b p child name type) q = length name"
    "rlen (inserted b p child name type) q = rlen b p - al4 (8 + nlen b p)"
proof -
  let ?b = "inserted b p child name type" and ?d = "dentry_bytes child (of_nat (rlen b p - al4 (8 + nlen b p))) (of_nat (length name)) (ucast type) []"
  have d: "?b (q + j) = ?d j" if "j < 8" for j using inserted_bytes(2) [OF that] by (simp add: q_def)
  show n: "nlen ?b q = length name" using d [of 6] assms(1) by (simp add: nlen_def de_name_len_def dentry_fields unat_of_nat)
  have "get32 ?b q = get32 ?d 0" by (rule get32_at) (use d in simp)
  then have i: "de_inode ?b q = child" by (simp add: de_inode_def dentry_fields)
  have "get16 ?b (q + 4) = get16 ?d 4" using d [of 4] d [of 5] by (simp add: get16_def add.commute [of 5])
  moreover have "rlen b p < 65536" using unsigned_less [of "de_rec_len b p", where 'a = nat] by (simp add: rlen_def)
  ultimately show "rlen ?b q = rlen b p - al4 (8 + nlen b p)" by (simp add: rlen_def de_rec_len_def dentry_fields unat_of_nat)
  have "map (de_name ?b q) [0..<length name] = map (\<lambda>j. of_char (name ! j)) [0..<length name]"
    using inserted_bytes(3) [of _ name b p child type] by (simp add: de_name_def q_def)
  also have "\<dots> = map of_char (map ((!) name) [0..<length name])" by (simp only: map_map comp_def)
  also have "\<dots> = map of_char name" by (simp only: map_nth)
  finally have "ename ?b q = map of_char name" by (simp add: ename_def n)
  then show "entry_of ?b q = (child, ucast type, map of_char name)" using i d [of 7] by (simp add: entry_of_def de_file_type_def dentry_fields)
qed

definition dir_list :: "bytes \<Rightarrow> nat list \<Rightarrow> (u32 \<times> u8 \<times> u8 list) list" where
  "dir_list b ps = map (entry_of b) ps"

lemma inserted_chain:
  assumes "chain b sz 0 (ps @ [p])" and "length name < 256" and "al4 (8 + nlen b p) + al4 (8 + length name) \<le> rlen b p"
  shows "chain (inserted b p child name type) sz 0 (ps @ [p, p + al4 (8 + nlen b p)])"
    "dir_list (inserted b p child name type) (ps @ [p, p + al4 (8 + nlen b p)]) = dir_list b (ps @ [p]) @ [(child, ucast type, map of_char name)]"
proof -
  let ?b = "inserted b p child name type" and ?a = "al4 (8 + nlen b p)"
  obtain m where "chain b m 0 ps" "m \<le> sz" "chain b sz m [p]" using assms(1) chain_append [of "[p]" b sz 0 ps] by auto
  then have c: "chain b p 0 ps" "p < sz" "p + rlen b p = sz" by auto
  have a: "8 + nlen b p \<le> ?a" "8 + length name \<le> al4 (8 + length name)" "?a \<le> rlen b p" using al4_bounds(1) assms(3) by auto
  have old: "chain ?b p 0 ps" "map (entry_of ?b) ps = map (entry_of b) ps"
    by (rule chain_cong [OF c(1)]; rule inserted_bytes(1); use a in auto)+
  note l = inserted_last [OF a(3), of child name type] and n = inserted_new [OF assms(2), of b p child type]
  have "chain ?b sz p [p, p + ?a]" using a c l n assms(3) by simp
  then show "chain ?b sz 0 (ps @ [p, p + ?a])" using chain_append [of "[p, p + ?a]" ?b sz 0 ps] old(1) c(2) by auto
  show "dir_list ?b (ps @ [p, p + ?a]) = dir_list b (ps @ [p]) @ [(child, ucast type, map of_char name)]"
    using old(2) l(1) n(1) by (simp add: dir_list_def)
qed

section \<open>Look-up\<close>

lemma strn_equal_iff: "(\<forall>k < n. a k \<noteq> 0) \<Longrightarrow> strn_equal n a c \<longleftrightarrow> (\<forall>k < n. a k = c k)"
proof (induction n arbitrary: a c)
  case (Suc n)
  have "a 0 \<noteq> 0" "\<forall>k < n. a (Suc k) \<noteq> 0" using Suc.prems by auto
  then show ?case using Suc.IH [of "\<lambda>k. a (Suc k)" "\<lambda>k. c (Suc k)"] by (simp add: All_less_Suc2)
qed simp

lemma strn_equal_prefix:
  assumes "0 \<notin> set (map a [0..<n])"
  shows "strn_equal n a (str_bytes path) \<longleftrightarrow> prefix (map a [0..<n]) (map of_char path)"
proof -
  have nz: "\<forall>k < n. a k \<noteq> 0" using assms by (auto simp: image_iff)
  have "(\<forall>k < n. a k = str_bytes path k) \<longleftrightarrow> n \<le> length path \<and> map a [0..<n] = take n (map of_char path)"
  proof
    assume e: "\<forall>k < n. a k = str_bytes path k"
    have "k < length path" if "k < n" for k using e nz that by (auto simp: str_bytes_def split: if_splits)
    then have "n \<le> length path" by (meson not_le less_irrefl)
    then show "n \<le> length path \<and> map a [0..<n] = take n (map of_char path)"
      using e by (auto intro!: nth_equalityI simp: str_bytes_def)
  next
    assume r: "n \<le> length path \<and> map a [0..<n] = take n (map of_char path)"
    show "\<forall>k < n. a k = str_bytes path k"
    proof (intro allI impI)
      fix k assume k: "k < n"
      have "a k = map a [0..<n] ! k" using k by simp
      also have "\<dots> = take n (map of_char path) ! k" using r by (simp only:)
      also have "\<dots> = str_bytes path k" using k r by (simp add: str_bytes_def)
      finally show "a k = str_bytes path k" .
    qed
  qed
  moreover have "prefix (map a [0..<n]) (map of_char path) \<longleftrightarrow> n \<le> length path \<and> map a [0..<n] = take n (map of_char path)"
  proof
    assume "prefix (map a [0..<n]) (map of_char path)"
    then show "n \<le> length path \<and> map a [0..<n] = take n (map of_char path)"
      using prefix_length_le [of "map a [0..<n]" "map of_char path"] by (auto simp: prefix_def)
  qed (use take_is_prefix [of n "map of_char path"] in simp)
  ultimately show ?thesis using strn_equal_iff [OF nz] by simp
qed

lemma find_entry_chain:
  assumes "chain b sz p ps" and "sz < 2 ^ 32" and "\<forall>q \<in> set ps. 0 \<notin> set (ename b q)"
  shows "find_entry b (of_nat sz) path (of_nat p) = Some (map_option fst (find (\<lambda>(i, t, nm). prefix nm (map of_char path)) (dir_list b ps)))"
  using assms(1,3)
proof (induction ps arbitrary: p)
  case Nil
  then show ?case by (subst find_entry.simps) (simp add: dir_list_def)
next
  case (Cons q qs)
  have p: "p < sz" "chain b sz (p + rlen b p) qs" "q = p" using Cons.prems(1) by auto
  have l: "p + rlen b p < 2 ^ 32" using chain_end [OF p(2)] assms(2) by simp
  note x = next_entry_chain [OF l]
  have n: "(of_nat p :: u32) + ucast (de_rec_len b p) = of_nat (p + rlen b p)" using x by (simp only: next_entry_def)
  have lt: "(of_nat p :: u32) < of_nat sz" using of_nat_u32_less [of p sz] p(1) assms(2) by simp
  have "strn_equal (unat (de_name_len b p)) (de_name b p) (str_bytes path) \<longleftrightarrow> prefix (ename b p) (map of_char path)"
    using Cons.prems(2) p(3) strn_equal_prefix [of "de_name b p" "nlen b p" path] by (simp add: ename_def nlen_def)
  then show ?case using Cons.IH [OF p(2)] Cons.prems(2) p(3) x(2) n lt
    by (subst find_entry.simps) (simp add: dir_list_def entry_of_def)
qed

section \<open>An example\<close>

text \<open>A directory with the entries the driver gives a new one.\<close>

definition demo_dir :: bytes where "demo_dir = dot_entries (\<lambda>_. 0) 11 2"

lemma demo_dir_bytes:
  "rlen demo_dir 0 = 12" "nlen demo_dir 0 = 1" "rlen demo_dir 12 = 1012" "nlen demo_dir 12 = 2"
  "ename demo_dir 0 = [46]" "ename demo_dir 12 = [46, 46]" "de_inode demo_dir 0 = 11" "de_inode demo_dir 12 = 2"
  by code_simp+

lemma demo_dir_chain: "chain demo_dir 1024 0 ([0] @ [12])"
  by (simp add: demo_dir_bytes)

section \<open>Properties\<close>

text \<open>C38: Entering a name into a directory appends it to the list of entries.  If the slack of the last record
  holds the new record, the bytes the driver writes back are again a chain of records that fills
  the directory, the entries before keep their inode, type and name, and the new entry is the last; otherwise the insertion is refused.\<close>

theorem insert_entry_appends:
  assumes "chain b sz 0 (ps @ [p])" and "sz < 2 ^ 32" and "length name < 256"
  shows "dir_positions b (of_nat sz) 0 = Some (map of_nat (ps @ [p])) \<and>
    (case insert_entry b (of_nat p) child name type of
       None \<Rightarrow> rlen b p < al4 (8 + nlen b p) + al4 (8 + length name)
     | Some b' \<Rightarrow> \<exists>q. chain b' sz 0 (ps @ [p, q]) \<and> dir_positions b' (of_nat sz) 0 = Some (map of_nat (ps @ [p, q])) \<and>
         dir_list b' (ps @ [p, q]) = dir_list b (ps @ [p]) @ [(child, ucast type, map of_char name)])"
proof -
  have "p < 2 ^ 32" using chain_bounds [OF assms(1), of p] assms(2) by simp
  note i = insert_entry_nat [OF this assms(3), of b child type]
  have d: "dir_positions b (of_nat sz) 0 = Some (map of_nat (ps @ [p]))" using dir_positions_chain [OF assms(1,2)] by simp
  show ?thesis
  proof (cases "rlen b p < al4 (8 + nlen b p) + al4 (8 + length name)")
    case True
    then show ?thesis using d i by simp
  next
    case False
    then have "al4 (8 + nlen b p) + al4 (8 + length name) \<le> rlen b p" by simp
    note c = inserted_chain [OF assms(1,3) this, of child type]
    have "dir_positions (inserted b p child name type) (of_nat sz) 0 = Some (map of_nat (ps @ [p, p + al4 (8 + nlen b p)]))"
      using dir_positions_chain [OF c(1) assms(2)] by simp
    then show ?thesis using d i False c by auto
  qed
qed

theorem insert_entry_appends_witness:
  "\<exists>b' q. insert_entry demo_dir 12 5 ''foo'' 1 = Some b' \<and> chain b' 1024 0 [0, 12, q] \<and>
     dir_list b' [0, 12, q] = [(11, 2, [46]), (2, 2, [46, 46]), (5, 1, [102, 111, 111])]"
proof -
  have t: "dir_list demo_dir [0, 12] = [(11, 2, [46]), (2, 2, [46, 46])]" "al4 11 = 12" "al4 10 = 12" by code_simp+
  show ?thesis using insert_entry_appends [OF demo_dir_chain, of "''foo''" 5 1]
    by (auto simp: demo_dir_bytes t split: option.splits)
qed

text \<open>Looking up a name in a directory compares only as many characters as the entry has: the result is the
  inode of the first entry whose name is a prefix of the one looked for.  A file is hidden by every
  earlier entry whose name it extends.\<close>

theorem lookup_takes_prefix:
  assumes "chain b sz 0 ps" and "sz < 2 ^ 32" and "\<forall>q \<in> set ps. 0 \<notin> set (ename b q)"
  shows "find_entry b (of_nat sz) path 0 = Some (map_option fst (find (\<lambda>(i, t, nm). prefix nm (map of_char path)) (dir_list b ps)))"
  using find_entry_chain [OF assms] by simp

theorem lookup_takes_prefix_witness: "find_entry demo_dir 1024 ''.profile'' 0 = Some (Some 11)"
proof -
  have "dir_list demo_dir ([0] @ [12]) = [(11, 2, [46]), (2, 2, [46, 46])]" by code_simp
  then show ?thesis using lookup_takes_prefix [OF demo_dir_chain, of "''.profile''"] by (simp add: demo_dir_bytes)
qed

end
