(* ===== verification/Ext2_Flush.thy ===== *)
theory Ext2_Flush
  imports Ext2_Directory
begin

unbundle bit_operations_syntax

text \<open>
  What flushing a partition writes: which sectors \<open>ext2_flush_partition\<close> can reach, and what
  deleting an inode does to the bitmap.
\<close>

section \<open>Small writes\<close>

lemma disk_out_frame:
  assumes "unat c \<le> 512" and "t \<noteq> scast s"
  shows "dr_sector (snd (disk_out d s c src pos)) t = dr_sector d t"
proof -
  have "sint c = int (unat c)" using assms(1) sint_of_nat_u32 [of "unat c"] by simp
  then have "(scast c :: u64) = of_nat (unat c)" by (simp only: scast_eq of_int_of_nat_eq)
  moreover have "unat (of_nat (unat c) + 511 :: u64) = unat c + 511"
    using assms(1) unat_of_nat_u64 [of "unat c"] by (subst unat_word_ariths(1)) (simp del: of_nat_unat)
  then have "unat (size_to_blocks (of_nat (unat c))) \<le> 1"
    using assms(1) div_le_mono [of "unat c + 511" 1023 512] by (simp add: size_to_blocks_def unat_div del: of_nat_unat)
  ultimately have "unat (size_to_blocks (scast c)) = 0 \<or> unat (size_to_blocks (scast c)) = Suc 0" by auto
  then show ?thesis using assms(2)
    by (elim disjE) (simp_all add: disk_out_def dd_disk_write_def Let_def put_sector_def split: prod.split)
qed

lemma operate_loop_inv:
  assumes "\<And>fs j. j < n \<Longrightarrow> P fs \<Longrightarrow> P (snd (f fs (i + of_nat j)))" and "P fs"
  shows "P (snd (operate_loop n i f fs))"
  using assms
proof (induction n arbitrary: i fs)
  case (Suc n)
  have "P (snd (f fs i))" using Suc.prems(1) [of 0 fs] Suc.prems(2) by simp
  moreover have "P (snd (f fs' (i + 1 + of_nat j)))" if "j < n" "P fs'" for fs' j
    using Suc.prems(1) [of "Suc j" fs'] that by (simp add: algebra_simps)
  ultimately show ?case using Suc.IH [of "i + 1" "snd (f fs i)"] by (auto split: prod.split)
qed simp

section \<open>Flushing\<close>

definition same_layout :: "ext2_fs \<Rightarrow> ext2_fs \<Rightarrow> bool" where
  "same_layout fs fs' \<longleftrightarrow> p_sb fs' = p_sb fs \<and> p_lba fs' = p_lba fs \<and> sector_size fs' = sector_size fs \<and>
     group_number fs' = group_number fs \<and> bgdt_block fs' = bgdt_block fs \<and> sb_block fs' = sb_block fs"

lemma same_layout_groups: "same_layout fs fs' \<Longrightarrow> sectors_per_group fs' = sectors_per_group fs"
  by (simp add: same_layout_def sectors_per_group_def block_size_def)

lemma descriptors_count:
  assumes "group_number fs \<le> 8192"
  shows "unat (ucast (div_up (ucast (group_number fs) * 32 :: u64) 512) :: u32) \<le> 512"
proof -
  let ?g = "unat (group_number fs)"
  have g: "?g \<le> 8192" using assms by (simp add: word_le_nat_alt)
  have u: "unat (ucast (group_number fs) :: u64) = ?g" using unsigned_less [of "group_number fs", where 'a = nat] by (simp add: unsigned_ucast_eq take_bit_nat_eq_self)
  have m: "unat (ucast (group_number fs) * 32 :: u64) = ?g * 32" using g by (simp add: unat_word_ariths(2) u)
  have "unat (ucast (group_number fs) * 32 + 512 - 1 :: u64) = ?g * 32 + 511"
  proof -
    have "(ucast (group_number fs) * 32 + 512 - 1 :: u64) = ucast (group_number fs) * 32 + 511" by simp
    then show ?thesis using g by (simp only: unat_word_ariths(1) m) simp
  qed
  then have "unat (div_up (ucast (group_number fs) * 32 :: u64) 512) \<le> 512"
    using g m div_le_mono [of "?g * 32 + 511" 262655 512] div_le_mono [of "?g * 32" 262144 512] by (simp add: div_up_def unat_div)
  then show ?thesis by (simp add: unsigned_ucast_eq take_bit_nat_eq_self)
qed

lemma flush_bg_frame:
  assumes "sector_size fs = 512" and "group_number fs \<le> 8192" and "s \<noteq> scast (p_lba fs + sectors_per_group fs * g + bgdt_block fs)"
  shows "same_layout fs (snd (ext2_flush_bg fs g))" "dr_sector (fs_drive (snd (ext2_flush_bg fs g))) s = dr_sector (fs_drive fs) s"
  using disk_out_frame [OF descriptors_count [OF assms(2)] assms(3), of "fs_drive fs"] assms(1)
  by (simp_all add: ext2_flush_bg_def Let_def same_layout_def case_prod_unfold)

lemma flush_sb_frame:
  assumes "s \<noteq> scast (p_lba fs + sectors_per_group fs * g + sb_block fs)"
  shows "same_layout fs (snd (ext2_flush_sb fs g))" "dr_sector (fs_drive (snd (ext2_flush_sb fs g))) s = dr_sector (fs_drive fs) s"
  using disk_out_frame [of 2, OF _ assms, of "fs_drive fs"]
  by (simp_all add: ext2_flush_sb_def Let_def same_layout_def case_prod_unfold)

lemma flush_loop:
  assumes "\<And>fs' g. same_layout fs fs' \<Longrightarrow> g < group_number fs \<Longrightarrow>
      same_layout fs' (snd (f fs' g)) \<and> dr_sector (fs_drive (snd (f fs' g))) s = dr_sector (fs_drive fs') s"
  shows "same_layout fs (snd (ext2_operate_on_bg f fs)) \<and> dr_sector (fs_drive (snd (ext2_operate_on_bg f fs))) s = dr_sector (fs_drive fs) s"
  unfolding ext2_operate_on_bg_def
proof (rule operate_loop_inv [where P = "\<lambda>fs'. same_layout fs fs' \<and> dr_sector (fs_drive fs') s = dr_sector (fs_drive fs) s"])
  fix fs' j assume j: "j < unat (group_number fs)" and i: "same_layout fs fs' \<and> dr_sector (fs_drive fs') s = dr_sector (fs_drive fs) s"
  have "unat (of_nat j :: u32) = j" using j unsigned_less [of "group_number fs", where 'a = nat] by (simp add: unat_of_nat)
  then have "0 + of_nat j < group_number fs" using j by (simp add: word_less_nat_alt)
  from assms [OF _ this] i show "same_layout fs (snd (f fs' (0 + of_nat j))) \<and> dr_sector (fs_drive (snd (f fs' (0 + of_nat j)))) s = dr_sector (fs_drive fs) s"
    by (auto simp: same_layout_def)
qed (simp add: same_layout_def)

section \<open>Properties\<close>

text \<open>Flushing does not save the group descriptors.  The block number of the descriptor table is used as a
  number of sectors: on a partition with blocks of 1024 bytes, as it is registered, a flush writes the second sector after the
  start of each group, where the superblock lies, and no other sector; the table behind it, from
  which the descriptors are read, keeps its old contents.\<close>

theorem flush_misses_descriptors:
  assumes "sector_size fs = 512" and "group_number fs \<le> 8192" and "bgdt_block fs = 2" and "sb_block fs = 2"
    and "\<forall>g < group_number fs. s \<noteq> scast (p_lba fs + sectors_per_group fs * g + 2)"
  shows "dr_sector (fs_drive (ext2_flush_partition fs)) s = dr_sector (fs_drive fs) s"
proof -
  let ?f1 = "snd (ext2_operate_on_bg ext2_flush_bg fs)"
  have fields: "sector_size fs' = 512" "group_number fs' \<le> 8192" "group_number fs' = group_number fs"
    "\<forall>g < group_number fs. s \<noteq> scast (p_lba fs' + sectors_per_group fs' * g + bgdt_block fs')"
    "\<forall>g < group_number fs. s \<noteq> scast (p_lba fs' + sectors_per_group fs' * g + sb_block fs')" if "same_layout fs fs'" for fs'
    using assms that same_layout_groups [OF that] by (simp_all add: same_layout_def)
  have a: "same_layout fs ?f1 \<and> dr_sector (fs_drive ?f1) s = dr_sector (fs_drive fs) s"
  proof (rule flush_loop, intro conjI)
    fix fs' g assume l: "same_layout fs fs'" and g: "g < group_number fs"
    note f = fields [OF l]
    have n: "s \<noteq> scast (p_lba fs' + sectors_per_group fs' * g + bgdt_block fs')" using f(4) g by blast
    show "same_layout fs' (snd (ext2_flush_bg fs' g))" "dr_sector (fs_drive (snd (ext2_flush_bg fs' g))) s = dr_sector (fs_drive fs') s"
      by (rule flush_bg_frame [OF f(1,2) n])+
  qed
  have "same_layout ?f1 (snd (ext2_operate_on_bg ext2_flush_sb ?f1)) \<and>
      dr_sector (fs_drive (snd (ext2_operate_on_bg ext2_flush_sb ?f1))) s = dr_sector (fs_drive ?f1) s"
  proof (rule flush_loop, intro conjI)
    fix fs' g assume l: "same_layout ?f1 fs'" and g: "g < group_number ?f1"
    have l': "same_layout fs fs'" using a l by (auto simp: same_layout_def)
    have "g < group_number fs" using fields(3) a g by auto
    then have n: "s \<noteq> scast (p_lba fs' + sectors_per_group fs' * g + sb_block fs')" using fields(5) [OF l'] by blast
    show "same_layout fs' (snd (ext2_flush_sb fs' g))" "dr_sector (fs_drive (snd (ext2_flush_sb fs' g))) s = dr_sector (fs_drive fs') s"
      by (rule flush_sb_frame [OF n])+
  qed
  then show ?thesis using a by (simp add: ext2_flush_partition_def case_prod_unfold Let_def)
qed

text \<open>The sector the descriptors of the example partition are read from is number 68.\<close>

theorem flush_misses_descriptors_witness:
  "dr_sector (fs_drive (ext2_flush_partition demo_fs)) 68 = (\<lambda>_. 0) \<and> p_gd demo_fs 0 = 3"
proof -
  have "\<forall>g < group_number demo_fs. (68 :: u64) \<noteq> scast (p_lba demo_fs + sectors_per_group demo_fs * g + 2)"
    by (auto simp: word_less_nat_alt unat_eq_0)
  then show ?thesis using flush_misses_descriptors [of demo_fs 68]
    by (simp add: demo_fs_def blank_drive_def demo_gd_def put16_def put32_def)
qed

end
