(* ===== verification/Pit.thy ===== *)
theory Pit
  imports Omen_Prelude
begin

text \<open>
  The timer, modules/managers/dev/pit.c: its tick counter, preemption settings, unit conversions and
  the list of alarms.  The list is kept as a list of records, first alarm first, and an alarm is
  designated by its identifier, unique in the list.  \<open>kfree\<close> unmaps the page it is given, so
  reading an alarm that has left the list is a fault.  Callbacks are interpreted by a function on the whole
  state of the kernel, of which the timer is the first part.  Output to the ports is returned as a
  list of (port, byte).
\<close>

definition ALARM_MIN_TICKS :: int where "ALARM_MIN_TICKS = 5"

record 'c pit_alarm =
  alarm_id :: int
  remaining_ticks :: int
  rearm :: u8
  rearm_ticks :: int
  callback :: "'c option"

record 'c pit =
  boot_epoch :: u64
  hertz :: u64
  timer_ticks :: u64
  timer_subticks :: u8
  preemption_ticks :: u64
  preemption_enabled :: u8
  alarms :: "'c pit_alarm list"

section \<open>Start-up\<close>

definition timer_phase :: "int \<Rightarrow> (u16 \<times> u8) list" where
  "timer_phase hz =
     (let divisor = (7159090 + 6 div 2) div (6 * hz)
      in [(0x43, 0x36), (0x40, word_of_int divisor AND 0xFF), (0x40, word_of_int (divisor div 256) AND 0xFF)])"

definition init_pit :: "u64 \<Rightarrow> int \<Rightarrow> ('c, 'x) pit_scheme \<Rightarrow> ('c, 'x) pit_scheme \<times> (u16 \<times> u8) list" where
  "init_pit boot_time hz w =
     (w\<lparr>boot_epoch := boot_time, timer_ticks := 0, preemption_ticks := 0, preemption_enabled := 0,
        hertz := word_of_int hz, alarms := []\<rparr>, timer_phase hz)"

section \<open>Alarms\<close>

definition find_alarm :: "int \<Rightarrow> 'c pit_alarm list \<Rightarrow> 'c pit_alarm option" where
  "find_alarm i as = List.find (\<lambda>a. alarm_id a = i) as"

text \<open>The search restarts from the head of the list whenever the candidate is taken.\<close>

partial_function (option) find_id_loop :: "'c pit_alarm list \<Rightarrow> int \<Rightarrow> 'c pit_alarm list \<Rightarrow> int option" where
  "find_id_loop all i rest =
     (case rest of [] \<Rightarrow> Some i
      | a # as \<Rightarrow> if alarm_id a = i then find_id_loop all (i + 1) all else find_id_loop all i as)"

definition find_free_alarm_id :: "('c, 'x) pit_scheme \<Rightarrow> int option" where
  "find_free_alarm_id w = find_id_loop (alarms w) 0 (alarms w)"

text \<open>The node comes from \<open>kmalloc\<close>, which clears it: \<open>rearm_ticks\<close> is 0 and stays so.\<close>

definition add_alarm :: "int \<Rightarrow> int \<Rightarrow> 'c option \<Rightarrow> ('c, 'x) pit_scheme \<Rightarrow> (int \<times> ('c, 'x) pit_scheme) res" where
  "add_alarm ticks re cb w =
     (if ticks < ALARM_MIN_TICKS then Inl (Panic ''Alarm ticks too low'')
      else if cb = None then Inl (Panic ''Alarm callback is null'')
      else case find_free_alarm_id w of None \<Rightarrow> Inl Spin
        | Some i \<Rightarrow> Inr (i, w\<lparr>alarms := \<lparr>alarm_id = i, remaining_ticks = ticks, rearm = word_of_int re,
              rearm_ticks = 0, callback = cb\<rparr> # alarms w\<rparr>))"

definition get_remaining_ticks :: "int \<Rightarrow> ('c, 'x) pit_scheme \<Rightarrow> int" where
  "get_remaining_ticks i w = (case find_alarm i (alarms w) of Some a \<Rightarrow> remaining_ticks a | None \<Rightarrow> -1)"

primrec drop_alarm :: "int \<Rightarrow> 'c pit_alarm list \<Rightarrow> 'c pit_alarm list" where
  "drop_alarm i [] = []"
| "drop_alarm i (a # as) = (if alarm_id a = i then as else a # drop_alarm i as)"

definition remove_alarm :: "int \<Rightarrow> ('c, 'x) pit_scheme \<Rightarrow> ('c, 'x) pit_scheme" where
  "remove_alarm i w = w\<lparr>alarms := drop_alarm i (alarms w)\<rparr>"

section \<open>Ticks\<close>

primrec next_alarm :: "int \<Rightarrow> 'c pit_alarm list \<Rightarrow> int option" where
  "next_alarm i [] = None"
| "next_alarm i (a # as) =
     (if alarm_id a = i then (case as of [] \<Rightarrow> None | b # _ \<Rightarrow> Some (alarm_id b)) else next_alarm i as)"

definition set_remaining :: "int \<Rightarrow> int \<Rightarrow> ('c, 'x) pit_scheme \<Rightarrow> ('c, 'x) pit_scheme" where
  "set_remaining i n w = w\<lparr>alarms := map (\<lambda>a. if alarm_id a = i then a\<lparr>remaining_ticks := n\<rparr> else a) (alarms w)\<rparr>"

definition count_down :: "int \<Rightarrow> int" where
  "count_down n = (if n > 0 then n - 5 else n)"

definition tick_alarm :: "('c \<Rightarrow> int \<Rightarrow> u64 \<Rightarrow> int \<Rightarrow> ('c, 'x) pit_scheme \<Rightarrow> ('c, 'x) pit_scheme res) \<Rightarrow>
    int \<Rightarrow> ('c, 'x) pit_scheme \<Rightarrow> ('c, 'x) pit_scheme res" where
  "tick_alarm run i w =
     (case find_alarm i (alarms w) of None \<Rightarrow> Inl (Panic ''use after free'')
      | Some a \<Rightarrow>
          let n = count_down (remaining_ticks a); w1 = set_remaining i n w
          in if n > 0 then Inr w1
             else res_bind (case callback a of None \<Rightarrow> Inr w1 | Some cb \<Rightarrow> run cb i (timer_ticks w1) (rearm_ticks a) w1)
               (\<lambda>w2. case find_alarm i (alarms w2) of None \<Rightarrow> Inl (Panic ''use after free'')
                  | Some a2 \<Rightarrow> Inr (if rearm a2 \<noteq> 0 then set_remaining i (rearm_ticks a2) w2 else w2)))"

partial_function (option) tick_loop :: "('c \<Rightarrow> int \<Rightarrow> u64 \<Rightarrow> int \<Rightarrow> ('c, 'x) pit_scheme \<Rightarrow> ('c, 'x) pit_scheme res) \<Rightarrow>
    int option \<Rightarrow> ('c, 'x) pit_scheme \<Rightarrow> ('c, 'x) pit_scheme res option" where
  "tick_loop run i w =
     (case i of None \<Rightarrow> Some (Inr w)
      | Some j \<Rightarrow> (case tick_alarm run j w of Inl e \<Rightarrow> Some (Inl e)
          | Inr w' \<Rightarrow> tick_loop run (next_alarm j (alarms w')) w'))"

definition tick :: "('c \<Rightarrow> int \<Rightarrow> u64 \<Rightarrow> int \<Rightarrow> ('c, 'x) pit_scheme \<Rightarrow> ('c, 'x) pit_scheme res) \<Rightarrow>
    ('c, 'x) pit_scheme \<Rightarrow> ('c, 'x) pit_scheme res option" where
  "tick run w =
     (let w1 = w\<lparr>timer_ticks := timer_ticks w + 1\<rparr>
      in if timer_ticks w1 mod 5 = 0 \<and> alarms w1 \<noteq> []
         then tick_loop run (Some (alarm_id (hd (alarms w1)))) w1 else Some (Inr w1))"

section \<open>Units and preemption\<close>

definition seconds_to_ticks :: "('c, 'x) pit_scheme \<Rightarrow> u64 \<Rightarrow> u64" where
  "seconds_to_ticks w seconds = seconds * hertz w"

definition ticks_to_seconds :: "('c, 'x) pit_scheme \<Rightarrow> u64 \<Rightarrow> u64" where
  "ticks_to_seconds w ticks =
     (if hertz w = 0 then 0 else if ticks = 0 then 0 else if ticks < hertz w then 1 else ticks div hertz w)"

definition ticks_to_ms :: "('c, 'x) pit_scheme \<Rightarrow> u64 \<Rightarrow> u64" where
  "ticks_to_ms w ticks =
     (if hertz w = 0 then 0 else if ticks = 0 then 0
      else if ticks * 1000 < hertz w then 1000 else (ticks * 1000) div hertz w)"

definition ms_to_ticks :: "('c, 'x) pit_scheme \<Rightarrow> u64 \<Rightarrow> u64" where
  "ms_to_ticks w ms = (let cuak = ms * hertz w in if cuak < 1000 then 1 else cuak div 1000)"

definition ns_to_ticks :: "('c, 'x) pit_scheme \<Rightarrow> u64 \<Rightarrow> u64 res" where
  "ns_to_ticks w ns =
     (if ns < 1000000 then Inl (Panic ''PIT hertz too low for ns resolution'')
      else let ticks = ms_to_ticks w (ns div 1000000)
           in if ticks = 0 then Inl (Panic ''PIT hertz too low for ns resolution'') else Inr ticks)"

definition get_resolution :: u64 where "get_resolution = 1000000"

definition ticks_to_ns :: "('c, 'x) pit_scheme \<Rightarrow> u64 \<Rightarrow> u64 res" where
  "ticks_to_ns w ticks =
     (if hertz w = 0 then Inr 0 else if ticks = 0 then Inr 0 else if ticks < hertz w then Inr 1000000
      else let ns = (ticks * 1000000) div hertz w
           in if ns = 0 then Inl (Panic ''PIT hertz too low for ns resolution'') else Inr ns)"

definition set_preeption_ticks :: "u64 \<Rightarrow> ('c, 'x) pit_scheme \<Rightarrow> ('c, 'x) pit_scheme" where
  "set_preeption_ticks ticks w = w\<lparr>preemption_ticks := ticks\<rparr>"

definition preempt_toggle :: "('c, 'x) pit_scheme \<Rightarrow> ('c, 'x) pit_scheme" where
  "preempt_toggle w = w\<lparr>preemption_enabled := (if preemption_enabled w = 0 then 1 else 0)\<rparr>"

definition requires_preemption :: "('c, 'x) pit_scheme \<Rightarrow> bool" where
  "requires_preemption w \<longleftrightarrow>
     preemption_enabled w \<noteq> 0 \<and> preemption_ticks w \<noteq> 0 \<and> timer_ticks w mod preemption_ticks w = 0"

definition enable_preemption :: "('c, 'x) pit_scheme \<Rightarrow> ('c, 'x) pit_scheme" where
  "enable_preemption w = w\<lparr>preemption_enabled := 1\<rparr>"

definition get_ticks_since_boot :: "('c, 'x) pit_scheme \<Rightarrow> u64" where
  "get_ticks_since_boot w = timer_ticks w"

definition get_epoch :: "('c, 'x) pit_scheme \<Rightarrow> u64" where
  "get_epoch w = boot_epoch w + ticks_to_seconds w (timer_ticks w)"

section \<open>Identifiers\<close>

definition alarm_ids :: "'c pit_alarm list \<Rightarrow> int set" where
  "alarm_ids as = alarm_id ` set as"

definition alarms_ok :: "('c, 'x) pit_scheme \<Rightarrow> bool" where
  "alarms_ok w \<longleftrightarrow> distinct (map alarm_id (alarms w)) \<and> (\<forall>a \<in> set (alarms w). callback a \<noteq> None)"

lemma finite_alarm_ids [simp]: "finite (alarm_ids as)"
  by (simp add: alarm_ids_def)

lemma find_id_loop_returns:
  assumes "all = pre @ rest" and "i \<notin> alarm_ids pre"
  shows "\<exists>k \<ge> i. find_id_loop all i rest = Some k \<and> k \<notin> alarm_ids all \<and> {i..<k} \<subseteq> alarm_ids all"
  using assms
proof (induction "card {x \<in> alarm_ids all. x \<ge> i}" arbitrary: i pre rest rule: less_induct)
  case (less i)
  show ?case using less.prems
  proof (induction rest arbitrary: pre)
    case Nil
    then show ?case by (subst find_id_loop.simps) auto
  next
    case (Cons a as)
    show ?case
    proof (cases "alarm_id a = i")
      case True
      then have "i \<in> alarm_ids all" using Cons.prems by (auto simp: alarm_ids_def)
      moreover have "{x \<in> alarm_ids all. x \<ge> i + 1} = {x \<in> alarm_ids all. x \<ge> i} - {i}" by auto
      ultimately have "card {x \<in> alarm_ids all. x \<ge> i + 1} < card {x \<in> alarm_ids all. x \<ge> i}"
        by (simp add: card_Diff1_less del: card_Diff_insert)
      from less.hyps [OF this, of "[]" all] obtain k where k: "k \<ge> i + 1" "find_id_loop all (i + 1) all = Some k"
        "k \<notin> alarm_ids all" "{i + 1..<k} \<subseteq> alarm_ids all" by (auto simp: alarm_ids_def)
      have "{i..<k} = insert i {i + 1..<k}" using k(1) by auto
      with k \<open>alarm_id a = i\<close> Cons.prems show ?thesis by (subst find_id_loop.simps) (auto simp: alarm_ids_def)
    next
      case False
      then show ?thesis
        using Cons.IH [of "pre @ [a]"] Cons.prems by (subst find_id_loop.simps) (auto simp: alarm_ids_def)
    qed
  qed
qed

lemma find_free_alarm_id_fresh:
  "\<exists>k \<ge> 0. find_free_alarm_id w = Some k \<and> k \<notin> alarm_ids (alarms w) \<and> {0..<k} \<subseteq> alarm_ids (alarms w)"
  using find_id_loop_returns [of "alarms w" "[]" "alarms w" 0] by (simp add: find_free_alarm_id_def alarm_ids_def)

lemma add_alarm_Inr:
  assumes "ticks \<ge> ALARM_MIN_TICKS" and "cb \<noteq> None"
  obtains i where "find_free_alarm_id w = Some i" and "i \<ge> 0" and "i \<notin> alarm_ids (alarms w)"
    and "add_alarm ticks re cb w = Inr (i, w\<lparr>alarms := \<lparr>alarm_id = i, remaining_ticks = ticks, rearm = word_of_int re,
              rearm_ticks = 0, callback = cb\<rparr> # alarms w\<rparr>)"
  using find_free_alarm_id_fresh [of w] assms that by (auto simp: add_alarm_def)

lemma set_drop_alarm: "set (drop_alarm i as) \<subseteq> set as"
  by (induction as) auto

lemma drop_alarm_ids: "distinct (map alarm_id as) \<Longrightarrow> alarm_ids (drop_alarm i as) = alarm_ids as - {i}"
  by (induction as) (auto simp: alarm_ids_def image_iff)

lemma drop_alarm_distinct: "distinct (map alarm_id as) \<Longrightarrow> distinct (map alarm_id (drop_alarm i as))"
  by (induction as) (use set_drop_alarm in fastforce)+

lemma add_alarm_ok: "alarms_ok w \<Longrightarrow> add_alarm ticks re cb w = Inr (i, w') \<Longrightarrow> alarms_ok w'"
  using find_free_alarm_id_fresh [of w]
  by (auto simp: add_alarm_def alarms_ok_def alarm_ids_def split: if_splits option.splits)

lemma remove_alarm_ok: "alarms_ok w \<Longrightarrow> alarms_ok (remove_alarm i w)"
  using set_drop_alarm [of i "alarms w"] by (auto simp: alarms_ok_def remove_alarm_def drop_alarm_distinct)

section \<open>A pass over the alarms\<close>

lemma at_alarm:
  assumes "distinct (map alarm_id (pre @ a # as))"
  shows "find_alarm (alarm_id a) (pre @ a # as) = Some a"
    and "next_alarm (alarm_id a) (pre @ a # as) = (case as of [] \<Rightarrow> None | b # _ \<Rightarrow> Some (alarm_id b))"
    and "map (\<lambda>b. if alarm_id b = alarm_id a then b\<lparr>remaining_ticks := n\<rparr> else b) (pre @ a # as) =
      pre @ a\<lparr>remaining_ticks := n\<rparr> # as"
proof -
  show "find_alarm (alarm_id a) (pre @ a # as) = Some a"
    "next_alarm (alarm_id a) (pre @ a # as) = (case as of [] \<Rightarrow> None | b # _ \<Rightarrow> Some (alarm_id b))"
    using assms by (induction pre) (auto simp: find_alarm_def)
  show "map (\<lambda>b. if alarm_id b = alarm_id a then b\<lparr>remaining_ticks := n\<rparr> else b) (pre @ a # as) =
      pre @ a\<lparr>remaining_ticks := n\<rparr> # as"
    using assms by (auto simp: map_idI image_iff intro!: map_idI)
qed

definition due :: "'c pit_alarm \<Rightarrow> bool" where
  "due a \<longleftrightarrow> remaining_ticks a \<le> 5"

abbreviation sooner :: "'c pit_alarm \<Rightarrow> 'c pit_alarm" where
  "sooner a \<equiv> a\<lparr>remaining_ticks := remaining_ticks a - 5\<rparr>"

text \<open>The contract of a callback that takes its own alarm out of the list.\<close>

locale one_shot_callback =
  fixes run :: "'c \<Rightarrow> int \<Rightarrow> u64 \<Rightarrow> int \<Rightarrow> ('c, 'x) pit_scheme \<Rightarrow> ('c, 'x) pit_scheme res"
  assumes removes_itself: "distinct (map alarm_id (alarms w)) \<Longrightarrow> run cb i t r w = Inr w' \<Longrightarrow> i \<notin> alarm_ids (alarms w')"
begin

lemma tick_alarm_due:
  assumes "distinct (map alarm_id (alarms w))" and "alarms w = pre @ a # as" and "due a" and "callback a = Some cb"
  shows "\<exists>e. tick_alarm run (alarm_id a) w = Inl e"
proof -
  let ?w1 = "set_remaining (alarm_id a) (count_down (remaining_ticks a)) w"
  have d: "distinct (map alarm_id (pre @ a # as))" using assms by simp
  have n: "\<not> count_down (remaining_ticks a) > 0" using assms(3) by (simp add: due_def count_down_def)
  have w1: "distinct (map alarm_id (alarms ?w1))"
    using d by (simp add: set_remaining_def assms(2) at_alarm(3) [OF d, simplified])
  show ?thesis
  proof (cases "run cb (alarm_id a) (timer_ticks ?w1) (rearm_ticks a) ?w1")
    case (Inl e)
    then show ?thesis using n at_alarm(1) [OF d] assms(2,4) by (simp add: tick_alarm_def Let_def res_bind_simps)
  next
    case (Inr w2)
    have "find_alarm (alarm_id a) (alarms w2) = None"
      using removes_itself [OF w1 Inr] by (auto simp: find_alarm_def find_None_iff alarm_ids_def image_iff)
    with Inr show ?thesis using n at_alarm(1) [OF d] assms(2,4) by (simp add: tick_alarm_def Let_def res_bind_simps)
  qed
qed

lemma tick_loop_outcome:
  assumes "distinct (map alarm_id (alarms w))" and "alarms w = pre @ a # as" and "\<forall>b \<in> set (a # as). callback b \<noteq> None"
  shows "if list_ex due (a # as) then \<exists>e. tick_loop run (Some (alarm_id a)) w = Some (Inl e)
     else tick_loop run (Some (alarm_id a)) w = Some (Inr (w\<lparr>alarms := pre @ map sooner (a # as)\<rparr>))"
  using assms
proof (induction as arbitrary: pre a w)
  case Nil
  show ?case
  proof (cases "due a")
    case True
    then show ?thesis using tick_alarm_due [OF Nil.prems(1,2) True] Nil.prems(3) by (subst tick_loop.simps) auto
  next
    case False
    have d: "distinct (map alarm_id (pre @ [a]))" using Nil.prems by simp
    have d': "distinct (map alarm_id (pre @ [sooner a]))" using d by simp
    have "tick_alarm run (alarm_id a) w = Inr (w\<lparr>alarms := pre @ [sooner a]\<rparr>)"
      using False at_alarm(1) [OF d] at_alarm(3) [OF d]
      by (simp add: tick_alarm_def Nil.prems(2) due_def count_down_def set_remaining_def del: map_append)
    then show ?thesis using False at_alarm(2) [OF d'] by (simp add: tick_loop.simps)
  qed
next
  case (Cons b as)
  show ?case
  proof (cases "due a")
    case True
    then show ?thesis using tick_alarm_due [OF Cons.prems(1,2) True] Cons.prems(3) by (subst tick_loop.simps) auto
  next
    case False
    let ?w = "w\<lparr>alarms := (pre @ [sooner a]) @ b # as\<rparr>"
    have d: "distinct (map alarm_id (pre @ a # b # as))" using Cons.prems by simp
    have d': "distinct (map alarm_id (pre @ sooner a # b # as))" using d by simp
    have "tick_alarm run (alarm_id a) w = Inr ?w"
      using False at_alarm(1) [OF d] at_alarm(3) [OF d]
      by (simp add: tick_alarm_def Cons.prems(2) due_def count_down_def set_remaining_def del: map_append)
    then have "tick_loop run (Some (alarm_id a)) w = tick_loop run (Some (alarm_id b)) ?w"
      using at_alarm(2) [OF d'] by (subst tick_loop.simps) simp
    moreover have "distinct (map alarm_id (alarms ?w))" using d' by simp
    note IH = Cons.IH [OF this, of "pre @ [sooner a]" b]
    ultimately show ?thesis using IH Cons.prems(3) False by (auto split: if_splits)
  qed
qed

lemma tick_outcome:
  assumes "alarms_ok w"
  shows "if (timer_ticks w + 1) mod 5 = 0 \<and> list_ex due (alarms w) then \<exists>e. tick run w = Some (Inl e)
     else tick run w = Some (Inr (w\<lparr>timer_ticks := timer_ticks w + 1,
       alarms := if (timer_ticks w + 1) mod 5 = 0 then map sooner (alarms w) else alarms w\<rparr>))"
proof (cases "alarms w")
  case Nil
  then show ?thesis by (simp add: tick_def)
next
  case (Cons a as)
  then show ?thesis
    using assms tick_loop_outcome [of "w\<lparr>timer_ticks := timer_ticks w + 1\<rparr>" "[]" a as]
    by (auto simp: tick_def alarms_ok_def split: if_splits)
qed

end

section \<open>Properties\<close>

text \<open>Adding an alarm always returns: the identifier is the least one not in use, the alarm list
  stays well formed, the new alarm has all its ticks left and every other alarm is untouched; removing it again
  restores the list.\<close>

theorem add_alarm_fresh:
  assumes "alarms_ok w" and "ticks \<ge> ALARM_MIN_TICKS" and "cb \<noteq> None"
  shows "\<exists>i w'. add_alarm ticks re cb w = Inr (i, w') \<and> alarms_ok w' \<and>
     i = (LEAST n. n \<ge> 0 \<and> n \<notin> alarm_ids (alarms w)) \<and> get_remaining_ticks i w' = ticks \<and>
     (\<forall>j. j \<noteq> i \<longrightarrow> get_remaining_ticks j w' = get_remaining_ticks j w) \<and> remove_alarm i w' = w"
proof -
  obtain k where k: "k \<ge> 0" "find_free_alarm_id w = Some k" "k \<notin> alarm_ids (alarms w)" "{0..<k} \<subseteq> alarm_ids (alarms w)"
    using find_free_alarm_id_fresh by blast
  have least: "k = (LEAST n. n \<ge> 0 \<and> n \<notin> alarm_ids (alarms w))"
    by (rule Least_equality [symmetric]) (use k in \<open>auto simp: subset_iff not_less [symmetric]\<close>)
  let ?w = "w\<lparr>alarms := \<lparr>alarm_id = k, remaining_ticks = ticks, rearm = word_of_int re, rearm_ticks = 0, callback = cb\<rparr> # alarms w\<rparr>"
  have add: "add_alarm ticks re cb w = Inr (k, ?w)" using assms k by (simp add: add_alarm_def)
  moreover have "get_remaining_ticks k ?w = ticks" by (simp add: get_remaining_ticks_def find_alarm_def)
  moreover have "get_remaining_ticks j ?w = get_remaining_ticks j w" if "j \<noteq> k" for j
    using that by (simp add: get_remaining_ticks_def find_alarm_def)
  ultimately show ?thesis
    using add_alarm_ok [OF assms(1) add] least by (intro exI [of _ k] exI [of _ ?w]) (simp add: remove_alarm_def)
qed

definition demo_pit :: "unit pit" where
  "demo_pit = \<lparr>boot_epoch = 0, hertz = 100, timer_ticks = 4, timer_subticks = 0, preemption_ticks = 0,
     preemption_enabled = 0, alarms = [\<lparr>alarm_id = 1, remaining_ticks = 9, rearm = 0, rearm_ticks = 0, callback = Some ()\<rparr>,
       \<lparr>alarm_id = 0, remaining_ticks = 5, rearm = 0, rearm_ticks = 0, callback = Some ()\<rparr>]\<rparr>"

theorem add_alarm_fresh_witness:
  "\<exists>i w'. add_alarm 20 0 (Some ()) demo_pit = Inr (i, w') \<and> get_remaining_ticks i w' = 20 \<and> remove_alarm i w' = demo_pit"
  using add_alarm_fresh [of demo_pit 20 "Some ()" 0] by (auto simp: demo_pit_def alarms_ok_def ALARM_MIN_TICKS_def)

text \<open>Converting nanoseconds to ticks and back loses a factor of a thousand: at a hundred hertz, a
  whole number of seconds (fewer than \<open>2 ^ 24\<close>) comes back divided by 1000, because the second conversion multiplies by a million.\<close>

theorem nanoseconds_shrink:
  assumes "hertz w = 100" and "0 < s" and "s < 2 ^ 24"
  shows "res_bind (ns_to_ticks w (s * 1000000000)) (ticks_to_ns w) = Inr (s * 1000000)"
proof -
  have u: "unat (s * k) = unat s * unat k" if "unat k \<le> 2 ^ 32" for k :: u64
  proof -
    have "unat s < 2 ^ 24" using assms(3) by (simp add: word_less_nat_alt)
    with that have "unat s * unat k < 2 ^ 24 * 2 ^ 32 + 1" using mult_le_mono [of "unat s" "2 ^ 24" "unat k" "2 ^ 32"] by linarith
    then show ?thesis by (simp add: unat_mult_lem [THEN iffD1])
  qed
  have s: "0 < unat s" using assms(2) by (simp add: unat_gt_0)
  have ms: "(s * 1000000000) div 1000000 = s * 1000" by (rule word_unat_eq_iff [THEN iffD2]) (simp add: unat_div u)
  have t: "s * 1000 * 100 div 1000 = s * 100"
    by (rule word_unat_eq_iff [THEN iffD2]) (simp add: unat_div u mult.assoc)
  have n: "s * 100 * 1000000 div 100 = s * 1000000"
    by (rule word_unat_eq_iff [THEN iffD2]) (simp add: unat_div u mult.assoc)
  have "\<not> s * 1000000000 < 1000000" "\<not> s * 1000 * 100 < 1000" "s * 100 \<noteq> 0" "\<not> s * 100 < 100" "s * 1000000 \<noteq> 0"
    using s u by (simp_all add: word_less_nat_alt mult.assoc word_unat_eq_iff [of "_ * _" 0])
  then show ?thesis by (simp add: ns_to_ticks_def ticks_to_ns_def ms_to_ticks_def ms t [simplified] n [simplified] assms(1) Let_def res_bind_simps)
qed

theorem nanoseconds_shrink_witness:
  "res_bind (ns_to_ticks demo_pit 2000000000) (ticks_to_ns demo_pit) = Inr 2000000"
  using nanoseconds_shrink [of demo_pit 2] by (simp add: demo_pit_def)

end
