(* ===== verification/Process_Types.thy ===== *)
theory Process_Types
  imports Omen_Prelude
begin

text \<open>
  Constants of include/omen/managers/cpu/process.h shared by the scheduler and the sleep queues:
  process and thread states, table sizes, and the encoding of a wait status in an \<open>int\<close>.
\<close>

unbundle bit_operations_syntax

definition PROCESS_PRIORITIES :: nat where "PROCESS_PRIORITIES = 20"

definition PROCESS_STATUS_ALIVE :: int where "PROCESS_STATUS_ALIVE = 0"

definition PROCESS_STATUS_ZOMBIE :: int where "PROCESS_STATUS_ZOMBIE = 1"

definition PROCESS_STATUS_SIGSTOP :: int where "PROCESS_STATUS_SIGSTOP = 2"

definition PROCESS_STATUS_SIGCONT :: int where "PROCESS_STATUS_SIGCONT = 3"

definition THREAD_STATUS_READY :: int where "THREAD_STATUS_READY = 0"

definition THREAD_STATUS_RUNNING :: int where "THREAD_STATUS_RUNNING = 1"

definition THREAD_STATUS_UNINTERRUPTIBLE_SLEEP :: int where "THREAD_STATUS_UNINTERRUPTIBLE_SLEEP = 2"

definition THREAD_STATUS_INTERRUPTIBLE_SLEEP :: int where "THREAD_STATUS_INTERRUPTIBLE_SLEEP = 3"

definition THREAD_STATUS_ZOMBIE :: int where "THREAD_STATUS_ZOMBIE = 5"

definition MAX_OPEN_FILES :: nat where "MAX_OPEN_FILES = 32"

definition MAX_THREADS :: nat where "MAX_THREADS = 32"

definition SLEEP_WAITPID :: int where "SLEEP_WAITPID = 1"

lemmas process_status_defs = PROCESS_STATUS_ALIVE_def PROCESS_STATUS_ZOMBIE_def PROCESS_STATUS_SIGSTOP_def PROCESS_STATUS_SIGCONT_def

lemmas thread_status_defs = THREAD_STATUS_READY_def THREAD_STATUS_RUNNING_def THREAD_STATUS_UNINTERRUPTIBLE_SLEEP_def
  THREAD_STATUS_INTERRUPTIBLE_SLEEP_def THREAD_STATUS_ZOMBIE_def

section \<open>Wait status\<close>

definition WSTATUS :: "int \<Rightarrow> int" where "WSTATUS x = x AND 0x7f"

definition WSTOPPED_code :: int where "WSTOPPED_code = 0x7f"

definition WCONTINUED_code :: int where "WCONTINUED_code = 0xffff"

definition WIFSTOPPED :: "int \<Rightarrow> bool" where "WIFSTOPPED x \<longleftrightarrow> x AND 0xff = WSTOPPED_code"

definition WSTOPSIG :: "int \<Rightarrow> int" where "WSTOPSIG x = drop_bit 8 (take_bit 32 x) AND 0xff"

definition WIFSIGNALED :: "int \<Rightarrow> bool" where "WIFSIGNALED x \<longleftrightarrow> WSTATUS x \<noteq> WSTOPPED_code \<and> WSTATUS x \<noteq> 0"

definition WTERMSIG :: "int \<Rightarrow> int" where "WTERMSIG x = WSTATUS x"

definition WIFEXITED :: "int \<Rightarrow> bool" where "WIFEXITED x \<longleftrightarrow> WSTATUS x = 0"

definition WEXITSTATUS :: "int \<Rightarrow> int" where "WEXITSTATUS x = drop_bit 8 (take_bit 32 x) AND 0xff"

definition WIFCONTINUED :: "int \<Rightarrow> bool" where "WIFCONTINUED x \<longleftrightarrow> x AND WCONTINUED_code = WCONTINUED_code"

definition WCOREFLAG :: int where "WCOREFLAG = 0x80"

definition WCOREDUMP :: "int \<Rightarrow> int" where "WCOREDUMP x = x AND WCOREFLAG"

definition W_EXITCODE :: "int \<Rightarrow> int \<Rightarrow> int" where "W_EXITCODE ret sig = push_bit 8 ret OR sig"

definition W_STOPCODE :: "int \<Rightarrow> int" where "W_STOPCODE sig = push_bit 8 sig OR WSTOPPED_code"

definition WREASON_EXIT :: int where "WREASON_EXIT = 1"

definition WREASON_STOP :: int where "WREASON_STOP = 2"

definition WREASON_CONT :: int where "WREASON_CONT = 4"

definition WREASON_SIGNAL :: int where "WREASON_SIGNAL = 8"

definition WNOHANG :: int where "WNOHANG = 1"

definition WUNTRACED :: int where "WUNTRACED = 2"

definition WCONTINUED :: int where "WCONTINUED = 8"

definition WEXITED :: int where "WEXITED = 4"

lemmas wreason_defs = WREASON_EXIT_def WREASON_STOP_def WREASON_CONT_def WREASON_SIGNAL_def

end
