(* ===== verification/Sline.thy ===== *)
theory Sline
  imports Pit Process_Types
begin

text \<open>
  Sleep queues, modules/managers/cpu/sline.c.  Queues are listed from \<open>squeue_head\<close>; a queue is
  designated by its condition, which \<open>__sleep\<close> keeps unique.  Threads are addresses; their status is a
  field of the state.  A node that was freed while still linked stays in its list with \<open>freed\<close> set, and reading it is a
  fault, since \<open>kfree\<close> unmaps its page.  The wait at the end of \<open>__sleep\<close> yields to the scheduler until the status changes and
  is not part of the definition.
\<close>

record timespec =
  tv_sec :: u64
  tv_nsec :: u64

record snode =
  sn_thread :: u64
  sn_duration :: "timespec option"
  sn_rem :: u64
  freed :: bool

record squeue =
  sq_nodes :: "snode list"
  sq_id :: int

datatype alarm_callback = Wakeup_alarm

record sline = "alarm_callback pit" +
  squeues :: "squeue list"
  th_status :: "u64 \<Rightarrow> int"
  rem_spec :: "u64 \<Rightarrow> timespec"

definition use_after_free :: "'a res" where
  "use_after_free = Inl (Panic ''use after free'')"

section \<open>Queues and nodes\<close>

definition fuckup_detector :: "int \<Rightarrow> 'a sline_scheme \<Rightarrow> unit res" where
  "fuckup_detector i w = (if i \<in> sq_id ` set (squeues w) then Inl (Panic ''Fuckup detected'') else Inr ())"

definition create_squeue :: "int \<Rightarrow> 'a sline_scheme \<Rightarrow> squeue \<times> 'a sline_scheme" where
  "create_squeue i w = (let q = \<lparr>sq_nodes = [], sq_id = i\<rparr> in (q, w\<lparr>squeues := squeues w @ [q]\<rparr>))"

definition create_snode :: "u64 \<Rightarrow> timespec option \<Rightarrow> u64 \<Rightarrow> snode" where
  "create_snode thread duration rm = \<lparr>sn_thread = thread, sn_duration = duration, sn_rem = rm, freed = False\<rparr>"

definition destroy_snode :: "snode \<Rightarrow> snode res" where
  "destroy_snode node = (if freed node then use_after_free else Inr (node\<lparr>freed := True\<rparr>))"

primrec destroy_nodes :: "snode list \<Rightarrow> unit res" where
  "destroy_nodes [] = Inr ()"
| "destroy_nodes (n # ns) = res_bind (destroy_snode n) (\<lambda>_. destroy_nodes ns)"

primrec drop_queue :: "int \<Rightarrow> squeue list \<Rightarrow> squeue list" where
  "drop_queue i [] = []"
| "drop_queue i (q # qs) = (if sq_id q = i then qs else q # drop_queue i qs)"

definition find_squeue :: "int \<Rightarrow> 'a sline_scheme \<Rightarrow> squeue option" where
  "find_squeue i w = List.find (\<lambda>q. sq_id q = i) (squeues w)"

definition destroy_squeue :: "squeue option \<Rightarrow> 'a sline_scheme \<Rightarrow> 'a sline_scheme res" where
  "destroy_squeue queue w =
     (case queue of None \<Rightarrow> Inl (Panic ''Queue is NULL'')
      | Some q \<Rightarrow> (case find_squeue (sq_id q) w of None \<Rightarrow> Inl (Panic ''Queue not found'')
          | Some cur \<Rightarrow>
              let w1 = w\<lparr>squeues := drop_queue (sq_id q) (squeues w)\<rparr>
              in res_bind (destroy_nodes (sq_nodes cur)) (\<lambda>_. res_bind (fuckup_detector (sq_id q) w1) (\<lambda>_. Inr w1))))"

primrec find_node :: "u64 \<Rightarrow> snode list \<Rightarrow> snode option res" where
  "find_node thread [] = Inr None"
| "find_node thread (n # ns) =
     (if freed n then use_after_free else if sn_thread n = thread then Inr (Some n) else find_node thread ns)"

definition find_snode :: "squeue \<Rightarrow> u64 \<Rightarrow> snode option res" where
  "find_snode queue thread = find_node thread (sq_nodes queue)"

primrec find_queue_of :: "u64 \<Rightarrow> squeue list \<Rightarrow> squeue option res" where
  "find_queue_of thread [] = Inr None"
| "find_queue_of thread (q # qs) =
     res_bind (find_node thread (sq_nodes q)) (\<lambda>r. case r of Some _ \<Rightarrow> Inr (Some q) | None \<Rightarrow> find_queue_of thread qs)"

definition find_squeue_by_thread :: "u64 \<Rightarrow> 'a sline_scheme \<Rightarrow> squeue option res" where
  "find_squeue_by_thread thread w = find_queue_of thread (squeues w)"

section \<open>Sleeping and waking\<close>

definition put_nodes :: "int \<Rightarrow> snode list \<Rightarrow> 'a sline_scheme \<Rightarrow> 'a sline_scheme" where
  "put_nodes i ns w = w\<lparr>squeues := map (\<lambda>q. if sq_id q = i then q\<lparr>sq_nodes := ns\<rparr> else q) (squeues w)\<rparr>"

definition set_status :: "u64 \<Rightarrow> int \<Rightarrow> 'a sline_scheme \<Rightarrow> 'a sline_scheme" where
  "set_status t s w = w\<lparr>th_status := (th_status w)(t := s)\<rparr>"

definition do_sleep :: "u64 \<Rightarrow> int \<Rightarrow> u64 \<Rightarrow> timespec option \<Rightarrow> 'a sline_scheme \<Rightarrow> 'a sline_scheme res" where
  "do_sleep thread condition rm duration w =
     (let (queue, w1) = (case find_squeue condition w of Some q \<Rightarrow> (q, w) | None \<Rightarrow> create_squeue condition w)
      in res_bind (find_snode queue thread) (\<lambda>r.
           let w2 = (case r of Some _ \<Rightarrow> w1
                     | None \<Rightarrow> put_nodes condition (create_snode thread None 0 # sq_nodes queue) w1)
           in Inr (set_status thread THREAD_STATUS_INTERRUPTIBLE_SLEEP w2)))"

primrec wake_nodes :: "snode list \<Rightarrow> 'a sline_scheme \<Rightarrow> 'a sline_scheme res" where
  "wake_nodes [] w = Inr w"
| "wake_nodes (n # ns) w =
     (if freed n then use_after_free else wake_nodes ns (set_status (sn_thread n) THREAD_STATUS_READY w))"

definition wakeup :: "int \<Rightarrow> 'a sline_scheme \<Rightarrow> 'a sline_scheme res" where
  "wakeup condition w =
     (case find_squeue condition w of None \<Rightarrow> Inr w
      | Some q \<Rightarrow> res_bind (wake_nodes (sq_nodes q) w) (destroy_squeue (Some q)))"

definition wakeup_alarm :: "int \<Rightarrow> u64 \<Rightarrow> int \<Rightarrow> 'a sline_scheme \<Rightarrow> 'a sline_scheme res" where
  "wakeup_alarm condition ticks rearmt w = res_bind (wakeup condition w) (\<lambda>w1. Inr (remove_alarm condition w1))"

definition is_sleeping :: "u64 \<Rightarrow> 'a sline_scheme \<Rightarrow> u64 res" where
  "is_sleeping thread w =
     res_bind (find_squeue_by_thread thread w) (\<lambda>q. case q of None \<Rightarrow> Inr 0
       | Some q \<Rightarrow> res_bind (find_snode q thread) (\<lambda>n. case n of None \<Rightarrow> Inr 0 | Some n \<Rightarrow> Inr (sn_rem n)))"

definition sleep_current :: "u64 \<Rightarrow> int \<Rightarrow> 'a sline_scheme \<Rightarrow> 'a sline_scheme res" where
  "sleep_current current_thread condition w =
     (if current_thread = 0 then Inl (Panic ''Current thread is NULL'')
      else res_bind (is_sleeping current_thread w) (\<lambda>rm.
        if rm \<noteq> 0 then Inr w else do_sleep current_thread condition 0 None w))"

definition sleep :: "u64 \<Rightarrow> int \<Rightarrow> 'a sline_scheme \<Rightarrow> 'a sline_scheme res" where
  "sleep thread condition w =
     (if thread = 0 then Inl (Panic ''Thread is NULL'')
      else res_bind (is_sleeping thread w) (\<lambda>rm. if rm \<noteq> 0 then Inr w else do_sleep thread condition 0 None w))"

primrec free_node :: "u64 \<Rightarrow> snode list \<Rightarrow> snode list" where
  "free_node thread [] = []"
| "free_node thread (n # ns) = (if sn_thread n = thread then n\<lparr>freed := True\<rparr> # ns else n # free_node thread ns)"

text \<open>The node is freed but not unlinked, so the head of its queue is never null afterwards.\<close>

definition force_wakeup_task :: "u64 \<Rightarrow> 'a sline_scheme \<Rightarrow> 'a sline_scheme res" where
  "force_wakeup_task thread w =
     res_bind (find_squeue_by_thread thread w) (\<lambda>q. case q of None \<Rightarrow> Inr w
       | Some q \<Rightarrow>
           res_bind (ticks_to_ns w (word_of_int (get_remaining_ticks (sq_id q) w))) (\<lambda>remaining_ns.
             if remaining_ns = 0 then Inr w
             else res_bind (find_snode q thread) (\<lambda>n. case n of None \<Rightarrow> Inl (Panic ''No snode found'')
               | Some node \<Rightarrow>
                   let w1 = (if sn_rem node \<noteq> 0 then w\<lparr>rem_spec := (rem_spec w)(sn_rem node :=
                        \<lparr>tv_sec = remaining_ns div 1000000000, tv_nsec = remaining_ns mod 1000000000\<rparr>)\<rparr> else w);
                       w2 = put_nodes (sq_id q) (free_node thread (sq_nodes q)) (set_status thread THREAD_STATUS_READY w1)
                   in res_bind (destroy_snode node) (\<lambda>_.
                        if free_node thread (sq_nodes q) = []
                        then destroy_squeue (Some q) (remove_alarm (sq_id q) w2) else Inr w2))))"

text \<open>The C function ends without a return statement after the sleep; its result is the state.\<close>

definition nanosleep :: "u64 \<Rightarrow> timespec \<Rightarrow> u64 \<Rightarrow> 'a sline_scheme \<Rightarrow> 'a sline_scheme res" where
  "nanosleep thread duration rm w =
     res_bind (ns_to_ticks w (tv_sec duration * 1000000000 + tv_nsec duration)) (\<lambda>ticks.
       if ticks = 0 then Inr w
       else res_bind (add_alarm (sint ticks) 0 (Some Wakeup_alarm) w) (\<lambda>(condition, w1).
         if condition < 0 then Inl (Panic ''Failed to add alarm'') else do_sleep thread condition rm (Some duration) w1))"

definition run_callback :: "alarm_callback \<Rightarrow> int \<Rightarrow> u64 \<Rightarrow> int \<Rightarrow> 'a sline_scheme \<Rightarrow> 'a sline_scheme res" where
  "run_callback cb = (case cb of Wakeup_alarm \<Rightarrow> wakeup_alarm)"

section \<open>Who waits for what\<close>

definition waiting :: "'a sline_scheme \<Rightarrow> int \<Rightarrow> u64 set" where
  "waiting w c = (case find_squeue c w of None \<Rightarrow> {} | Some q \<Rightarrow> sn_thread ` set (sq_nodes q))"

definition sline_ok :: "'a sline_scheme \<Rightarrow> bool" where
  "sline_ok w \<longleftrightarrow> distinct (map sq_id (squeues w)) \<and>
     (\<forall>q \<in> set (squeues w). \<forall>n \<in> set (sq_nodes q). \<not> freed n \<and> sn_rem n = 0)"

lemma find_squeue_SomeD: "find_squeue c w = Some q \<Longrightarrow> q \<in> set (squeues w) \<and> sq_id q = c"
  by (auto simp: find_squeue_def find_Some_iff)

lemma find_node_ok:
  "\<forall>n \<in> set ns. \<not> freed n \<Longrightarrow> find_node t ns = Inr (List.find (\<lambda>n. sn_thread n = t) ns)"
  by (induction ns) auto

lemma find_queue_ok:
  assumes "\<forall>q \<in> set qs. \<forall>n \<in> set (sq_nodes q). \<not> freed n"
  shows "find_queue_of t qs = Inr (List.find (\<lambda>q. \<exists>n \<in> set (sq_nodes q). sn_thread n = t) qs)"
  using assms
proof (induction qs)
  case (Cons q qs)
  then have "find_node t (sq_nodes q) = Inr (List.find (\<lambda>n. sn_thread n = t) (sq_nodes q))" by (simp add: find_node_ok)
  with Cons show ?case by (auto simp: res_bind_simps find_None_iff find_Some_iff split: option.split)
qed simp

lemma is_sleeping_null: "sline_ok w \<Longrightarrow> is_sleeping t w = Inr 0"
proof -
  assume ok: "sline_ok w"
  then have f: "find_squeue_by_thread t w = Inr (List.find (\<lambda>q. \<exists>n \<in> set (sq_nodes q). sn_thread n = t) (squeues w))"
    by (simp add: find_squeue_by_thread_def find_queue_ok sline_ok_def)
  show ?thesis
  proof (cases "List.find (\<lambda>q. \<exists>n \<in> set (sq_nodes q). sn_thread n = t) (squeues w)")
    case None
    with f show ?thesis by (simp add: is_sleeping_def res_bind_simps)
  next
    case (Some q)
    then have "q \<in> set (squeues w)" by (auto simp: find_Some_iff)
    then have n: "\<forall>n \<in> set (sq_nodes q). \<not> freed n \<and> sn_rem n = 0" using ok by (auto simp: sline_ok_def)
    then have "find_snode q t = Inr (List.find (\<lambda>n. sn_thread n = t) (sq_nodes q))" by (simp add: find_snode_def find_node_ok)
    with f Some n show ?thesis by (auto simp: is_sleeping_def res_bind_simps find_Some_iff split: option.split)
  qed
qed

lemma find_put_nodes:
  "find_squeue c (put_nodes c' ns w) =
     (if c = c' then map_option (\<lambda>q. q\<lparr>sq_nodes := ns\<rparr>) (find_squeue c w) else find_squeue c w)"
proof -
  have "List.find (\<lambda>q. sq_id q = c) (map (\<lambda>q. if sq_id q = c' then q\<lparr>sq_nodes := ns\<rparr> else q) qs) =
     (if c = c' then map_option (\<lambda>q. q\<lparr>sq_nodes := ns\<rparr>) (List.find (\<lambda>q. sq_id q = c) qs) else List.find (\<lambda>q. sq_id q = c) qs)" for qs
    by (induction qs) auto
  from this [of "squeues w"] show ?thesis by (auto simp: find_squeue_def put_nodes_def)
qed

lemma find_create:
  "find_squeue c (snd (create_squeue c' w)) =
     (case find_squeue c w of Some q \<Rightarrow> Some q | None \<Rightarrow> if c = c' then Some \<lparr>sq_nodes = [], sq_id = c'\<rparr> else None)"
proof -
  have "List.find P (qs @ [q]) = (case List.find P qs of Some q \<Rightarrow> Some q | None \<Rightarrow> if P q then Some q else None)" for P and q :: squeue and qs
    by (induction qs) auto
  then show ?thesis by (auto simp: find_squeue_def create_squeue_def Let_def split: option.split)
qed

lemma set_status_simps [simp]:
  "find_squeue c (set_status t st w) = find_squeue c w"
  "squeues (set_status t st w) = squeues w" "alarms (set_status t st w) = alarms w"
  "th_status (set_status t st w) = (th_status w)(t := st)" "waiting (set_status t st w) = waiting w"
  "sline_ok (set_status t st w) = sline_ok w"
  by (simp_all add: set_status_def find_squeue_def waiting_def sline_ok_def fun_eq_iff)

lemma put_nodes_simps [simp]:
  "alarms (put_nodes c ns w) = alarms w" "th_status (put_nodes c ns w) = th_status w"
  "map sq_id (squeues (put_nodes c ns w)) = map sq_id (squeues w)"
  by (simp_all add: put_nodes_def)

lemma put_nodes_ok:
  assumes "sline_ok w" and "\<forall>n \<in> set ns. \<not> freed n \<and> sn_rem n = 0"
  shows "sline_ok (put_nodes c ns w)"
  using assms put_nodes_simps(3) [of c ns w] by (auto simp: sline_ok_def) (auto simp: put_nodes_def split: if_splits)

lemma do_sleep_waits:
  assumes "sline_ok w"
  obtains w' where "do_sleep t c rm d w = Inr w'" and "sline_ok w'" and "waiting w' = (waiting w)(c := insert t (waiting w c))"
    and "th_status w' = (th_status w)(t := THREAD_STATUS_INTERRUPTIBLE_SLEEP)" and "alarms w' = alarms w"
proof -
  obtain q w1 where w1: "(case find_squeue c w of Some q \<Rightarrow> (q, w) | None \<Rightarrow> create_squeue c w) = (q, w1)" by (meson surj_pair)
  have q: "find_squeue c w1 = Some q" using w1 find_create [of c c w]
    by (auto simp: create_squeue_def Let_def split: option.splits)
  have ok1: "sline_ok w1" using w1 assms
    by (auto simp: sline_ok_def create_squeue_def Let_def find_squeue_def find_None_iff split: option.splits)
  have wait1: "waiting w1 = waiting w" using w1 find_create [of _ c w]
    by (auto simp: waiting_def fun_eq_iff split: option.splits if_splits)
  have frame1: "th_status w1 = th_status w" "alarms w1 = alarms w" using w1
    by (auto simp: create_squeue_def Let_def split: option.splits)
  have nodes: "\<forall>n \<in> set (sq_nodes q). \<not> freed n \<and> sn_rem n = 0"
    using ok1 find_squeue_SomeD [OF q] by (auto simp: sline_ok_def)
  let ?w2 = "if t \<in> waiting w c then w1 else put_nodes c (create_snode t None 0 # sq_nodes q) w1"
  have mem: "t \<in> waiting w c \<longleftrightarrow> (\<exists>n \<in> set (sq_nodes q). sn_thread n = t)"
    by (auto simp: wait1 [symmetric] waiting_def q)
  have "find_snode q t = Inr (List.find (\<lambda>n. sn_thread n = t) (sq_nodes q))" using nodes by (simp add: find_snode_def find_node_ok)
  moreover have "List.find (\<lambda>n. sn_thread n = t) (sq_nodes q) = None \<longleftrightarrow> t \<notin> waiting w c" by (auto simp: mem find_None_iff)
  ultimately have "do_sleep t c rm d w = Inr (set_status t THREAD_STATUS_INTERRUPTIBLE_SLEEP ?w2)"
    by (auto simp: do_sleep_def w1 res_bind_simps Let_def split: option.split)
  moreover have "waiting ?w2 = (waiting w)(c := insert t (waiting w c))"
    using q by (auto simp: fun_eq_iff wait1 [symmetric]) (auto simp: waiting_def find_put_nodes create_snode_def)
  moreover have "sline_ok ?w2"
    using ok1 nodes by (simp add: put_nodes_ok create_snode_def)
  moreover have "th_status ?w2 = th_status w" "alarms ?w2 = alarms w" using frame1 by simp_all
  ultimately show thesis using that by simp
qed

lemma wake_nodes_ok:
  assumes "\<forall>n \<in> set ns. \<not> freed n"
  shows "wake_nodes ns w = Inr (w\<lparr>th_status := \<lambda>t. if t \<in> sn_thread ` set ns then THREAD_STATUS_READY else th_status w t\<rparr>)"
  using assms
proof (induction ns arbitrary: w)
  case (Cons n ns)
  have "(\<lambda>t. if t \<in> sn_thread ` set ns then THREAD_STATUS_READY else ((th_status w)(sn_thread n := THREAD_STATUS_READY)) t) =
    (\<lambda>t. if t \<in> sn_thread ` set (n # ns) then THREAD_STATUS_READY else th_status w t)" by (auto simp: fun_eq_iff)
  with Cons show ?case by (simp add: set_status_def cong: if_cong)
qed simp

lemma destroy_nodes_ok: "\<forall>n \<in> set ns. \<not> freed n \<Longrightarrow> destroy_nodes ns = Inr ()"
  by (induction ns) (simp_all add: destroy_snode_def res_bind_simps)

lemma drop_queue_distinct:
  assumes "distinct (map sq_id qs)"
  shows "drop_queue c qs = filter (\<lambda>q. sq_id q \<noteq> c) qs"
  using assms
proof (induction qs)
  case (Cons q qs)
  then have "filter (\<lambda>p. sq_id p \<noteq> sq_id q) qs = qs" by (auto simp: image_iff intro!: filter_True)
  with Cons show ?case by auto
qed simp

lemma find_filter:
  "List.find (\<lambda>q. sq_id q = c') (filter (\<lambda>q. sq_id q \<noteq> c) qs) = (if c' = c then None else List.find (\<lambda>q. sq_id q = c') qs)"
  by (induction qs) (auto simp: find_None_iff)

lemma wakeup_ok:
  assumes "sline_ok w"
  obtains w' where "wakeup c w = Inr w'" and "sline_ok w'" and "waiting w' = (waiting w)(c := {})"
    and "th_status w' = (\<lambda>t. if t \<in> waiting w c then THREAD_STATUS_READY else th_status w t)" and "alarms w' = alarms w"
proof (cases "find_squeue c w")
  case None
  then show thesis using assms that [of w] by (simp add: wakeup_def waiting_def fun_upd_idem)
next
  case (Some q)
  note q = find_squeue_SomeD [OF Some]
  have ns: "\<forall>n \<in> set (sq_nodes q). \<not> freed n" using assms q by (auto simp: sline_ok_def)
  let ?w1 = "w\<lparr>th_status := \<lambda>t. if t \<in> sn_thread ` set (sq_nodes q) then THREAD_STATUS_READY else th_status w t\<rparr>"
  let ?w2 = "?w1\<lparr>squeues := filter (\<lambda>q. sq_id q \<noteq> c) (squeues w)\<rparr>"
  have "find_squeue c ?w1 = Some q" using Some by (simp add: find_squeue_def)
  then have "wakeup c w = Inr ?w2"
    using Some q ns assms
    by (simp add: wakeup_def wake_nodes_ok destroy_squeue_def destroy_nodes_ok fuckup_detector_def res_bind_simps
        drop_queue_distinct sline_ok_def Let_def image_iff)
  moreover have "sline_ok ?w2" using assms by (auto simp: sline_ok_def distinct_map_filter)
  moreover have "waiting ?w2 = (waiting w)(c := {})"
    by (auto simp: fun_eq_iff waiting_def find_squeue_def find_filter)
  ultimately show thesis using that [of ?w2] by (simp add: waiting_def Some)
qed

section \<open>Wait sets\<close>

datatype sline_op = Sleep u64 int | Wake int

fun sline_do :: "sline_op \<Rightarrow> 'a sline_scheme \<Rightarrow> 'a sline_scheme res" where
  "sline_do (Sleep t c) w = sleep t c w"
| "sline_do (Wake c) w = wakeup c w"

primrec sline_run :: "sline_op list \<Rightarrow> 'a sline_scheme \<Rightarrow> 'a sline_scheme res" where
  "sline_run [] w = Inr w"
| "sline_run (x # xs) w = res_bind (sline_do x w) (sline_run xs)"

type_synonym wait_sets = "(int \<Rightarrow> u64 set) \<times> (u64 \<Rightarrow> int)"

fun wait_do :: "sline_op \<Rightarrow> wait_sets \<Rightarrow> wait_sets" where
  "wait_do (Sleep t c) (W, st) = (W(c := insert t (W c)), st(t := THREAD_STATUS_INTERRUPTIBLE_SLEEP))"
| "wait_do (Wake c) (W, st) = (W(c := {}), \<lambda>t. if t \<in> W c then THREAD_STATUS_READY else st t)"

lemma sline_do_refines:
  assumes "sline_ok w" and "\<forall>c. x \<noteq> Sleep 0 c"
  shows "\<exists>w'. sline_do x w = Inr w' \<and> sline_ok w' \<and> (waiting w', th_status w') = wait_do x (waiting w, th_status w)"
proof (cases x)
  case (Sleep t c)
  from do_sleep_waits [OF assms(1), of t c 0 None] show ?thesis
    using assms Sleep by (fastforce simp: sleep_def is_sleeping_null res_bind_simps)
next
  case (Wake c)
  from wakeup_ok [OF assms(1), of c] show ?thesis using Wake by fastforce
qed

section \<open>Alarms that wake a queue\<close>

lemma wakeup_alarms: "wakeup c w = Inr w' \<Longrightarrow> alarms w' = alarms w"
proof -
  have "wake_nodes ns w = Inr w' \<Longrightarrow> alarms w' = alarms w" for ns and w w' :: "'a sline_scheme"
    by (induction ns arbitrary: w) (auto simp: use_after_free_def split: if_splits)
  then show "wakeup c w = Inr w' \<Longrightarrow> alarms w' = alarms w"
    by (fastforce simp: wakeup_def destroy_squeue_def res_bind_Inr_iff Let_def split: option.splits)
qed

interpretation wk: one_shot_callback run_callback
proof
  fix w w' :: "'a sline_scheme" and cb i t r
  assume d: "distinct (map alarm_id (alarms w))" and run: "run_callback cb i t r w = Inr w'"
  from run obtain w1 where "wakeup i w = Inr w1" "w' = remove_alarm i w1"
    by (cases cb) (auto simp: run_callback_def wakeup_alarm_def res_bind_Inr_iff)
  then show "i \<notin> alarm_ids (alarms w')"
    using d by (simp add: remove_alarm_def drop_alarm_ids wakeup_alarms)
qed

section \<open>Properties\<close>


definition demo_sline :: sline where
  "demo_sline = \<lparr>boot_epoch = 0, hertz = 100, timer_ticks = 4, timer_subticks = 0, preemption_ticks = 0,
     preemption_enabled = 0, alarms = [\<lparr>alarm_id = 0, remaining_ticks = 5, rearm = 0, rearm_ticks = 0, callback = Some Wakeup_alarm\<rparr>],
     squeues = [], th_status = \<lambda>_. THREAD_STATUS_RUNNING, rem_spec = \<lambda>_. \<lparr>tv_sec = 0, tv_nsec = 0\<rparr>\<rparr>"


text \<open>A tick returns normally only when no alarm is due: then every alarm comes five ticks closer on
  every fifth tick and nothing else changes.  When an alarm is due its callback wakes the queue and frees the alarm, and the
  timer reads the freed alarm.\<close>

theorem tick_reads_freed_alarm:
  fixes w :: "'a sline_scheme"
  assumes "alarms_ok w"
  shows "if (timer_ticks w + 1) mod 5 = 0 \<and> list_ex due (alarms w) then \<exists>e. tick run_callback w = Some (Inl e)
     else tick run_callback w = Some (Inr (w\<lparr>timer_ticks := timer_ticks w + 1,
       alarms := if (timer_ticks w + 1) mod 5 = 0 then map sooner (alarms w) else alarms w\<rparr>))"
  using assms by (rule wk.tick_outcome)

theorem tick_reads_freed_alarm_witness: "\<exists>e. tick run_callback demo_sline = Some (Inl e)"
  using tick_reads_freed_alarm [of demo_sline] by (simp add: demo_sline_def alarms_ok_def due_def)

text \<open>A thread in \<open>nanosleep\<close> can be woken by the exit of any child: with one alarm already running,
  its alarm gets the number that \<open>waitpid\<close> uses as its condition, and a wake-up of that condition makes the
  thread ready while its alarm still has all its ticks to go.\<close>

theorem nanosleep_woken_by_waitpid:
  assumes "sline_ok w" and "alarms_ok w" and "alarm_ids (alarms w) = {0}"
    and "ns_to_ticks w (tv_sec d * 1000000000 + tv_nsec d) = Inr ticks" and "sint ticks \<ge> ALARM_MIN_TICKS"
  shows "\<exists>w1 w2. nanosleep t d rm w = Inr w1 \<and> th_status w1 t = THREAD_STATUS_INTERRUPTIBLE_SLEEP \<and>
     wakeup SLEEP_WAITPID w1 = Inr w2 \<and> th_status w2 t = THREAD_STATUS_READY \<and> get_remaining_ticks 1 w2 = sint ticks"
proof -
  obtain k where k: "k \<ge> 0" "find_free_alarm_id w = Some k" "k \<notin> {0}" "{0..<k} \<subseteq> {0}"
    using find_free_alarm_id_fresh [of w] assms(3) by auto
  have "k = 1"
  proof (rule ccontr)
    assume "k \<noteq> 1"
    with k have "1 \<in> {0..<k}" by auto
    with subsetD [OF k(4)] show False by fastforce
  qed
  let ?w = "w\<lparr>alarms := \<lparr>alarm_id = 1, remaining_ticks = sint ticks, rearm = word_of_int 0, rearm_ticks = 0, callback = Some Wakeup_alarm\<rparr> # alarms w\<rparr>"
  have add: "add_alarm (sint ticks) 0 (Some Wakeup_alarm) w = Inr (1, ?w)" using assms(5) k \<open>k = 1\<close> by (simp add: add_alarm_def)
  have ok: "sline_ok ?w" using assms(1) by (simp add: sline_ok_def)
  have nz: "ticks \<noteq> 0" using assms(5) by (auto simp: ALARM_MIN_TICKS_def)
  from do_sleep_waits [OF ok, of t 1 rm "Some d"] obtain w1 where w1: "do_sleep t 1 rm (Some d) ?w = Inr w1" "sline_ok w1"
    "waiting w1 = (waiting ?w)(1 := insert t (waiting ?w 1))" "th_status w1 = (th_status ?w)(t := THREAD_STATUS_INTERRUPTIBLE_SLEEP)"
    "alarms w1 = alarms ?w" by blast
  from wakeup_ok [OF w1(2), of 1] obtain w2 where w2: "wakeup 1 w1 = Inr w2"
    "th_status w2 = (\<lambda>t. if t \<in> waiting w1 1 then THREAD_STATUS_READY else th_status w1 t)" "alarms w2 = alarms w1" by blast
  have "nanosleep t d rm w = Inr w1" using w1(1) by (simp add: nanosleep_def assms(4) nz add res_bind_simps)
  with w1 w2 show ?thesis by (auto simp: SLEEP_WAITPID_def get_remaining_ticks_def find_alarm_def)
qed

theorem nanosleep_woken_by_waitpid_witness:
  "\<exists>w1 w2. nanosleep 0x3000 \<lparr>tv_sec = 2, tv_nsec = 0\<rparr> 0 demo_sline = Inr w1 \<and>
     wakeup SLEEP_WAITPID w1 = Inr w2 \<and> th_status w2 0x3000 = THREAD_STATUS_READY \<and> get_remaining_ticks 1 w2 = 200"
proof -
  have "ns_to_ticks demo_sline (tv_sec \<lparr>tv_sec = 2, tv_nsec = 0\<rparr> * 1000000000 + tv_nsec \<lparr>tv_sec = 2, tv_nsec = 0\<rparr>) = Inr 200"
    by (simp add: ns_to_ticks_def ms_to_ticks_def demo_sline_def)
  from nanosleep_woken_by_waitpid [OF _ _ _ this, of "0x3000" 0] show ?thesis
    by (auto simp: demo_sline_def sline_ok_def alarms_ok_def alarm_ids_def ALARM_MIN_TICKS_def)
qed

end
