(* ===== verification/Signal.thy ===== *)
theory Signal
  imports Omen_Prelude
begin

text \<open>
  Signal bookkeeping of a process, modules/managers/cpu/signal.c.  The arrays of \<open>NSIG\<close> queues and
  handlers are functions of the index; an access outside the array is a fault.  A queue is the list
  of its signal numbers, oldest first; allocation of a queue node is assumed to succeed.  Null
  pointers are \<open>None\<close>.
\<close>

definition NSIG :: int where "NSIG = 65"

definition SIGKILL :: int where "SIGKILL = 9"

definition SIGSTOP :: int where "SIGSTOP = 19"

definition SIG_BLOCK :: int where "SIG_BLOCK = 0"

definition SIG_UNBLOCK :: int where "SIG_UNBLOCK = 1"

definition SIG_SETMASK :: int where "SIG_SETMASK = 2"

record sigaction =
  sa_handler :: u64
  sa_sigaction :: u64
  sa_mask :: u64
  sa_flags :: int
  sa_restorer :: u64

record stack =
  stack_base :: u64
  stack_flags :: int
  stack_top :: u64
  stack_size :: u64
  guard_size :: u64

type_synonym sigqueues = "int \<Rightarrow> int list"

definition in_array :: "int \<Rightarrow> 'a res \<Rightarrow> 'a res" where
  "in_array i r = (if 0 \<le> i \<and> i < NSIG then r else Inl (Panic ''array index out of bounds''))"

definition sigaction_call :: "(int \<Rightarrow> sigaction) option \<Rightarrow> int \<Rightarrow> sigaction option \<Rightarrow> bool \<Rightarrow>
    (int \<times> (int \<Rightarrow> sigaction) \<times> sigaction option) res" where
  "sigaction_call shandlers signum act want_old =
     (case shandlers of None \<Rightarrow> Inl (Panic ''Invalid sigaction structs'')
      | Some h \<Rightarrow>
          if signum > NSIG \<or> signum < 0 then Inl (Panic ''Signal out of bounds'')
          else if signum = SIGKILL then Inl (Panic ''SIGKILL cannot be caught'')
          else if signum = SIGSTOP then Inl (Panic ''SIGSTOP cannot be caught'')
          else case act of None \<Rightarrow> Inl (Panic ''No such act'')
            | Some a \<Rightarrow> in_array signum (Inr (0, h(signum := a), if want_old then Some (h signum) else None)))"

text \<open>\<open>set\<close> is the memory behind the pointer in units of \<open>sigset_t\<close>: the loop indexes it with \<open>i / 8\<close>.\<close>

primrec sigpending_loop :: "nat \<Rightarrow> sigqueues \<Rightarrow> (nat \<Rightarrow> u64) \<Rightarrow> nat \<Rightarrow> u64" where
  "sigpending_loop 0 q st = st"
| "sigpending_loop (Suc i) q st =
     (let st' = sigpending_loop i q st
      in if q (int i) \<noteq> [] then st'(i div 8 := st' (i div 8) OR push_bit (i mod 8) 1) else st')"

definition sigpending :: "sigqueues option \<Rightarrow> (nat \<Rightarrow> u64) option \<Rightarrow> (int \<times> (nat \<Rightarrow> u64)) res" where
  "sigpending sq st =
     (case sq of None \<Rightarrow> Inl (Panic ''No such squeue'')
      | Some q \<Rightarrow> (case st of None \<Rightarrow> Inl (Panic ''No such set'')
          | Some m \<Rightarrow> Inr (0, sigpending_loop (nat NSIG) q m)))"

definition sigprocmask :: "u64 option \<Rightarrow> int \<Rightarrow> u64 option \<Rightarrow> (int \<times> u64 \<times> u64) res" where
  "sigprocmask procmask how st =
     (case procmask of None \<Rightarrow> Inl (Panic ''No such sigprocmask'')
      | Some old \<Rightarrow> (case st of None \<Rightarrow> Inr (0, old, old)
          | Some x \<Rightarrow>
              if how = SIG_BLOCK then Inr (0, old OR x, old)
              else if how = SIG_UNBLOCK then Inr (0, old AND NOT x, old)
              else if how = SIG_SETMASK then Inr (0, x, old)
              else Inl (Panic ''Invalid how value'')))"

definition sigsuspend :: "u64 option \<Rightarrow> u64 option \<Rightarrow> (int \<times> u64) res" where
  "sigsuspend suspend_mask new_mask =
     (case suspend_mask of None \<Rightarrow> Inl (Panic ''No such sigsuspend_mask'')
      | Some _ \<Rightarrow> (case new_mask of None \<Rightarrow> Inl (Panic ''No such mask'') | Some m \<Rightarrow> Inr (0, m)))"

definition kill :: "sigqueues option \<Rightarrow> int \<Rightarrow> (int \<times> sigqueues) res" where
  "kill sq signal =
     (case sq of None \<Rightarrow> Inl (Panic ''No such squeue'')
      | Some q \<Rightarrow>
          if signal > NSIG \<or> signal < 0 then Inl (Panic ''Signal out of bounds'')
          else in_array signal (Inr (0, q(signal := q signal @ [signal]))))"

definition dequeue_signal :: "sigqueues option \<Rightarrow> int \<Rightarrow> (int \<times> int option \<times> sigqueues) res" where
  "dequeue_signal sq signo =
     (case sq of None \<Rightarrow> Inl (Panic ''No such squeue'')
      | Some q \<Rightarrow>
          if signo > NSIG \<or> signo < 0 then Inl (Panic ''Signal out of bounds'')
          else in_array signo (case q signo of [] \<Rightarrow> Inr (0, None, q) | s # ss \<Rightarrow> Inr (1, Some s, q(signo := ss))))"

definition sigaltstack :: "stack option \<Rightarrow> stack option \<Rightarrow> (int \<times> stack \<times> stack) res" where
  "sigaltstack stk ss =
     (case stk of None \<Rightarrow> Inl (Panic ''No such dest stack'')
      | Some old \<Rightarrow> (case ss of None \<Rightarrow> Inl (Panic ''No such stack'')
          | Some new \<Rightarrow> Inr (0, old\<lparr>stack_top := stack_top new, stack_base := stack_base new, stack_flags := stack_flags new\<rparr>, old)))"

section \<open>Queues hold their own signals\<close>

definition queue_ok :: "sigqueues \<Rightarrow> bool" where
  "queue_ok q \<longleftrightarrow> (\<forall>i. 0 \<le> i \<and> i < NSIG \<longrightarrow> set (q i) \<subseteq> {i})"

lemma kill_Inr:
  assumes "kill (Some q) s = Inr (r, q')"
  shows "r = 0 \<and> q' = q(s := q s @ [s]) \<and> 0 \<le> s \<and> s < NSIG"
  using assms by (auto simp: kill_def in_array_def split: if_splits)

lemma kill_keeps_ok: "queue_ok q \<Longrightarrow> kill (Some q) s = Inr (r, q') \<Longrightarrow> queue_ok q'"
  by (drule kill_Inr) (auto simp: queue_ok_def)

lemma dequeue_keeps_ok: "queue_ok q \<Longrightarrow> dequeue_signal (Some q) s = Inr (r, x, q') \<Longrightarrow> queue_ok q'"
  by (fastforce simp: dequeue_signal_def in_array_def queue_ok_def subset_iff split: if_splits list.splits)

lemma sigpending_loop_bits:
  assumes "k < 8"
  shows "bit (sigpending_loop n q st w) k \<longleftrightarrow> bit (st w) k \<or> (8 * w + k < n \<and> q (int (8 * w + k)) \<noteq> [])"
proof (induction n)
  case (Suc n)
  have eq: "n div 8 = w \<and> n mod 8 = k \<longleftrightarrow> n = 8 * w + k" using assms by auto
  have b: "bit (x OR push_bit (n mod 8) 1) k \<longleftrightarrow> bit x k \<or> n mod 8 = k" for x :: u64
    using assms by (auto simp: bit_simps bit_1_iff)
  show ?case
  proof (cases "n = 8 * w + k")
    case True
    then have "n div 8 = w" "n mod 8 = k" using eq by simp_all
    with Suc True b show ?thesis by (auto simp: Let_def)
  next
    case False
    then have "\<not> (n div 8 = w \<and> n mod 8 = k)" using eq by simp
    with Suc False b show ?thesis by (auto simp: Let_def less_Suc_eq)
  qed
qed simp

primrec kill_times :: "nat \<Rightarrow> int \<Rightarrow> sigqueues \<Rightarrow> sigqueues res" where
  "kill_times 0 s q = Inr q"
| "kill_times (Suc n) s q = res_bind (kill (Some q) s) (\<lambda>(_, q1). kill_times n s q1)"

primrec dequeue_times :: "nat \<Rightarrow> int \<Rightarrow> sigqueues \<Rightarrow> (int option list \<times> sigqueues) res" where
  "dequeue_times 0 s q = Inr ([], q)"
| "dequeue_times (Suc n) s q =
     res_bind (dequeue_signal (Some q) s) (\<lambda>(_, x, q1). res_bind (dequeue_times n s q1) (\<lambda>(xs, q2). Inr (x # xs, q2)))"

lemma kill_in_range: "0 \<le> s \<Longrightarrow> s < NSIG \<Longrightarrow> kill (Some q) s = Inr (0, q(s := q s @ [s]))"
  by (simp add: kill_def in_array_def)

lemma kill_times_appends: "0 \<le> s \<Longrightarrow> s < NSIG \<Longrightarrow> kill_times n s q = Inr (q(s := q s @ replicate n s))"
  by (induction n arbitrary: q) (simp_all add: kill_in_range res_bind_simps replicate_append_same [symmetric])

lemma dequeue_times_takes:
  assumes "0 \<le> s" and "s < NSIG"
  shows "dequeue_times (length xs) s (q(s := xs @ ys)) = Inr (map Some xs, q(s := ys))"
  using assms by (induction xs) (simp_all add: dequeue_signal_def in_array_def res_bind_simps)

section \<open>Properties\<close>



text \<open>\<open>sigpending\<close> scatters its answer: signal \<open>i\<close> is recorded in bit \<open>i mod 8\<close> of the word with
  index \<open>i div 8\<close>, so that the caller's single word tells of the first eight signals only and words up to the
  ninth may be overwritten.\<close>

theorem sigpending_scatters:
  assumes "sigpending (Some q) (Some st) = Inr (r, st')" and "k < 8"
  shows "bit (st' w) k \<longleftrightarrow> bit (st w) k \<or> (8 * w + k < 65 \<and> q (int (8 * w + k)) \<noteq> [])"
  using assms sigpending_loop_bits [OF assms(2), of 65 q st w] by (simp add: sigpending_def NSIG_def)

theorem sigpending_scatters_witness:
  "\<exists>st'. sigpending (Some ((\<lambda>_. [])(15 := [15]))) (Some (\<lambda>_. 0)) = Inr (0, st') \<and> bit (st' 1) 7 \<and> \<not> bit (st' 0) 7"
proof -
  obtain st' where st': "sigpending (Some ((\<lambda>_. [])(15 := [15]))) (Some (\<lambda>_. 0)) = Inr (0, st')"
    by (simp add: sigpending_def)
  from sigpending_scatters [OF this, of 7 1] sigpending_scatters [OF this, of 7 0] st' show ?thesis by simp
qed

end
