(* ===== verification/Process.thy ===== *)
theory Process
  imports Sline Signal
begin

text \<open>
  The process table, waiting, signals and the scheduler, modules/managers/cpu/process.c.  A process is designated by its slot
  in \<open>process_list\<close>, a thread by its slot and its index; the sleep queues know a thread by its address, and
  its status is kept there.  The calls that give memory back to other modules are recorded in \<open>released\<close>, in
  their order.  \<open>waitpid\<close> yields inside a loop and is split there: \<open>waitpid_begin\<close> runs up to the first yield and
  \<open>waitpid_resume\<close> from the point where the thread runs again.  An access outside an array, a null
  pointer and a shift by more than the width are faults.
\<close>

definition MAX_PROCESSES :: nat where "MAX_PROCESSES = 256"

definition SIGCONT :: int where "SIGCONT = 18"

record context_t =
  ctx_self :: u64
  ctx_fxsave :: u64
  ctx_cpu :: u64
  ctx_info :: u64

record thread =
  user_context :: "context_t option"
  kernel_context :: "context_t option"
  signal_context :: "context_t option"
  ustack :: stack
  kstack :: stack
  altstack :: stack
  th_sigprocmask :: u64
  sigsuspend_mask :: u64
  unsuspend_signal :: int
  thread_id :: int
  waiting :: int
  waitpid_status_address :: u64
  waitpid_status :: int
  waitpid_pid :: int

record process =
  pid :: int
  ppid :: int
  parent :: "nat option"
  vmm :: u64
  vdso :: u64
  threads :: "thread list"
  thread_count :: nat
  current_thread :: nat
  nice :: int
  current_nice :: int
  exit_code :: int
  global_status :: int
  last_scheduled :: u64
  signal_queue :: sigqueues
  signal_handlers :: "int \<Rightarrow> sigaction"
  open_files :: "int list"
  open_files_count :: int

datatype release = Vdso_free u64 | Stackfree u64 stack | Kstackfree u64 stack | Kfree u64 | Remove_all_vmareas nat

record kernel = sline +
  process_list :: "process list"
  current_process :: "nat option"
  process_count :: int
  postpone_task_switches_counter :: int
  task_switches_postponed_flag :: int
  IRQ_disable_counter :: int
  interrupts_on :: bool
  process_base :: u64
  released :: "release list"

section \<open>Slots and threads\<close>

definition proc :: "kernel \<Rightarrow> nat \<Rightarrow> process" where "proc w i = process_list w ! i"

definition upd_proc :: "nat \<Rightarrow> (process \<Rightarrow> process) \<Rightarrow> kernel \<Rightarrow> kernel" where
  "upd_proc i f w = w\<lparr>process_list := (process_list w)[i := f (proc w i)]\<rparr>"

definition upd_thread :: "nat \<Rightarrow> nat \<Rightarrow> (thread \<Rightarrow> thread) \<Rightarrow> kernel \<Rightarrow> kernel" where
  "upd_thread i k f = upd_proc i (\<lambda>p. p\<lparr>threads := (threads p)[k := f (threads p ! k)]\<rparr>)"

text \<open>\<open>process_t\<close> takes 11128 bytes, its threads begin at byte 24 and take 240 bytes each.\<close>

definition thread_addr :: "kernel \<Rightarrow> nat \<Rightarrow> nat \<Rightarrow> u64" where
  "thread_addr w i k = process_base w + of_nat (11128 * i + 24 + 240 * k)"

definition thread_status :: "kernel \<Rightarrow> nat \<Rightarrow> nat \<Rightarrow> int" where
  "thread_status w i k = th_status w (thread_addr w i k)"

definition set_thread_status :: "nat \<Rightarrow> nat \<Rightarrow> int \<Rightarrow> kernel \<Rightarrow> kernel" where
  "set_thread_status i k s w = set_status (thread_addr w i k) s w"

definition get_free_process_slot :: "kernel \<Rightarrow> nat option" where
  "get_free_process_slot w = List.find (\<lambda>i. pid (proc w i) = -1) [0..<MAX_PROCESSES]"

definition get_process_by_pid :: "int \<Rightarrow> kernel \<Rightarrow> nat option" where
  "get_process_by_pid n w = List.find (\<lambda>i. pid (proc w i) = n) [0..<MAX_PROCESSES]"

definition get_next_pid :: "kernel \<Rightarrow> int" where
  "get_next_pid w =
     (case List.find (\<lambda>npid. \<not> list_ex (\<lambda>i. pid (proc w i) = int npid) [0..<MAX_PROCESSES]) [1..<MAX_PROCESSES] of
        Some npid \<Rightarrow> int npid
      | None \<Rightarrow> -1)"

definition get_current_process :: "kernel \<Rightarrow> nat option" where
  "get_current_process w = current_process w"

definition get_current_thread :: "kernel \<Rightarrow> (nat \<times> nat) res" where
  "get_current_thread w =
     (case get_current_process w of None \<Rightarrow> Inl (Panic ''null pointer'')
      | Some i \<Rightarrow> Inr (i, current_thread (proc w i)))"

section \<open>Open files of a process\<close>

definition get_open_file :: "process \<Rightarrow> int \<Rightarrow> int res" where
  "get_open_file task fd =
     (if fd < 0 then Inr (-1)
      else if fd \<ge> int MAX_OPEN_FILES then Inl (Panic ''array index out of bounds'')
      else Inr (open_files task ! nat fd))"

definition add_open_file :: "process \<Rightarrow> int \<Rightarrow> (int \<times> process) res" where
  "add_open_file task fd =
     (if open_files_count task \<ge> int MAX_OPEN_FILES then Inl (Panic ''Too many open files'')
      else if fd < 0 then Inl (Panic ''Invalid file descriptor'')
      else case List.find (\<lambda>i. open_files task ! i = -1) [0..<MAX_OPEN_FILES] of
             Some i \<Rightarrow> Inr (int i, task\<lparr>open_files := (open_files task)[i := fd], open_files_count := open_files_count task + 1\<rparr>)
           | None \<Rightarrow> Inl (Panic ''No free file descriptor slots available''))"

definition remove_open_file :: "process \<Rightarrow> int \<Rightarrow> process res" where
  "remove_open_file task fd =
     (if fd < 0 then Inl (Panic ''Invalid file descriptor'')
      else if fd \<ge> int MAX_OPEN_FILES then Inl (Panic ''array index out of bounds'')
      else if open_files task ! nat fd = -1 then Inl (Panic ''File descriptor not in use'')
      else if open_files_count task \<le> 0 then Inl (Panic ''No open files to remove'')
      else Inr (task\<lparr>open_files := (open_files task)[nat fd := -1], open_files_count := open_files_count task - 1\<rparr>))"

text \<open>\<open>dup\<close> stands for \<open>vfs_file_dup(pfd, -1)\<close> on the state of the file systems.\<close>

primrec dup_loop :: "(int \<Rightarrow> 's \<Rightarrow> int \<times> 's) \<Rightarrow> int list \<Rightarrow> process \<Rightarrow> 's \<Rightarrow> (process \<times> 's) res" where
  "dup_loop dup [] child s = Inr (child, s)"
| "dup_loop dup (pfd # pfds) child s =
     (if pfd = -1 then dup_loop dup pfds child s
      else case dup pfd s of
             (newfd, s') \<Rightarrow>
               if newfd < 0 then dup_loop dup pfds child s'
               else res_bind (add_open_file child newfd) (\<lambda>(fd, child'). dup_loop dup pfds child' s'))"

definition duplicate_fds :: "(int \<Rightarrow> 's \<Rightarrow> int \<times> 's) \<Rightarrow> process \<Rightarrow> process \<Rightarrow> 's \<Rightarrow> (int \<times> process \<times> 's) res" where
  "duplicate_fds dup par child s =
     (let child0 = child\<lparr>open_files := replicate MAX_OPEN_FILES (-1), open_files_count := 0\<rparr>
      in res_bind (dup_loop dup (open_files par) child0 s) (\<lambda>(child1, s').
           if open_files_count par \<noteq> open_files_count child1 then Inl (Panic ''Open files count mismatch after duplication'')
           else Inr (open_files_count child1, child1, s')))"

section \<open>Wait status and waking the parent\<close>

definition create_waitpid_status :: "int \<Rightarrow> int \<Rightarrow> int" where
  "create_waitpid_status reason data =
     (if reason = WREASON_EXIT then W_EXITCODE data 0
      else if reason = WREASON_STOP then W_STOPCODE data
      else if reason = WREASON_CONT then WCONTINUED_code
      else if reason = WREASON_SIGNAL then W_EXITCODE 0 data
      else 0)"

primrec awake_loop :: "nat list \<Rightarrow> nat \<Rightarrow> int \<Rightarrow> int \<Rightarrow> kernel \<Rightarrow> kernel res" where
  "awake_loop [] j child_pid status w = Inr w"
| "awake_loop (k # ks) j child_pid status w =
     (if waiting (threads (proc w j) ! k) = 1
      then res_bind (wakeup SLEEP_WAITPID
             (upd_thread j k (\<lambda>t. t\<lparr>waiting := 2, waitpid_status := status, waitpid_pid := child_pid\<rparr>) w))
             (awake_loop ks j child_pid status)
      else awake_loop ks j child_pid status w)"

definition awake_parent :: "nat \<Rightarrow> int \<Rightarrow> kernel \<Rightarrow> kernel res" where
  "awake_parent i status w =
     (case parent (proc w i) of None \<Rightarrow> Inr w
      | Some j \<Rightarrow> awake_loop [0..<thread_count (proc w j)] j (pid (proc w i)) status w)"

section \<open>Choosing a thread\<close>

text \<open>\<open>1 << i\<close> is computed as an \<open>int\<close> and then widened.\<close>

definition sig_bit :: "int \<Rightarrow> u64 res" where
  "sig_bit i = (if i \<ge> 32 then Inl (Panic ''shift count out of range'') else Inr (scast (push_bit (nat i) 1 :: u32)))"

primrec suspend_loop :: "int list \<Rightarrow> sigqueues \<Rightarrow> u64 \<Rightarrow> int option res" where
  "suspend_loop [] q m = Inr None"
| "suspend_loop (i # is) q m =
     (if q i \<noteq> [] then res_bind (sig_bit i) (\<lambda>b. if m AND b \<noteq> 0 then Inr (Some i) else suspend_loop is q m)
      else suspend_loop is q m)"

definition sched_sigsuspend_check :: "sigqueues \<Rightarrow> thread \<Rightarrow> (int \<times> thread) res" where
  "sched_sigsuspend_check q t =
     (if sigsuspend_mask t \<noteq> 0
      then res_bind (suspend_loop [1..NSIG - 1] q (th_sigprocmask t)) (\<lambda>r.
             case r of Some i \<Rightarrow> Inr (i, t)
             | None \<Rightarrow>
                 if q SIGKILL \<noteq> [] then Inr (SIGKILL, t\<lparr>unsuspend_signal := SIGKILL\<rparr>)
                 else if q SIGSTOP \<noteq> [] then Inr (SIGSTOP, t\<lparr>unsuspend_signal := SIGSTOP\<rparr>)
                 else Inr (-1, t))
      else Inr (-1, t))"

definition can_run :: "kernel \<Rightarrow> nat \<Rightarrow> nat \<Rightarrow> bool" where
  "can_run w i k \<longleftrightarrow>
     (thread_status w i k = THREAD_STATUS_READY \<or> thread_status w i k = THREAD_STATUS_RUNNING) \<and>
     waiting (threads (proc w i) ! k) \<noteq> 1"

text \<open>What the body of the loop does with a thread that cannot run: \<open>True\<close> leaves the loop.\<close>

definition examine_thread :: "kernel \<Rightarrow> nat \<Rightarrow> nat \<Rightarrow> (bool \<times> kernel) res" where
  "examine_thread w i k =
     (if thread_status w i k = THREAD_STATUS_INTERRUPTIBLE_SLEEP
      then res_bind (sched_sigsuspend_check (signal_queue (proc w i)) (threads (proc w i) ! k)) (\<lambda>(s, t).
             let w1 = upd_thread i k (\<lambda>_. t) w
             in if s = SIGKILL then Inr (True, set_thread_status i k THREAD_STATUS_ZOMBIE w1)
                else if s = SIGSTOP then Inr (True, set_thread_status i k THREAD_STATUS_UNINTERRUPTIBLE_SLEEP w1)
                else if s > 0
                then Inr (True, upd_thread i k
                       (\<lambda>t. t\<lparr>th_sigprocmask := sigsuspend_mask t, sigsuspend_mask := 0, unsuspend_signal := s\<rparr>)
                       (set_thread_status i k THREAD_STATUS_READY w1))
                else Inr (False, w1))
      else Inr (False, w))"

definition next_index :: "kernel \<Rightarrow> nat \<Rightarrow> nat \<Rightarrow> nat" where
  "next_index w i k = (if k + 1 \<ge> thread_count (proc w i) then 0 else k + 1)"

partial_function (option) thread_loop :: "nat \<Rightarrow> nat \<Rightarrow> kernel \<Rightarrow> (nat option \<times> kernel) res option" where
  "thread_loop i k w =
     (if k \<ge> MAX_THREADS then Some (Inl (Panic ''array index out of bounds''))
      else if can_run w i k then Some (Inr (Some k, w))
      else case examine_thread w i k of
             Inl e \<Rightarrow> Some (Inl e)
           | Inr (stop, w') \<Rightarrow>
               if stop then Some (Inr (Some k, w'))
               else if next_index w' i k = current_thread (proc w' i) then Some (Inr (None, w'))
               else thread_loop i (next_index w' i k) w')"

definition sched_thread :: "nat \<Rightarrow> kernel \<Rightarrow> (bool \<times> kernel) res" where
  "sched_thread i w =
     (case thread_loop i (next_index w i (current_thread (proc w i))) w of
        None \<Rightarrow> Inl Spin
      | Some (Inl e) \<Rightarrow> Inl e
      | Some (Inr (None, w')) \<Rightarrow> Inr (False, w')
      | Some (Inr (Some k, w')) \<Rightarrow>
          Inr (True, set_thread_status i k THREAD_STATUS_RUNNING (upd_proc i (\<lambda>p. p\<lparr>current_thread := k\<rparr>) w')))"

section \<open>Choosing a process\<close>

primrec insert_sorted :: "(nat \<Rightarrow> u64) \<Rightarrow> nat \<Rightarrow> nat list \<Rightarrow> nat list" where
  "insert_sorted ls task [] = [task]"
| "insert_sorted ls task (j # js) = (if ls j < ls task then j # insert_sorted ls task js else task # j # js)"

definition insert_in_prio_queue :: "kernel \<Rightarrow> nat list \<Rightarrow> nat \<Rightarrow> nat list res" where
  "insert_in_prio_queue w queue task =
     (if queue = [] then if process_count w \<le> 0 then Inl (Panic ''array index out of bounds'') else Inr [task]
      else let queue' = insert_sorted (\<lambda>j. last_scheduled (proc w j)) task queue
           in if int (length queue') > process_count w then Inl (Panic ''Process queue overflow'') else Inr queue')"

definition age :: "int \<Rightarrow> int" where
  "age n =
     (let n1 = n - 1; n2 = (if n1 < 0 then 0 else n1)
      in if n2 > int PROCESS_PRIORITIES - 1 then int PROCESS_PRIORITIES - 1 else n2)"

primrec queue_loop :: "nat list \<Rightarrow> (nat \<Rightarrow> nat list) \<Rightarrow> kernel \<Rightarrow> ((nat \<Rightarrow> nat list) \<times> kernel) res" where
  "queue_loop [] q w = Inr (q, w)"
| "queue_loop (i # is) q w =
     (if pid (proc w i) = -1 then queue_loop is q w
      else let w1 = upd_proc i (\<lambda>p. p\<lparr>current_nice := age (current_nice p)\<rparr>) w; level = nat (current_nice (proc w1 i))
           in res_bind (insert_in_prio_queue w1 (q level) i) (\<lambda>ql. queue_loop is (q(level := ql)) w1))"

primrec pick_loop :: "nat list \<Rightarrow> kernel \<Rightarrow> (nat option \<times> kernel) res" where
  "pick_loop [] w = Inr (None, w)"
| "pick_loop (i # is) w = res_bind (sched_thread i w) (\<lambda>(ok, w'). if ok then Inr (Some i, w') else pick_loop is w')"

text \<open>When task switches are postponed the function returns without a value.\<close>

definition sched :: "kernel \<Rightarrow> (nat option \<times> kernel) res" where
  "sched w =
     (if postpone_task_switches_counter w \<noteq> 0 then Inr (None, w\<lparr>task_switches_postponed_flag := 1\<rparr>)
      else res_bind (queue_loop [0..<MAX_PROCESSES] (\<lambda>_. []) w) (\<lambda>(q, w1).
           res_bind (pick_loop (concat (map q [0..<PROCESS_PRIORITIES])) w1) (\<lambda>(r, w2).
             case r of None \<Rightarrow> Inl (Panic ''No process to schedule'')
             | Some i \<Rightarrow>
                 Inr (Some i, (upd_proc i (\<lambda>p. p\<lparr>last_scheduled := get_ticks_since_boot w2, current_nice := nice p\<rparr>) w2)
                   \<lparr>current_process := Some i\<rparr>))))"

definition lock_scheduler :: "kernel \<Rightarrow> kernel" where
  "lock_scheduler w =
     w\<lparr>interrupts_on := False, IRQ_disable_counter := IRQ_disable_counter w + 1,
       postpone_task_switches_counter := postpone_task_switches_counter w + 1\<rparr>"

definition run_postponed :: "kernel \<Rightarrow> kernel res" where
  "run_postponed w =
     (if postpone_task_switches_counter w = 0 \<and> task_switches_postponed_flag w \<noteq> 0
      then res_bind (sched (w\<lparr>task_switches_postponed_flag := 0\<rparr>)) (\<lambda>(_, w2). Inr w2)
      else Inr w)"

definition enable_irq :: "kernel \<Rightarrow> kernel" where
  "enable_irq w =
     (let w1 = w\<lparr>IRQ_disable_counter := IRQ_disable_counter w - 1\<rparr>
      in if IRQ_disable_counter w1 = 0 then w1\<lparr>interrupts_on := True\<rparr> else w1)"

definition unlock_scheduler :: "kernel \<Rightarrow> kernel res" where
  "unlock_scheduler w =
     res_bind (run_postponed (w\<lparr>postpone_task_switches_counter := postpone_task_switches_counter w - 1\<rparr>)) (\<lambda>w2. Inr (enable_irq w2))"

section \<open>Signals of a thread\<close>

primrec unmasked_loop :: "int list \<Rightarrow> sigqueues \<Rightarrow> u64 \<Rightarrow> int option res" where
  "unmasked_loop [] q m = Inr None"
| "unmasked_loop (i # is) q m =
     (if q i \<noteq> [] then res_bind (sig_bit i) (\<lambda>b. if m AND b = 0 then Inr (Some i) else unmasked_loop is q m)
      else unmasked_loop is q m)"

definition take_signal :: "nat \<Rightarrow> int \<Rightarrow> string \<Rightarrow> kernel \<Rightarrow> (int \<times> kernel) res" where
  "take_signal i signo message w =
     res_bind (dequeue_signal (Some (signal_queue (proc w i))) signo) (\<lambda>(r, s, q).
       case s of None \<Rightarrow> Inl (Panic message) | Some n \<Rightarrow> Inr (n, upd_proc i (\<lambda>p. p\<lparr>signal_queue := q\<rparr>) w))"

definition select_signal :: "nat \<Rightarrow> nat \<Rightarrow> kernel \<Rightarrow> (int \<times> sigaction option \<times> kernel) res" where
  "select_signal i k w =
     (let t = threads (proc w i) ! k
      in res_bind
           (if unsuspend_signal t \<noteq> 0
            then in_array (unsuspend_signal t)
                   (if signal_queue (proc w i) (unsuspend_signal t) = [] then Inl (Panic ''Scheduler error: unsuspend signal not set'')
                    else res_bind (take_signal i (unsuspend_signal t) ''Scheduler error: unsuspend signal not found'' w) (\<lambda>(n, w1).
                      Inr (n, upd_thread i k
                        (\<lambda>t. t\<lparr>unsuspend_signal := 0, th_sigprocmask := sigsuspend_mask t, sigsuspend_mask := 0\<rparr>) w1)))
            else res_bind (unmasked_loop [1..NSIG - 1] (signal_queue (proc w i)) (th_sigprocmask t)) (\<lambda>r.
                   case r of None \<Rightarrow> Inr (0, w)
                   | Some s \<Rightarrow> take_signal i s ''Scheduler error: signal not found'' w))
           (\<lambda>(n, w1). Inr (if n \<noteq> 0 then (n, Some (signal_handlers (proc w1 i) n), w1) else (0, None, w1))))"

section \<open>Deletion, waiting and exit\<close>

definition null_stack :: stack where
  "null_stack = \<lparr>stack_base = 0, stack_flags = 0, stack_top = 0, stack_size = 0, guard_size = 0\<rparr>"

definition null_thread :: thread where
  "null_thread =
     \<lparr>user_context = None, kernel_context = None, signal_context = None, ustack = null_stack, kstack = null_stack,
      altstack = null_stack, th_sigprocmask = 0, sigsuspend_mask = 0, unsuspend_signal = 0, thread_id = 0, waiting = 0,
      waitpid_status_address = 0, waitpid_status = 0, waitpid_pid = 0\<rparr>"

definition null_sigaction :: sigaction where
  "null_sigaction = \<lparr>sa_handler = 0, sa_sigaction = 0, sa_mask = 0, sa_flags = 0, sa_restorer = 0\<rparr>"

definition null_process :: process where
  "null_process =
     \<lparr>pid = 0, ppid = 0, parent = None, vmm = 0, vdso = 0, threads = replicate MAX_THREADS null_thread, thread_count = 0,
      current_thread = 0, nice = 0, current_nice = 0, exit_code = 0, global_status = 0, last_scheduled = 0,
      signal_queue = (\<lambda>_. []), signal_handlers = (\<lambda>_. null_sigaction), open_files = replicate MAX_OPEN_FILES 0,
      open_files_count = 0\<rparr>"

primrec clear_statuses :: "nat \<Rightarrow> nat list \<Rightarrow> kernel \<Rightarrow> kernel" where
  "clear_statuses i [] w = w"
| "clear_statuses i (k # ks) w = clear_statuses i ks (set_thread_status i k 0 w)"

definition free_context :: "context_t option \<Rightarrow> release list" where
  "free_context c =
     (case c of None \<Rightarrow> [] | Some x \<Rightarrow> [Kfree (ctx_fxsave x), Kfree (ctx_info x), Kfree (ctx_cpu x), Kfree (ctx_self x)])"

definition free_thread :: "nat \<Rightarrow> u64 \<Rightarrow> thread \<Rightarrow> release list" where
  "free_thread i pd t =
     (if stack_base (ustack t) \<noteq> 0 then [Stackfree pd ((ustack t)\<lparr>stack_flags := 0\<rparr>)] else []) @
     (if stack_base (kstack t) \<noteq> 0 then [Kstackfree pd ((kstack t)\<lparr>stack_flags := 0\<rparr>)] else []) @
     (if stack_base (altstack t) \<noteq> 0 then [Stackfree pd ((altstack t)\<lparr>stack_flags := 0\<rparr>)] else []) @
     free_context (user_context t) @ free_context (kernel_context t) @ free_context (signal_context t) @
     [Remove_all_vmareas i]"

definition delete_process :: "nat \<Rightarrow> kernel \<Rightarrow> kernel" where
  "delete_process i w =
     (let p = proc w i;
          freed = (if vdso p \<noteq> 0 then [Vdso_free (vdso p)] else []) @
            concat (map (\<lambda>k. free_thread i (vmm p) (threads p ! k)) [0..<thread_count p])
      in upd_proc i (\<lambda>_. null_process\<lparr>pid := -1\<rparr>)
           (clear_statuses i [0..<MAX_THREADS] (w\<lparr>released := released w @ freed\<rparr>)))"

text \<open>A child that can be reported: its state is stored through the status pointer, and a zombie is deleted.\<close>

definition report_child :: "nat \<Rightarrow> nat \<Rightarrow> int \<Rightarrow> int \<Rightarrow> kernel \<Rightarrow> (int \<times> int \<times> kernel) option" where
  "report_child i c options returned_pid w =
     (if ppid (proc w c) \<noteq> pid (proc w i) then None
      else if global_status (proc w c) = PROCESS_STATUS_ZOMBIE then Some (returned_pid, PROCESS_STATUS_ZOMBIE, delete_process c w)
      else if global_status (proc w c) = PROCESS_STATUS_SIGSTOP \<and> options AND WUNTRACED \<noteq> 0
      then Some (pid (proc w c), PROCESS_STATUS_SIGSTOP, w)
      else if global_status (proc w c) = PROCESS_STATUS_SIGCONT \<and> options AND WCONTINUED \<noteq> 0
      then Some (pid (proc w c), PROCESS_STATUS_SIGCONT, w)
      else None)"

primrec children_loop :: "nat list \<Rightarrow> nat \<Rightarrow> int \<Rightarrow> kernel \<Rightarrow> (int \<times> int \<times> kernel) option" where
  "children_loop [] i options w = None"
| "children_loop (c # cs) i options w =
     (if pid (proc w c) = -1 then children_loop cs i options w
      else case report_child i c options (pid (proc w c)) w of
             Some r \<Rightarrow> Some r
           | None \<Rightarrow> children_loop cs i options w)"

text \<open>The result of the call and the value stored through \<open>status\<close>, if any.  With an explicit pid a zombie is deleted before its
  pid is read for the result.\<close>

definition waitpid_collect :: "nat \<Rightarrow> int \<Rightarrow> int \<Rightarrow> kernel \<Rightarrow> (int \<times> int option \<times> kernel) res" where
  "waitpid_collect i n options w =
     (let none = (if options AND WNOHANG \<noteq> 0 then Inr (-1, Some 0, w) else Inr (-2, None, w))
      in if n = -1
         then case children_loop [0..<MAX_PROCESSES] i options w of
                Some (r, s, w') \<Rightarrow> Inr (r, Some s, w')
              | None \<Rightarrow> none
         else if n < 0 \<or> n \<ge> process_count w then Inr (-1, None, w)
         else case get_process_by_pid n w of None \<Rightarrow> Inl (Panic ''null pointer'')
              | Some c \<Rightarrow>
                  (case report_child i c options (-1) w of
                     Some (r, s, w') \<Rightarrow> Inr (r, Some s, w')
                   | None \<Rightarrow> none))"

datatype wait_result = Asleep | Returned int "int option"

definition waitpid_resume :: "nat \<Rightarrow> nat \<Rightarrow> int \<Rightarrow> int \<Rightarrow> kernel \<Rightarrow> (wait_result \<times> kernel) res" where
  "waitpid_resume i k n options w =
     (if waiting (threads (proc w i) ! k) = 1
      then res_bind (sleep (thread_addr w i k) SLEEP_WAITPID w) (\<lambda>w'. Inr (Asleep, w'))
      else res_bind (waitpid_collect i n options w) (\<lambda>(r, s, w'). Inr (Returned r s, w')))"

definition waitpid_begin :: "nat \<Rightarrow> nat \<Rightarrow> int \<Rightarrow> u64 \<Rightarrow> int \<Rightarrow> kernel \<Rightarrow> (wait_result \<times> kernel) res" where
  "waitpid_begin i k n status options w =
     waitpid_resume i k n options (upd_thread i k (\<lambda>t. t\<lparr>waiting := 1, waitpid_status_address := status\<rparr>) w)"

primrec end_threads :: "nat \<Rightarrow> nat list \<Rightarrow> kernel \<Rightarrow> kernel" where
  "end_threads i [] w = w"
| "end_threads i (k # ks) w = end_threads i ks (set_thread_status i k THREAD_STATUS_ZOMBIE w)"

definition exit :: "nat \<Rightarrow> int \<Rightarrow> kernel \<Rightarrow> (nat option \<times> kernel) res" where
  "exit i error_code w =
     (let w1 = end_threads i [0..<thread_count (proc w i)] w;
          w2 = upd_proc i (\<lambda>p. p\<lparr>exit_code := error_code, global_status := PROCESS_STATUS_ZOMBIE\<rparr>) w1
      in res_bind (awake_parent i (create_waitpid_status WREASON_EXIT error_code) w2) sched)"

definition thread_exit :: "nat \<Rightarrow> nat \<Rightarrow> kernel \<Rightarrow> (nat option \<times> kernel) res" where
  "thread_exit i k w = sched (set_thread_status i k THREAD_STATUS_ZOMBIE w)"

section \<open>Creation\<close>

text \<open>The stacks and contexts that \<open>init_stacks\<close> and \<open>create_context\<close> made for the thread are arguments.\<close>

definition init_thread :: "nat \<Rightarrow> stack \<Rightarrow> stack \<Rightarrow> context_t \<Rightarrow> context_t \<Rightarrow> kernel \<Rightarrow> kernel res" where
  "init_thread i us ks uctx kctx w =
     (let k = thread_count (proc w i);
          t = null_thread\<lparr>ustack := us, kstack := ks, user_context := Some uctx, kernel_context := Some kctx, thread_id := int k\<rparr>
      in if k \<ge> MAX_THREADS then Inl (Panic ''Too many threads'')
         else Inr (set_thread_status i k THREAD_STATUS_READY
                (upd_proc i (\<lambda>p. p\<lparr>thread_count := k + 1, threads := (threads p)[k := t]\<rparr>) w)))"

text \<open>The descriptors and the answer of the terminal are what \<open>vfs_file_open\<close> and \<open>vfs_file_ioctl\<close> returned.\<close>

definition open_stdfiles :: "int \<Rightarrow> int \<Rightarrow> int \<Rightarrow> bool \<Rightarrow> process \<Rightarrow> process res" where
  "open_stdfiles stdin stdout stderr tty_ok task =
     (if open_files_count task > 0 then Inl (Panic ''Open files count is not zero'')
      else if stdin < 0 then Inl (Panic ''Failed to open stdin'')
      else if stdout < 0 then Inl (Panic ''Failed to open stdout'')
      else if stderr < 0 then Inl (Panic ''Failed to open stderr'')
      else if \<not> tty_ok then Inl (Panic ''Failed to get terminal size'')
      else Inr (task\<lparr>open_files := (open_files task)[0 := stdin, 1 := stdout, 2 := stderr], open_files_count := 3\<rparr>))"

text \<open>\<open>pd\<close> is the address space \<open>vmm_copy_kernel\<close> made and \<open>vd\<close> the shared vdso.\<close>

definition create_user_process :: "u64 \<Rightarrow> u64 \<Rightarrow> int \<times> int \<times> int \<Rightarrow> bool \<Rightarrow> stack \<Rightarrow> stack \<Rightarrow> context_t \<Rightarrow> context_t \<Rightarrow> kernel \<Rightarrow>
    (nat \<times> kernel) res" where
  "create_user_process pd vd fds tty_ok us ks uctx kctx w =
     (case get_free_process_slot w of None \<Rightarrow> Inl (Panic ''No more processes available'')
      | Some i \<Rightarrow>
          let w1 = clear_statuses i [0..<MAX_THREADS]
                (upd_proc i (\<lambda>_. null_process\<lparr>vmm := pd, nice := 10, current_nice := 10\<rparr>) (w\<lparr>process_count := process_count w + 1\<rparr>));
              n = get_next_pid w1
          in if n < 0 then Inl (Panic ''No more processes available'')
             else let p = (proc w1 i)\<lparr>pid := n, parent := get_current_process w1,
                      ppid := (case get_current_process w1 of None \<Rightarrow> 0 | Some j \<Rightarrow> pid (proc w1 j)),
                      open_files := replicate MAX_OPEN_FILES (-1), open_files_count := 0\<rparr>
                  in res_bind (open_stdfiles (fst fds) (fst (snd fds)) (snd (snd fds)) tty_ok p) (\<lambda>p1.
                     res_bind (init_thread i us ks uctx kctx (upd_proc i (\<lambda>_. p1\<lparr>vdso := vd\<rparr>) w1)) (\<lambda>w2. Inr (i, w2))))"

text \<open>The copy of the process in its own slot.  \<open>uctx\<close> and \<open>kctx\<close> are the new contexts, \<open>pd\<close> the copied address space
  and \<open>vd\<close> the shared vdso; the memory areas are copied by the operations of the memory manager.\<close>

definition duplicate_process :: "(int \<Rightarrow> 's \<Rightarrow> int \<times> 's) \<Rightarrow> u64 \<Rightarrow> u64 \<Rightarrow> context_t \<Rightarrow> context_t \<Rightarrow> nat \<Rightarrow> nat \<Rightarrow> kernel \<Rightarrow> 's \<Rightarrow>
    (nat \<times> kernel \<times> 's) res" where
  "duplicate_process dup pd vd uctx kctx par k w s =
     (if process_count w \<ge> int MAX_PROCESSES then Inl (Panic ''No more processes available'')
      else case get_free_process_slot w of None \<Rightarrow> Inl (Panic ''No more processes available'')
      | Some i \<Rightarrow>
          let w1 = w\<lparr>process_count := process_count w + 1\<rparr>;
              pp = proc w1 par;
              t = (threads pp ! k)\<lparr>user_context := Some uctx, kernel_context := Some kctx\<rparr>;
              w2 = set_thread_status i 0 (thread_status w1 par k) (clear_statuses i [0..<MAX_THREADS] (upd_proc i (\<lambda>_. pp) w1));
              child = pp\<lparr>thread_count := 1, vdso := vd, current_thread := 0, pid := get_next_pid w2, current_nice := nice pp,
                exit_code := 0, ppid := pid pp, parent := Some par, threads := (replicate MAX_THREADS null_thread)[0 := t], vmm := pd\<rparr>
          in res_bind (duplicate_fds dup pp child s) (\<lambda>(_, child1, s1). Inr (i, upd_proc i (\<lambda>_. child1) w2, s1)))"

definition fork :: "(int \<Rightarrow> 's \<Rightarrow> int \<times> 's) \<Rightarrow> u64 \<Rightarrow> u64 \<Rightarrow> context_t \<Rightarrow> context_t \<Rightarrow> nat \<Rightarrow> nat \<Rightarrow> kernel \<Rightarrow> 's \<Rightarrow>
    (int \<times> kernel \<times> 's) res" where
  "fork dup pd vd uctx kctx par k w s =
     res_bind (duplicate_process dup pd vd uctx kctx par k w s) (\<lambda>(i, w1, s1).
       Inr (pid (proc w1 i), set_thread_status i 0 THREAD_STATUS_READY w1, s1))"

text \<open>Start-up, to the point where the init program is loaded into the first process.\<close>

definition init_process :: "u64 \<Rightarrow> u64 \<Rightarrow> int \<times> int \<times> int \<Rightarrow> bool \<Rightarrow> stack \<Rightarrow> stack \<Rightarrow> context_t \<Rightarrow> context_t \<Rightarrow> kernel \<Rightarrow> kernel res" where
  "init_process pd vd fds tty_ok us ks uctx kctx w =
     res_bind (create_user_process pd vd fds tty_ok us ks uctx kctx
         (w\<lparr>postpone_task_switches_counter := 0, task_switches_postponed_flag := 0,
            process_list := map (\<lambda>p. p\<lparr>pid := -1\<rparr>) (process_list w), process_count := 0\<rparr>)) (\<lambda>(i, w1).
       Inr ((upd_proc i (\<lambda>p. p\<lparr>pid := 0\<rparr>) w1)\<lparr>current_process := Some i\<rparr>))"

end
