(* ===== verification/Scheduler.thy ===== *)
theory Scheduler
  imports Process
begin

text \<open>
  What the scheduler of modules/managers/cpu/process.c promises: the loops of \<open>sched_thread\<close> and \<open>sched\<close> end, the process
  that is chosen comes first by priority and by the time it ran last, and a process that stays ready is chosen
  after a bounded number of calls.
\<close>

section \<open>Reading the table after an update\<close>

lemma proc_upd_proc [simp]:
  "proc (upd_proc i f w) j = (if j = i \<and> i < length (process_list w) then f (proc w i) else proc w j)"
  by (cases "i < length (process_list w)") (auto simp: proc_def upd_proc_def list_update_beyond)

lemma upd_proc_fields [simp]:
  "length (process_list (upd_proc i f w)) = length (process_list w)"
  "th_status (upd_proc i f w) = th_status w" "process_base (upd_proc i f w) = process_base w"
  "process_count (upd_proc i f w) = process_count w" "timer_ticks (upd_proc i f w) = timer_ticks w"
  "postpone_task_switches_counter (upd_proc i f w) = postpone_task_switches_counter w"
  "current_process (upd_proc i f w) = current_process w" "squeues (upd_proc i f w) = squeues w"
  by (simp_all add: upd_proc_def)

lemma proc_fields_update [simp]:
  "proc (w\<lparr>th_status := s\<rparr>) = proc w" "proc (w\<lparr>current_process := c\<rparr>) = proc w" "proc (w\<lparr>released := r\<rparr>) = proc w"
  "proc (w\<lparr>squeues := q\<rparr>) = proc w" "proc (w\<lparr>timer_ticks := t\<rparr>) = proc w"
  by (simp_all add: proc_def fun_eq_iff)

lemma set_thread_status_eq: "set_thread_status i k s w = w\<lparr>th_status := (th_status w)(thread_addr w i k := s)\<rparr>"
  by (simp add: set_thread_status_def set_status_def)

lemma upd_proc_same: "f (proc w i) = proc w i \<Longrightarrow> upd_proc i f w = w"
  by (simp add: upd_proc_def proc_def)

text \<open>The states that differ from a given one at most in the threads of one process and in thread statuses.\<close>

definition waits_of :: "thread \<Rightarrow> int \<times> u64 \<times> int \<times> int" where
  "waits_of t = (waiting t, waitpid_status_address t, waitpid_status t, waitpid_pid t)"

definition threads_changed :: "nat \<Rightarrow> kernel \<Rightarrow> kernel \<Rightarrow> bool" where
  "threads_changed i w w' \<longleftrightarrow>
     (\<exists>ts st c. map waits_of ts = map waits_of (threads (proc w i)) \<and>
        w' = upd_proc i (\<lambda>p. p\<lparr>threads := ts, current_thread := c\<rparr>) (w\<lparr>th_status := st\<rparr>))"

lemma threads_changed_refl [intro]: "threads_changed i w w"
  unfolding threads_changed_def
  by (intro exI [of _ "threads (proc w i)"] exI [of _ "th_status w"] exI [of _ "current_thread (proc w i)"])
    (simp add: upd_proc_same)

lemma threads_changed_status:
  assumes "threads_changed i w w'"
  shows "threads_changed i w (w'\<lparr>th_status := st\<rparr>)"
proof -
  obtain ts c st0 where "map waits_of ts = map waits_of (threads (proc w i))" "w' = upd_proc i (\<lambda>p. p\<lparr>threads := ts, current_thread := c\<rparr>) (w\<lparr>th_status := st0\<rparr>)"
    using assms unfolding threads_changed_def by blast
  then show ?thesis unfolding threads_changed_def
    by (intro exI [of _ ts] exI [of _ st] exI [of _ c]) (simp add: upd_proc_def proc_def)
qed

lemma threads_changed_upd:
  assumes "threads_changed i w w'" and "\<And>p. p = proc w' i \<Longrightarrow> \<exists>ts c. map waits_of ts = map waits_of (threads p) \<and> f p = p\<lparr>threads := ts, current_thread := c\<rparr>"
  shows "threads_changed i w (upd_proc i f w')"
proof -
  obtain ts c st where w': "map waits_of ts = map waits_of (threads (proc w i))" "w' = upd_proc i (\<lambda>p. p\<lparr>threads := ts, current_thread := c\<rparr>) (w\<lparr>th_status := st\<rparr>)"
    using assms(1) unfolding threads_changed_def by blast
  show ?thesis
  proof (cases "i < length (process_list w)")
    case True
    obtain ts' c' where f: "map waits_of ts' = map waits_of ts" "f (proc w' i) = (proc w' i)\<lparr>threads := ts', current_thread := c'\<rparr>"
      using assms(2) [of "proc w' i"] w' True by auto
    show ?thesis unfolding threads_changed_def using w' f True
      by (intro exI [of _ ts'] exI [of _ st] exI [of _ c']) (simp add: upd_proc_def proc_def)
  next
    case False
    then have "length (process_list w') \<le> i" by (simp add: w'(2))
    then have "upd_proc i f w' = w'" by (simp add: upd_proc_def list_update_beyond)
    then show ?thesis using assms(1) by simp
  qed
qed

lemma threads_changed_current:
  assumes "threads_changed i w w'"
  shows "threads_changed i w (upd_proc i (\<lambda>p. p\<lparr>current_thread := c\<rparr>) w')"
proof (rule threads_changed_upd [OF assms])
  fix p
  show "\<exists>ts c'. map waits_of ts = map waits_of (threads p) \<and> p\<lparr>current_thread := c\<rparr> = p\<lparr>threads := ts, current_thread := c'\<rparr>"
    by (intro exI [of _ "threads p"] exI [of _ c]) simp
qed

lemma map_update_same: "g (f (xs ! k)) = g (xs ! k) \<Longrightarrow> map g (xs[k := f (xs ! k)]) = map g xs"
  by (simp add: map_update) (metis list_update_beyond list_update_id map_update not_le_imp_less nth_map)

lemma threads_changed_thread:
  assumes "threads_changed i w w'" and "waits_of (f (threads (proc w' i) ! k)) = waits_of (threads (proc w' i) ! k)"
  shows "threads_changed i w (upd_thread i k f w')"
  unfolding upd_thread_def
proof (rule threads_changed_upd [OF assms(1)])
  fix p assume "p = proc w' i"
  then show "\<exists>ts c. map waits_of ts = map waits_of (threads p) \<and>
      p\<lparr>threads := (threads p)[k := f (threads p ! k)]\<rparr> = p\<lparr>threads := ts, current_thread := c\<rparr>"
    using map_update_same [where g = waits_of and f = f and xs = "threads p" and k = k] assms(2)
    by (intro exI [of _ "(threads p)[k := f (threads p ! k)]"] exI [of _ "current_thread p"]) simp
qed

section \<open>The thread loop\<close>

definition small_signals :: "sigqueues \<Rightarrow> bool" where
  "small_signals q \<longleftrightarrow> (\<forall>i. 32 \<le> i \<longrightarrow> q i = [])"

definition live :: "kernel \<Rightarrow> nat \<Rightarrow> bool" where
  "live w i \<longleftrightarrow> i < MAX_PROCESSES \<and> pid (proc w i) \<noteq> -1"

definition proc_ok :: "process \<Rightarrow> bool" where
  "proc_ok p \<longleftrightarrow> length (threads p) = MAX_THREADS \<and> thread_count p \<le> MAX_THREADS \<and> current_thread p < thread_count p \<and>
     small_signals (signal_queue p)"

text \<open>A thread that \<open>sched_thread\<close> looks at can run.\<close>

definition ready :: "kernel \<Rightarrow> nat \<Rightarrow> bool" where
  "ready w i \<longleftrightarrow> (\<exists>k < thread_count (proc w i). can_run w i k \<and> (k \<noteq> current_thread (proc w i) \<or> thread_count (proc w i) = 1))"

lemma suspend_loop_total:
  assumes "small_signals q" and "\<forall>i \<in> set is. 0 < i"
  shows "\<exists>r. suspend_loop is q m = Inr r \<and> (\<forall>i. r = Some i \<longrightarrow> 0 < i)"
  using assms by (induction "is") (auto simp: sig_bit_def small_signals_def not_le)

lemma sigsuspend_check_total:
  assumes "small_signals q"
  obtains s t' where "sched_sigsuspend_check q t = Inr (s, t')" and "s > 0 \<or> t' = t" and "waits_of t' = waits_of t"
proof -
  obtain r where r: "suspend_loop [1..NSIG - 1] q (th_sigprocmask t) = Inr r" "\<forall>i. r = Some i \<longrightarrow> 0 < i"
    using suspend_loop_total [OF assms, of "[1..NSIG - 1]" "th_sigprocmask t"] by auto
  show ?thesis
  proof (cases "sigsuspend_mask t = 0")
    case True
    then show ?thesis using that [of "-1" t] by (simp add: sched_sigsuspend_check_def)
  next
    case False
    then have eq: "sched_sigsuspend_check q t = (case r of Some i \<Rightarrow> Inr (i, t)
        | None \<Rightarrow> if q SIGKILL \<noteq> [] then Inr (SIGKILL, t\<lparr>unsuspend_signal := SIGKILL\<rparr>)
            else if q SIGSTOP \<noteq> [] then Inr (SIGSTOP, t\<lparr>unsuspend_signal := SIGSTOP\<rparr>) else Inr (-1, t))"
      by (simp add: sched_sigsuspend_check_def r(1))
    show ?thesis
      by (cases r; cases "q SIGKILL = []"; cases "q SIGSTOP = []")
        (use that eq r(2) in \<open>auto simp: SIGKILL_def SIGSTOP_def waits_of_def\<close>)
  qed
qed

lemma examine_thread_total:
  assumes "small_signals (signal_queue (proc w i))"
  obtains b w' where "examine_thread w i k = Inr (b, w')" and "threads_changed i w w'" and "\<not> b \<Longrightarrow> w' = w"
proof (cases "thread_status w i k = THREAD_STATUS_INTERRUPTIBLE_SLEEP")
  case True
  obtain s t' where st: "sched_sigsuspend_check (signal_queue (proc w i)) (threads (proc w i) ! k) = Inr (s, t')"
    "s > 0 \<or> t' = threads (proc w i) ! k" "waits_of t' = waits_of (threads (proc w i) ! k)"
    by (rule sigsuspend_check_total [OF assms, of "threads (proc w i) ! k"]) blast
  have same: "w' = w" if "t' = threads (proc w i) ! k" "w' = upd_thread i k (\<lambda>_. t') w" for w'
    using that by (simp add: upd_thread_def upd_proc_same)
  have ch: "threads_changed i w (upd_thread i k (\<lambda>_. t') w)" by (rule threads_changed_thread) (use st(3) in auto)
  have c1: "threads_changed i w (set_thread_status i k x (upd_thread i k (\<lambda>_. t') w))" for x
    unfolding set_thread_status_eq by (rule threads_changed_status [OF ch])
  have c2: "threads_changed i w (upd_thread i k f (set_thread_status i k x (upd_thread i k (\<lambda>_. t') w)))"
    if "\<And>t. waits_of (f t) = waits_of t" for f x
    by (rule threads_changed_thread) (rule c1, rule that)
  show ?thesis
  proof (cases "s > 0")
    case True
    then have "\<exists>w'. examine_thread w i k = Inr (True, w') \<and> threads_changed i w w'"
      using st(1) \<open>thread_status w i k = _\<close> c1 c2 by (simp add: examine_thread_def Let_def waits_of_def)
    then show ?thesis using that by blast
  next
    case False
    then have "examine_thread w i k = Inr (False, upd_thread i k (\<lambda>_. t') w)"
      using st \<open>thread_status w i k = _\<close> by (auto simp: examine_thread_def Let_def SIGKILL_def SIGSTOP_def)
    moreover have "upd_thread i k (\<lambda>_. t') w = w" using st(2) False same by simp
    ultimately show ?thesis using that [of False w] threads_changed_refl [of i w] by simp
  qed
next
  case False
  then show ?thesis using that [of False w] threads_changed_refl [of i w] by (simp add: examine_thread_def)
qed

text \<open>The number of threads the loop looks at after thread \<open>k\<close> before it is back at the current one.\<close>

definition left :: "nat \<Rightarrow> nat \<Rightarrow> nat \<Rightarrow> nat" where
  "left n c k = (if k < c then c - k - 1 else if k = c then n - 1 else c + n - k - 1)"

definition after :: "nat \<Rightarrow> nat \<Rightarrow> nat" where
  "after n k = (if k + 1 \<ge> n then 0 else k + 1)"

lemma next_index_after: "next_index w i k = after (thread_count (proc w i)) k"
  by (simp add: next_index_def after_def)

lemma left_facts:
  assumes "k < n" and "c < n"
  shows "after n k = c \<longleftrightarrow> left n c k = 0" and "after n k < n"
    and "left n c k = Suc d \<Longrightarrow> left n c (after n k) = d"
    and "j < n \<Longrightarrow> left n c j = left n c k \<longleftrightarrow> j = k"
    and "j < n \<Longrightarrow> left n c j \<le> left n c (after n c) \<longleftrightarrow> j \<noteq> c \<or> n = 1"
  using assms by (auto simp: left_def after_def split: if_splits)

lemma thread_loop_ends:
  assumes "proc_ok (proc w i)" and "n = thread_count (proc w i)" and "c = current_thread (proc w i)" and "k < n"
  shows "\<exists>r w'. thread_loop i k w = Some (Inr (r, w')) \<and> threads_changed i w w' \<and>
    (r = None \<longrightarrow> w' = w \<and> (\<forall>j < n. left n c j \<le> left n c k \<longrightarrow> \<not> can_run w i j))"
  using assms(4)
proof (induction "left n c k" arbitrary: k)
  case base: 0
  have ok: "k < MAX_THREADS" "c < n" "small_signals (signal_queue (proc w i))" using assms base by (auto simp: proc_ok_def)
  obtain b w' where e: "examine_thread w i k = Inr (b, w')" "threads_changed i w w'" "\<not> b \<Longrightarrow> w' = w"
    using examine_thread_total [OF ok(3)] by blast
  show ?case
  proof (cases "can_run w i k \<or> b")
    case True
    then show ?thesis using e ok threads_changed_refl [of i w] by (subst thread_loop.simps) (auto simp: not_le)
  next
    case False
    then have "thread_loop i k w = Some (Inr (None, w))"
      using e ok base left_facts(1) [of k n c] assms(2,3) by (subst thread_loop.simps) (simp add: next_index_after)
    moreover have "\<not> can_run w i j" if "j < n" "left n c j \<le> left n c k" for j
      using left_facts(4) [of k n c j] that base ok False by simp
    ultimately show ?thesis using threads_changed_refl [of i w] by simp
  qed
next
  case (Suc d)
  have ok: "k < MAX_THREADS" "c < n" "small_signals (signal_queue (proc w i))" using assms Suc.prems by (auto simp: proc_ok_def)
  obtain b w' where e: "examine_thread w i k = Inr (b, w')" "threads_changed i w w'" "\<not> b \<Longrightarrow> w' = w"
    using examine_thread_total [OF ok(3)] by blast
  note lf = left_facts [of k n c, OF Suc.prems ok(2)]
  show ?case
  proof (cases "can_run w i k \<or> b")
    case True
    then show ?thesis using e ok threads_changed_refl [of i w] by (subst thread_loop.simps) (auto simp: not_le)
  next
    case False
    have step: "thread_loop i k w = thread_loop i (after n k) w"
      using False e ok lf(1) Suc.hyps(2) assms(2,3) by (subst thread_loop.simps) (simp add: next_index_after)
    have d: "d = left n c (after n k)" using lf(3) [of d] Suc.hyps(2) by simp
    obtain r v where r: "thread_loop i (after n k) w = Some (Inr (r, v))" "threads_changed i w v"
      "r = None \<longrightarrow> v = w \<and> (\<forall>j < n. left n c j \<le> left n c (after n k) \<longrightarrow> \<not> can_run w i j)"
      using Suc.hyps(1) [OF d lf(2)] by blast
    have "\<not> can_run w i j" if "r = None" "j < n" "left n c j \<le> left n c k" for j
    proof (cases "j = k")
      case False
      then have "left n c j \<noteq> left n c k" using lf(4) [of j] that(2) by simp
      then show ?thesis using r(3) that d Suc.hyps(2) by simp
    qed (use \<open>\<not> (can_run w i k \<or> b)\<close> in simp)
    then show ?thesis using step r by auto
  qed
qed

lemma sched_thread_ends:
  assumes "proc_ok (proc w i)"
  obtains b w' where "sched_thread i w = Inr (b, w')" and "threads_changed i w w'" and "\<not> b \<Longrightarrow> w' = w \<and> \<not> ready w i"
proof -
  let ?n = "thread_count (proc w i)" and ?c = "current_thread (proc w i)"
  have c: "?c < ?n" using assms by (simp add: proc_ok_def)
  obtain r v where r: "thread_loop i (after ?n ?c) w = Some (Inr (r, v))" "threads_changed i w v"
    "r = None \<longrightarrow> v = w \<and> (\<forall>j < ?n. left ?n ?c j \<le> left ?n ?c (after ?n ?c) \<longrightarrow> \<not> can_run w i j)"
    using thread_loop_ends [OF assms refl refl left_facts(2) [OF c c]] by blast
  show ?thesis
  proof (cases r)
    case None
    then have "\<not> ready w i" using r(3) left_facts(5) [OF c c] by (auto simp: ready_def)
    then show ?thesis using that [of False w] None r by (simp add: sched_thread_def next_index_after threads_changed_refl)
  next
    case (Some k)
    have "threads_changed i w (upd_proc i (\<lambda>p. p\<lparr>current_thread := k\<rparr>) v)"
      by (rule threads_changed_current [OF r(2)])
    then have "threads_changed i w (set_thread_status i k THREAD_STATUS_RUNNING (upd_proc i (\<lambda>p. p\<lparr>current_thread := k\<rparr>) v))"
      unfolding set_thread_status_eq by (rule threads_changed_status)
    then show ?thesis using that [of True] Some r(1) by (simp add: sched_thread_def next_index_after)
  qed
qed

section \<open>The queues\<close>

lemma set_insert_sorted [simp]: "set (insert_sorted ls x xs) = insert x (set xs)"
  by (induction xs) auto

lemma length_insert_sorted [simp]: "length (insert_sorted ls x xs) = Suc (length xs)"
  by (induction xs) auto

lemma distinct_insert_sorted: "x \<notin> set xs \<Longrightarrow> distinct xs \<Longrightarrow> distinct (insert_sorted ls x xs)"
  by (induction xs) auto

lemma sorted_insert_sorted: "sorted (map ls xs) \<Longrightarrow> sorted (map ls (insert_sorted ls x xs))"
  by (induction xs) (fastforce simp: not_less)+

lemma insert_sorted_cong: "(\<And>j. j \<in> set (x # xs) \<Longrightarrow> f j = g j) \<Longrightarrow> insert_sorted f x xs = insert_sorted g x xs"
  by (induction xs) auto

definition level :: "kernel \<Rightarrow> nat \<Rightarrow> nat" where
  "level w i = nat (current_nice (proc w i))"

text \<open>The queues hold the processes of a set, by level, each ordered by the time a process ran last.\<close>

definition queues_hold :: "nat set \<Rightarrow> (nat \<Rightarrow> nat list) \<Rightarrow> kernel \<Rightarrow> bool" where
  "queues_hold D q w \<longleftrightarrow>
     (\<forall>l. distinct (q l) \<and> sorted (map (\<lambda>j. last_scheduled (proc w j)) (q l)) \<and> set (q l) = {i \<in> D. live w i \<and> level w i = l})"

text \<open>The table after the ageing of the live processes of a set.\<close>

definition aged :: "nat set \<Rightarrow> kernel \<Rightarrow> kernel \<Rightarrow> bool" where
  "aged A w w' \<longleftrightarrow>
     (\<exists>pl. length pl = length (process_list w) \<and> w' = w\<lparr>process_list := pl\<rparr> \<and>
       (\<forall>j. proc w' j = (if j \<in> A \<and> live w j then (proc w j)\<lparr>current_nice := age (current_nice (proc w j))\<rparr> else proc w j)))"

lemma aged_proc:
  "aged A w w' \<Longrightarrow>
    proc w' j = (if j \<in> A \<and> live w j then (proc w j)\<lparr>current_nice := age (current_nice (proc w j))\<rparr> else proc w j)"
  unfolding aged_def by blast

lemma aged_live: "aged A w w' \<Longrightarrow> live w' j = live w j"
  by (simp add: aged_proc live_def)

lemma aged_empty [simp]: "aged {} w w"
  unfolding aged_def by (intro exI [of _ "process_list w"]) simp

lemma aged_upd:
  assumes "live w i" and "i < length (process_list w)" and "i \<notin> A"
    and "aged A (upd_proc i (\<lambda>p. p\<lparr>current_nice := age (current_nice p)\<rparr>) w) w'"
  shows "aged (insert i A) w w'"
proof -
  let ?w1 = "upd_proc i (\<lambda>p. p\<lparr>current_nice := age (current_nice p)\<rparr>) w"
  obtain pl where pl: "length pl = length (process_list ?w1)" "w' = ?w1\<lparr>process_list := pl\<rparr>"
    "\<forall>j. proc w' j = (if j \<in> A \<and> live ?w1 j then (proc ?w1 j)\<lparr>current_nice := age (current_nice (proc ?w1 j))\<rparr> else proc ?w1 j)"
    using assms(4) unfolding aged_def by blast
  have "w' = w\<lparr>process_list := pl\<rparr>" using pl(2) by (simp add: upd_proc_def)
  moreover have "proc w' j = (if j \<in> insert i A \<and> live w j then (proc w j)\<lparr>current_nice := age (current_nice (proc w j))\<rparr> else proc w j)" for j
    using pl(3) assms(1-3) by (auto simp: live_def)
  ultimately show ?thesis unfolding aged_def using pl(1) by (intro exI [of _ pl]) simp
qed

lemma age_bounds: "0 \<le> age n" "age n < int PROCESS_PRIORITIES" "nat (age n) \<le> nat n - 1"
  by (auto simp: age_def PROCESS_PRIORITIES_def Let_def)

lemma queues_hold_insert:
  assumes "queues_hold D q w" and "i \<notin> D" and "live w i"
  shows "queues_hold (insert i D) (q(level w i := insert_sorted (\<lambda>j. last_scheduled (proc w j)) i (q (level w i)))) w"
  using assms by (auto simp: queues_hold_def intro!: distinct_insert_sorted sorted_insert_sorted)

lemma queue_loop_ok:
  assumes "distinct is" and "set is \<inter> D = {}" and "set is \<subseteq> {..<MAX_PROCESSES}" and "length (process_list w) = MAX_PROCESSES"
    and "queues_hold D q w" and "finite D" and "int (card {i \<in> D \<union> set is. live w i}) \<le> process_count w"
  shows "\<exists>q' w'. queue_loop is q w = Inr (q', w') \<and> aged (set is) w w' \<and> queues_hold (D \<union> set is) q' w'"
  using assms
proof (induction "is" arbitrary: D q w)
  case Nil
  then show ?case by simp
next
  case (Cons i "is")
  show ?case
  proof (cases "pid (proc w i) = -1")
    case True
    then have nl: "\<not> live w i" by (simp add: live_def)
    have q: "queues_hold (insert i D) q w" using Cons.prems(5) nl by (auto simp: queues_hold_def)
    have "{j \<in> insert i D \<union> set is. live w j} = {j \<in> D \<union> set (i # is). live w j}" by auto
    then have "\<exists>q' w'. queue_loop is q w = Inr (q', w') \<and> aged (set is) w w' \<and> queues_hold (insert i D \<union> set is) q' w'"
      using Cons.prems q by (intro Cons.IH) auto
    then obtain q' w' where r: "queue_loop is q w = Inr (q', w')" "aged (set is) w w'" "queues_hold (insert i D \<union> set is) q' w'" by blast
    have "aged (set (i # is)) w w'" using r(2) nl by (auto simp: aged_def)
    then show ?thesis using r True by (simp add: insert_commute Un_commute)
  next
    case False
    let ?w1 = "upd_proc i (\<lambda>p. p\<lparr>current_nice := age (current_nice p)\<rparr>) w"
    let ?q1 = "q(level ?w1 i := insert_sorted (\<lambda>j. last_scheduled (proc ?w1 j)) i (q (level ?w1 i)))"
    have i: "i < MAX_PROCESSES" "i \<notin> D" "i \<notin> set is" using Cons.prems(1-3) by auto
    have lv: "live ?w1 j = live w j" for j by (simp add: live_def)
    have li: "live w i" using False i by (simp add: live_def)
    have ls: "last_scheduled (proc ?w1 j) = last_scheduled (proc w j)" for j by simp
    have le: "level ?w1 j = level w j" if "j \<noteq> i" for j using that by (simp add: level_def)
    have "(j \<in> D \<and> live ?w1 j \<and> level ?w1 j = l) = (j \<in> D \<and> live w j \<and> level w j = l)" for j l
    proof (cases "j = i")
      case True
      with i(2) show ?thesis by blast
    next
      case False
      show ?thesis by (simp only: lv le [OF False])
    qed
    then have "{j \<in> D. live ?w1 j \<and> level ?w1 j = l} = {j \<in> D. live w j \<and> level w j = l}" for l by (rule Collect_cong)
    then have "queues_hold D q ?w1" using Cons.prems(5) unfolding queues_hold_def ls by simp
    then have q1: "queues_hold (insert i D) ?q1 ?w1" using i(2) li by (intro queues_hold_insert) (simp_all add: lv)
    have "distinct (?q1 (level ?w1 i))" using q1 unfolding queues_hold_def by blast
    then have "length (?q1 (level ?w1 i)) = card (set (?q1 (level ?w1 i)))" by (rule distinct_card [symmetric])
    also have "set (?q1 (level ?w1 i)) = {j \<in> insert i D. live ?w1 j \<and> level ?w1 j = level ?w1 i}"
      using q1 unfolding queues_hold_def by blast
    also have "card \<dots> \<le> card {j \<in> D \<union> set (i # is). live w j}"
      using Cons.prems(6) unfolding lv by (intro card_mono) auto
    finally have fit: "int (length (insert_sorted (\<lambda>j. last_scheduled (proc ?w1 j)) i (q (level ?w1 i)))) \<le> process_count w"
      using Cons.prems(7) by simp
    then have ins: "insert_in_prio_queue ?w1 (q (level ?w1 i)) i = Inr (insert_sorted (\<lambda>j. last_scheduled (proc ?w1 j)) i (q (level ?w1 i)))"
      by (cases "q (level ?w1 i)") (auto simp: insert_in_prio_queue_def Let_def)
    have step: "queue_loop (i # is) q w = queue_loop is ?q1 ?w1"
      using False ins [unfolded level_def] by (simp add: Let_def level_def del: proc_upd_proc)
    have "{j \<in> insert i D \<union> set is. live ?w1 j} = {j \<in> D \<union> set (i # is). live w j}" by (auto simp: lv)
    then have "\<exists>q' w'. queue_loop is ?q1 ?w1 = Inr (q', w') \<and> aged (set is) ?w1 w' \<and> queues_hold (insert i D \<union> set is) q' w'"
      using Cons.prems by (intro Cons.IH [OF _ _ _ _ q1]) simp_all
    then obtain q' w' where r: "queue_loop is ?q1 ?w1 = Inr (q', w')" "aged (set is) ?w1 w'" "queues_hold (insert i D \<union> set is) q' w'" by blast
    have "aged (insert i (set is)) w w'" using r(2) li i Cons.prems(4) by (intro aged_upd) simp_all
    then show ?thesis using r step by (simp add: insert_commute Un_commute)
  qed
qed

section \<open>The choice\<close>

text \<open>The order of the queues: by level, then by the time of the last run.\<close>

definition comes_first :: "kernel \<Rightarrow> nat \<Rightarrow> nat \<Rightarrow> bool" where
  "comes_first w i j \<longleftrightarrow>
     level w i < level w j \<or> (level w i = level w j \<and> last_scheduled (proc w i) \<le> last_scheduled (proc w j))"

lemma queues_sorted:
  assumes "queues_hold D q w"
  shows "sorted_wrt (comes_first w) (concat (map q [0..<n])) \<and> set (concat (map q [0..<n])) = {i \<in> D. live w i \<and> level w i < n}"
proof (induction n)
  case (Suc n)
  have q: "sorted (map (\<lambda>j. last_scheduled (proc w j)) (q n))" "set (q n) = {i \<in> D. live w i \<and> level w i = n}"
    using assms unfolding queues_hold_def by blast+
  have "sorted_wrt (comes_first w) (q n)"
    using q by (auto simp: sorted_map comes_first_def intro: sorted_wrt_mono_rel [rotated])
  moreover have "comes_first w x y" if "x \<in> set (concat (map q [0..<n]))" "y \<in> set (q n)" for x y
  proof -
    have "level w x < n" using Suc.IH that(1) by blast
    moreover have "level w y = n" using q(2) that(2) by blast
    ultimately show ?thesis by (simp add: comes_first_def)
  qed
  moreover have "set (concat (map q [0..<n])) \<union> set (q n) = {i \<in> D. live w i \<and> level w i < Suc n}"
    unfolding q(2) using Suc.IH by auto
  ultimately show ?case using Suc.IH by (simp add: sorted_wrt_append del: set_concat)
qed simp

lemma pick_loop_ends:
  assumes "\<forall>i \<in> set is. proc_ok (proc w i)"
  shows "\<exists>r w'. pick_loop is w = Inr (r, w') \<and>
    (case r of None \<Rightarrow> w' = w \<and> (\<forall>i \<in> set is. \<not> ready w i)
     | Some i \<Rightarrow> threads_changed i w w' \<and> (\<exists>ys zs. is = ys @ i # zs \<and> (\<forall>j \<in> set ys. \<not> ready w j)))"
  using assms
proof (induction "is")
  case (Cons i "is")
  obtain b w' where s: "sched_thread i w = Inr (b, w')" "threads_changed i w w'" "\<not> b \<Longrightarrow> w' = w \<and> \<not> ready w i"
    using sched_thread_ends [of w i] Cons.prems by auto
  show ?case
  proof (cases b)
    case True
    then show ?thesis using s by (auto intro: exI [of _ "[]"])
  next
    case False
    obtain r v where r: "pick_loop is w = Inr (r, v)"
      "case r of None \<Rightarrow> v = w \<and> (\<forall>i \<in> set is. \<not> ready w i)
       | Some i \<Rightarrow> threads_changed i w v \<and> (\<exists>ys zs. is = ys @ i # zs \<and> (\<forall>j \<in> set ys. \<not> ready w j))"
      using Cons by auto
    show ?thesis
    proof (cases r)
      case None
      then show ?thesis using s False r by auto
    next
      case (Some k)
      then obtain ys zs where "is = ys @ k # zs" "\<forall>j \<in> set ys. \<not> ready w j" using r(2) by auto
      then have "i # is = (i # ys) @ k # zs \<and> (\<forall>j \<in> set (i # ys). \<not> ready w j)" using s(3) False by simp
      then have "\<exists>ys zs. i # is = ys @ k # zs \<and> (\<forall>j \<in> set ys. \<not> ready w j)" by blast
      moreover have "pick_loop (i # is) w = Inr (Some k, v)" using s False r(1) Some by simp
      moreover have "threads_changed k w v" using r(2) Some by simp
      ultimately show ?thesis by simp
    qed
  qed
qed simp

definition sched_ok :: "kernel \<Rightarrow> bool" where
  "sched_ok w \<longleftrightarrow> length (process_list w) = MAX_PROCESSES \<and> postpone_task_switches_counter w = 0 \<and>
     (\<forall>i. live w i \<longrightarrow> proc_ok (proc w i)) \<and> int (card {i. live w i}) \<le> process_count w"

text \<open>What a call of \<open>sched\<close> that chose process \<open>i\<close> leaves in the table.\<close>

definition scheduled :: "nat \<Rightarrow> kernel \<Rightarrow> kernel \<Rightarrow> bool" where
  "scheduled i w w' \<longleftrightarrow> length (process_list w') = length (process_list w) \<and> process_count w' = process_count w \<and> current_process w' = Some i \<and>
     (\<forall>j. pid (proc w' j) = pid (proc w j) \<and> nice (proc w' j) = nice (proc w j) \<and>
       last_scheduled (proc w' j) = (if j = i then get_ticks_since_boot w else last_scheduled (proc w j)) \<and>
       current_nice (proc w' j) =
         (if j = i then nice (proc w j) else if live w j then age (current_nice (proc w j)) else current_nice (proc w j)))"

lemma sched_chooses:
  assumes "sched_ok w" and "live w p" and "ready w p"
  obtains i w' where "sched w = Inr (Some i, w')" and "live w i" and "scheduled i w w'"
    and "nat (age (current_nice (proc w i))) < nat (age (current_nice (proc w p))) \<or>
      nat (age (current_nice (proc w i))) = nat (age (current_nice (proc w p))) \<and> last_scheduled (proc w i) \<le> last_scheduled (proc w p)"
proof -
  have fin: "{i. live w i} \<subseteq> {..<MAX_PROCESSES}" by (auto simp: live_def)
  then have "{i \<in> {} \<union> set [0..<MAX_PROCESSES]. live w i} = {i. live w i}" by auto
  moreover have "queues_hold {} (\<lambda>_. []) w" by (simp add: queues_hold_def)
  ultimately have "\<exists>q' w'. queue_loop [0..<MAX_PROCESSES] (\<lambda>_. []) w = Inr (q', w') \<and> aged (set [0..<MAX_PROCESSES]) w w' \<and>
      queues_hold ({} \<union> set [0..<MAX_PROCESSES]) q' w'"
    using assms(1) by (intro queue_loop_ok) (auto simp: sched_ok_def set_upt [symmetric] simp del: set_upt, simp)
  then obtain q w1 where q: "queue_loop [0..<MAX_PROCESSES] (\<lambda>_. []) w = Inr (q, w1)" "aged {0..<MAX_PROCESSES} w w1"
    "queues_hold {0..<MAX_PROCESSES} q w1" by auto
  have lv: "live w1 j = live w j" for j by (rule aged_live [OF q(2)])
  have pr: "proc w1 j = (if live w j then (proc w j)\<lparr>current_nice := age (current_nice (proc w j))\<rparr> else proc w j)" for j
    using aged_proc [OF q(2), of j] fin by auto
  have st: "th_status w1 = th_status w" "process_base w1 = process_base w" "timer_ticks w1 = timer_ticks w"
    "process_count w1 = process_count w" "length (process_list w1) = MAX_PROCESSES"
    using q(2) assms(1) by (auto simp: aged_def sched_ok_def)
  have rd: "ready w1 j = ready w j" for j by (simp add: ready_def can_run_def thread_status_def thread_addr_def pr st)
  have lev: "level w1 j < PROCESS_PRIORITIES" if "live w j" for j
    using that age_bounds(1,2) [of "current_nice (proc w j)"] by (simp add: level_def pr)
  let ?xs = "concat (map q [0..<PROCESS_PRIORITIES])"
  have xs: "sorted_wrt (comes_first w1) ?xs" "set ?xs = {i. live w i}"
    using queues_sorted [OF q(3), of PROCESS_PRIORITIES] fin lev by (auto simp: lv)
  have ok: "\<forall>i \<in> set ?xs. proc_ok (proc w1 i)"
    unfolding xs(2) using assms(1) by (simp add: sched_ok_def pr proc_ok_def)
  obtain r w2 where r: "pick_loop ?xs w1 = Inr (r, w2)" "case r of None \<Rightarrow> w2 = w1 \<and> (\<forall>i \<in> set ?xs. \<not> ready w1 i)
     | Some i \<Rightarrow> threads_changed i w1 w2 \<and> (\<exists>ys zs. ?xs = ys @ i # zs \<and> (\<forall>j \<in> set ys. \<not> ready w1 j))"
    using pick_loop_ends [OF ok] by blast
  obtain i ys zs where i: "r = Some i" "threads_changed i w1 w2" "?xs = ys @ i # zs" "\<forall>j \<in> set ys. \<not> ready w1 j"
    using r(2) assms(2,3) xs(2) by (cases r) (auto simp: rd)
  have li: "live w i" using xs(2) i(3) by auto
  have "p \<in> set (i # zs)" using xs(2) i(3,4) assms(2,3) by (auto simp: rd)
  then have first: "comes_first w1 i p" using xs(1) unfolding i(3) by (auto simp: sorted_wrt_append comes_first_def)
  let ?w3 = "(upd_proc i (\<lambda>p. p\<lparr>last_scheduled := get_ticks_since_boot w2, current_nice := nice p\<rparr>) w2)\<lparr>current_process := Some i\<rparr>"
  have "sched w = Inr (Some i, ?w3)" using q(1) r(1) i(1) assms(1) by (simp add: sched_def sched_ok_def)
  moreover have "scheduled i w ?w3" using i(2) li st(3-5)
    using assms(1) by (auto simp: scheduled_def threads_changed_def get_ticks_since_boot_def pr live_def sched_ok_def)
  moreover have "nat (age (current_nice (proc w i))) < nat (age (current_nice (proc w p))) \<or>
      nat (age (current_nice (proc w i))) = nat (age (current_nice (proc w p))) \<and> last_scheduled (proc w i) \<le> last_scheduled (proc w p)"
    using first li assms(2) by (simp add: comes_first_def level_def pr)
  ultimately show ?thesis using that li by blast
qed

section \<open>Bounded waiting\<close>

text \<open>Between two calls of the scheduler threads may do anything that leaves the scheduling data of the table alone.\<close>

definition undisturbed :: "kernel \<Rightarrow> kernel \<Rightarrow> bool" where
  "undisturbed v w \<longleftrightarrow>
     (\<forall>j < MAX_PROCESSES. pid (proc w j) = pid (proc v j) \<and> nice (proc w j) = nice (proc v j) \<and>
       current_nice (proc w j) = current_nice (proc v j) \<and> last_scheduled (proc w j) = last_scheduled (proc v j))"

text \<open>Rounds in which process \<open>c k\<close> was chosen, never \<open>p\<close>.\<close>

definition passed_over :: "nat \<Rightarrow> (nat \<Rightarrow> kernel) \<Rightarrow> (nat \<Rightarrow> nat) \<Rightarrow> nat \<Rightarrow> bool" where
  "passed_over b w c p \<longleftrightarrow>
     (\<forall>k < b. c k \<noteq> p \<and> live (w k) (c k) \<and> last_scheduled (proc (w 0) p) < timer_ticks (w k) \<and>
       (nat (age (current_nice (proc (w k) (c k)))) < nat (age (current_nice (proc (w k) p))) \<or>
        nat (age (current_nice (proc (w k) (c k)))) = nat (age (current_nice (proc (w k) p))) \<and>
          last_scheduled (proc (w k) (c k)) \<le> last_scheduled (proc (w k) p)) \<and>
       (\<exists>v. scheduled (c k) (w k) v \<and> undisturbed v (w (Suc k))))"

lemma passed_over_step:
  assumes "passed_over b w c p" and "k < b"
  shows "live (w (Suc k)) j = live (w k) j"
    and "j < MAX_PROCESSES \<Longrightarrow> last_scheduled (proc (w (Suc k)) j) = (if j = c k then timer_ticks (w k) else last_scheduled (proc (w k) j))"
    and "live (w k) p \<Longrightarrow> current_nice (proc (w (Suc k)) p) = age (current_nice (proc (w k) p))"
  using assms by (auto simp: passed_over_def scheduled_def undisturbed_def live_def get_ticks_since_boot_def)

lemma passed_over_facts:
  assumes "passed_over b w c p" and "live (w 0) p" and "k \<le> b"
  shows "live (w k) = live (w 0)" and "last_scheduled (proc (w k) p) = last_scheduled (proc (w 0) p)"
    and "nat (age (current_nice (proc (w k) p))) \<le> 19 - k"
    and "m < k \<Longrightarrow> last_scheduled (proc (w 0) p) < last_scheduled (proc (w k) (c m))"
  using assms(3)
proof (induction k)
  case 0
  { case 1 show ?case by simp }
  { case 2 show ?case by simp }
  { case 3 show ?case using age_bounds(1,2) [of "current_nice (proc (w 0) p)"] by (simp add: PROCESS_PRIORITIES_def) }
  { case 4 then show ?case by simp }
next
  have p: "p < MAX_PROCESSES" using assms(2) by (simp add: live_def)
  case (Suc k)
  { case 1
    then show ?case using Suc.IH(1) passed_over_step(1) [OF assms(1), of k] by (simp add: fun_eq_iff) }
  { case 2
    then have "c k \<noteq> p" using assms(1) by (simp add: passed_over_def)
    then show ?case using 2 p Suc.IH(2) passed_over_step(2) [OF assms(1), of k p] by simp }
  { case 3
    then have "current_nice (proc (w (Suc k)) p) = age (current_nice (proc (w k) p))"
      using passed_over_step(3) [OF assms(1), of k] Suc.IH(1) assms(2) by simp
    then show ?case using 3 Suc.IH(3) age_bounds(3) [of "age (current_nice (proc (w k) p))"] by simp }
  { case 4
    then have "last_scheduled (proc (w 0) p) < timer_ticks (w k)" "m < k \<or> m = k" "c m < MAX_PROCESSES"
      using assms(1) by (auto simp: passed_over_def live_def)
    then show ?case using 4 Suc.IH(4) passed_over_step(2) [OF assms(1), of k "c m"] by auto }
qed

lemma passed_over_bound:
  assumes "passed_over b w c p" and "live (w 0) p"
  shows "b < 19 + card {i. live (w 0) i}"
proof -
  note f = passed_over_facts [OF assms]
  have new: "c m \<noteq> c k" if "m < k" "19 \<le> k" "k < b" for m k
  proof -
    have "nat (age (current_nice (proc (w k) p))) = 0" using f(3) [of k] that by simp
    then have "last_scheduled (proc (w k) (c k)) \<le> last_scheduled (proc (w k) p)"
      using assms(1) that unfolding passed_over_def by (metis less_nat_zero_code)
    moreover have "last_scheduled (proc (w k) p) < last_scheduled (proc (w k) (c m))" using f(2) [of k] f(4) [of k m] that by simp
    ultimately show ?thesis by force
  qed
  have "inj_on c {19..<b}" by (rule linorder_inj_onI') (use new in auto)
  moreover have "c ` {19..<b} \<subseteq> {i. live (w 0) i} - {p}"
  proof (rule image_subsetI)
    fix k assume k: "k \<in> {19..<b}"
    then have "c k \<noteq> p" "live (w k) (c k)" using assms(1) by (auto simp: passed_over_def)
    then show "c k \<in> {i. live (w 0) i} - {p}" using f(1) [of k] k by simp
  qed
  moreover have fin: "finite {i. live (w 0) i}" by (rule finite_subset [of _ "{..<MAX_PROCESSES}"]) (auto simp: live_def)
  ultimately have "card {19..<b} \<le> card ({i. live (w 0) i} - {p})" by (metis card_inj_on_le finite_Diff)
  also have "\<dots> < card {i. live (w 0) i}" using fin assms(2) by (intro psubset_card_mono) auto
  finally show ?thesis by simp
qed

text \<open>C4: Bounded waiting.  A live process that is ready whenever the scheduler is called is chosen after fewer calls than
  the 19 steps of ageing plus the number of live processes, whatever the threads do in between, provided
  they leave the scheduling data alone and the timer has moved on since the process last ran.\<close>

theorem ready_process_is_scheduled:
  assumes "\<forall>k < 19 + card {i. live (w 0) i}. sched_ok (w k) \<and> ready (w k) p \<and> last_scheduled (proc (w 0) p) < timer_ticks (w k)"
    and "\<forall>k < 19 + card {i. live (w 0) i}. \<forall>i v. sched (w k) = Inr (i, v) \<longrightarrow> undisturbed v (w (Suc k))"
    and "live (w 0) p"
  shows "\<exists>k < 19 + card {i. live (w 0) i}. \<exists>v. sched (w k) = Inr (Some p, v)"
proof (rule ccontr)
  let ?B = "19 + card {i. live (w 0) i}"
  assume never: "\<not> ?thesis"
  have lv: "k \<le> ?B \<Longrightarrow> live (w k) p" for k
  proof (induction k)
    case (Suc k)
    then have ok: "k < ?B" "live (w k) p" by simp_all
    obtain i v where "sched (w k) = Inr (Some i, v)" "scheduled i (w k) v"
      by (rule sched_chooses [of "w k" p]) (use ok assms(1) in auto)
    then show ?case using ok assms(2) by (fastforce simp: undisturbed_def scheduled_def live_def)
  qed (use assms(3) in simp)
  have "\<exists>i. k < ?B \<longrightarrow> i \<noteq> p \<and> live (w k) i \<and> last_scheduled (proc (w 0) p) < timer_ticks (w k) \<and>
       (nat (age (current_nice (proc (w k) i))) < nat (age (current_nice (proc (w k) p))) \<or>
        nat (age (current_nice (proc (w k) i))) = nat (age (current_nice (proc (w k) p))) \<and>
          last_scheduled (proc (w k) i) \<le> last_scheduled (proc (w k) p)) \<and>
       (\<exists>v. scheduled i (w k) v \<and> undisturbed v (w (Suc k)))" for k
  proof (cases "k < ?B")
    case True
    then have ok: "sched_ok (w k)" "live (w k) p" "ready (w k) p" "last_scheduled (proc (w 0) p) < timer_ticks (w k)"
      using assms(1) lv [of k] by simp_all
    obtain i v where s: "sched (w k) = Inr (Some i, v)" "live (w k) i" "scheduled i (w k) v"
      "nat (age (current_nice (proc (w k) i))) < nat (age (current_nice (proc (w k) p))) \<or>
       nat (age (current_nice (proc (w k) i))) = nat (age (current_nice (proc (w k) p))) \<and>
         last_scheduled (proc (w k) i) \<le> last_scheduled (proc (w k) p)"
      using sched_chooses [OF ok(1-3)] by blast
    have "i \<noteq> p" using never s(1) True by blast
    moreover have "undisturbed v (w (Suc k))" using assms(2) s(1) True by blast
    ultimately show ?thesis using s ok(4) by blast
  qed simp
  then obtain c where "passed_over ?B w c p" unfolding passed_over_def by metis
  then show False using passed_over_bound assms(3) by blast
qed

text \<open>Two processes of one thread each that are always ready.\<close>

definition demo_process :: "int \<Rightarrow> process" where
  "demo_process n = null_process\<lparr>pid := n, thread_count := 1, nice := 10, current_nice := 10\<rparr>"

definition demo_kernel :: kernel where
  "demo_kernel =
     \<lparr>boot_epoch = 0, hertz = 100, timer_ticks = 5, timer_subticks = 0, preemption_ticks = 0x50, preemption_enabled = 1, alarms = [],
      squeues = [], th_status = (\<lambda>_. THREAD_STATUS_READY), rem_spec = (\<lambda>_. \<lparr>tv_sec = 0, tv_nsec = 0\<rparr>),
      process_list = [demo_process 0, demo_process 1] @ replicate 254 (null_process\<lparr>pid := -1\<rparr>),
      current_process = Some 0, process_count = 2, postpone_task_switches_counter = 0, task_switches_postponed_flag = 0,
      IRQ_disable_counter = 0, interrupts_on = True, process_base = 0xffffffff80100000, released = []\<rparr>"

definition demo_round :: "kernel \<Rightarrow> kernel" where
  "demo_round w =
     (case sched w of Inl _ \<Rightarrow> w
      | Inr (_, v) \<Rightarrow>
          v\<lparr>process_list := map (\<lambda>p. p\<lparr>threads := replicate MAX_THREADS null_thread, thread_count := 1, current_thread := 0,
               signal_queue := (\<lambda>_. [])\<rparr>) (process_list v),
            th_status := (\<lambda>_. THREAD_STATUS_READY), postpone_task_switches_counter := 0, timer_ticks := 5\<rparr>)"

definition demo_inv :: "kernel \<Rightarrow> bool" where
  "demo_inv w \<longleftrightarrow> length (process_list w) = MAX_PROCESSES \<and> postpone_task_switches_counter w = 0 \<and> process_count w = 2 \<and>
     timer_ticks w = 5 \<and> th_status w = (\<lambda>_. THREAD_STATUS_READY) \<and>
     (\<forall>i < MAX_PROCESSES. pid (proc w i) = (if i = 0 then 0 else if i = 1 then 1 else -1)) \<and>
     (\<forall>i < 2. threads (proc w i) = replicate MAX_THREADS null_thread \<and> thread_count (proc w i) = 1 \<and>
        current_thread (proc w i) = 0 \<and> signal_queue (proc w i) = (\<lambda>_. []))"

lemma demo_inv_init: "demo_inv demo_kernel"
  by (auto simp: demo_inv_def demo_kernel_def proc_def demo_process_def null_process_def MAX_PROCESSES_def nth_append nth_Cons split: nat.splits)

lemma demo_inv_facts:
  assumes "demo_inv w"
  shows "sched_ok w" and "{i. live w i} = {0, 1}" and "i < 2 \<Longrightarrow> live w i \<and> ready w i"
proof -
  have l: "live w i \<longleftrightarrow> i = 0 \<or> i = 1" for i using assms by (auto simp: live_def demo_inv_def MAX_PROCESSES_def split: if_splits)
  then show e: "{i. live w i} = {0, 1}" by auto
  show "sched_ok w" unfolding sched_ok_def e using assms
    by (auto simp: l demo_inv_def proc_ok_def small_signals_def MAX_THREADS_def)
  show "i < 2 \<Longrightarrow> live w i \<and> ready w i" using assms l [of i]
    by (auto simp: demo_inv_def ready_def can_run_def thread_status_def null_thread_def MAX_THREADS_def less_2_cases_iff)
qed

lemma demo_round_inv:
  assumes "demo_inv w"
  shows "demo_inv (demo_round w)" and "sched w = Inr (i, v) \<Longrightarrow> undisturbed v (demo_round w)"
proof -
  obtain j u where s: "sched w = Inr (Some j, u)" "scheduled j w u"
    by (rule sched_chooses [of w 0]) (use demo_inv_facts [OF assms] in auto)
  then have len: "length (process_list u) = MAX_PROCESSES" using assms by (simp add: scheduled_def demo_inv_def)
  then have "proc (demo_round w) k = (proc u k)\<lparr>threads := replicate MAX_THREADS null_thread, thread_count := 1, current_thread := 0,
      signal_queue := (\<lambda>_. [])\<rparr>" if "k < MAX_PROCESSES" for k
    using that by (simp add: demo_round_def s(1) proc_def)
  moreover have "length (process_list (demo_round w)) = MAX_PROCESSES" using len by (simp add: demo_round_def s(1))
  ultimately show "demo_inv (demo_round w)" "sched w = Inr (i, v) \<Longrightarrow> undisturbed v (demo_round w)"
    using assms s by (auto simp: demo_inv_def scheduled_def undisturbed_def MAX_PROCESSES_def demo_round_def)
qed

theorem ready_process_is_scheduled_witness:
  "\<exists>k < 21. \<exists>v. sched ((demo_round ^^ k) demo_kernel) = Inr (Some 1, v)"
proof -
  have inv: "demo_inv ((demo_round ^^ k) demo_kernel)" for k
    by (induction k) (simp_all add: demo_inv_init demo_round_inv(1))
  let ?w = "\<lambda>k. (demo_round ^^ k) demo_kernel"
  have c: "card {i. live (?w 0) i} = 2" using demo_inv_facts(2) [OF inv [of 0]] by simp
  have l0: "last_scheduled (proc (?w 0) 1) = 0" by (simp add: demo_kernel_def proc_def demo_process_def null_process_def)
  have t: "timer_ticks (?w k) = 5" for k using inv [of k] unfolding demo_inv_def by blast
  have r: "sched_ok (?w k)" "live (?w k) 1" "ready (?w k) 1" for k
    using demo_inv_facts(1) [OF inv [of k]] demo_inv_facts(3) [OF inv [of k], of 1] by simp_all
  have "sched (?w k) = Inr (i, v) \<Longrightarrow> undisturbed v (?w (Suc k))" for k i v
    unfolding funpow.simps o_apply by (rule demo_round_inv(2) [OF inv])
  then have "\<exists>k < 19 + card {i. live (?w 0) i}. \<exists>v. sched (?w k) = Inr (Some 1, v)"
    by (intro ready_process_is_scheduled) (simp_all only: l0 t r, simp_all)
  then show ?thesis unfolding c by simp
qed

end
