(* ===== verification/Process_Table.thy ===== *)
theory Process_Table
  imports Scheduler
begin

text \<open>
  The process table as a whole: every operation keeps the identifiers of live processes distinct, the threads and
  descriptors of every process within their arrays and the number of open descriptors right; then
  what \<open>fork\<close>, \<open>waitpid\<close> and the open files of a process do.
\<close>

section \<open>The invariant\<close>

definition files_ok :: "process \<Rightarrow> bool" where
  "files_ok p \<longleftrightarrow> length (open_files p) = MAX_OPEN_FILES \<and> open_files_count p = int (length (filter (\<lambda>f. f \<noteq> -1) (open_files p)))"

definition shape :: "process \<Rightarrow> bool" where
  "shape p \<longleftrightarrow> length (threads p) = MAX_THREADS \<and> thread_count p \<le> MAX_THREADS \<and> -1 \<le> pid p \<and> pid p < int MAX_PROCESSES \<and>
     (\<forall>j. parent p = Some j \<longrightarrow> j < MAX_PROCESSES) \<and>
     (pid p \<noteq> -1 \<longrightarrow> current_thread p < thread_count p \<and> files_ok p)"

definition table_ok :: "kernel \<Rightarrow> bool" where
  "table_ok w \<longleftrightarrow> length (process_list w) = MAX_PROCESSES \<and> (\<forall>i < MAX_PROCESSES. shape (proc w i)) \<and>
     (\<forall>j. current_process w = Some j \<longrightarrow> j < MAX_PROCESSES) \<and>
     (\<forall>i j. live w i \<longrightarrow> live w j \<longrightarrow> pid (proc w i) = pid (proc w j) \<longrightarrow> i = j)"

lemma table_ok_upd:
  assumes "table_ok w" and "shape (f (proc w i))" and "pid (f (proc w i)) = pid (proc w i) \<or> pid (f (proc w i)) = -1"
  shows "table_ok (upd_proc i f w)"
proof -
  have "live (upd_proc i f w) j \<Longrightarrow> live w j \<and> pid (proc (upd_proc i f w) j) = pid (proc w j)" for j
    using assms(1,3) by (auto simp: live_def table_ok_def split: if_splits)
  then show ?thesis using assms(1,2) unfolding table_ok_def by (metis proc_upd_proc upd_proc_fields(1,7))
qed

lemma table_ok_new:
  assumes "table_ok w" and "shape (f (proc w i))" and "i < MAX_PROCESSES" and "\<forall>j. j \<noteq> i \<longrightarrow> live w j \<longrightarrow> pid (proc w j) \<noteq> pid (f (proc w i))"
  shows "table_ok (upd_proc i f w)"
proof -
  have i: "i < length (process_list w)" using assms(1,3) by (simp add: table_ok_def)
  have "j = k" if "live (upd_proc i f w) j" "live (upd_proc i f w) k" "pid (proc (upd_proc i f w) j) = pid (proc (upd_proc i f w) k)" for j k
    using that assms(1,4) i unfolding table_ok_def live_def by (simp split: if_splits) metis+
  then show ?thesis using assms(1,2) by (auto simp: table_ok_def)
qed

lemma table_ok_cong: "process_list w' = process_list w \<Longrightarrow> current_process w' = current_process w \<Longrightarrow> table_ok w' = table_ok w"
  by (simp add: table_ok_def live_def proc_def)

lemma table_ok_current: "table_ok w \<Longrightarrow> i < MAX_PROCESSES \<Longrightarrow> table_ok (w\<lparr>current_process := Some i\<rparr>)"
  by (simp add: table_ok_def live_def)

lemma set_thread_status_list [simp]:
  "process_list (set_thread_status i k s w) = process_list w" "current_process (set_thread_status i k s w) = current_process w"
  by (simp_all add: set_thread_status_eq)

lemma clear_statuses_list [simp]:
  "process_list (clear_statuses i ks w) = process_list w" "current_process (clear_statuses i ks w) = current_process w"
  by (induction ks arbitrary: w) simp_all

lemma end_threads_list [simp]:
  "process_list (end_threads i ks w) = process_list w" "current_process (end_threads i ks w) = current_process w"
  by (induction ks arbitrary: w) simp_all

lemma table_ok_status [simp]:
  "table_ok (set_thread_status i k s w) = table_ok w" "table_ok (clear_statuses i ks w) = table_ok w"
  "table_ok (end_threads i ks w) = table_ok w"
  by (rule table_ok_cong; simp)+

section \<open>Sleep queues leave the table alone\<close>

lemma wake_nodes_list: "wake_nodes ns w = Inr w' \<Longrightarrow> process_list w' = process_list w \<and> current_process w' = current_process w"
  by (induction ns arbitrary: w) (fastforce simp: use_after_free_def set_status_def split: if_splits)+

lemma wakeup_list:
  assumes "wakeup c w = Inr w'"
  shows "process_list w' = process_list w \<and> current_process w' = current_process w"
proof (cases "find_squeue c w")
  case (Some q)
  then obtain w1 where "wake_nodes (sq_nodes q) w = Inr w1" "destroy_squeue (Some q) w1 = Inr w'"
    using assms by (auto simp: wakeup_def res_bind_Inr_iff)
  then show ?thesis using wake_nodes_list
    by (fastforce simp: destroy_squeue_def res_bind_Inr_iff Let_def split: option.splits)
qed (use assms in \<open>simp add: wakeup_def\<close>)

lemma sleep_list:
  assumes "sleep t c w = Inr w'"
  shows "process_list w' = process_list w \<and> current_process w' = current_process w"
  using assms
  by (auto simp: sleep_def do_sleep_def res_bind_Inr_iff Let_def set_status_def put_nodes_def create_squeue_def
      split: if_splits option.splits)

section \<open>The scheduler keeps the table\<close>

lemma sigsuspend_check_waits: "sched_sigsuspend_check q t = Inr (s, t') \<Longrightarrow> waits_of t' = waits_of t"
  by (auto simp: sched_sigsuspend_check_def waits_of_def res_bind_Inr_iff split: if_splits option.splits)

lemma examine_thread_changes:
  assumes "examine_thread w i k = Inr (b, w')"
  shows "threads_changed i w w'"
proof (cases "thread_status w i k = THREAD_STATUS_INTERRUPTIBLE_SLEEP")
  case True
  then obtain s t where st: "sched_sigsuspend_check (signal_queue (proc w i)) (threads (proc w i) ! k) = Inr (s, t)"
    using assms by (auto simp: examine_thread_def res_bind_Inr_iff)
  then have wt: "waits_of t = waits_of (threads (proc w i) ! k)" by (rule sigsuspend_check_waits)
  have c0: "threads_changed i w (upd_thread i k (\<lambda>_. t) w)" by (rule threads_changed_thread) (use wt in auto)
  have c1: "threads_changed i w (set_thread_status i k x (upd_thread i k (\<lambda>_. t) w))" for x
    unfolding set_thread_status_eq by (rule threads_changed_status [OF c0])
  have c2: "threads_changed i w (upd_thread i k f (set_thread_status i k x (upd_thread i k (\<lambda>_. t) w)))"
    if "\<And>t. waits_of (f t) = waits_of t" for f x
    by (rule threads_changed_thread) (rule c1, rule that)
  show ?thesis using assms True c0 c1 c2 by (auto simp: examine_thread_def st Let_def waits_of_def split: if_splits)
qed (use assms threads_changed_refl [of i w] in \<open>simp add: examine_thread_def\<close>)

lemma current_upd_thread [simp]: "current_thread (proc (upd_thread i k f w) j) = current_thread (proc w j)"
  by (simp add: upd_thread_def)

lemma proc_set_thread_status [simp]: "proc (set_thread_status i k s w) = proc w"
  by (simp add: set_thread_status_eq)

lemma examine_thread_current:
  "examine_thread w i k = Inr (b, w') \<Longrightarrow> current_thread (proc w' i) = current_thread (proc w i)"
  by (auto simp: examine_thread_def res_bind_Inr_iff Let_def split: if_splits)

lemma threads_changed_trans:
  assumes "threads_changed i w v" and "threads_changed i v u"
  shows "threads_changed i w u"
proof -
  obtain ts st c where u: "map waits_of ts = map waits_of (threads (proc v i))" "u = upd_proc i (\<lambda>p. p\<lparr>threads := ts, current_thread := c\<rparr>) (v\<lparr>th_status := st\<rparr>)"
    using assms(2) unfolding threads_changed_def by blast
  obtain ts0 st0 c0 where v: "map waits_of ts0 = map waits_of (threads (proc w i))" "v = upd_proc i (\<lambda>p. p\<lparr>threads := ts0, current_thread := c0\<rparr>) (w\<lparr>th_status := st0\<rparr>)"
    using assms(1) unfolding threads_changed_def by blast
  show ?thesis
  proof (cases "i < length (process_list w)")
    case True
    then show ?thesis unfolding threads_changed_def using u v
      by (intro exI [of _ ts] exI [of _ st] exI [of _ c]) (simp add: upd_proc_def proc_def)
  next
    case False
    then show ?thesis unfolding threads_changed_def using u v
      by (intro exI [of _ "threads (proc w i)"] exI [of _ st] exI [of _ c]) (simp add: upd_proc_def list_update_beyond)
  qed
qed

lemma threads_changed_count: "threads_changed i w v \<Longrightarrow> thread_count (proc v j) = thread_count (proc w j)"
  by (auto simp: threads_changed_def)

lemma threads_changed_live: "threads_changed i w v \<Longrightarrow> live v j = live w j"
proof -
  assume "threads_changed i w v"
  then have "pid (proc v j) = pid (proc w j)" by (auto simp: threads_changed_def)
  then show ?thesis by (simp add: live_def)
qed

lemma thread_loop_result:
  assumes "thread_loop i k w = Some r"
  shows "k < thread_count (proc w i) \<longrightarrow> (\<forall>x w'. r = Inr (x, w') \<longrightarrow>
    threads_changed i w w' \<and> current_thread (proc w' i) = current_thread (proc w i) \<and> (\<forall>j. x = Some j \<longrightarrow> j < thread_count (proc w i)))"
proof (induction rule: thread_loop.raw_induct [OF _ assms])
  case (1 loop i k w r)
  show ?case
  proof (intro impI)
    assume k: "k < thread_count (proc w i)"
    show "\<forall>x w'. r = Inr (x, w') \<longrightarrow> threads_changed i w w' \<and>
        current_thread (proc w' i) = current_thread (proc w i) \<and> (\<forall>j. x = Some j \<longrightarrow> j < thread_count (proc w i))"
    proof (cases "k \<ge> MAX_THREADS \<or> can_run w i k")
      case True
      then show ?thesis using 1(2) k threads_changed_refl [of i w] by (auto split: if_splits)
    next
      case False
      show ?thesis
      proof (cases "examine_thread w i k")
        case (Inl e)
        then show ?thesis using 1(2) False by auto
      next
        case (Inr bw)
        obtain b v where bv: "bw = (b, v)" by (cases bw)
        have ch: "threads_changed i w v" using examine_thread_changes Inr bv by simp
        note tc = threads_changed_count [OF ch, of i]
        have cur: "current_thread (proc v i) = current_thread (proc w i)" using examine_thread_current Inr bv by simp
        have nk: "next_index v i k < thread_count (proc v i)" using k tc by (simp add: next_index_def)
        show ?thesis
        proof (cases "b \<or> next_index v i k = current_thread (proc v i)")
          case True
          then show ?thesis using 1(2) False Inr bv ch k cur by (auto split: if_splits)
        next
          case False
          then have "loop i (next_index v i k) v = Some r" using 1(2) \<open>\<not> (k \<ge> MAX_THREADS \<or> can_run w i k)\<close> Inr bv by simp
          then show ?thesis using 1(1) nk tc cur threads_changed_trans [OF ch] by metis
        qed
      qed
    qed
  qed
qed

lemma threads_changed_ok:
  assumes "threads_changed i w w'" and "table_ok w" and "live w i" and "current_thread (proc w' i) < thread_count (proc w i)"
  shows "table_ok w' \<and> live w' i"
proof -
  obtain ts st c where c: "map waits_of ts = map waits_of (threads (proc w i))" "w' = upd_proc i (\<lambda>p. p\<lparr>threads := ts, current_thread := c\<rparr>) (w\<lparr>th_status := st\<rparr>)"
    using assms(1) unfolding threads_changed_def by blast
  have i: "i < MAX_PROCESSES" "i < length (process_list w)" "shape (proc w i)" using assms(2,3) by (auto simp: live_def table_ok_def)
  have "table_ok (w\<lparr>th_status := st\<rparr>)" using assms(2) table_ok_cong [of "w\<lparr>th_status := st\<rparr>" w] by simp
  moreover have "length ts = length (threads (proc w i))" using c(1) by (rule map_eq_imp_length_eq)
  ultimately have "table_ok w'" unfolding c(2) using i c assms(4) by (intro table_ok_upd) (auto simp: shape_def files_ok_def)
  then show ?thesis using c(2) i assms(3) by (simp add: live_def)
qed

lemma sched_thread_keeps:
  assumes "sched_thread i w = Inr (b, w')" and "table_ok w" and "live w i"
  shows "table_ok w' \<and> threads_changed i w w'"
proof -
  have sh: "current_thread (proc w i) < thread_count (proc w i)" "i < length (process_list w)"
    using assms(2,3) by (auto simp: table_ok_def shape_def live_def)
  let ?k = "next_index w i (current_thread (proc w i))"
  have k: "?k < thread_count (proc w i)" using sh by (simp add: next_index_def)
  obtain r v where r: "thread_loop i ?k w = Some (Inr (r, v))" using assms(1) by (auto simp: sched_thread_def split: option.splits sum.splits)
  then have v: "threads_changed i w v" "current_thread (proc v i) = current_thread (proc w i)" "\<forall>j. r = Some j \<longrightarrow> j < thread_count (proc w i)" using thread_loop_result k by blast+
  show ?thesis
  proof (cases r)
    case None
    then have "w' = v" using assms(1) r by (simp add: sched_thread_def)
    then show ?thesis using threads_changed_ok [OF v(1) assms(2,3)] v(1,2) sh by simp
  next
    case (Some j)
    then have w': "w' = set_thread_status i j THREAD_STATUS_RUNNING (upd_proc i (\<lambda>p. p\<lparr>current_thread := j\<rparr>) v)"
      using assms(1) r by (simp add: sched_thread_def)
    have "threads_changed i w (upd_proc i (\<lambda>p. p\<lparr>current_thread := j\<rparr>) v)"
      by (rule threads_changed_current [OF v(1)])
    then have c: "threads_changed i w w'" unfolding w' set_thread_status_eq by (rule threads_changed_status)
    have "length (process_list v) = length (process_list w)" using v(1) by (auto simp: threads_changed_def)
    then have "current_thread (proc w' i) = j" using sh by (simp add: w' set_thread_status_eq)
    then show ?thesis using threads_changed_ok [OF c assms(2,3)] v(3) Some c by simp
  qed
qed

lemma table_ok_proc: "table_ok w \<Longrightarrow> i < MAX_PROCESSES \<Longrightarrow> shape (proc w i)"
  by (simp add: table_ok_def)

lemma queue_loop_keeps:
  assumes "queue_loop is q w = Inr (q', w')" and "table_ok w" and "set is \<subseteq> {..<MAX_PROCESSES}"
    and "\<forall>l. \<forall>i \<in> set (q l). live w i"
  shows "table_ok w' \<and> (\<forall>l. \<forall>i \<in> set (q' l). live w' i)"
  using assms
proof (induction "is" arbitrary: q w)
  case (Cons i "is")
  show ?case
  proof (cases "pid (proc w i) = -1")
    case False
    let ?w1 = "upd_proc i (\<lambda>p. p\<lparr>current_nice := age (current_nice p)\<rparr>) w"
    let ?l = "nat (current_nice (proc ?w1 i))"
    obtain ql where ql: "insert_in_prio_queue ?w1 (q ?l) i = Inr ql" "queue_loop is (q(?l := ql)) ?w1 = Inr (q', w')"
      using Cons.prems(1) False by (auto simp: res_bind_Inr_iff Let_def simp del: proc_upd_proc)
    have lv: "live ?w1 j = live w j" for j by (simp add: live_def)
    have "set ql = insert i (set (q ?l))"
      using ql(1) by (auto simp: insert_in_prio_queue_def Let_def split: if_splits)
    moreover have "live w i" using False Cons.prems(3) by (simp add: live_def)
    ultimately have "\<forall>l. \<forall>j \<in> set ((q(?l := ql)) l). live ?w1 j" unfolding lv using Cons.prems(4) by simp
    moreover have "table_ok ?w1" using Cons.prems(2,3) table_ok_proc [of w i]
      by (intro table_ok_upd) (auto simp: shape_def files_ok_def)
    ultimately show ?thesis using Cons.IH [OF ql(2)] Cons.prems(3) by auto
  qed (use Cons in auto)
qed simp

lemma pick_loop_keeps:
  assumes "pick_loop is w = Inr (r, w')" and "table_ok w" and "\<forall>i \<in> set is. live w i"
  shows "table_ok w' \<and> (\<forall>i. r = Some i \<longrightarrow> live w' i)"
  using assms
proof (induction "is" arbitrary: w)
  case (Cons i "is")
  obtain b v where v: "sched_thread i w = Inr (b, v)" "(if b then Inr (Some i, v) else pick_loop is v) = Inr (r, w')"
    using Cons.prems(1) by (auto simp: res_bind_Inr_iff)
  have k: "table_ok v" "threads_changed i w v" using sched_thread_keeps [OF v(1)] Cons.prems by simp_all
  then have "live v j = live w j" for j by (intro threads_changed_live)
  then show ?case using v(2) k(1) Cons.IH [of v] Cons.prems(3) by (auto split: if_splits)
qed simp

lemma sched_keeps:
  assumes "sched w = Inr (r, w')" and "table_ok w"
  shows "table_ok w'"
proof (cases "postpone_task_switches_counter w = 0")
  case False
  then show ?thesis using assms by (auto simp: sched_def intro: table_ok_cong [THEN iffD2, rotated])
next
  case True
  then obtain q w1 i w2 where s: "queue_loop [0..<MAX_PROCESSES] (\<lambda>_. []) w = Inr (q, w1)"
    "pick_loop (concat (map q [0..<PROCESS_PRIORITIES])) w1 = Inr (Some i, w2)"
    "w' = (upd_proc i (\<lambda>p. p\<lparr>last_scheduled := get_ticks_since_boot w2, current_nice := nice p\<rparr>) w2)\<lparr>current_process := Some i\<rparr>"
    using assms(1) by (auto simp: sched_def res_bind_Inr_iff split: option.splits)
  have q: "table_ok w1" "\<forall>l. \<forall>i \<in> set (q l). live w1 i" using queue_loop_keeps [OF s(1) assms(2)] by (simp_all add: subset_iff)
  then have p: "table_ok w2" "live w2 i" using pick_loop_keeps [OF s(2)] by auto
  let ?w3 = "upd_proc i (\<lambda>p. p\<lparr>last_scheduled := get_ticks_since_boot w2, current_nice := nice p\<rparr>) w2"
  have "table_ok ?w3" using p table_ok_proc [of w2 i] by (intro table_ok_upd) (auto simp: shape_def files_ok_def live_def)
  then show ?thesis unfolding s(3) by (rule table_ok_current) (use p(2) in \<open>simp add: live_def\<close>)
qed

section \<open>The other operations keep it\<close>

lemma table_ok_thread: "table_ok w \<Longrightarrow> i < MAX_PROCESSES \<Longrightarrow> table_ok (upd_thread i k f w)"
  unfolding upd_thread_def using table_ok_proc [of w i] by (intro table_ok_upd) (auto simp: shape_def files_ok_def)

lemma awake_loop_keeps: "awake_loop ks j n s w = Inr w' \<Longrightarrow> table_ok w \<Longrightarrow> j < MAX_PROCESSES \<Longrightarrow> table_ok w'"
proof (induction ks arbitrary: w)
  case (Cons k ks)
  show ?case
  proof (cases "waiting (threads (proc w j) ! k) = 1")
    case True
    then obtain v where "wakeup SLEEP_WAITPID (upd_thread j k (\<lambda>t. t\<lparr>waiting := 2, waitpid_status := s, waitpid_pid := n\<rparr>) w) = Inr v"
      "awake_loop ks j n s v = Inr w'" using Cons.prems(1) by (auto simp: res_bind_Inr_iff)
    then show ?thesis using Cons.IH Cons.prems(2,3) table_ok_thread table_ok_cong wakeup_list by metis
  qed (use Cons in auto)
qed simp

lemma filter_update_length:
  "i < length xs \<Longrightarrow>
    length (filter P (xs[i := v])) + (if P (xs ! i) then 1 else 0) = length (filter P xs) + (if P v then 1 else 0)"
proof (induction xs arbitrary: i)
  case (Cons x xs)
  show ?case
  proof (cases i)
    case (Suc k)
    then show ?thesis using Cons.IH [of k] Cons.prems by simp
  qed simp
qed simp

lemma remove_open_file_keeps:
  assumes "remove_open_file p fd = Inr p'" and "shape p" and "pid p \<noteq> -1"
  shows "shape p' \<and> pid p' = pid p"
proof -
  have p': "p' = p\<lparr>open_files := (open_files p)[nat fd := -1], open_files_count := open_files_count p - 1\<rparr>" "0 \<le> fd"
    "nat fd < MAX_OPEN_FILES" "open_files p ! nat fd \<noteq> -1"
    using assms(1) by (auto simp: remove_open_file_def split: if_splits)
  have "files_ok p" using assms(2,3) by (simp add: shape_def)
  then have "files_ok p'"
    using p' filter_update_length [of "nat fd" "open_files p" "\<lambda>f. f \<noteq> -1" "-1"] by (auto simp: files_ok_def)
  then show ?thesis using assms(2) p'(1) by (simp add: shape_def)
qed

lemma add_open_file_result:
  assumes "add_open_file p fd = Inr (n, p')"
  obtains i where "n = int i" "i < MAX_OPEN_FILES" "open_files p ! i = -1" "\<forall>j < i. open_files p ! j \<noteq> -1" "0 \<le> fd"
    "p' = p\<lparr>open_files := (open_files p)[i := fd], open_files_count := open_files_count p + 1\<rparr>"
  using assms by (fastforce simp: add_open_file_def find_Some_iff split: if_splits option.splits)

lemma add_open_file_files:
  assumes "add_open_file p fd = Inr (n, p')" and "files_ok p"
  shows "files_ok p'" and "\<exists>fs c. p' = p\<lparr>open_files := fs, open_files_count := c\<rparr>"
proof -
  obtain i where i: "i < MAX_OPEN_FILES" "open_files p ! i = -1" "0 \<le> fd"
    "p' = p\<lparr>open_files := (open_files p)[i := fd], open_files_count := open_files_count p + 1\<rparr>"
    using add_open_file_result [OF assms(1)] by metis
  then show "files_ok p'" using assms(2) filter_update_length [of i "open_files p" "\<lambda>f. f \<noteq> -1" fd] by (auto simp: files_ok_def)
  show "\<exists>fs c. p' = p\<lparr>open_files := fs, open_files_count := c\<rparr>" using i(4) by blast
qed

lemma add_open_file_keeps:
  assumes "add_open_file p fd = Inr (n, p')" and "shape p" and "pid p \<noteq> -1"
  shows "shape p' \<and> pid p' = pid p"
  using add_open_file_files [OF assms(1)] assms(2,3) by (auto simp: shape_def)

lemma dup_loop_keeps:
  assumes "dup_loop dup fds p s = Inr (p', s')" and "files_ok p"
  shows "files_ok p' \<and> (\<exists>fs c. p' = p\<lparr>open_files := fs, open_files_count := c\<rparr>)"
  using assms
proof (induction fds arbitrary: p s)
  case Nil
  then show ?case by (intro conjI exI [of _ "open_files p"] exI [of _ "open_files_count p"]) simp_all
next
  case (Cons fd fds)
  obtain nfd s1 where d: "dup fd s = (nfd, s1)" by (cases "dup fd s")
  show ?case
  proof (cases "fd = -1 \<or> nfd < 0")
    case True
    then show ?thesis using Cons d by (auto split: if_splits)
  next
    case False
    then obtain n p1 where p1: "add_open_file p nfd = Inr (n, p1)" "dup_loop dup fds p1 s1 = Inr (p', s')"
      using Cons.prems(1) d by (auto simp: res_bind_Inr_iff)
    then obtain fs c where "files_ok p'" "p' = p1\<lparr>open_files := fs, open_files_count := c\<rparr>"
      using Cons.IH add_open_file_files(1) Cons.prems(2) by blast
    moreover obtain fs0 c0 where "p1 = p\<lparr>open_files := fs0, open_files_count := c0\<rparr>"
      using add_open_file_files(2) [OF p1(1) Cons.prems(2)] by blast
    ultimately show ?thesis by (intro conjI exI [of _ fs] exI [of _ c]) simp_all
  qed
qed

lemma duplicate_fds_keeps:
  assumes "duplicate_fds dup par child s = Inr (n, child', s')"
  shows "files_ok child' \<and> (\<exists>fs c. child' = child\<lparr>open_files := fs, open_files_count := c\<rparr>)"
proof -
  let ?c0 = "child\<lparr>open_files := replicate MAX_OPEN_FILES (-1), open_files_count := 0\<rparr>"
  have d: "dup_loop dup (open_files par) ?c0 s = Inr (child', s')"
    using assms by (auto simp: duplicate_fds_def res_bind_Inr_iff Let_def split: if_splits)
  have f: "files_ok ?c0" by (simp add: files_ok_def)
  obtain fs c where "files_ok child'" "child' = ?c0\<lparr>open_files := fs, open_files_count := c\<rparr>"
    using dup_loop_keeps [OF d f] by blast
  then show ?thesis by (intro conjI exI [of _ fs] exI [of _ c]) simp_all
qed

lemma awake_parent_keeps: "awake_parent i s w = Inr w' \<Longrightarrow> table_ok w \<Longrightarrow> i < MAX_PROCESSES \<Longrightarrow> table_ok w'"
  using table_ok_proc [of w i] by (auto simp: awake_parent_def shape_def intro: awake_loop_keeps split: option.splits)

lemma delete_process_keeps: "table_ok w \<Longrightarrow> table_ok (delete_process i w)"
  unfolding delete_process_def Let_def
  by (rule table_ok_upd) (auto simp: shape_def null_process_def MAX_PROCESSES_def intro: table_ok_cong [THEN iffD2, rotated])

lemma report_child_keeps: "report_child i c opts n w = Some (r, s, w') \<Longrightarrow> table_ok w \<Longrightarrow> table_ok w'"
  by (auto simp: report_child_def delete_process_keeps split: if_splits)

lemma children_loop_keeps: "children_loop cs i opts w = Some (r, s, w') \<Longrightarrow> table_ok w \<Longrightarrow> table_ok w'"
  by (induction cs) (auto simp: report_child_keeps split: if_splits option.splits)

lemma waitpid_resume_keeps:
  assumes "waitpid_resume i k n opts w = Inr (r, w')" and "table_ok w"
  shows "table_ok w'"
proof (cases "waiting (threads (proc w i) ! k) = 1")
  case True
  then have "sleep (thread_addr w i k) SLEEP_WAITPID w = Inr w'" using assms(1) by (auto simp: waitpid_resume_def res_bind_Inr_iff)
  then show ?thesis using sleep_list table_ok_cong assms(2) by blast
next
  case False
  then obtain a b where "waitpid_collect i n opts w = Inr (a, b, w')" using assms(1) by (auto simp: waitpid_resume_def res_bind_Inr_iff)
  then show ?thesis using assms(2) children_loop_keeps report_child_keeps
    by (auto simp: waitpid_collect_def Let_def split: if_splits option.splits)
qed

lemma waitpid_begin_keeps:
  "waitpid_begin i k n a opts w = Inr (r, w') \<Longrightarrow> table_ok w \<Longrightarrow> i < MAX_PROCESSES \<Longrightarrow> table_ok w'"
  unfolding waitpid_begin_def using waitpid_resume_keeps table_ok_thread by blast

lemma exit_keeps:
  assumes "exit i code w = Inr (r, w')" and "table_ok w" and "i < MAX_PROCESSES"
  shows "table_ok w'"
proof -
  let ?w2 = "upd_proc i (\<lambda>p. p\<lparr>exit_code := code, global_status := PROCESS_STATUS_ZOMBIE\<rparr>) (end_threads i [0..<thread_count (proc w i)] w)"
  obtain v where v: "awake_parent i (create_waitpid_status WREASON_EXIT code) ?w2 = Inr v" "sched v = Inr (r, w')"
    using assms(1) by (auto simp: exit_def Let_def res_bind_Inr_iff)
  have "table_ok ?w2" using assms(2,3) table_ok_proc [of "end_threads i [0..<thread_count (proc w i)] w" i]
    by (intro table_ok_upd) (auto simp: shape_def files_ok_def)
  then show ?thesis using awake_parent_keeps [OF v(1)] sched_keeps [OF v(2)] assms(3) by simp
qed

lemma thread_exit_keeps: "thread_exit i k w = Inr (r, w') \<Longrightarrow> table_ok w \<Longrightarrow> table_ok w'"
  unfolding thread_exit_def by (drule sched_keeps) simp_all

lemma run_postponed_keeps:
  assumes "run_postponed w = Inr w'" and "table_ok w"
  shows "table_ok w'"
proof (cases "postpone_task_switches_counter w = 0 \<and> task_switches_postponed_flag w \<noteq> 0")
  case True
  then obtain r where "sched (w\<lparr>task_switches_postponed_flag := 0\<rparr>) = Inr (r, w')"
    using assms(1) by (auto simp: run_postponed_def res_bind_Inr_iff)
  then show ?thesis by (rule sched_keeps) (use assms(2) table_ok_cong [of "w\<lparr>task_switches_postponed_flag := 0\<rparr>" w] in simp)
next
  case False
  then have "w' = w" using assms(1) by (simp only: run_postponed_def if_False sum.inject)
  then show ?thesis using assms(2) by simp
qed

lemma unlock_scheduler_keeps:
  assumes "unlock_scheduler w = Inr w'" and "table_ok w"
  shows "table_ok w'"
proof -
  let ?w1 = "w\<lparr>postpone_task_switches_counter := postpone_task_switches_counter w - 1\<rparr>"
  obtain v where v: "run_postponed ?w1 = Inr v" "w' = enable_irq v"
    using assms(1) unfolding unlock_scheduler_def by (cases "run_postponed ?w1") simp_all
  have "table_ok ?w1" using assms(2) table_ok_cong [of ?w1 w] by simp
  then have "table_ok v" using run_postponed_keeps [OF v(1)] by simp
  then show ?thesis using table_ok_cong [of w' v] v(2) by (simp add: enable_irq_def Let_def)
qed

lemma table_ok_signals: "table_ok w \<Longrightarrow> i < MAX_PROCESSES \<Longrightarrow> table_ok (upd_proc i (\<lambda>p. p\<lparr>signal_queue := q\<rparr>) w)"
  using table_ok_proc [of w i] by (intro table_ok_upd) (auto simp: shape_def files_ok_def)

lemma take_signal_keeps:
  assumes "take_signal i s m w = Inr (n, w')" and "table_ok w" and "i < MAX_PROCESSES"
  shows "table_ok w'"
proof -
  obtain r x q where d: "dequeue_signal (Some (signal_queue (proc w i))) s = Inr (r, x, q)"
    "(case x of None \<Rightarrow> Inl (Panic m) | Some n \<Rightarrow> Inr (n, upd_proc i (\<lambda>p. p\<lparr>signal_queue := q\<rparr>) w)) = Inr (n, w')"
    using assms(1) unfolding take_signal_def res_bind_Inr_iff by (auto split: prod.splits)
  then have "w' = upd_proc i (\<lambda>p. p\<lparr>signal_queue := q\<rparr>) w" by (cases x) simp_all
  then show ?thesis using table_ok_signals [OF assms(2,3)] by simp
qed

lemma select_signal_keeps:
  assumes "select_signal i k w = Inr (n, h, w')" and "table_ok w" and "i < MAX_PROCESSES"
  shows "table_ok w'"
proof (cases "unsuspend_signal (threads (proc w i) ! k) = 0")
  case True
  then obtain r where "(case r of None \<Rightarrow> Inr (0, w) | Some s \<Rightarrow> take_signal i s ''Scheduler error: signal not found'' w) = Inr (n, w')"
    using assms(1) by (auto simp: select_signal_def Let_def res_bind_Inr_iff split: if_splits)
  then show ?thesis using take_signal_keeps assms(2,3) by (auto split: option.splits)
next
  case False
  let ?s = "unsuspend_signal (threads (proc w i) ! k)"
  obtain n1 w1 where "take_signal i ?s ''Scheduler error: unsuspend signal not found'' w = Inr (n1, w1)"
    "w' = upd_thread i k (\<lambda>t. t\<lparr>unsuspend_signal := 0, th_sigprocmask := sigsuspend_mask t, sigsuspend_mask := 0\<rparr>) w1"
    using assms(1) False by (auto simp: select_signal_def Let_def res_bind_Inr_iff in_array_def split: if_splits)
  then show ?thesis using take_signal_keeps table_ok_thread assms(2,3) by blast
qed

lemma find_Some_in: "List.find P xs = Some x \<Longrightarrow> x \<in> set xs \<and> P x"
  by (induction xs) (auto split: if_splits)

lemma free_slot: "get_free_process_slot w = Some i \<Longrightarrow> i < MAX_PROCESSES \<and> pid (proc w i) = -1"
  by (auto simp: get_free_process_slot_def find_Some_iff)

lemma next_pid_fresh:
  assumes "get_next_pid w \<noteq> -1" and "j < MAX_PROCESSES"
  shows "pid (proc w j) \<noteq> get_next_pid w" and "1 \<le> get_next_pid w" and "get_next_pid w < int MAX_PROCESSES"
proof -
  obtain n where n: "List.find (\<lambda>npid. \<not> list_ex (\<lambda>i. pid (proc w i) = int npid) [0..<MAX_PROCESSES]) [1..<MAX_PROCESSES] = Some n"
    "get_next_pid w = int n" using assms(1) by (auto simp: get_next_pid_def split: option.splits)
  have "n \<in> set [1..<MAX_PROCESSES]" "\<not> list_ex (\<lambda>i. pid (proc w i) = int n) [0..<MAX_PROCESSES]"
    using find_Some_in [OF n(1)] by blast+
  then show "pid (proc w j) \<noteq> get_next_pid w" "1 \<le> get_next_pid w" "get_next_pid w < int MAX_PROCESSES"
    using assms(2) n(2) by (auto simp: list_ex_iff)
qed

text \<open>A slot that is filled with a process whose identifier is new.\<close>

lemma table_ok_filled:
  assumes "table_ok w" and "i < MAX_PROCESSES" and "pid (proc w i) = -1" and "shape p" and "process_list w' = (process_list w)[i := p]"
    and "current_process w' = current_process w" and "\<forall>j < MAX_PROCESSES. j \<noteq> i \<longrightarrow> pid (proc w j) \<noteq> pid p \<or> pid p = -1"
  shows "table_ok w'"
proof -
  have "table_ok (upd_proc i (\<lambda>_. p) w)" using assms by (intro table_ok_new) (auto simp: live_def)
  then show ?thesis by (rule table_ok_cong [THEN iffD2, rotated 2]) (use assms(5,6) in \<open>simp_all add: upd_proc_def\<close>)
qed

lemma create_user_process_effect:
  assumes "create_user_process pd vd fds ok us ks uctx kctx w = Inr (i, w')" and "table_ok w"
  obtains p where "i < MAX_PROCESSES" and "pid (proc w i) = -1" and "shape p" and "process_list w' = (process_list w)[i := p]"
    and "current_process w' = current_process w" and "pid p \<ge> 1" and "\<forall>j < MAX_PROCESSES. j \<noteq> i \<longrightarrow> pid (proc w j) \<noteq> pid p"
proof -
  obtain s where "get_free_process_slot w = Some s" using assms(1) by (auto simp: create_user_process_def split: option.splits)
  moreover define w1 where "w1 = clear_statuses s [0..<MAX_THREADS]
    (upd_proc s (\<lambda>_. null_process\<lparr>vmm := pd, nice := 10, current_nice := 10\<rparr>) (w\<lparr>process_count := process_count w + 1\<rparr>))"
  moreover define p where "p = (proc w1 s)\<lparr>pid := get_next_pid w1, parent := get_current_process w1,
    ppid := (case get_current_process w1 of None \<Rightarrow> 0 | Some j \<Rightarrow> pid (proc w1 j)),
    open_files := replicate MAX_OPEN_FILES (-1), open_files_count := 0\<rparr>"
  ultimately obtain p1 where c: "get_next_pid w1 \<ge> 0" "open_stdfiles (fst fds) (fst (snd fds)) (snd (snd fds)) ok p = Inr p1"
    "init_thread s us ks uctx kctx (upd_proc s (\<lambda>_. p1\<lparr>vdso := vd\<rparr>) w1) = Inr w'" and slot: "get_free_process_slot w = Some s" "i = s"
    using assms(1) unfolding create_user_process_def by (auto simp: res_bind_Inr_iff Let_def split: if_splits)
  have s: "s < MAX_PROCESSES" "pid (proc w s) = -1" "s < length (process_list w)" using free_slot [OF slot(1)] assms(2) by (auto simp: table_ok_def)
  have l1: "process_list w1 = (process_list w)[s := null_process\<lparr>vmm := pd, nice := 10, current_nice := 10\<rparr>]" "current_process w1 = current_process w"
    by (simp_all add: w1_def upd_proc_def)
  then have q1: "proc w1 s = null_process\<lparr>vmm := pd, nice := 10, current_nice := 10\<rparr>" "\<And>j. j \<noteq> s \<Longrightarrow> proc w1 j = proc w j"
    using s(3) by (simp_all add: proc_def)
  have p1: "p1 = p\<lparr>open_files := (replicate MAX_OPEN_FILES (-1))[0 := fst fds, 1 := fst (snd fds), 2 := snd (snd fds)], open_files_count := 3\<rparr>"
    "0 \<le> fst fds" "0 \<le> fst (snd fds)" "0 \<le> snd (snd fds)"
    using c(2) by (auto simp: open_stdfiles_def p_def split: if_splits)
  define t where "t = null_thread\<lparr>ustack := us, kstack := ks, user_context := Some uctx, kernel_context := Some kctx, thread_id := 0\<rparr>"
  define p2 where "p2 = p1\<lparr>vdso := vd, thread_count := 1, threads := (threads p1)[0 := t]\<rparr>"
  have tc: "thread_count p1 = 0" by (simp add: p1(1) p_def q1 null_process_def)
  have w': "process_list w' = (process_list w)[s := p2]" "current_process w' = current_process w"
    using c(3) s(3) l1 tc unfolding init_thread_def t_def p2_def by (auto simp: Let_def upd_proc_def proc_def MAX_THREADS_def split: if_splits)
  have sh: "shape p2" using p1 c(1) next_pid_fresh(3) [of w1 0] assms(2) l1(2) s
    by (auto simp: p2_def p_def q1 shape_def files_ok_def null_process_def get_current_process_def table_ok_def MAX_OPEN_FILES_def
        MAX_THREADS_def MAX_PROCESSES_def eval_nat_numeral)
  have "pid p2 = get_next_pid w1" by (simp add: p2_def p1(1) p_def)
  then have "pid (proc w j) \<noteq> pid p2" if "j < MAX_PROCESSES" "j \<noteq> s" for j
    using next_pid_fresh(1) [of w1 j] q1(2) [of j] c(1) that by simp
  moreover have "pid p2 \<ge> 1" using \<open>pid p2 = get_next_pid w1\<close> next_pid_fresh(2) [of w1 0] c(1) s by auto
  ultimately show ?thesis using that sh s(1,2) w' slot(2) by blast
qed

lemma create_user_process_keeps:
  assumes "create_user_process pd vd fds ok us ks uctx kctx w = Inr (i, w')" and "table_ok w"
  shows "table_ok w'"
proof -
  obtain p where p: "i < MAX_PROCESSES" "pid (proc w i) = -1" "shape p" "process_list w' = (process_list w)[i := p]"
    "current_process w' = current_process w" "\<forall>j < MAX_PROCESSES. j \<noteq> i \<longrightarrow> pid (proc w j) \<noteq> pid p"
    by (rule create_user_process_effect [OF assms])
  show ?thesis by (rule table_ok_filled [OF assms(2) p(1-5)]) (use p(6) in simp)
qed

lemma fork_keeps:
  assumes "fork dup pd vd uctx kctx par k w s = Inr (n, w', s')" and "table_ok w" and "par < MAX_PROCESSES"
  shows "table_ok w'"
proof -
  obtain i w1 where d: "duplicate_process dup pd vd uctx kctx par k w s = Inr (i, w1, s')" "w' = set_thread_status i 0 THREAD_STATUS_READY w1"
    using assms(1) by (auto simp: fork_def res_bind_Inr_iff)
  define v where "v = w\<lparr>process_count := process_count w + 1\<rparr>"
  define pp where "pp = proc v par"
  define t where "t = (threads pp ! k)\<lparr>user_context := Some uctx, kernel_context := Some kctx\<rparr>"
  define w2 where "w2 = set_thread_status i 0 (thread_status v par k) (clear_statuses i [0..<MAX_THREADS] (upd_proc i (\<lambda>_. pp) v))"
  define child where "child = pp\<lparr>thread_count := 1, vdso := vd, current_thread := 0, pid := get_next_pid w2, current_nice := nice pp,
    exit_code := 0, ppid := pid pp, parent := Some par, threads := (replicate MAX_THREADS null_thread)[0 := t], vmm := pd\<rparr>"
  obtain m child1 where c: "get_free_process_slot w = Some i" "duplicate_fds dup pp child s = Inr (m, child1, s')" "w1 = upd_proc i (\<lambda>_. child1) w2"
    using d(1) unfolding duplicate_process_def v_def pp_def t_def w2_def child_def
    by (auto simp: res_bind_Inr_iff Let_def split: if_splits option.splits)
  have i: "i < MAX_PROCESSES" "pid (proc w i) = -1" "i < length (process_list w)" using free_slot [OF c(1)] assms(2) by (auto simp: table_ok_def)
  have l2: "process_list w2 = (process_list w)[i := pp]" "current_process w2 = current_process w"
    by (simp_all add: w2_def v_def upd_proc_def)
  then have q2: "j \<noteq> i \<Longrightarrow> proc w2 j = proc w j" for j by (simp add: proc_def)
  have w': "process_list w' = (process_list w)[i := child1]" "current_process w' = current_process w"
    using d(2) c(3) l2 by (simp_all add: upd_proc_def)
  obtain fs x where f: "files_ok child1" "child1 = child\<lparr>open_files := fs, open_files_count := x\<rparr>" using duplicate_fds_keeps [OF c(2)] by blast
  have pd: "pid child1 = get_next_pid w2" by (simp add: f(2) child_def)
  have "get_next_pid w2 = -1 \<or> 1 \<le> get_next_pid w2 \<and> get_next_pid w2 < int MAX_PROCESSES" using next_pid_fresh(2,3) [of w2 0] i(1) by auto
  then have sh: "shape child1" using f assms(3) by (auto simp: shape_def child_def MAX_THREADS_def MAX_PROCESSES_def)
  have "pid (proc w j) \<noteq> pid child1 \<or> pid child1 = -1" if "j < MAX_PROCESSES" "j \<noteq> i" for j
    using next_pid_fresh(1) [of w2 j] q2 [of j] pd that by auto
  then show ?thesis by (intro table_ok_filled [OF assms(2) i(1,2) sh w']) simp
qed

section \<open>Every reachable table is well-formed\<close>

text \<open>The kernel before \<open>init_process\<close>: the table is zeroed.\<close>

definition boot_kernel :: kernel where
  "boot_kernel =
     \<lparr>boot_epoch = 0, hertz = 100, timer_ticks = 0, timer_subticks = 0, preemption_ticks = 0, preemption_enabled = 0, alarms = [],
      squeues = [], th_status = (\<lambda>_. 0), rem_spec = (\<lambda>_. \<lparr>tv_sec = 0, tv_nsec = 0\<rparr>),
      process_list = replicate MAX_PROCESSES null_process, current_process = None, process_count = 0,
      postpone_task_switches_counter = 0, task_switches_postponed_flag = 0, IRQ_disable_counter = 0, interrupts_on = True,
      process_base = 0xffffffff80100000, released = []\<rparr>"

inductive kernel_step :: "kernel \<Rightarrow> kernel \<Rightarrow> bool" where
  open_file: "live w i \<Longrightarrow> add_open_file (proc w i) fd = Inr (n, p) \<Longrightarrow> kernel_step w (upd_proc i (\<lambda>_. p) w)"
| close_file: "live w i \<Longrightarrow> remove_open_file (proc w i) fd = Inr p \<Longrightarrow> kernel_step w (upd_proc i (\<lambda>_. p) w)"
| forks: "live w i \<Longrightarrow> fork (dup :: int \<Rightarrow> nat \<Rightarrow> int \<times> nat) pd vd uctx kctx i k w s = Inr (n, w', s') \<Longrightarrow> kernel_step w w'"
| schedules: "sched w = Inr (r, w') \<Longrightarrow> kernel_step w w'"
| locks: "kernel_step w (lock_scheduler w)"
| unlocks: "unlock_scheduler w = Inr w' \<Longrightarrow> kernel_step w w'"
| exits: "live w i \<Longrightarrow> exit i code w = Inr (r, w') \<Longrightarrow> kernel_step w w'"
| thread_exits: "live w i \<Longrightarrow> thread_exit i k w = Inr (r, w') \<Longrightarrow> kernel_step w w'"
| waits: "live w i \<Longrightarrow> waitpid_begin i k n a opts w = Inr (r, w') \<Longrightarrow> kernel_step w w'"
| resumes: "live w i \<Longrightarrow> waitpid_resume i k n opts w = Inr (r, w') \<Longrightarrow> kernel_step w w'"
| selects: "live w i \<Longrightarrow> select_signal i k w = Inr (n, h, w') \<Longrightarrow> kernel_step w w'"
| kills: "live w i \<Longrightarrow> kill (Some (signal_queue (proc w i))) n = Inr (r, q) \<Longrightarrow> kernel_step w (upd_proc i (\<lambda>p. p\<lparr>signal_queue := q\<rparr>) w)"
| sleeps: "sleep t c w = Inr w' \<Longrightarrow> kernel_step w w'"
| wakes: "wakeup c w = Inr w' \<Longrightarrow> kernel_step w w'"

lemma live_less: "live w i \<Longrightarrow> i < MAX_PROCESSES \<and> pid (proc w i) \<noteq> -1"
  by (simp add: live_def)

lemma kernel_step_keeps: "kernel_step w w' \<Longrightarrow> table_ok w \<Longrightarrow> table_ok w'"
proof (induction rule: kernel_step.induct)
  case (open_file w i fd n p)
  then show ?case using add_open_file_keeps [OF open_file(2)] table_ok_proc [of w i] live_less [of w i] by (intro table_ok_upd) auto
next
  case (close_file w i fd p)
  then show ?case using remove_open_file_keeps [OF close_file(2)] table_ok_proc [of w i] live_less [of w i] by (intro table_ok_upd) auto
next
  case (locks w)
  then show ?case using table_ok_cong [of "lock_scheduler w" w] by (simp add: lock_scheduler_def)
next
  case (sleeps t c w w')
  then show ?case using sleep_list [OF sleeps(1)] table_ok_cong [of w' w] by simp
next
  case (wakes c w w')
  then show ?case using wakeup_list [OF wakes(1)] table_ok_cong [of w' w] by simp
next
  case (forks w i dup pd vd uctx kctx k s n w' s')
  show ?case by (rule fork_keeps [OF forks(2,3)]) (use live_less [OF forks(1)] in simp)
next
  case schedules
  then show ?case by - (rule sched_keeps)
next
  case unlocks
  then show ?case by - (rule unlock_scheduler_keeps)
next
  case (exits w i code r w')
  then show ?case using exit_keeps [OF exits(2)] live_less [of w i] by simp
next
  case thread_exits
  then show ?case by - (rule thread_exit_keeps)
next
  case (waits w i k n a opts r w')
  then show ?case using waitpid_begin_keeps [OF waits(2)] live_less [of w i] by simp
next
  case resumes
  then show ?case by - (rule waitpid_resume_keeps)
next
  case (selects w i k n h w')
  then show ?case using select_signal_keeps [OF selects(2)] live_less [of w i] by simp
next
  case (kills w i n r q)
  then show ?case using table_ok_signals [of w i q] live_less [of w i] by simp
qed

lemma init_process_ok:
  assumes "init_process pd vd fds ok us ks uctx kctx boot_kernel = Inr w"
  shows "table_ok w"
proof -
  let ?w0 = "boot_kernel\<lparr>postpone_task_switches_counter := 0, task_switches_postponed_flag := 0,
    process_list := map (\<lambda>p. p\<lparr>pid := -1\<rparr>) (process_list boot_kernel), process_count := 0\<rparr>"
  obtain i w1 where c: "create_user_process pd vd fds ok us ks uctx kctx ?w0 = Inr (i, w1)"
    "w = (upd_proc i (\<lambda>p. p\<lparr>pid := 0\<rparr>) w1)\<lparr>current_process := Some i\<rparr>"
    using assms by (auto simp: init_process_def res_bind_Inr_iff)
  have w0: "table_ok ?w0" "\<not> live ?w0 j" for j
    by (auto simp: table_ok_def live_def boot_kernel_def proc_def shape_def null_process_def MAX_PROCESSES_def)
  obtain p where p: "i < MAX_PROCESSES" "shape p" "process_list w1 = (process_list ?w0)[i := p]" "pid p \<ge> 1"
    by (rule create_user_process_effect [OF c(1) w0(1)]) blast
  have t1: "table_ok w1" by (rule create_user_process_keeps [OF c(1) w0(1)])
  have "proc w1 i = p" "\<And>j. j \<noteq> i \<Longrightarrow> proc w1 j = proc ?w0 j" using p(1,3) by (simp_all add: proc_def boot_kernel_def)
  then have "table_ok (upd_proc i (\<lambda>p. p\<lparr>pid := 0\<rparr>) w1)"
    using p w0(2) by (intro table_ok_new [OF t1]) (auto simp: shape_def files_ok_def live_def MAX_PROCESSES_def)
  then show ?thesis unfolding c(2) by (rule table_ok_current) (rule p(1))
qed

text \<open>C5: The process table stays well-formed.  In every state the kernel reaches from start-up by opening and
  closing files, forking, scheduling, exiting, waiting, sending and taking signals, sleeping and waking, the
  identifiers of live processes are distinct and below the table size, every live process has a current thread within its threads
  and the threads within their array, and its count of open files is the number of entries in use.\<close>

theorem process_table_well_formed:
  assumes "init_process pd vd fds ok us ks uctx kctx boot_kernel = Inr w0" and "kernel_step\<^sup>*\<^sup>* w0 w"
  shows "table_ok w"
  using assms(2)
proof (induction rule: rtranclp_induct)
  case base
  show ?case by (rule init_process_ok [OF assms(1)])
next
  case (step v u)
  then show ?case using kernel_step_keeps by blast
qed

definition null_context :: context_t where
  "null_context = \<lparr>ctx_self = 0, ctx_fxsave = 0, ctx_cpu = 0, ctx_info = 0\<rparr>"

lemma MAX_PROCESSES_pos: "0 < MAX_PROCESSES" "1 < MAX_PROCESSES"
  by (simp_all add: MAX_PROCESSES_def)

lemma next_pid_1:
  assumes "\<And>j. j < MAX_PROCESSES \<Longrightarrow> pid (proc w j) \<noteq> 1"
  shows "get_next_pid w = 1"
proof -
  have "[1..<MAX_PROCESSES] = 1 # [2..<MAX_PROCESSES]" using upt_conv_Cons [of 1 MAX_PROCESSES] MAX_PROCESSES_pos(2) by (simp add: numeral_2_eq_2)
  moreover have "\<not> list_ex (\<lambda>i. pid (proc w i) = int 1) [0..<MAX_PROCESSES]" using assms by (auto simp: list_ex_iff)
  ultimately show ?thesis by (simp only: get_next_pid_def find.simps if_True not_False_eq_True option.case of_nat_1)
qed

lemma create_succeeds:
  assumes "get_free_process_slot w = Some i" and "i < length (process_list w)"
    and "w1 = clear_statuses i [0..<MAX_THREADS]
      (upd_proc i (\<lambda>_. null_process\<lparr>vmm := pd, nice := 10, current_nice := 10\<rparr>) (w\<lparr>process_count := process_count w + 1\<rparr>))"
    and "get_next_pid w1 \<ge> 0"
  shows "\<exists>r. create_user_process pd vd (0, 1, 2) True us ks uctx kctx w = Inr r"
proof -
  have p: "proc w1 i = null_process\<lparr>vmm := pd, nice := 10, current_nice := 10\<rparr>" "i < length (process_list w1)"
    using assms(2) by (simp_all add: assms(3) proc_def upd_proc_def)
  then show ?thesis using assms(4) unfolding create_user_process_def assms(1) option.case Let_def assms(3) [symmetric]
    by (simp add: open_stdfiles_def init_thread_def) (simp add: null_process_def MAX_THREADS_def)
qed

lemma boot_succeeds: "\<exists>w. init_process 0 0 (0, 1, 2) True null_stack null_stack null_context null_context boot_kernel = Inr w"
proof -
  let ?w0 = "boot_kernel\<lparr>postpone_task_switches_counter := 0, task_switches_postponed_flag := 0,
    process_list := map (\<lambda>p. p\<lparr>pid := -1\<rparr>) (process_list boot_kernel), process_count := 0\<rparr>"
  let ?w1 = "clear_statuses 0 [0..<MAX_THREADS]
    (upd_proc 0 (\<lambda>_. null_process\<lparr>vmm := 0, nice := 10, current_nice := 10\<rparr>) (?w0\<lparr>process_count := process_count ?w0 + 1\<rparr>))"
  have "proc ?w0 0 = null_process\<lparr>pid := -1\<rparr>" by (simp add: boot_kernel_def proc_def MAX_PROCESSES_def)
  then have slot: "get_free_process_slot ?w0 = Some 0" 
    using upt_conv_Cons [of 0 MAX_PROCESSES] by (simp add: get_free_process_slot_def MAX_PROCESSES_pos)
  have "pid (proc ?w1 j) \<noteq> 1" if "j < MAX_PROCESSES" for j
    using that by (cases j) (simp_all add: proc_def upd_proc_def boot_kernel_def null_process_def)
  then have n: "get_next_pid ?w1 = 1" by (intro next_pid_1) blast
  have "\<exists>r. create_user_process 0 0 (0, 1, 2) True null_stack null_stack null_context null_context ?w0 = Inr r"
    by (rule create_succeeds [OF slot _ refl]) (simp add: boot_kernel_def MAX_PROCESSES_pos, subst n, simp)
  then show ?thesis by (auto simp: init_process_def)
qed

theorem process_table_well_formed_witness:
  "\<exists>w. init_process 0 0 (0, 1, 2) True null_stack null_stack null_context null_context boot_kernel = Inr w \<and> table_ok (lock_scheduler w)"
proof -
  obtain w where w: "init_process 0 0 (0, 1, 2) True null_stack null_stack null_context null_context boot_kernel = Inr w"
    using boot_succeeds by blast
  have "kernel_step\<^sup>*\<^sup>* w (lock_scheduler w)" by (rule r_into_rtranclp) (rule kernel_step.locks)
  then show ?thesis using process_table_well_formed [OF w] w by blast
qed

end
