(* ===== verification/Waiting.thy ===== *)
theory Waiting
  imports Process_Table
begin

text \<open>
  What parents learn of their children: the encoding of a wait status, what \<open>waitpid\<close> reports, the way from \<open>exit\<close>
  of a child to the return of its parent's \<open>waitpid\<close> through the sleep queues and the scheduler, and
  the descriptors a forked child starts with.
\<close>

section \<open>Wait status\<close>

lemma and_low_bits: "(x :: int) AND 0x7f = x mod 128" "x AND 0xff = x mod 256" "x AND 0xffff = x mod 65536"
  using take_bit_eq_mask [of 7 x] take_bit_eq_mask [of 8 x] take_bit_eq_mask [of 16 x]
  by (simp_all add: take_bit_eq_mod mask_eq_exp_minus_1)

lemma status_fields:
  "W_EXITCODE c 0 = 256 * c" "W_EXITCODE 0 s = s" "W_STOPCODE s = 256 * s + 127"
proof -
  show "W_EXITCODE c 0 = 256 * c" "W_EXITCODE 0 s = s" by (simp_all add: W_EXITCODE_def push_bit_eq_mult)
  have "concat_bit 8 127 s = 127 + push_bit 8 s" by (simp add: concat_bit_eq)
  moreover have "concat_bit 8 127 s = 127 OR push_bit 8 s" by (simp add: concat_bit_def)
  ultimately show "W_STOPCODE s = 256 * s + 127" by (simp add: W_STOPCODE_def WSTOPPED_code_def push_bit_eq_mult or.commute)
qed

lemma high_byte: "drop_bit 8 (take_bit 32 x) mod 256 = (x div 256) mod 256" for x :: int
proof -
  have "take_bit 8 (drop_bit 8 (take_bit 32 x)) = take_bit 8 (drop_bit 8 x)"
    by (simp add: drop_bit_take_bit take_bit_take_bit)
  then show ?thesis by (simp add: take_bit_eq_mod drop_bit_eq_div)
qed

lemma status_arith:
  "(256 * s + 127) mod 128 = (127 :: int)" "(256 * s + 127) mod 256 = (127 :: int)" "(256 * s + 127) div 256 = (s :: int)"
  "(256 * s) mod 128 = (0 :: int)"
  using mod_mult_self1 [of "127 :: int" "2 * s" 128] mod_mult_self1 [of "127 :: int" s 256] div_mult_self1 [of "256 :: int" 127 s]
    mod_mult_self1 [of "0 :: int" "2 * s" 128]
  by (simp_all add: algebra_simps)

lemmas status_simps = create_waitpid_status_def wreason_defs WIFEXITED_def WIFSIGNALED_def WIFSTOPPED_def WIFCONTINUED_def
  WEXITSTATUS_def WTERMSIG_def WSTOPSIG_def WSTATUS_def WSTOPPED_code_def WCONTINUED_code_def high_byte and_low_bits



section \<open>What is reported\<close>

definition reportable :: "kernel \<Rightarrow> nat \<Rightarrow> int \<Rightarrow> nat \<Rightarrow> bool" where
  "reportable w i options c \<longleftrightarrow>
     pid (proc w c) \<noteq> -1 \<and> ppid (proc w c) = pid (proc w i) \<and>
     (global_status (proc w c) = PROCESS_STATUS_ZOMBIE \<or>
      global_status (proc w c) = PROCESS_STATUS_SIGSTOP \<and> options AND WUNTRACED \<noteq> 0 \<or>
      global_status (proc w c) = PROCESS_STATUS_SIGCONT \<and> options AND WCONTINUED \<noteq> 0)"

lemma children_loop_find:
  "children_loop cs i options w =
     (case List.find (reportable w i options) cs of
        Some c \<Rightarrow> Some (pid (proc w c), global_status (proc w c),
          if global_status (proc w c) = PROCESS_STATUS_ZOMBIE then delete_process c w else w)
      | None \<Rightarrow> None)"
  by (induction cs) (auto simp: reportable_def report_child_def process_status_defs)

text \<open>C33: Waiting for any child.  Once the thread has been woken, \<open>waitpid\<close> with pid -1 reports the first process of the table that is a child of
  the caller and has exited, or was stopped or continued when the options ask for it; it returns its pid and state, and
  an exited one is deleted.  If there is none the call returns -1 with status 0 under \<open>WNOHANG\<close> and -2 otherwise.\<close>

theorem waitpid_reports_first_child:
  "waitpid_collect i (-1) options w =
     Inr (case List.find (reportable w i options) [0..<MAX_PROCESSES] of
            Some c \<Rightarrow> (pid (proc w c), Some (global_status (proc w c)),
              if global_status (proc w c) = PROCESS_STATUS_ZOMBIE then delete_process c w else w)
          | None \<Rightarrow> if options AND WNOHANG \<noteq> 0 then (-1, Some 0, w) else (-2, None, w))"
  by (simp add: waitpid_collect_def children_loop_find split: option.splits)

text \<open>Waiting for a child that is named.  The child is deleted before its identifier is read for the result, so the caller gets
  -1, which is also the answer for a pid out of range.\<close>

theorem waitpid_by_pid_forgets_child:
  assumes "get_process_by_pid n w = Some c" and "0 \<le> n" and "n < process_count w" and "ppid (proc w c) = pid (proc w i)"
    and "global_status (proc w c) = PROCESS_STATUS_ZOMBIE"
  shows "waitpid_collect i n options w = Inr (-1, Some PROCESS_STATUS_ZOMBIE, delete_process c w)"
  using assms by (auto simp: waitpid_collect_def report_child_def Let_def)


section \<open>From exit to the parent\<close>

definition same_proc :: "process \<Rightarrow> process \<Rightarrow> bool" where
  "same_proc p q \<longleftrightarrow> pid q = pid p \<and> ppid q = ppid p \<and> global_status q = global_status p \<and> exit_code q = exit_code p \<and>
     thread_count q = thread_count p \<and> map waits_of (threads q) = map waits_of (threads p)"

lemma same_proc_trans: "same_proc p q \<Longrightarrow> same_proc q r \<Longrightarrow> same_proc p r"
  by (simp add: same_proc_def)

lemma threads_changed_same: "threads_changed i w w' \<Longrightarrow> same_proc (proc w j) (proc w' j)"
  by (auto simp: threads_changed_def same_proc_def)

lemma queue_loop_same: "queue_loop is q w = Inr (q', w') \<Longrightarrow> same_proc (proc w j) (proc w' j)"
proof (induction "is" arbitrary: q w)
  case (Cons i "is")
  show ?case
  proof (cases "pid (proc w i) = -1")
    case False
    let ?w1 = "upd_proc i (\<lambda>p. p\<lparr>current_nice := age (current_nice p)\<rparr>) w"
    obtain q1 where "queue_loop is q1 ?w1 = Inr (q', w')"
      using Cons.prems False by (auto simp: res_bind_Inr_iff Let_def simp del: proc_upd_proc)
    then have "same_proc (proc ?w1 j) (proc w' j)" by (rule Cons.IH)
    moreover have "same_proc (proc w j) (proc ?w1 j)" by (simp add: same_proc_def)
    ultimately show ?thesis by (rule same_proc_trans [rotated])
  qed (use Cons in simp)
qed (simp add: same_proc_def)

lemma pick_loop_same:
  assumes "pick_loop is w = Inr (r, w')" and "table_ok w" and "\<forall>i \<in> set is. live w i"
  shows "same_proc (proc w j) (proc w' j)"
  using assms
proof (induction "is" arbitrary: w)
  case (Cons i "is")
  obtain b v where v: "sched_thread i w = Inr (b, v)" "(if b then Inr (Some i, v) else pick_loop is v) = Inr (r, w')"
    using Cons.prems(1) by (auto simp: res_bind_Inr_iff)
  have k: "table_ok v" "threads_changed i w v" using sched_thread_keeps [OF v(1)] Cons.prems by simp_all
  have lv: "live v j = live w j" for j by (rule threads_changed_live [OF k(2)])
  show ?case
  proof (cases b)
    case True
    then show ?thesis using v(2) threads_changed_same [OF k(2)] by simp
  next
    case False
    then have "pick_loop is v = Inr (r, w')" using v(2) by simp
    then have "same_proc (proc v j) (proc w' j)" using Cons.IH k(1) Cons.prems(3) lv by simp
    then show ?thesis using threads_changed_same [OF k(2)] same_proc_trans by blast
  qed
qed (simp add: same_proc_def)

lemma sched_same:
  assumes "sched w = Inr (r, w')" and "table_ok w"
  shows "same_proc (proc w j) (proc w' j)"
proof (cases "postpone_task_switches_counter w = 0")
  case False
  then show ?thesis using assms by (auto simp: sched_def same_proc_def proc_def)
next
  case True
  then obtain q w1 i w2 where s: "queue_loop [0..<MAX_PROCESSES] (\<lambda>_. []) w = Inr (q, w1)"
    "pick_loop (concat (map q [0..<PROCESS_PRIORITIES])) w1 = Inr (Some i, w2)"
    "w' = (upd_proc i (\<lambda>p. p\<lparr>last_scheduled := get_ticks_since_boot w2, current_nice := nice p\<rparr>) w2)\<lparr>current_process := Some i\<rparr>"
    using assms(1) by (auto simp: sched_def res_bind_Inr_iff split: option.splits)
  have q: "table_ok w1" "\<forall>l. \<forall>i \<in> set (q l). live w1 i" using queue_loop_keeps [OF s(1) assms(2)] by (simp_all add: subset_iff)
  have "same_proc (proc w1 j) (proc w2 j)" by (rule pick_loop_same [OF s(2) q(1)]) (use q(2) in auto)
  moreover have "same_proc (proc w2 j) (proc w' j)" unfolding s(3) by (simp add: same_proc_def)
  ultimately show ?thesis using queue_loop_same [OF s(1)] same_proc_trans by blast
qed

lemma awake_loop_effect:
  assumes "awake_loop ks i n st w = Inr v" and "distinct ks" and "i < length (process_list w)"
  shows "(\<forall>j. j \<noteq> i \<longrightarrow> proc v j = proc w j) \<and> length (process_list v) = length (process_list w) \<and>
    (\<exists>ts. proc v i = (proc w i)\<lparr>threads := ts\<rparr> \<and> length ts = length (threads (proc w i)) \<and>
      (\<forall>k < length ts. ts ! k = (if k \<in> set ks \<and> waiting (threads (proc w i) ! k) = 1
         then (threads (proc w i) ! k)\<lparr>waiting := 2, waitpid_status := st, waitpid_pid := n\<rparr> else threads (proc w i) ! k)))"
  using assms
proof (induction ks arbitrary: w)
  case Nil
  then show ?case by (auto intro!: exI [of _ "threads (proc v i)"])
next
  case (Cons k ks)
  let ?f = "\<lambda>t. t\<lparr>waiting := 2, waitpid_status := st, waitpid_pid := n\<rparr>"
  show ?case
  proof (cases "waiting (threads (proc w i) ! k) = 1")
    case False
    then have "awake_loop ks i n st w = Inr v" using Cons.prems(1) by simp
    then obtain ts where ts: "\<forall>j. j \<noteq> i \<longrightarrow> proc v j = proc w j" "length (process_list v) = length (process_list w)"
      "proc v i = (proc w i)\<lparr>threads := ts\<rparr>" "length ts = length (threads (proc w i))"
      "\<forall>m < length ts. ts ! m = (if m \<in> set ks \<and> waiting (threads (proc w i) ! m) = 1 then ?f (threads (proc w i) ! m) else threads (proc w i) ! m)"
      using Cons.IH Cons.prems(2,3) by (metis distinct.simps(2))
    have "\<forall>m < length ts. ts ! m = (if m \<in> set (k # ks) \<and> waiting (threads (proc w i) ! m) = 1 then ?f (threads (proc w i) ! m)
        else threads (proc w i) ! m)" using ts(5) False by auto
    then show ?thesis using ts(1-4) by blast
  next
    case True
    obtain u where u: "wakeup SLEEP_WAITPID (upd_thread i k ?f w) = Inr u" "awake_loop ks i n st u = Inr v"
      using Cons.prems(1) True by (auto simp: res_bind_Inr_iff)
    have "process_list u = process_list (upd_thread i k ?f w)" using wakeup_list [OF u(1)] by simp
    then have pu: "proc u = proc (upd_thread i k ?f w)" "length (process_list u) = length (process_list w)"
      by (auto simp: proc_def fun_eq_iff upd_thread_def)
    have ui: "proc u i = (proc w i)\<lparr>threads := (threads (proc w i))[k := ?f (threads (proc w i) ! k)]\<rparr>"
      "\<And>j. j \<noteq> i \<Longrightarrow> proc u j = proc w j" using Cons.prems(3) by (simp_all add: pu(1) upd_thread_def)
    note ih = Cons.IH [OF u(2)]
    obtain ts where ts: "proc v i = (proc u i)\<lparr>threads := ts\<rparr>" "length ts = length (threads (proc u i))"
      "\<forall>m < length ts. ts ! m = (if m \<in> set ks \<and> waiting (threads (proc u i) ! m) = 1 then ?f (threads (proc u i) ! m) else threads (proc u i) ! m)"
      "\<forall>j. j \<noteq> i \<longrightarrow> proc v j = proc u j" "length (process_list v) = length (process_list u)"
      using ih Cons.prems(2,3) pu(2) by (metis distinct.simps(2))
    have new: "ts ! m = (if m \<in> set (k # ks) \<and> waiting (threads (proc w i) ! m) = 1 then ?f (threads (proc w i) ! m) else threads (proc w i) ! m)"
      if "m < length ts" for m
      using ts(2,3) that True Cons.prems(2) by (cases "m = k") (auto simp: ui)
    moreover have "proc v i = (proc w i)\<lparr>threads := ts\<rparr>" "length ts = length (threads (proc w i))" using ts(1,2) ui(1) by simp_all
    moreover have "\<forall>j. j \<noteq> i \<longrightarrow> proc v j = proc w j" "length (process_list v) = length (process_list w)" using ts(4,5) ui(2) pu(2) by simp_all
    ultimately show ?thesis by blast
  qed
qed

lemma find_only: "P c \<Longrightarrow> c \<in> set xs \<Longrightarrow> \<forall>x \<in> set xs. P x \<longrightarrow> x = c \<Longrightarrow> List.find P xs = Some c"
proof (cases "List.find P xs")
  case None
  assume "P c" "c \<in> set xs"
  with None show ?thesis unfolding find_None_iff by blast
next
  case (Some y)
  assume "\<forall>x \<in> set xs. P x \<longrightarrow> x = c"
  then have "y = c" using find_Some_in [OF Some] by blast
  with Some show ?thesis by simp
qed

lemma delete_process_dead: "i < length (process_list w) \<Longrightarrow> \<not> live (delete_process i w) i"
  by (simp add: delete_process_def Let_def live_def)

text \<open>The table after \<open>exit\<close>, seen from a waiting thread of the parent.\<close>

lemma exit_effect:
  assumes "table_ok w" and "live w c" and "live w i" and "c \<noteq> i" and "parent (proc w c) = Some i"
    and "k < thread_count (proc w i)" and "waiting (threads (proc w i) ! k) = 1" and "exit c code w = Inr (r, w')"
  shows "table_ok w'" and "waiting (threads (proc w' i) ! k) = 2"
    and "waitpid_status (threads (proc w' i) ! k) = create_waitpid_status WREASON_EXIT code"
    and "pid (proc w' j) = pid (proc w j)" and "ppid (proc w' j) = ppid (proc w j)"
    and "global_status (proc w' j) = (if j = c then PROCESS_STATUS_ZOMBIE else global_status (proc w j))"
proof -
  define st where "st = create_waitpid_status WREASON_EXIT code"
  define w2 where "w2 = upd_proc c (\<lambda>p. p\<lparr>exit_code := code, global_status := PROCESS_STATUS_ZOMBIE\<rparr>) (end_threads c [0..<thread_count (proc w c)] w)"
  have ci: "c < MAX_PROCESSES" "i < MAX_PROCESSES" "length (process_list w) = MAX_PROCESSES" "length (threads (proc w i)) = MAX_THREADS"
    "thread_count (proc w i) \<le> MAX_THREADS" using assms(1-3) by (auto simp: live_def table_ok_def shape_def)
  have pe: "proc (end_threads a ks w) = proc w" for a ks by (simp add: proc_def fun_eq_iff)
  have p2: "proc w2 c = (proc w c)\<lparr>exit_code := code, global_status := PROCESS_STATUS_ZOMBIE\<rparr>" "\<And>j. j \<noteq> c \<Longrightarrow> proc w2 j = proc w j"
    "length (process_list w2) = MAX_PROCESSES" using ci by (simp_all add: w2_def pe)
  have t2: "table_ok w2" unfolding w2_def using assms(1) ci(1) table_ok_proc [of w c]
    by (intro table_ok_upd) (auto simp: shape_def files_ok_def pe)
  obtain v where v: "awake_loop [0..<thread_count (proc w i)] i (pid (proc w c)) st w2 = Inr v" "sched v = Inr (r, w')"
  proof -
    have "res_bind (awake_parent c st w2) sched = Inr (r, w')" using assms(8) by (simp only: exit_def Let_def w2_def st_def)
    then obtain v where "awake_parent c st w2 = Inr v" "sched v = Inr (r, w')" unfolding res_bind_Inr_iff by blast
    then show ?thesis using that p2(1) p2(2) [of i] assms(4,5) by (simp add: awake_parent_def)
  qed
  have tv: "table_ok v" by (rule awake_loop_keeps [OF v(1) t2 ci(2)])
  obtain ts where ts: "\<forall>j. j \<noteq> i \<longrightarrow> proc v j = proc w2 j" "length (process_list v) = length (process_list w2)"
    "proc v i = (proc w2 i)\<lparr>threads := ts\<rparr>" "length ts = length (threads (proc w2 i))"
    "\<forall>m < length ts. ts ! m = (if m \<in> set [0..<thread_count (proc w i)] \<and> waiting (threads (proc w2 i) ! m) = 1
       then (threads (proc w2 i) ! m)\<lparr>waiting := 2, waitpid_status := st, waitpid_pid := pid (proc w c)\<rparr> else threads (proc w2 i) ! m)"
    using awake_loop_effect [OF v(1)] p2(3) ci by auto
  have k: "k < length ts" "ts ! k = (threads (proc w i) ! k)\<lparr>waiting := 2, waitpid_status := st, waitpid_pid := pid (proc w c)\<rparr>"
    using ts(4,5) p2(2) [of i] assms(4,6,7) ci by auto
  have same: "same_proc (proc v j) (proc w' j)" for j by (rule sched_same [OF v(2) tv])
  have "map waits_of (threads (proc w' i)) = map waits_of ts" using same [of i] ts(3) by (simp add: same_proc_def)
  then have wk: "waits_of (threads (proc w' i) ! k) = waits_of (ts ! k)" using k(1) by (metis length_map nth_map)
  show "waiting (threads (proc w' i) ! k) = 2" "waitpid_status (threads (proc w' i) ! k) = create_waitpid_status WREASON_EXIT code"
    using wk k(2) by (simp_all add: waits_of_def st_def)
  show "table_ok w'" by (rule sched_keeps [OF v(2) tv])
  have "proc v j = (if j = i then (proc w i)\<lparr>threads := ts\<rparr>
      else if j = c then (proc w c)\<lparr>exit_code := code, global_status := PROCESS_STATUS_ZOMBIE\<rparr> else proc w j)"
    using ts(1,3) p2(1) p2(2) [of j] p2(2) [of i] assms(4) by auto
  then show "pid (proc w' j) = pid (proc w j)" "ppid (proc w' j) = ppid (proc w j)"
    "global_status (proc w' j) = (if j = c then PROCESS_STATUS_ZOMBIE else global_status (proc w j))"
    using same [of j] assms(4) by (simp_all add: same_proc_def)
qed


section \<open>Examples\<close>

lemma wakeup_single:
  "squeues w = [\<lparr>sq_nodes = [n], sq_id = c\<rparr>] \<Longrightarrow> \<not> freed n \<Longrightarrow>
    wakeup c w = Inr (w\<lparr>th_status := (th_status w)(sn_thread n := THREAD_STATUS_READY), squeues := []\<rparr>)"
  by (simp add: wakeup_def find_squeue_def set_status_def destroy_squeue_def destroy_snode_def Let_def fuckup_detector_def)

text \<open>A parent whose only thread waits, and its child.\<close>

definition demo_parent :: process where
  "demo_parent = (demo_process 0)\<lparr>threads := (replicate MAX_THREADS null_thread)[0 := null_thread\<lparr>waiting := 1\<rparr>],
     open_files := replicate MAX_OPEN_FILES (-1)\<rparr>"

definition demo_child :: process where
  "demo_child = (demo_process 1)\<lparr>parent := Some 0, open_files := replicate MAX_OPEN_FILES (-1)\<rparr>"

definition demo_family :: kernel where
  "demo_family = demo_kernel\<lparr>process_list := [demo_parent, demo_child] @ replicate 254 (null_process\<lparr>pid := -1\<rparr>),
     squeues := [\<lparr>sq_nodes = [create_snode (thread_addr demo_kernel 0 0) None 0], sq_id = SLEEP_WAITPID\<rparr>],
     th_status := (th_status demo_kernel)(thread_addr demo_kernel 0 0 := THREAD_STATUS_INTERRUPTIBLE_SLEEP)\<rparr>"

lemma demo_family_procs:
  "proc demo_family 0 = demo_parent" "proc demo_family 1 = demo_child" "length (process_list demo_family) = MAX_PROCESSES"
  "2 \<le> i \<Longrightarrow> i < MAX_PROCESSES \<Longrightarrow> proc demo_family i = null_process\<lparr>pid := -1\<rparr>"
  by (auto simp: demo_family_def proc_def MAX_PROCESSES_def nth_append nth_Cons split: nat.splits)

lemmas demo_defs = demo_parent_def demo_child_def demo_process_def null_process_def null_thread_def

lemma demo_family_live: "live demo_family i \<longleftrightarrow> i = 0 \<or> i = 1"
proof (cases "i < 2")
  case True
  then show ?thesis using demo_family_procs(1,2) by (auto simp: live_def MAX_PROCESSES_def less_2_cases_iff demo_defs)
next
  case False
  then show ?thesis using demo_family_procs(4) [of i] by (auto simp: live_def)
qed

lemma demo_family_ok: "table_ok demo_family"
proof -
  have "shape (proc demo_family i)" if "i < MAX_PROCESSES" for i
  proof (cases "i < 2")
    case True
    then consider "i = 0" | "i = 1" by linarith
    then show ?thesis
      by cases (simp_all only: demo_family_procs, simp_all add: shape_def files_ok_def demo_defs MAX_PROCESSES_def MAX_THREADS_def)
  next
    case False
    then have "proc demo_family i = null_process\<lparr>pid := -1\<rparr>" using that by (intro demo_family_procs(4)) simp
    then show ?thesis by (simp add: shape_def null_process_def MAX_PROCESSES_def)
  qed
  moreover have "current_process demo_family = Some 0" by (simp add: demo_family_def demo_kernel_def)
  ultimately show ?thesis using demo_family_live demo_family_procs(1-3) by (auto simp: table_ok_def MAX_PROCESSES_def demo_defs)
qed

lemma demo_parent_facts:
  "thread_count demo_parent = 1" "threads demo_parent ! 0 = null_thread\<lparr>waiting := 1\<rparr>" "length (threads demo_parent) = MAX_THREADS"
  "current_thread demo_parent = 0" "parent demo_child = Some 0" "pid demo_child = 1" "ppid demo_child = 0" "pid demo_parent = 0"
  "length (threads demo_child) = MAX_THREADS" "thread_count demo_child = 1" "current_thread demo_child = 0"
  "signal_queue demo_parent = (\<lambda>_. [])" "signal_queue demo_child = (\<lambda>_. [])" "global_status demo_parent = PROCESS_STATUS_ALIVE"
  by (simp_all add: demo_defs MAX_THREADS_def process_status_defs)

text \<open>The example after the child's end, before and after the parent is woken.\<close>

definition demo_exited :: kernel where
  "demo_exited = upd_proc 1 (\<lambda>p. p\<lparr>exit_code := 7, global_status := PROCESS_STATUS_ZOMBIE\<rparr>)
     (end_threads 1 [0..<thread_count (proc demo_family 1)] demo_family)"

definition demo_notified :: kernel where
  "demo_notified = upd_thread 0 0
     (\<lambda>t. t\<lparr>waiting := 2, waitpid_status := create_waitpid_status WREASON_EXIT 7, waitpid_pid := 1\<rparr>) demo_exited"

definition demo_woken :: kernel where
  "demo_woken = demo_notified\<lparr>th_status := (th_status demo_notified)(thread_addr demo_kernel 0 0 := THREAD_STATUS_READY), squeues := []\<rparr>"

lemma end_threads_fields:
  "proc (end_threads a ks w) = proc w" "squeues (end_threads a ks w) = squeues w" "process_base (end_threads a ks w) = process_base w"
  "process_count (end_threads a ks w) = process_count w"
  "postpone_task_switches_counter (end_threads a ks w) = postpone_task_switches_counter w"
  by (induction ks arbitrary: w) (simp_all add: set_thread_status_eq)

lemma demo_exited_procs:
  "length (process_list demo_exited) = MAX_PROCESSES" "proc demo_exited 0 = demo_parent"
  "proc demo_exited 1 = demo_child\<lparr>exit_code := 7, global_status := PROCESS_STATUS_ZOMBIE\<rparr>"
  "i \<noteq> 1 \<Longrightarrow> proc demo_exited i = proc demo_family i"
  unfolding demo_exited_def using demo_family_procs by (simp_all add: end_threads_fields MAX_PROCESSES_def)

lemma demo_woken_procs:
  "length (process_list demo_woken) = MAX_PROCESSES"
  "proc demo_woken 0 = demo_parent\<lparr>threads := (threads demo_parent)[0 := null_thread\<lparr>waiting := 2,
     waitpid_status := create_waitpid_status WREASON_EXIT 7, waitpid_pid := 1\<rparr>]\<rparr>"
  "i \<noteq> 0 \<Longrightarrow> proc demo_woken i = proc demo_exited i"
  using demo_exited_procs(1,2) by (simp_all add: demo_woken_def demo_notified_def upd_thread_def MAX_PROCESSES_def demo_parent_facts)

lemma demo_awake: "awake_parent 1 (create_waitpid_status WREASON_EXIT 7) demo_exited = Inr demo_woken"
proof -
  have "wakeup SLEEP_WAITPID demo_notified = Inr demo_woken" unfolding demo_woken_def
    using wakeup_single [of demo_notified "create_snode (thread_addr demo_kernel 0 0) None 0" SLEEP_WAITPID]
    by (simp add: demo_notified_def upd_thread_def demo_exited_def end_threads_fields demo_family_def create_snode_def)
  then show ?thesis using demo_exited_procs(2,3)
    by (simp add: awake_parent_def demo_parent_facts demo_notified_def [symmetric])
qed

lemma demo_woken_live: "live demo_woken i \<longleftrightarrow> i = 0 \<or> i = 1"
proof -
  consider "i = 0" | "i = 1" | "i \<noteq> 0" "i \<noteq> 1" by blast
  then have "pid (proc demo_woken i) = pid (proc demo_family i)"
  proof cases
    case 1
    show ?thesis unfolding 1 demo_woken_procs(2) demo_family_procs(1) by simp
  next
    case 2
    show ?thesis unfolding 2 demo_family_procs(2) using demo_woken_procs(3) [of 1] demo_exited_procs(3) by simp
  next
    case 3
    show ?thesis unfolding demo_woken_procs(3) [OF 3(1)] demo_exited_procs(4) [OF 3(2)] by simp
  qed
  then show ?thesis using demo_family_live [of i] by (simp add: live_def)
qed

lemma demo_woken_ok: "sched_ok demo_woken" "ready demo_woken 0"
proof -
  have fields: "postpone_task_switches_counter demo_woken = 0" "process_count demo_woken = 2" "process_base demo_woken = process_base demo_kernel"
    by (simp_all add: demo_woken_def demo_notified_def upd_thread_def demo_exited_def end_threads_fields demo_family_def demo_kernel_def)
  have "{i. live demo_woken i} = {0, 1}" by (auto simp: demo_woken_live)
  moreover have "proc_ok (proc demo_woken i)" if "live demo_woken i" for i
    using that demo_woken_procs(2) demo_woken_procs(3) [of 1] demo_exited_procs(3)
    by (auto simp: demo_woken_live proc_ok_def demo_parent_facts MAX_THREADS_def small_signals_def)
  ultimately show "sched_ok demo_woken" by (simp add: sched_ok_def demo_woken_procs(1) fields)
  have "thread_addr demo_woken 0 0 = thread_addr demo_kernel 0 0" by (simp add: thread_addr_def fields)
  then have "thread_status demo_woken 0 0 = THREAD_STATUS_READY" by (simp add: thread_status_def) (simp add: demo_woken_def)
  then have "can_run demo_woken 0 0" by (simp add: can_run_def demo_woken_procs(2) demo_parent_facts MAX_THREADS_def)
  then show "ready demo_woken 0" by (simp add: ready_def demo_woken_procs(2) demo_parent_facts)
qed

lemma demo_exit: "\<exists>r. exit 1 7 demo_family = Inr r"
proof -
  have "exit 1 7 demo_family = sched demo_woken" using demo_awake by (simp add: exit_def Let_def demo_exited_def)
  then show ?thesis using sched_chooses [OF demo_woken_ok(1) _ demo_woken_ok(2)] demo_woken_live by metis
qed



theorem waitpid_by_pid_forgets_child_witness:
  "waitpid_collect 0 1 0 demo_exited = Inr (-1, Some PROCESS_STATUS_ZOMBIE, delete_process 1 demo_exited)"
proof -
  have z: "get_process_by_pid 1 demo_exited = Some 1" unfolding get_process_by_pid_def
  proof (rule find_only)
    show "\<forall>x \<in> set [0..<MAX_PROCESSES]. pid (proc demo_exited x) = 1 \<longrightarrow> x = 1"
    proof (intro ballI impI)
      fix x assume x: "x \<in> set [0..<MAX_PROCESSES]" "pid (proc demo_exited x) = 1"
      show "x = 1"
      proof (rule ccontr)
        assume n: "x \<noteq> 1"
        then have "pid (proc demo_family x) = 1" using x(2) demo_exited_procs(4) by simp
        moreover have "live demo_family x" using x(1) calculation by (simp add: live_def)
        ultimately show False using n demo_family_procs(1) by (auto simp: demo_family_live demo_parent_facts)
      qed
    qed
  qed (use demo_exited_procs(3) in \<open>simp_all add: demo_parent_facts MAX_PROCESSES_def\<close>)
  have "process_count demo_exited = 2" by (simp add: demo_exited_def end_threads_fields demo_family_def demo_kernel_def)
  then show ?thesis using waitpid_by_pid_forgets_child [OF z, of 0 0] demo_exited_procs(2,3) by (simp add: demo_parent_facts)
qed

section \<open>Descriptors of a forked child\<close>

lemma add_open_file_packed:
  assumes "open_files p = ys @ replicate (Suc m) (-1)" and "-1 \<notin> set ys" and "length ys + Suc m = MAX_OPEN_FILES"
    and "open_files_count p = int (length ys)" and "0 \<le> fd"
  shows "add_open_file p fd = Inr (int (length ys), p\<lparr>open_files := ys @ [fd] @ replicate m (-1), open_files_count := int (Suc (length ys))\<rparr>)"
proof -
  have "List.find (\<lambda>i. open_files p ! i = -1) [0..<MAX_OPEN_FILES] = Some (length ys)"
    unfolding find_Some_iff using assms(1-3)
    by (intro exI [of _ "length ys"]) (auto simp: nth_append, metis nth_mem)
  then show ?thesis using assms by (simp add: add_open_file_def list_update_append)
qed

lemma dup_loop_packed:
  assumes "\<forall>fd s. fst (dup fd s) = g fd \<and> 0 \<le> g fd"
    and "open_files p = ys @ replicate m (-1)" and "-1 \<notin> set ys" and "length ys + m = MAX_OPEN_FILES" and "open_files_count p = int (length ys)"
    and "length (filter (\<lambda>f. f \<noteq> -1) fds) \<le> m"
  shows "\<exists>s'. dup_loop dup fds p s = Inr (p\<lparr>open_files := ys @ map g (filter (\<lambda>f. f \<noteq> -1) fds) @
      replicate (m - length (filter (\<lambda>f. f \<noteq> -1) fds)) (-1),
    open_files_count := open_files_count p + int (length (filter (\<lambda>f. f \<noteq> -1) fds))\<rparr>, s')"
  using assms(2-)
proof (induction fds arbitrary: p ys m s)
  case (Cons fd fds)
  show ?case
  proof (cases "fd = -1")
    case False
    then obtain m' where m: "m = Suc m'" using Cons.prems(5) by (cases m) auto
    obtain s1 where d: "dup fd s = (g fd, s1)" using assms(1) by (metis prod.collapse)
    let ?p1 = "p\<lparr>open_files := ys @ [g fd] @ replicate m' (-1), open_files_count := int (Suc (length ys))\<rparr>"
    have g: "0 \<le> g fd" using assms(1) by blast
    have "add_open_file p (g fd) = Inr (int (length ys), ?p1)"
      using Cons.prems g by (intro add_open_file_packed) (auto simp: m)
    then have step: "dup_loop dup (fd # fds) p s = dup_loop dup fds ?p1 s1" using False d g by simp
    have "\<exists>s'. dup_loop dup fds ?p1 s1 = Inr (?p1\<lparr>open_files := (ys @ [g fd]) @ map g (filter (\<lambda>f. f \<noteq> -1) fds) @
        replicate (m' - length (filter (\<lambda>f. f \<noteq> -1) fds)) (-1),
      open_files_count := open_files_count ?p1 + int (length (filter (\<lambda>f. f \<noteq> -1) fds))\<rparr>, s')"
      using Cons.prems g False by (intro Cons.IH) (auto simp: m)
    then show ?thesis using step False Cons.prems(4) by (auto simp: m)
  qed (use Cons in auto)
qed (use process.surjective in auto)



end
