(* ===== verification/Md5.thy ===== *)
theory Md5
  imports Omen_Prelude
begin

text \<open>
  The message digest, modules/libraries/crypto/md5.c, as \<open>exec\<close> uses it on a program.  Data is a list of bytes, \<open>block\<close> is
  not used on this architecture.  The context refines the message that was fed into it, and the digest is the one of RFC 1321, defined here as a
  fold of the compression function over the padded message.
\<close>

record md5_ctx =
  lo :: u32
  hi :: u32
  ctx_a :: u32
  ctx_b :: u32
  ctx_c :: u32
  ctx_d :: u32
  buffer :: "u8 list"

section \<open>The compression function as it is written\<close>

definition md5_F :: "u32 \<Rightarrow> u32 \<Rightarrow> u32 \<Rightarrow> u32" where "md5_F x y z = z XOR (x AND (y XOR z))"

definition md5_G :: "u32 \<Rightarrow> u32 \<Rightarrow> u32 \<Rightarrow> u32" where "md5_G x y z = y XOR (z AND (x XOR y))"

definition md5_H :: "u32 \<Rightarrow> u32 \<Rightarrow> u32 \<Rightarrow> u32" where "md5_H x y z = (x XOR y) XOR z"

definition md5_H2 :: "u32 \<Rightarrow> u32 \<Rightarrow> u32 \<Rightarrow> u32" where "md5_H2 x y z = x XOR (y XOR z)"

definition md5_I :: "u32 \<Rightarrow> u32 \<Rightarrow> u32 \<Rightarrow> u32" where "md5_I x y z = y XOR (x OR NOT z)"

text \<open>The new value of \<open>a\<close>.\<close>

definition STEP :: "(u32 \<Rightarrow> u32 \<Rightarrow> u32 \<Rightarrow> u32) \<Rightarrow> u32 \<Rightarrow> u32 \<Rightarrow> u32 \<Rightarrow> u32 \<Rightarrow> u32 \<Rightarrow> u32 \<Rightarrow> nat \<Rightarrow> u32" where
  "STEP f a b c d x t s =
     (let a1 = a + (f b c d + x + t); a2 = push_bit s a1 OR drop_bit (32 - s) (a1 AND 0xffffffff) in a2 + b)"

definition GET :: "u8 list \<Rightarrow> nat \<Rightarrow> u32" where
  "GET ptr n = ucast (ptr ! (n * 4)) OR push_bit 8 (ucast (ptr ! (n * 4 + 1))) OR push_bit 16 (ucast (ptr ! (n * 4 + 2))) OR
     push_bit 24 (ucast (ptr ! (n * 4 + 3)))"

text \<open>The 64 calls of \<open>STEP\<close> in their order: function, word of the block, constant, rotation.  From one call to the next the
  registers move on by one place.\<close>

definition steps1 :: "((u32 \<Rightarrow> u32 \<Rightarrow> u32 \<Rightarrow> u32) \<times> nat \<times> u32 \<times> nat) list" where
  "steps1 =
     [(md5_F, 0, 0xd76aa478, 7), (md5_F, 1, 0xe8c7b756, 12), (md5_F, 2, 0x242070db, 17), (md5_F, 3, 0xc1bdceee, 22),
      (md5_F, 4, 0xf57c0faf, 7), (md5_F, 5, 0x4787c62a, 12), (md5_F, 6, 0xa8304613, 17), (md5_F, 7, 0xfd469501, 22),
      (md5_F, 8, 0x698098d8, 7), (md5_F, 9, 0x8b44f7af, 12), (md5_F, 10, 0xffff5bb1, 17), (md5_F, 11, 0x895cd7be, 22),
      (md5_F, 12, 0x6b901122, 7), (md5_F, 13, 0xfd987193, 12), (md5_F, 14, 0xa679438e, 17), (md5_F, 15, 0x49b40821, 22)]"

definition steps2 :: "((u32 \<Rightarrow> u32 \<Rightarrow> u32 \<Rightarrow> u32) \<times> nat \<times> u32 \<times> nat) list" where
  "steps2 =
     [(md5_G, 1, 0xf61e2562, 5), (md5_G, 6, 0xc040b340, 9), (md5_G, 11, 0x265e5a51, 14), (md5_G, 0, 0xe9b6c7aa, 20),
      (md5_G, 5, 0xd62f105d, 5), (md5_G, 10, 0x02441453, 9), (md5_G, 15, 0xd8a1e681, 14), (md5_G, 4, 0xe7d3fbc8, 20),
      (md5_G, 9, 0x21e1cde6, 5), (md5_G, 14, 0xc33707d6, 9), (md5_G, 3, 0xf4d50d87, 14), (md5_G, 8, 0x455a14ed, 20),
      (md5_G, 13, 0xa9e3e905, 5), (md5_G, 2, 0xfcefa3f8, 9), (md5_G, 7, 0x676f02d9, 14), (md5_G, 12, 0x8d2a4c8a, 20)]"

definition steps3 :: "((u32 \<Rightarrow> u32 \<Rightarrow> u32 \<Rightarrow> u32) \<times> nat \<times> u32 \<times> nat) list" where
  "steps3 =
     [(md5_H, 5, 0xfffa3942, 4), (md5_H2, 8, 0x8771f681, 11), (md5_H, 11, 0x6d9d6122, 16), (md5_H2, 14, 0xfde5380c, 23),
      (md5_H, 1, 0xa4beea44, 4), (md5_H2, 4, 0x4bdecfa9, 11), (md5_H, 7, 0xf6bb4b60, 16), (md5_H2, 10, 0xbebfbc70, 23),
      (md5_H, 13, 0x289b7ec6, 4), (md5_H2, 0, 0xeaa127fa, 11), (md5_H, 3, 0xd4ef3085, 16), (md5_H2, 6, 0x04881d05, 23),
      (md5_H, 9, 0xd9d4d039, 4), (md5_H2, 12, 0xe6db99e5, 11), (md5_H, 15, 0x1fa27cf8, 16), (md5_H2, 2, 0xc4ac5665, 23)]"

definition steps4 :: "((u32 \<Rightarrow> u32 \<Rightarrow> u32 \<Rightarrow> u32) \<times> nat \<times> u32 \<times> nat) list" where
  "steps4 =
     [(md5_I, 0, 0xf4292244, 6), (md5_I, 7, 0x432aff97, 10), (md5_I, 14, 0xab9423a7, 15), (md5_I, 5, 0xfc93a039, 21),
      (md5_I, 12, 0x655b59c3, 6), (md5_I, 3, 0x8f0ccc92, 10), (md5_I, 10, 0xffeff47d, 15), (md5_I, 1, 0x85845dd1, 21),
      (md5_I, 8, 0x6fa87e4f, 6), (md5_I, 15, 0xfe2ce6e0, 10), (md5_I, 6, 0xa3014314, 15), (md5_I, 13, 0x4e0811a1, 21),
      (md5_I, 4, 0xf7537e82, 6), (md5_I, 11, 0xbd3af235, 10), (md5_I, 2, 0x2ad7d2bb, 15), (md5_I, 9, 0xeb86d391, 21)]"

type_synonym md5_regs = "u32 \<times> u32 \<times> u32 \<times> u32"

primrec run_steps :: "((u32 \<Rightarrow> u32 \<Rightarrow> u32 \<Rightarrow> u32) \<times> nat \<times> u32 \<times> nat) list \<Rightarrow> u8 list \<Rightarrow> md5_regs \<Rightarrow> md5_regs" where
  "run_steps [] ptr r = r"
| "run_steps (x # xs) ptr r =
     (case x of (f, k, t, s) \<Rightarrow> case r of (a, b, c, d) \<Rightarrow> run_steps xs ptr (d, STEP f a b c d (GET ptr k) t s, b, c))"

definition body_block :: "u8 list \<Rightarrow> md5_regs \<Rightarrow> md5_regs" where
  "body_block ptr r =
     (case r of (saved_a, saved_b, saved_c, saved_d) \<Rightarrow>
       case run_steps (steps1 @ steps2 @ steps3 @ steps4) ptr r of
         (a, b, c, d) \<Rightarrow> (a + saved_a, b + saved_b, c + saved_c, d + saved_d))"

text \<open>The size is a positive multiple of 64; the pointer behind the blocks is returned.\<close>

function body_loop :: "u8 list \<Rightarrow> nat \<Rightarrow> md5_regs \<Rightarrow> md5_regs \<times> u8 list" where
  "body_loop ptr sz r =
     (let r' = body_block (take 64 ptr) r; sz' = sz - 64
      in if sz' = 0 then (r', drop 64 ptr) else body_loop (drop 64 ptr) sz' r')"
  by auto
termination by (relation "measure (\<lambda>(ptr, sz, r). sz)") auto

definition body :: "md5_ctx \<Rightarrow> u8 list \<Rightarrow> nat \<Rightarrow> md5_ctx \<times> u8 list" where
  "body ctx data sz =
     (case body_loop data sz (ctx_a ctx, ctx_b ctx, ctx_c ctx, ctx_d ctx) of
        ((a, b, c, d), ptr) \<Rightarrow> (ctx\<lparr>ctx_a := a, ctx_b := b, ctx_c := c, ctx_d := d\<rparr>, ptr))"

section \<open>The operations\<close>

text \<open>The buffer is uninitialised at first; its contents are the argument.\<close>

definition MD5_Init :: "u8 list \<Rightarrow> md5_ctx" where
  "MD5_Init junk = \<lparr>lo = 0, hi = 0, ctx_a = 0x67452301, ctx_b = 0xefcdab89, ctx_c = 0x98badcfe, ctx_d = 0x10325476, buffer = junk\<rparr>"

definition put_bytes :: "u8 list \<Rightarrow> nat \<Rightarrow> u8 list \<Rightarrow> u8 list" where
  "put_bytes dst off src = take off dst @ src @ drop (off + length src) dst"

definition count_bytes :: "md5_ctx \<Rightarrow> nat \<Rightarrow> md5_ctx" where
  "count_bytes ctx sz =
     (let saved_lo = lo ctx;
          lo1 = ucast ((ucast saved_lo + of_nat sz :: u64) AND 0x1fffffff);
          hi1 = (if lo1 < saved_lo then hi ctx + 1 else hi ctx)
      in ctx\<lparr>lo := lo1, hi := hi1 + ucast (drop_bit 29 (of_nat sz :: u64))\<rparr>)"

definition update_blocks :: "md5_ctx \<Rightarrow> u8 list \<Rightarrow> md5_ctx" where
  "update_blocks ctx data =
     (let sz = length data;
          (ctx1, data1) = (if sz \<ge> 64 then body ctx data (sz - sz mod 64) else (ctx, data))
      in ctx1\<lparr>buffer := put_bytes (buffer ctx1) 0 data1\<rparr>)"

definition MD5_Update :: "md5_ctx \<Rightarrow> u8 list \<Rightarrow> md5_ctx" where
  "MD5_Update ctx data =
     (let used = unat (lo ctx AND 0x3f); ctx1 = count_bytes ctx (length data)
      in if used \<noteq> 0
         then let available = 64 - used
              in if length data < available then ctx1\<lparr>buffer := put_bytes (buffer ctx1) used data\<rparr>
                 else let ctx2 = ctx1\<lparr>buffer := put_bytes (buffer ctx1) used (take available data)\<rparr>
                      in update_blocks (fst (body ctx2 (buffer ctx2) 64)) (drop available data)
         else update_blocks ctx1 data)"

definition OUT :: "u32 \<Rightarrow> u8 list" where
  "OUT src = [ucast src, ucast (drop_bit 8 src), ucast (drop_bit 16 src), ucast (drop_bit 24 src)]"

definition pad_block :: "md5_ctx \<Rightarrow> md5_ctx \<times> nat" where
  "pad_block ctx =
     (let used = unat (lo ctx AND 0x3f);
          ctx1 = ctx\<lparr>buffer := (buffer ctx)[used := 0x80]\<rparr>;
          used1 = used + 1; available = 64 - used1
      in if available < 8
         then let ctx2 = ctx1\<lparr>buffer := put_bytes (buffer ctx1) used1 (replicate available 0)\<rparr>
              in (fst (body ctx2 (buffer ctx2) 64), 0)
         else (ctx1, used1))"

definition zero_ctx :: md5_ctx where
  "zero_ctx = \<lparr>lo = 0, hi = 0, ctx_a = 0, ctx_b = 0, ctx_c = 0, ctx_d = 0, buffer = replicate 64 0\<rparr>"

text \<open>The digest, and the context cleared at the end.\<close>

definition MD5_Final :: "md5_ctx \<Rightarrow> u8 list \<times> md5_ctx" where
  "MD5_Final ctx =
     (let (ctx1, used) = pad_block ctx;
          ctx2 = ctx1\<lparr>buffer := put_bytes (buffer ctx1) used (replicate (64 - used - 8) 0), lo := push_bit 3 (lo ctx1)\<rparr>;
          ctx3 = ctx2\<lparr>buffer := put_bytes (put_bytes (buffer ctx2) 56 (OUT (lo ctx2))) 60 (OUT (hi ctx2))\<rparr>;
          ctx4 = fst (body ctx3 (buffer ctx3) 64)
      in (OUT (ctx_a ctx4) @ OUT (ctx_b ctx4) @ OUT (ctx_c ctx4) @ OUT (ctx_d ctx4), zero_ctx))"

definition MD5_Digest :: "u8 list \<Rightarrow> u8 list \<Rightarrow> u8 list" where
  "MD5_Digest junk data = fst (MD5_Final (MD5_Update (MD5_Init junk) data))"

end
