(* ===== verification/Md5_Spec.thy ===== *)
theory Md5_Spec
  imports Md5
begin

text \<open>
  RFC 1321 and the proof that modules/libraries/crypto/md5.c computes it: the compression function by the tables of the document, the
  padded message, the message a context stands for, and the equality of the digests for any division of the message into
  updates.
\<close>

section \<open>The document\<close>

definition rfc_F :: "u32 \<Rightarrow> u32 \<Rightarrow> u32 \<Rightarrow> u32" where "rfc_F x y z = (x AND y) OR (NOT x AND z)"

definition rfc_G :: "u32 \<Rightarrow> u32 \<Rightarrow> u32 \<Rightarrow> u32" where "rfc_G x y z = (x AND z) OR (y AND NOT z)"

definition rfc_H :: "u32 \<Rightarrow> u32 \<Rightarrow> u32 \<Rightarrow> u32" where "rfc_H x y z = x XOR y XOR z"

definition rfc_I :: "u32 \<Rightarrow> u32 \<Rightarrow> u32 \<Rightarrow> u32" where "rfc_I x y z = y XOR (x OR NOT z)"

definition rfc_fn :: "nat \<Rightarrow> u32 \<Rightarrow> u32 \<Rightarrow> u32 \<Rightarrow> u32" where
  "rfc_fn i = (if i < 16 then rfc_F else if i < 32 then rfc_G else if i < 48 then rfc_H else rfc_I)"

definition rfc_word :: "nat \<Rightarrow> nat" where
  "rfc_word i = (if i < 16 then i else if i < 32 then (5 * i + 1) mod 16 else if i < 48 then (3 * i + 5) mod 16 else 7 * i mod 16)"

definition rfc_shift :: "nat \<Rightarrow> nat" where
  "rfc_shift i = (if i < 16 then [7, 12, 17, 22] else if i < 32 then [5, 9, 14, 20] else if i < 48 then [4, 11, 16, 23] else [6, 10, 15, 21]) ! (i mod 4)"

definition rfc_T :: "u32 list" where
  "rfc_T =
     [0xd76aa478, 0xe8c7b756, 0x242070db, 0xc1bdceee, 0xf57c0faf, 0x4787c62a, 0xa8304613, 0xfd469501,
      0x698098d8, 0x8b44f7af, 0xffff5bb1, 0x895cd7be, 0x6b901122, 0xfd987193, 0xa679438e, 0x49b40821,
      0xf61e2562, 0xc040b340, 0x265e5a51, 0xe9b6c7aa, 0xd62f105d, 0x02441453, 0xd8a1e681, 0xe7d3fbc8,
      0x21e1cde6, 0xc33707d6, 0xf4d50d87, 0x455a14ed, 0xa9e3e905, 0xfcefa3f8, 0x676f02d9, 0x8d2a4c8a,
      0xfffa3942, 0x8771f681, 0x6d9d6122, 0xfde5380c, 0xa4beea44, 0x4bdecfa9, 0xf6bb4b60, 0xbebfbc70,
      0x289b7ec6, 0xeaa127fa, 0xd4ef3085, 0x04881d05, 0xd9d4d039, 0xe6db99e5, 0x1fa27cf8, 0xc4ac5665,
      0xf4292244, 0x432aff97, 0xab9423a7, 0xfc93a039, 0x655b59c3, 0x8f0ccc92, 0xffeff47d, 0x85845dd1,
      0x6fa87e4f, 0xfe2ce6e0, 0xa3014314, 0x4e0811a1, 0xf7537e82, 0xbd3af235, 0x2ad7d2bb, 0xeb86d391]"

definition rfc_step :: "u8 list \<Rightarrow> nat \<Rightarrow> md5_regs \<Rightarrow> md5_regs" where
  "rfc_step blk i r =
     (case r of (a, b, c, d) \<Rightarrow>
       (d, b + word_rotl (rfc_shift i) (a + rfc_fn i b c d + GET blk (rfc_word i) + rfc_T ! i), b, c))"

definition rfc_block :: "u8 list \<Rightarrow> md5_regs \<Rightarrow> md5_regs" where
  "rfc_block blk r =
     (case (r, fold (rfc_step blk) [0..<64] r) of ((a, b, c, d), (a', b', c', d')) \<Rightarrow> (a' + a, b' + b, c' + c, d' + d))"

text \<open>The blocks of a message that are complete.\<close>

function absorb :: "u8 list \<Rightarrow> md5_regs \<Rightarrow> md5_regs" where
  "absorb m r = (if length m < 64 then r else absorb (drop 64 m) (rfc_block (take 64 m) r))"
  by auto
termination by (relation "measure (\<lambda>(m, r). length m)") auto

declare absorb.simps [simp del]

definition rfc_init :: md5_regs where
  "rfc_init = (0x67452301, 0xefcdab89, 0x98badcfe, 0x10325476)"

definition rfc_pad :: "u8 list \<Rightarrow> u8 list" where
  "rfc_pad m = m @ [0x80] @ replicate ((119 - length m mod 64) mod 64) 0 @
     OUT (of_nat (8 * length m)) @ OUT (of_nat (8 * length m div 2 ^ 32))"

definition rfc_digest :: "u8 list \<Rightarrow> u8 list" where
  "rfc_digest m = (case absorb (rfc_pad m) rfc_init of (a, b, c, d) \<Rightarrow> OUT a @ OUT b @ OUT c @ OUT d)"

section \<open>The compression function\<close>

lemma round_functions: "md5_F = rfc_F" "md5_G = rfc_G" "md5_H = rfc_H" "md5_H2 = rfc_H" "md5_I = rfc_I"
  by (intro ext bit_eqI, auto simp: md5_F_def rfc_F_def md5_G_def rfc_G_def md5_H_def md5_H2_def rfc_H_def md5_I_def rfc_I_def bit_simps)+

lemma all_ones: "(x :: u32) AND 0xffffffff = x"
proof -
  have "(0xffffffff :: u32) = -1" by simp
  then show ?thesis by (simp only: and.right_neutral)
qed

lemma rotation:
  assumes "0 < s" and "s < 32"
  shows "push_bit s x OR drop_bit (32 - s) (x AND 0xffffffff) = word_rotl s (x :: u32)"
proof (rule bit_word_eqI)
  fix n assume "n < LENGTH(32)"
  then have n: "n < 32" by simp
  show "bit (push_bit s x OR drop_bit (32 - s) (x AND 0xffffffff)) n = bit (word_rotl s x) n"
  proof (cases "s \<le> n")
    case True
    then have "(n + (32 - s)) mod 32 = n - s" using assms n by (simp add: mod_if)
    moreover have "\<not> bit x (32 - s + n)" using True assms bit_imp_le_length by fastforce
    ultimately show ?thesis using True assms n by (auto simp: all_ones bit_simps bit_word_rotl_iff)
  next
    case False
    then have "(n + (32 - s)) mod 32 = 32 - s + n" using assms by simp
    then have "bit (word_rotl s x) n = bit x (32 - s + n)" using assms n by (simp only: bit_word_rotl_iff) simp
    then show ?thesis using False n unfolding all_ones by (simp add: bit_or_iff bit_drop_bit_eq bit_push_bit_iff)
  qed
qed

lemma STEP_rfc: "0 < s \<Longrightarrow> s < 32 \<Longrightarrow> STEP f a b c d x t s = b + word_rotl s (a + f b c d + x + t)"
  unfolding STEP_def Let_def by (subst rotation) (simp_all add: ac_simps)

lemma steps_rfc:
  "steps1 @ steps2 @ steps3 @ steps4 = map (\<lambda>i. (rfc_fn i, rfc_word i, rfc_T ! i, rfc_shift i)) [0..<64]"
  by (simp add: steps1_def steps2_def steps3_def steps4_def round_functions upt_rec rfc_fn_def rfc_word_def rfc_T_def rfc_shift_def)

lemma run_steps_rfc:
  "\<forall>i \<in> set is. 0 < rfc_shift i \<and> rfc_shift i < 32 \<Longrightarrow>
    run_steps (map (\<lambda>i. (rfc_fn i, rfc_word i, rfc_T ! i, rfc_shift i)) is) blk r = fold (rfc_step blk) is r"
  by (induction "is" arbitrary: r) (auto simp: rfc_step_def STEP_rfc split: prod.splits)

lemma rfc_shift_bounds: "0 < rfc_shift i \<and> rfc_shift i < 32"
proof -
  have "i mod 4 = 0 \<or> i mod 4 = 1 \<or> i mod 4 = 2 \<or> i mod 4 = 3" by linarith
  then show ?thesis by (auto simp: rfc_shift_def)
qed

lemma body_block_rfc: "body_block = rfc_block"
  by (intro ext) (simp add: body_block_def rfc_block_def steps_rfc run_steps_rfc rfc_shift_bounds split: prod.splits)

section \<open>Complete blocks\<close>

lemma absorb_short: "length m < 64 \<Longrightarrow> absorb m r = r"
  by (subst absorb.simps) simp

lemma absorb_block: "length b = 64 \<Longrightarrow> absorb (b @ m) r = absorb m (rfc_block b r)"
  by (subst absorb.simps) simp

lemma absorb_append: "64 dvd length xs \<Longrightarrow> absorb (xs @ ys) r = absorb ys (absorb xs r)"
proof (induction xs r rule: absorb.induct)
  case (1 xs r)
  show ?case
  proof (cases "length xs < 64")
    case True
    then have "xs = []" using "1.prems" by (cases xs) (auto dest: dvd_imp_le)
    then show ?thesis by (simp add: absorb_short)
  next
    case False
    then have l: "length (take 64 xs) = 64" by simp
    have "64 dvd length (drop 64 xs)" using "1.prems" False by (simp add: dvd_diff_nat)
    then have "absorb (drop 64 xs @ ys) (rfc_block (take 64 xs) r) = absorb ys (absorb (drop 64 xs) (rfc_block (take 64 xs) r))"
      by (rule "1.IH" [OF False])
    then show ?thesis using absorb_block [OF l, of "drop 64 xs @ ys"] absorb_block [OF l, of "drop 64 xs"] by (simp add: append_assoc [symmetric] del: append_assoc)
  qed
qed

lemma body_loop_absorb:
  "0 < sz \<Longrightarrow> 64 dvd sz \<Longrightarrow> sz \<le> length ptr \<Longrightarrow> body_loop ptr sz r = (absorb (take sz ptr) r, drop sz ptr)"
proof (induction ptr sz r rule: body_loop.induct)
  case (1 ptr sz r)
  have l: "length (take 64 ptr) = 64" "64 \<le> sz" using "1.prems" by (auto dest: dvd_imp_le)
  have split: "take sz ptr = take 64 ptr @ take (sz - 64) (drop 64 ptr)" using l(2) by (metis le_add_diff_inverse take_add)
  show ?case
  proof (cases "sz = 64")
    case True
    then show ?thesis using absorb_block [OF l(1), of "[]" r] by (subst body_loop.simps) (simp add: body_block_rfc absorb_short)
  next
    case False
    then have "body_loop (drop 64 ptr) (sz - 64) (body_block (take 64 ptr) r) =
        (absorb (take (sz - 64) (drop 64 ptr)) (body_block (take 64 ptr) r), drop (sz - 64) (drop 64 ptr))"
      using "1.prems" l(2) by (intro "1.IH" [OF refl refl]) (auto simp: dvd_diff_nat)
    then show ?thesis using False l absorb_block [OF l(1), of "take (sz - 64) (drop 64 ptr)" r] split
      by (subst body_loop.simps) (simp add: Let_def body_block_rfc)
  qed
qed

declare body_loop.simps [simp del]

definition regs :: "md5_ctx \<Rightarrow> md5_regs" where
  "regs ctx = (ctx_a ctx, ctx_b ctx, ctx_c ctx, ctx_d ctx)"

lemma body_absorb:
  assumes "0 < sz" and "64 dvd sz" and "sz \<le> length data"
  shows "regs (fst (body ctx data sz)) = absorb (take sz data) (regs ctx)" and "snd (body ctx data sz) = drop sz data"
    and "lo (fst (body ctx data sz)) = lo ctx" and "hi (fst (body ctx data sz)) = hi ctx" and "buffer (fst (body ctx data sz)) = buffer ctx"
  by (auto simp: body_def regs_def body_loop_absorb [OF assms] split: prod.splits)

section \<open>The byte count\<close>

lemma ucast_of_nat_u64: "(ucast (of_nat k :: u64) :: u32) = of_nat k"
proof -
  have "unat (ucast (of_nat k :: u64) :: u32) = unat (of_nat k :: u32)"
    by (simp add: unsigned_ucast_eq unsigned_of_nat take_bit_eq_mod mod_mod_cancel)
  then show ?thesis by (simp only: word_unat_eq_iff)
qed

lemma lo_masks: "(0x3f :: u32) = mask 6" "(0x1fffffff :: u64) = mask 29"
  by (simp_all add: mask_eq_exp_minus_1)

lemma unat_lo: "unat (of_nat (n mod 2 ^ 29) :: u32) = n mod 2 ^ 29"
proof -
  have "n mod 2 ^ 29 < 2 ^ 32" by (rule less_le_trans [of _ "2 ^ 29"]) simp_all
  then show ?thesis by (simp add: unsigned_of_nat take_bit_nat_eq_self)
qed

lemma used_bytes: "unat ((of_nat (n mod 2 ^ 29) :: u32) AND 0x3f) = n mod 64"
proof -
  have "n mod 2 ^ 29 mod 64 = n mod 64" by (rule mod_mod_cancel) simp
  then show ?thesis by (simp only: lo_masks unat_and_mask unat_lo) simp
qed

lemma low_count:
  assumes "k < 2 ^ 64"
  shows "(ucast ((ucast (of_nat (n mod 2 ^ 29) :: u32) + of_nat k :: u64) AND 0x1fffffff) :: u32) = of_nat ((n + k) mod 2 ^ 29)"
proof -
  have a: "(ucast (of_nat (n mod 2 ^ 29) :: u32) :: u64) = of_nat (n mod 2 ^ 29)"
    using unat_lo [of n] by (metis of_nat_unat)
  have "unat ((of_nat (n mod 2 ^ 29) + of_nat k :: u64) AND mask 29) = (n + k) mod 2 ^ 29"
  proof -
    have "unat (of_nat (n mod 2 ^ 29) + of_nat k :: u64) = (n mod 2 ^ 29 + k) mod 2 ^ 64"
      by (simp add: of_nat_add [symmetric] unsigned_of_nat take_bit_eq_mod del: of_nat_add)
    then show ?thesis by (simp add: unat_and_mask mod_mod_cancel mod_simps)
  qed
  then have "((of_nat (n mod 2 ^ 29) + of_nat k :: u64) AND mask 29) = of_nat ((n + k) mod 2 ^ 29)"
    by (metis of_nat_unat ucast_id)
  then show ?thesis unfolding a lo_masks by (simp only: ucast_of_nat_u64)
qed

lemma carry: "(n + k) div U = n div U + k div U + (if (n + k) mod U < n mod U then 1 else 0)" if "0 < U" for n k U :: nat
proof -
  have "(n + k) div U = n div U + k div U + (n mod U + k mod U) div U" by (rule div_add1_eq)
  moreover have m: "(n + k) mod U = (n mod U + k mod U) mod U" by (rule mod_add_eq [symmetric])
  ultimately show ?thesis
  proof (cases "n mod U + k mod U < U")
    case True
    then show ?thesis using \<open>(n + k) div U = _\<close> m by simp
  next
    case False
    have b: "n mod U < U" "k mod U < U" using that by simp_all
    then have "n mod U + k mod U - U < U" by linarith
    then have "(n mod U + k mod U) div U = 1" "(n mod U + k mod U) mod U = n mod U + k mod U - U"
      using False that by (simp_all add: le_div_geq le_mod_geq)
    then show ?thesis using \<open>(n + k) div U = _\<close> m b False by simp
  qed
qed

lemma count_bytes_ok:
  assumes "lo ctx = of_nat (n mod 2 ^ 29)" and "hi ctx = of_nat (n div 2 ^ 29)" and "k < 2 ^ 64"
  shows "count_bytes ctx k = ctx\<lparr>lo := of_nat ((n + k) mod 2 ^ 29), hi := of_nat ((n + k) div 2 ^ 29)\<rparr>"
proof -
  have lt: "(of_nat ((n + k) mod 2 ^ 29) :: u32) < of_nat (n mod 2 ^ 29) \<longleftrightarrow> (n + k) mod 2 ^ 29 < n mod 2 ^ 29"
    unfolding word_less_nat_alt unat_lo ..
  have dr: "(ucast (drop_bit 29 (of_nat k :: u64)) :: u32) = of_nat (k div 2 ^ 29)"
    using drop_bit_of_nat_u64 [OF assms(3), of 29] by (simp only: ucast_of_nat_u64)
  have "(of_nat ((n + k) div 2 ^ 29) :: u32) =
      (if (n + k) mod 2 ^ 29 < n mod 2 ^ 29 then of_nat (n div 2 ^ 29) + 1 else of_nat (n div 2 ^ 29)) + of_nat (k div 2 ^ 29)"
    by (subst carry) (simp_all only: of_nat_add of_nat_1 of_nat_0 zero_less_power zero_less_numeral ac_simps split: if_split, simp)
  then show ?thesis unfolding count_bytes_def Let_def assms(1,2) low_count [OF assms(3)] lt dr by (simp only:)
qed

section \<open>The message behind a context\<close>

text \<open>The registers hold the complete blocks p and the buffer starts with the rest t.\<close>

definition md5_rel :: "md5_ctx \<Rightarrow> u8 list \<Rightarrow> u8 list \<Rightarrow> bool" where
  "md5_rel ctx p t \<longleftrightarrow>
     length (buffer ctx) = 64 \<and> 64 dvd length p \<and> length t < 64 \<and> regs ctx = absorb p rfc_init \<and>
     lo ctx = of_nat (length (p @ t) mod 2 ^ 29) \<and> hi ctx = of_nat (length (p @ t) div 2 ^ 29) \<and> take (length t) (buffer ctx) = t"

lemma regs_update [simp]: "regs (ctx\<lparr>buffer := b\<rparr>) = regs ctx" "regs (ctx\<lparr>lo := l\<rparr>) = regs ctx" "regs (ctx\<lparr>hi := h\<rparr>) = regs ctx"
  by (simp_all add: regs_def)

lemma put_bytes_length [simp]: "off + length src \<le> length dst \<Longrightarrow> length (put_bytes dst off src) = length dst"
  by (simp add: put_bytes_def)

lemma put_bytes_take: "off \<le> length dst \<Longrightarrow> take (off + length src) (put_bytes dst off src) = take off dst @ src"
  by (simp add: put_bytes_def)

definition whole :: "u8 list \<Rightarrow> nat" where "whole d = length d - length d mod 64"

lemma whole_props: "64 dvd whole d" "whole d \<le> length d" "length (drop (whole d) d) < 64"
  by (simp_all add: whole_def minus_mod_eq_mult_div)

lemma update_blocks_split:
  assumes "64 dvd length p" and "regs ctx = absorb p r"
  obtains c where "update_blocks ctx d = c\<lparr>buffer := put_bytes (buffer ctx) 0 (drop (whole d) d)\<rparr>"
    and "regs c = absorb (p @ take (whole d) d) r" and "lo c = lo ctx" and "hi c = hi ctx"
proof (cases "64 \<le> length d")
  case True
  then have w: "0 < whole d" by (simp add: whole_def)
  note b = body_absorb [OF w whole_props(1,2), of ctx]
  show ?thesis
  proof (rule that [of "fst (body ctx d (whole d))"])
    show "update_blocks ctx d = (fst (body ctx d (whole d)))\<lparr>buffer := put_bytes (buffer ctx) 0 (drop (whole d) d)\<rparr>"
      using True b(2,5) by (simp add: update_blocks_def Let_def whole_def [symmetric] case_prod_beta)
    show "regs (fst (body ctx d (whole d))) = absorb (p @ take (whole d) d) r"
      unfolding b(1) absorb_append [OF assms(1)] assms(2) ..
  qed (rule b)+
next
  case False
  then have "whole d = 0" by (simp add: whole_def)
  then show ?thesis using False assms(2) by (intro that [of ctx]) (simp_all add: update_blocks_def)
qed

lemma update_blocks_rel:
  assumes "64 dvd length p" and "regs ctx = absorb p rfc_init" and "length (buffer ctx) = 64"
    and "lo ctx = of_nat (length (p @ d) mod 2 ^ 29)" and "hi ctx = of_nat (length (p @ d) div 2 ^ 29)"
  shows "md5_rel (update_blocks ctx d) (p @ take (whole d) d) (drop (whole d) d)"
proof -
  let ?t = "drop (whole d) d"
  obtain c where c: "update_blocks ctx d = c\<lparr>buffer := put_bytes (buffer ctx) 0 ?t\<rparr>"
      "regs c = absorb (p @ take (whole d) d) rfc_init" "lo c = lo ctx" "hi c = hi ctx"
    using update_blocks_split [OF assms(1,2), of d] by blast
  have b: "length (put_bytes (buffer ctx) 0 ?t) = 64" "take (length ?t) (put_bytes (buffer ctx) 0 ?t) = ?t"
    using whole_props(3) [of d] assms(3) put_bytes_take [of 0 "buffer ctx" ?t] by simp_all
  have l: "length ((p @ take (whole d) d) @ ?t) = length (p @ d)" by simp
  have "64 dvd length (p @ take (whole d) d)" using assms(1) whole_props(1,2) [of d] by simp
  then show ?thesis unfolding md5_rel_def l c(1) using b c(2-4) assms(4,5) whole_props(3) [of d] by simp
qed

lemma full_buffer_block:
  assumes "64 dvd length p" and "regs ctx = absorb p rfc_init" and "length (buffer ctx) = 64"
  shows "regs (fst (body ctx (buffer ctx) 64)) = absorb (p @ buffer ctx) rfc_init"
  using body_absorb(1) [of 64 "buffer ctx" ctx] assms absorb_append [OF assms(1)] by simp

lemma MD5_Update_rel:
  assumes "md5_rel ctx p t" and "length d < 2 ^ 64"
  obtains p' t' where "p' @ t' = p @ t @ d" and "md5_rel (MD5_Update ctx d) p' t'"
proof -
  have r: "length (buffer ctx) = 64" "64 dvd length p" "length t < 64" "regs ctx = absorb p rfc_init"
      "lo ctx = of_nat (length (p @ t) mod 2 ^ 29)" "hi ctx = of_nat (length (p @ t) div 2 ^ 29)" "take (length t) (buffer ctx) = t"
    using assms(1) by (simp_all only: md5_rel_def)
  define c1 where "c1 = count_bytes ctx (length d)"
  have len: "length (p @ t) + length d = length (p @ t @ d)" by simp
  have "c1 = ctx\<lparr>lo := of_nat (length (p @ t @ d) mod 2 ^ 29), hi := of_nat (length (p @ t @ d) div 2 ^ 29)\<rparr>"
    unfolding c1_def count_bytes_ok [OF r(5,6) assms(2)] len ..
  then have c1: "regs c1 = absorb p rfc_init" "buffer c1 = buffer ctx"
      "lo c1 = of_nat (length (p @ t @ d) mod 2 ^ 29)" "hi c1 = of_nat (length (p @ t @ d) div 2 ^ 29)"
    using r(4) by simp_all
  have "length (p @ t) mod 64 = length t" using r(2,3) by auto
  then have used: "unat (lo ctx AND 0x3f) = length t" unfolding r(5) used_bytes .
  have u: "MD5_Update ctx d =
      (if t \<noteq> []
       then if length d < 64 - length t then c1\<lparr>buffer := put_bytes (buffer c1) (length t) d\<rparr>
            else let c2 = c1\<lparr>buffer := put_bytes (buffer c1) (length t) (take (64 - length t) d)\<rparr>
                 in update_blocks (fst (body c2 (buffer c2) 64)) (drop (64 - length t) d)
       else update_blocks c1 d)"
    unfolding MD5_Update_def Let_def used c1_def [symmetric] by simp
  consider "t = []" | "t \<noteq> []" "length d < 64 - length t" | "t \<noteq> []" "64 - length t \<le> length d" by linarith
  then show ?thesis
  proof cases
    case 1
    have "md5_rel (update_blocks c1 d) (p @ take (whole d) d) (drop (whole d) d)"
      using 1 c1 r(1) by (intro update_blocks_rel r(2)) simp_all
    then show ?thesis using 1 u by (intro that [of "p @ take (whole d) d" "drop (whole d) d"]) simp_all
  next
    case 2
    have "md5_rel (c1\<lparr>buffer := put_bytes (buffer c1) (length t) d\<rparr>) p (t @ d)"
      using 2 c1 r put_bytes_take [of "length t" "buffer ctx" d] by (simp add: md5_rel_def)
    then show ?thesis using 2 u by (intro that [of p "t @ d"]) simp_all
  next
    case 3
    let ?f = "take (64 - length t) d" and ?g = "drop (64 - length t) d"
    define c2 where "c2 = c1\<lparr>buffer := put_bytes (buffer c1) (length t) ?f\<rparr>"
    have "put_bytes (buffer ctx) (length t) ?f = t @ ?f" using 3 r(1,3,7) by (simp add: put_bytes_def)
    then have c2: "regs c2 = absorb p rfc_init" "buffer c2 = t @ ?f" "length (buffer c2) = 64" "lo c2 = lo c1" "hi c2 = hi c1"
      using c1 3 r(3) by (simp_all add: c2_def)
    have e: "(p @ buffer c2) @ ?g = p @ t @ d" unfolding c2(2) by simp
    have "md5_rel (update_blocks (fst (body c2 (buffer c2) 64)) ?g) ((p @ buffer c2) @ take (whole ?g) ?g) (drop (whole ?g) ?g)"
    proof (rule update_blocks_rel)
      show "regs (fst (body c2 (buffer c2) 64)) = absorb (p @ buffer c2) rfc_init" by (rule full_buffer_block [OF r(2) c2(1,3)])
    qed (use r(2) c2 c1(3,4) e body_absorb [of 64 "buffer c2" c2] in \<open>simp_all add: dvd_add\<close>)
    moreover have "((p @ buffer c2) @ take (whole ?g) ?g) @ drop (whole ?g) ?g = p @ t @ d"
      unfolding append_assoc [of _ "take (whole ?g) ?g"] append_take_drop_id by (rule e)
    moreover have "MD5_Update ctx d = update_blocks (fst (body c2 (buffer c2) 64)) ?g" using 3 u by (simp add: Let_def c2_def)
    ultimately show ?thesis by (intro that) simp_all
  qed
qed

section \<open>The last blocks\<close>

lemma OUT_length [simp]: "length (OUT w) = 4"
  by (simp add: OUT_def)

lemma length_fields:
  "push_bit 3 (of_nat (n mod 2 ^ 29) :: u32) = of_nat (8 * n)" "(of_nat (n div 2 ^ 29) :: u32) = of_nat (8 * n div 2 ^ 32)"
proof -
  have "8 * (n mod 2 ^ 29) = 8 * n mod 2 ^ 32" by (simp add: mult_mod_right)
  then have "(of_nat (8 * (n mod 2 ^ 29)) :: u32) = of_nat (8 * n)"
    by (simp only: word_of_nat_eq_iff take_bit_eq_mod) simp
  then show "push_bit 3 (of_nat (n mod 2 ^ 29) :: u32) = of_nat (8 * n)" by (simp add: push_bit_eq_mult mult.commute)
  have "8 * n div 2 ^ 32 = n div 2 ^ 29" using div_mult_mult1 [of 8 n "2 ^ 29"] by simp
  then show "(of_nat (n div 2 ^ 29) :: u32) = of_nat (8 * n div 2 ^ 32)" by (simp only:)
qed

definition length_block :: "nat \<Rightarrow> u8 list" where
  "length_block n = OUT (of_nat (8 * n)) @ OUT (of_nat (8 * n div 2 ^ 32))"

lemma pad_zeros:
  assumes "64 dvd length p" and "length t < 64"
  shows "(119 - length (p @ t) mod 64) mod 64 = (if length t \<le> 55 then 55 - length t else 119 - length t)"
proof -
  have m: "length (p @ t) mod 64 = length t" using assms by auto
  show ?thesis
  proof (cases "length t \<le> 55")
    case True
    then have "119 - length t = 55 - length t + 64" by linarith
    then have "(119 - length t) mod 64 = (55 - length t) mod 64" by (simp only: mod_add_self2)
    then show ?thesis using True unfolding m by simp
  next
    case False
    then have "119 - length t < 64" by linarith
    then show ?thesis using False unfolding m by simp
  qed
qed

lemma pad_short:
  assumes "length t \<le> 55" and "64 dvd length p"
  shows "rfc_pad (p @ t) = p @ (t @ [0x80] @ replicate (55 - length t) 0 @ length_block (length (p @ t)))"
  using assms pad_zeros [of p t] unfolding rfc_pad_def length_block_def append_assoc by (simp only:) simp

lemma pad_long:
  assumes "55 < length t" and "length t < 64" and "64 dvd length p"
  shows "rfc_pad (p @ t) =
    (p @ (t @ [0x80] @ replicate (63 - length t) 0)) @ (replicate 56 0 @ length_block (length (p @ t)))"
proof -
  have "119 - length t = 63 - length t + 56" using assms(2) by linarith
  then have "replicate (119 - length t) (0 :: u8) = replicate (63 - length t) 0 @ replicate 56 0"
    by (simp only: replicate_add)
  then show ?thesis using assms pad_zeros [of p t] unfolding rfc_pad_def length_block_def append_assoc by simp
qed

lemma final_block:
  assumes "length b = 64" and "used \<le> 56"
  shows "put_bytes (put_bytes (put_bytes b used (replicate (64 - used - 8) 0)) 56 (OUT x)) 60 (OUT y) =
    take used b @ replicate (56 - used) 0 @ OUT x @ OUT y"
  using assms by (simp add: put_bytes_def)

lemma marked_buffer:
  assumes "length b = 64" and "length t < 64" and "take (length t) b = t"
  shows "take (length t + 1) (b[length t := 0x80]) = t @ [0x80]"
  using assms by (simp add: take_Suc_conv_app_nth)

definition regs_out :: "md5_regs \<Rightarrow> u8 list" where
  "regs_out r = (case r of (a, b, c, d) \<Rightarrow> OUT a @ OUT b @ OUT c @ OUT d)"

lemma MD5_Final_block:
  assumes "pad_block ctx = (c, used)" and "regs c = absorb q rfc_init" and "64 dvd length q" and "length (buffer c) = 64" and "used \<le> 56"
    and "lo c = of_nat (n mod 2 ^ 29)" and "hi c = of_nat (n div 2 ^ 29)"
  shows "MD5_Final ctx = (regs_out (absorb (q @ (take used (buffer c) @ replicate (56 - used) 0 @ length_block n)) rfc_init), zero_ctx)"
proof -
  let ?b = "take used (buffer c) @ replicate (56 - used) 0 @ length_block n"
  define c2 where "c2 = c\<lparr>buffer := put_bytes (buffer c) used (replicate (64 - used - 8) 0), lo := push_bit 3 (lo c)\<rparr>"
  define e where "e = c2\<lparr>buffer := put_bytes (put_bytes (buffer c2) 56 (OUT (lo c2))) 60 (OUT (hi c2))\<rparr>"
  have "buffer e = put_bytes (put_bytes (put_bytes (buffer c) used (replicate (64 - used - 8) 0)) 56 (OUT (push_bit 3 (lo c)))) 60 (OUT (hi c))"
    by (simp add: e_def c2_def)
  then have b: "buffer e = ?b"
    unfolding final_block [OF assms(4,5)] assms(6,7) length_fields length_block_def .
  have "MD5_Final ctx = (regs_out (regs (fst (body e (buffer e) 64))), zero_ctx)"
    unfolding MD5_Final_def assms(1) Let_def prod.case regs_out_def regs_def e_def c2_def ..
  moreover have "length (buffer e) = 64" "regs e = absorb q rfc_init"
    using assms(2,4,5) unfolding b by (simp_all add: e_def c2_def length_block_def)
  ultimately show ?thesis using full_buffer_block [OF assms(3), of e] b by (simp only:)
qed

lemma MD5_Final_rel:
  assumes "md5_rel ctx p t"
  shows "MD5_Final ctx = (rfc_digest (p @ t), zero_ctx)"
proof -
  have r: "length (buffer ctx) = 64" "64 dvd length p" "length t < 64" "regs ctx = absorb p rfc_init"
      "lo ctx = of_nat (length (p @ t) mod 2 ^ 29)" "hi ctx = of_nat (length (p @ t) div 2 ^ 29)" "take (length t) (buffer ctx) = t"
    using assms by (simp_all only: md5_rel_def)
  have "length (p @ t) mod 64 = length t" using r(2,3) by auto
  then have used: "unat (lo ctx AND 0x3f) = length t" unfolding r(5) used_bytes .
  let ?c = "ctx\<lparr>buffer := (buffer ctx)[length t := 0x80]\<rparr>"
  have mark: "take (length t + 1) (buffer ?c) = t @ [0x80]" using marked_buffer [OF r(1,3,7)] by simp
  show ?thesis
  proof (cases "length t \<le> 55")
    case True
    then have "pad_block ctx = (?c, length t + 1)" by (simp add: pad_block_def used Let_def)
    then have "MD5_Final ctx = (regs_out (absorb (p @ (take (length t + 1) (buffer ?c) @ replicate (56 - (length t + 1)) 0 @
        length_block (length (p @ t)))) rfc_init), zero_ctx)"
      using r True by (intro MD5_Final_block) simp_all
    then show ?thesis unfolding mark using pad_short [OF True r(2)] by (simp add: rfc_digest_def regs_out_def)
  next
    case False
    let ?f = "t @ [0x80] @ replicate (63 - length t) 0"
    define d where "d = ?c\<lparr>buffer := ?f\<rparr>"
    have d: "buffer d = ?f" "length (buffer d) = 64" "regs d = absorb p rfc_init" "lo d = lo ctx" "hi d = hi ctx"
      using r(3,4) by (simp_all add: d_def)
    have "put_bytes (buffer ?c) (length t + 1) (replicate (63 - length t) 0) = ?f"
      unfolding put_bytes_def mark using r(1,3) by simp
    then have pb: "pad_block ctx = (fst (body d (buffer d) 64), 0)" using False by (simp add: pad_block_def used Let_def d_def)
    note bd = full_buffer_block [OF r(2) d(3,2)] body_absorb(3-5) [of 64 "buffer d" d]
    have "MD5_Final ctx = (regs_out (absorb ((p @ buffer d) @ (take 0 (buffer (fst (body d (buffer d) 64))) @ replicate (56 - 0) 0 @
        length_block (length (p @ t)))) rfc_init), zero_ctx)"
      using pb bd(1) by (rule MD5_Final_block) (use bd d r in simp_all)
    then have "MD5_Final ctx = (regs_out (absorb ((p @ ?f) @ (replicate 56 0 @ length_block (length (p @ t)))) rfc_init), zero_ctx)"
      unfolding d(1) by simp
    then show ?thesis using pad_long [OF _ r(3,2)] False by (simp add: rfc_digest_def regs_out_def)
  qed
qed

section \<open>The digest\<close>

lemma MD5_Init_rel: "length junk = 64 \<Longrightarrow> md5_rel (MD5_Init junk) [] []"
  by (simp add: md5_rel_def MD5_Init_def regs_def rfc_init_def absorb_short)

lemma MD5_Updates_rel:
  "md5_rel ctx p t \<Longrightarrow> \<forall>d \<in> set chunks. length d < 2 ^ 64 \<Longrightarrow>
    \<exists>p' t'. p' @ t' = p @ t @ concat chunks \<and> md5_rel (foldl MD5_Update ctx chunks) p' t'"
proof (induction chunks arbitrary: ctx p t)
  case Nil
  then show ?case by auto
next
  case (Cons d chunks)
  obtain q u where q: "q @ u = p @ t @ d" "md5_rel (MD5_Update ctx d) q u"
    using MD5_Update_rel [OF Cons.prems(1), of d] Cons.prems(2) by auto
  obtain p' t' where "p' @ t' = q @ u @ concat chunks" "md5_rel (foldl MD5_Update (MD5_Update ctx d) chunks) p' t'"
    using Cons.IH [OF q(2)] Cons.prems(2) by auto
  then show ?case using q(1) by (intro exI [of _ p'] exI [of _ t']) (simp add: append_assoc [symmetric] del: append_assoc)
qed

text \<open>C13: Whatever the buffer of a context held before, and however a message is divided into updates, MD5_Init, the updates
  and MD5_Final return the RFC 1321 digest of the whole message and leave a cleared context: the unrolled rounds with their rewritten round functions, the
  two count words with their carry, the partly filled buffer and the one or two padding blocks together compute the tables
  and the padding of the document.\<close>

theorem md5_computes_rfc1321:
  assumes "length junk = 64" and "\<forall>d \<in> set chunks. length d < 2 ^ 64"
  shows "MD5_Final (foldl MD5_Update (MD5_Init junk) chunks) = (rfc_digest (concat chunks), zero_ctx)"
proof -
  obtain p t where "p @ t = concat chunks" "md5_rel (foldl MD5_Update (MD5_Init junk) chunks) p t"
    using MD5_Updates_rel [OF MD5_Init_rel [OF assms(1)] assms(2)] by auto
  then show ?thesis using MD5_Final_rel by metis
qed

theorem md5_computes_rfc1321_witness:
  "MD5_Final (foldl MD5_Update (MD5_Init (replicate 64 0xff)) [[97], [], [98, 99]]) = (rfc_digest [97, 98, 99], zero_ctx)"
  using md5_computes_rfc1321 [of "replicate 64 0xff" "[[97], [], [98, 99]]"] by simp

end
