(* ===== verification/Printf.thy ===== *)
theory Printf
  imports Omen_Prelude
begin

text \<open>
  Formatted output, modules/libraries/std/stdio.c.  An output function takes a character, an index and the size of the buffer;
  what it writes to is its last argument.  Format strings and string arguments are HOL strings without their terminator: reading on behind the
  terminator of the format is a fault, and so is taking an argument of another type than the one passed.  Widths, precisions and indices
  are natural numbers; \<open>_atoi\<close> computes modulo \<open>2^32\<close>.  The characters of the floating-point conversions \<open>_ftoa\<close> and \<open>_etoa\<close>
  are an argument.
\<close>

section \<open>Flags and output functions\<close>

definition FLAGS_ZEROPAD :: u32 where "FLAGS_ZEROPAD = 0x1"

definition FLAGS_LEFT :: u32 where "FLAGS_LEFT = 0x2"

definition FLAGS_PLUS :: u32 where "FLAGS_PLUS = 0x4"

definition FLAGS_SPACE :: u32 where "FLAGS_SPACE = 0x8"

definition FLAGS_HASH :: u32 where "FLAGS_HASH = 0x10"

definition FLAGS_UPPERCASE :: u32 where "FLAGS_UPPERCASE = 0x20"

definition FLAGS_CHAR :: u32 where "FLAGS_CHAR = 0x40"

definition FLAGS_SHORT :: u32 where "FLAGS_SHORT = 0x80"

definition FLAGS_LONG :: u32 where "FLAGS_LONG = 0x100"

definition FLAGS_LONG_LONG :: u32 where "FLAGS_LONG_LONG = 0x200"

definition FLAGS_PRECISION :: u32 where "FLAGS_PRECISION = 0x400"

definition FLAGS_ADAPT_EXP :: u32 where "FLAGS_ADAPT_EXP = 0x800"

lemmas flag_defs = FLAGS_ZEROPAD_def FLAGS_LEFT_def FLAGS_PLUS_def FLAGS_SPACE_def FLAGS_HASH_def FLAGS_UPPERCASE_def
  FLAGS_CHAR_def FLAGS_SHORT_def FLAGS_LONG_def FLAGS_LONG_LONG_def FLAGS_PRECISION_def FLAGS_ADAPT_EXP_def

definition has :: "u32 \<Rightarrow> u32 \<Rightarrow> bool" where
  "has flags f \<longleftrightarrow> flags AND f \<noteq> 0"

definition PRINTF_NTOA_BUFFER_SIZE :: nat where "PRINTF_NTOA_BUFFER_SIZE = 32"

type_synonym 'b out_fct_type = "char \<Rightarrow> nat \<Rightarrow> nat \<Rightarrow> 'b \<Rightarrow> 'b"

definition out_buffer :: "(nat \<Rightarrow> char) out_fct_type" where
  "out_buffer character idx maxlen buffer = (if idx < maxlen then buffer(idx := character) else buffer)"

definition out_null :: "'b out_fct_type" where
  "out_null character idx maxlen buffer = buffer"

text \<open>The characters sent to the debug device, if there is one.\<close>

definition out_char :: "bool \<Rightarrow> string out_fct_type" where
  "out_char ctty character idx maxlen sent = (if character \<noteq> CHR 0x00 \<and> ctty then sent @ [character] else sent)"

definition out_fct :: "(char \<Rightarrow> 'b \<Rightarrow> 'b) \<Rightarrow> 'b out_fct_type" where
  "out_fct fct character idx maxlen arg = (if character \<noteq> CHR 0x00 then fct character arg else arg)"

text \<open>One call \<open>out(c, buffer, idx++, maxlen)\<close>, and a sequence of them.\<close>

definition put :: "'b out_fct_type \<Rightarrow> nat \<Rightarrow> char \<Rightarrow> 'b \<times> nat \<Rightarrow> 'b \<times> nat" where
  "put out maxlen c s = (case s of (b, idx) \<Rightarrow> (out c idx maxlen b, idx + 1))"

definition puts :: "'b out_fct_type \<Rightarrow> nat \<Rightarrow> string \<Rightarrow> 'b \<times> nat \<Rightarrow> 'b \<times> nat" where
  "puts out maxlen cs s = fold (put out maxlen) cs s"

section \<open>Integers\<close>

definition is_digit :: "char \<Rightarrow> bool" where
  "is_digit ch \<longleftrightarrow> of_char ch \<ge> (48 :: nat) \<and> of_char ch \<le> (57 :: nat)"

fun atoi :: "string \<Rightarrow> nat \<Rightarrow> nat \<times> string" where
  "atoi [] i = (i, [])"
| "atoi (c # cs) i = (if is_digit c then atoi cs ((i * 10 + (of_char c - 48)) mod 2 ^ 32) else (i, c # cs))"

text \<open>\<open>buf\<close> holds the characters in reverse.\<close>

definition out_rev :: "'b out_fct_type \<Rightarrow> nat \<Rightarrow> string \<Rightarrow> nat \<Rightarrow> u32 \<Rightarrow> 'b \<times> nat \<Rightarrow> 'b \<times> nat" where
  "out_rev out maxlen buf width flags s =
     (let start_idx = snd s;
          s1 = (if \<not> has flags FLAGS_LEFT \<and> \<not> has flags FLAGS_ZEROPAD then puts out maxlen (replicate (width - length buf) CHR '' '') s else s);
          s2 = puts out maxlen (rev buf) s1
      in if has flags FLAGS_LEFT then puts out maxlen (replicate (width - (snd s2 - start_idx)) CHR '' '') s2 else s2)"

definition pad_to :: "nat \<Rightarrow> string \<Rightarrow> string" where
  "pad_to n buf = buf @ replicate (min n PRINTF_NTOA_BUFFER_SIZE - length buf) CHR ''0''"

definition room :: "string \<Rightarrow> bool" where
  "room buf \<longleftrightarrow> length buf < PRINTF_NTOA_BUFFER_SIZE"

definition add_hash :: "string \<Rightarrow> nat \<Rightarrow> nat \<Rightarrow> nat \<Rightarrow> u32 \<Rightarrow> string" where
  "add_hash buf base prec width flags =
     (let b1 = (if \<not> has flags FLAGS_PRECISION \<and> buf \<noteq> [] \<and> (length buf = prec \<or> length buf = width)
                then let c = butlast buf in if c \<noteq> [] \<and> base = 16 then butlast c else c
                else buf);
          b2 = (if base = 16 \<and> \<not> has flags FLAGS_UPPERCASE \<and> room b1 then b1 @ ''x''
                else if base = 16 \<and> has flags FLAGS_UPPERCASE \<and> room b1 then b1 @ ''X''
                else if base = 2 \<and> room b1 then b1 @ ''b''
                else b1)
      in if room b2 then b2 @ ''0'' else b2)"

definition ntoa_format :: "'b out_fct_type \<Rightarrow> nat \<Rightarrow> string \<Rightarrow> bool \<Rightarrow> nat \<Rightarrow> nat \<Rightarrow> nat \<Rightarrow> u32 \<Rightarrow> 'b \<times> nat \<Rightarrow> 'b \<times> nat" where
  "ntoa_format out maxlen buf negative base prec width flags s =
     (let (width1, b1) =
            (if \<not> has flags FLAGS_LEFT
             then let w = (if width \<noteq> 0 \<and> has flags FLAGS_ZEROPAD \<and> (negative \<or> has flags (FLAGS_PLUS OR FLAGS_SPACE)) then width - 1 else width);
                      p = pad_to prec buf
                  in (w, if has flags FLAGS_ZEROPAD then pad_to w p else p)
             else (width, buf));
          b2 = (if has flags FLAGS_HASH then add_hash b1 base prec width1 flags else b1);
          b3 = (if room b2
                then if negative then b2 @ ''-'' else if has flags FLAGS_PLUS then b2 @ ''+'' else if has flags FLAGS_SPACE then b2 @ '' '' else b2
                else b2)
      in out_rev out maxlen b3 width1 flags s)"

definition digit_char :: "u32 \<Rightarrow> nat \<Rightarrow> char" where
  "digit_char flags digit = (if digit < 10 then char_of (48 + digit) else char_of ((if has flags FLAGS_UPPERCASE then 65 else 97) + digit - 10))"

text \<open>The loop with \<open>n\<close> places left in the buffer.\<close>

primrec ntoa_digits :: "nat \<Rightarrow> nat \<Rightarrow> nat \<Rightarrow> u32 \<Rightarrow> string" where
  "ntoa_digits 0 val base flags = []"
| "ntoa_digits (Suc n) val base flags =
     digit_char flags (val mod base) # (if val div base \<noteq> 0 then ntoa_digits n (val div base) base flags else [])"

text \<open>\<open>_ntoa_long\<close> and \<open>_ntoa_long_long\<close>: both types have 64 bits.\<close>

definition ntoa_long :: "'b out_fct_type \<Rightarrow> nat \<Rightarrow> nat \<Rightarrow> bool \<Rightarrow> nat \<Rightarrow> nat \<Rightarrow> nat \<Rightarrow> u32 \<Rightarrow> 'b \<times> nat \<Rightarrow> 'b \<times> nat" where
  "ntoa_long out maxlen val negative base prec width flags s =
     (let flags1 = (if val = 0 then flags AND NOT FLAGS_HASH else flags);
          buf = (if \<not> has flags1 FLAGS_PRECISION \<or> val \<noteq> 0 then ntoa_digits PRINTF_NTOA_BUFFER_SIZE val base flags1 else [])
      in ntoa_format out maxlen buf negative base prec width flags1 s)"

section \<open>Format strings\<close>

text \<open>The arguments behind a \<open>va_list\<close>; a floating-point number is given by its bits.\<close>

datatype va_arg = VInt u32 | VLong u64 | VStr string | VDouble u64

definition va_fault :: "'a res" where
  "va_fault = Inl (Panic ''argument of another type'')"

definition va_int :: "va_arg list \<Rightarrow> (u32 \<times> va_arg list) res" where
  "va_int va = (case va of VInt x # r \<Rightarrow> Inr (x, r) | _ \<Rightarrow> va_fault)"

definition va_long :: "va_arg list \<Rightarrow> (u64 \<times> va_arg list) res" where
  "va_long va = (case va of VLong x # r \<Rightarrow> Inr (x, r) | _ \<Rightarrow> va_fault)"

definition va_str :: "va_arg list \<Rightarrow> (string \<times> va_arg list) res" where
  "va_str va = (case va of VStr x # r \<Rightarrow> Inr (x, r) | _ \<Rightarrow> va_fault)"

definition va_double :: "va_arg list \<Rightarrow> (u64 \<times> va_arg list) res" where
  "va_double va = (case va of VDouble x # r \<Rightarrow> Inr (x, r) | _ \<Rightarrow> va_fault)"

fun parse_flags :: "string \<Rightarrow> u32 \<Rightarrow> u32 \<times> string" where
  "parse_flags [] flags = (flags, [])"
| "parse_flags (c # cs) flags =
     (if c = CHR ''0'' then parse_flags cs (flags OR FLAGS_ZEROPAD)
      else if c = CHR ''-'' then parse_flags cs (flags OR FLAGS_LEFT)
      else if c = CHR ''+'' then parse_flags cs (flags OR FLAGS_PLUS)
      else if c = CHR '' '' then parse_flags cs (flags OR FLAGS_SPACE)
      else if c = CHR ''#'' then parse_flags cs (flags OR FLAGS_HASH)
      else (flags, c # cs))"

definition parse_width :: "string \<Rightarrow> u32 \<Rightarrow> va_arg list \<Rightarrow> (u32 \<times> nat \<times> string \<times> va_arg list) res" where
  "parse_width fmt flags va =
     (case fmt of [] \<Rightarrow> Inr (flags, 0, fmt, va)
      | c # cs \<Rightarrow>
          if is_digit c then case atoi fmt 0 of (width, rest) \<Rightarrow> Inr (flags, width, rest, va)
          else if c = CHR ''*''
          then res_bind (va_int va) (\<lambda>(w, va1).
                 if sint w < 0 then Inr (flags OR FLAGS_LEFT, unat (- w), cs, va1) else Inr (flags, unat w, cs, va1))
          else Inr (flags, 0, fmt, va))"

definition parse_precision :: "string \<Rightarrow> u32 \<Rightarrow> va_arg list \<Rightarrow> (u32 \<times> nat \<times> string \<times> va_arg list) res" where
  "parse_precision fmt flags va =
     (case fmt of c # cs \<Rightarrow>
          if c = CHR ''.''
          then let flags1 = flags OR FLAGS_PRECISION
               in case cs of [] \<Rightarrow> Inr (flags1, 0, cs, va)
                  | d # ds \<Rightarrow>
                      if is_digit d then case atoi cs 0 of (precision, rest) \<Rightarrow> Inr (flags1, precision, rest, va)
                      else if d = CHR ''*''
                      then res_bind (va_int va) (\<lambda>(prec, va1). Inr (flags1, if sint prec > 0 then unat prec else 0, ds, va1))
                      else Inr (flags1, 0, cs, va)
          else Inr (flags, 0, fmt, va)
      | [] \<Rightarrow> Inr (flags, 0, fmt, va))"

text \<open>\<open>ptrdiff_t\<close>, \<open>intmax_t\<close> and \<open>size_t\<close> have the size of \<open>long\<close>.\<close>

definition parse_length :: "string \<Rightarrow> u32 \<Rightarrow> u32 \<times> string" where
  "parse_length fmt flags =
     (case fmt of [] \<Rightarrow> (flags, fmt)
      | c # cs \<Rightarrow>
          if c = CHR ''l'' then if cs \<noteq> [] \<and> hd cs = CHR ''l'' then (flags OR FLAGS_LONG OR FLAGS_LONG_LONG, tl cs) else (flags OR FLAGS_LONG, cs)
          else if c = CHR ''h'' then if cs \<noteq> [] \<and> hd cs = CHR ''h'' then (flags OR FLAGS_SHORT OR FLAGS_CHAR, tl cs) else (flags OR FLAGS_SHORT, cs)
          else if c = CHR ''t'' \<or> c = CHR ''j'' \<or> c = CHR ''z'' then (flags OR FLAGS_LONG, cs)
          else (flags, fmt))"

section \<open>Conversions\<close>

definition int_base :: "char \<Rightarrow> nat" where
  "int_base c =
     (if c = CHR ''x'' \<or> c = CHR ''X'' then 16 else if c = CHR ''o'' then 8 else if c = CHR ''b'' then 2 else 10)"

definition int_flags :: "char \<Rightarrow> u32 \<Rightarrow> u32" where
  "int_flags c flags =
     (let f1 = (if int_base c = 10 then flags AND NOT FLAGS_HASH else flags);
          f2 = (if c = CHR ''X'' then f1 OR FLAGS_UPPERCASE else f1);
          f3 = (if c \<noteq> CHR ''i'' \<and> c \<noteq> CHR ''d'' then f2 AND NOT (FLAGS_PLUS OR FLAGS_SPACE) else f2)
      in if has f3 FLAGS_PRECISION then f3 AND NOT FLAGS_ZEROPAD else f3)"

text \<open>\<open>value > 0 ? value : 0 - value\<close> at the width of \<open>int\<close> and of \<open>long\<close>.\<close>

definition magnitude32 :: "int \<Rightarrow> nat" where
  "magnitude32 v = unat (word_of_int (if v > 0 then v else 0 - v) :: u32)"

definition magnitude64 :: "int \<Rightarrow> nat" where
  "magnitude64 v = unat (word_of_int (if v > 0 then v else 0 - v) :: u64)"

definition convert_int ::
  "'b out_fct_type \<Rightarrow> nat \<Rightarrow> char \<Rightarrow> u32 \<Rightarrow> nat \<Rightarrow> nat \<Rightarrow> va_arg list \<Rightarrow> 'b \<times> nat \<Rightarrow> (va_arg list \<times> 'b \<times> nat) res" where
  "convert_int out maxlen c flags0 width precision va s =
     (let base = int_base c; flags = int_flags c flags0
      in if c = CHR ''i'' \<or> c = CHR ''d''
         then if has flags FLAGS_LONG_LONG \<or> has flags FLAGS_LONG
              then res_bind (va_long va) (\<lambda>(x, va1).
                     Inr (va1, ntoa_long out maxlen (magnitude64 (sint x)) (sint x < 0) base precision width flags s))
              else res_bind (va_int va) (\<lambda>(x, va1).
                     let val = (if has flags FLAGS_CHAR then sint (ucast x :: u8) else if has flags FLAGS_SHORT then sint (ucast x :: u16) else sint x)
                     in Inr (va1, ntoa_long out maxlen (magnitude32 val) (val < 0) base precision width flags s))
         else if has flags FLAGS_LONG_LONG \<or> has flags FLAGS_LONG
              then res_bind (va_long va) (\<lambda>(x, va1). Inr (va1, ntoa_long out maxlen (unat x) False base precision width flags s))
              else res_bind (va_int va) (\<lambda>(x, va1).
                     let val = (if has flags FLAGS_CHAR then unat (ucast x :: u8) else if has flags FLAGS_SHORT then unat (ucast x :: u16) else unat x)
                     in Inr (va1, ntoa_long out maxlen val False base precision width flags s)))"

text \<open>Padding around \<open>l\<close> characters, and a string cut at the precision.\<close>

definition padded :: "'b out_fct_type \<Rightarrow> nat \<Rightarrow> u32 \<Rightarrow> nat \<Rightarrow> nat \<Rightarrow> string \<Rightarrow> 'b \<times> nat \<Rightarrow> 'b \<times> nat" where
  "padded out maxlen flags width l cs s =
     (let pad = replicate (width - l) CHR '' '';
          s1 = (if \<not> has flags FLAGS_LEFT then puts out maxlen pad s else s);
          s2 = puts out maxlen cs s1
      in if has flags FLAGS_LEFT then puts out maxlen pad s2 else s2)"

definition strnlen_s :: "string \<Rightarrow> nat option \<Rightarrow> nat" where
  "strnlen_s str maxsize = (case maxsize of None \<Rightarrow> length str | Some n \<Rightarrow> min (length str) n)"

definition convert_str :: "'b out_fct_type \<Rightarrow> nat \<Rightarrow> u32 \<Rightarrow> nat \<Rightarrow> nat \<Rightarrow> string \<Rightarrow> 'b \<times> nat \<Rightarrow> 'b \<times> nat" where
  "convert_str out maxlen flags width precision p s =
     (let l0 = strnlen_s p (if precision \<noteq> 0 then Some precision else None);
          l = (if has flags FLAGS_PRECISION then min l0 precision else l0)
      in padded out maxlen flags width l (if has flags FLAGS_PRECISION then take precision p else p) s)"

type_synonym ftoa = "char \<Rightarrow> u64 \<Rightarrow> nat \<Rightarrow> nat \<Rightarrow> u32 \<Rightarrow> string"

definition int_conversion :: "char \<Rightarrow> bool" where "int_conversion c \<longleftrightarrow> c \<in> set ''diuxXob''"

definition float_conversion :: "char \<Rightarrow> bool" where "float_conversion c \<longleftrightarrow> c \<in> set ''fFeEgG''"

definition convert ::
  "ftoa \<Rightarrow> 'b out_fct_type \<Rightarrow> nat \<Rightarrow> char \<Rightarrow> u32 \<Rightarrow> nat \<Rightarrow> nat \<Rightarrow> va_arg list \<Rightarrow> 'b \<times> nat \<Rightarrow> (va_arg list \<times> 'b \<times> nat) res" where
  "convert ftoa out maxlen c flags width precision va s =
     (if int_conversion c then convert_int out maxlen c flags width precision va s
      else if float_conversion c
      then res_bind (va_double va) (\<lambda>(x, va1). Inr (va1, puts out maxlen (ftoa c x precision width flags) s))
      else if c = CHR ''c''
      then res_bind (va_int va) (\<lambda>(x, va1). Inr (va1, padded out maxlen flags width 1 [char_of (unat (ucast x :: u8))] s))
      else if c = CHR ''s''
      then res_bind (va_str va) (\<lambda>(p, va1). Inr (va1, convert_str out maxlen flags width precision p s))
      else if c = CHR ''p''
      then res_bind (va_long va) (\<lambda>(x, va1).
             Inr (va1, ntoa_long out maxlen (unat x) False 16 precision 16 (flags OR (FLAGS_ZEROPAD OR FLAGS_UPPERCASE)) s))
      else Inr (va, put out maxlen c s))"

section \<open>The formatting loop\<close>

definition parse_spec :: "string \<Rightarrow> va_arg list \<Rightarrow> (u32 \<times> nat \<times> nat \<times> string \<times> va_arg list) res" where
  "parse_spec fmt va =
     (case parse_flags fmt 0 of (flags, fmt1) \<Rightarrow>
        res_bind (parse_width fmt1 flags va) (\<lambda>(flags1, width, fmt2, va1).
        res_bind (parse_precision fmt2 flags1 va1) (\<lambda>(flags2, precision, fmt3, va2).
        case parse_length fmt3 flags2 of (flags3, fmt4) \<Rightarrow> Inr (flags3, width, precision, fmt4, va2))))"

lemma atoi_shorter: "length (snd (atoi fmt i)) \<le> length fmt"
  by (induction fmt i rule: atoi.induct) auto

lemma parse_flags_shorter: "length (snd (parse_flags fmt flags)) \<le> length fmt"
  by (induction fmt flags rule: parse_flags.induct) auto

lemma parse_width_shorter: "parse_width fmt flags va = Inr (f, w, rest, va') \<Longrightarrow> length rest \<le> length fmt"
  using atoi_shorter [of fmt 0]
  by (auto simp: parse_width_def res_bind_Inr_iff split: list.splits if_splits prod.splits)

lemma parse_precision_shorter: "parse_precision fmt flags va = Inr (f, p, rest, va') \<Longrightarrow> length rest \<le> length fmt"
  using atoi_shorter [of "tl fmt" 0]
  by (auto simp: parse_precision_def res_bind_Inr_iff Let_def split: list.splits if_splits prod.splits)

lemma parse_length_shorter: "length (snd (parse_length fmt flags)) \<le> length fmt"
  by (auto simp: parse_length_def split: list.splits)

lemma parse_spec_shorter:
  assumes "parse_spec fmt va = Inr (f, w, p, rest, va')"
  shows "length rest \<le> length fmt"
proof -
  obtain f0 fmt1 where 0: "parse_flags fmt 0 = (f0, fmt1)" by fastforce
  obtain f1 w1 fmt2 va1 f2 p2 fmt3 va2 where 1: "parse_width fmt1 f0 va = Inr (f1, w1, fmt2, va1)"
      and 2: "parse_precision fmt2 f1 va1 = Inr (f2, p2, fmt3, va2)" and 3: "rest = snd (parse_length fmt3 f2)"
    using assms by (auto simp: parse_spec_def 0 res_bind_Inr_iff case_prod_beta)
  show ?thesis
    using parse_flags_shorter [of fmt 0] parse_width_shorter [OF 1] parse_precision_shorter [OF 2] parse_length_shorter [of fmt3 f2] 0 3
    by simp
qed

text \<open>The terminator of the format is not looked for behind a conversion that is cut short.\<close>

function vsnprintf_loop :: "ftoa \<Rightarrow> 'b out_fct_type \<Rightarrow> nat \<Rightarrow> string \<Rightarrow> va_arg list \<Rightarrow> 'b \<times> nat \<Rightarrow> ('b \<times> nat) res" where
  "vsnprintf_loop ftoa out maxlen [] va s = Inr s"
| "vsnprintf_loop ftoa out maxlen (c # fmt) va s =
     (if c \<noteq> CHR ''%'' then vsnprintf_loop ftoa out maxlen fmt va (put out maxlen c s)
      else case parse_spec fmt va of Inl e \<Rightarrow> Inl e
           | Inr (flags, width, precision, fmt1, va1) \<Rightarrow>
               (case fmt1 of [] \<Rightarrow> Inl (Panic ''format read past its end'')
                | k # fmt2 \<Rightarrow>
                    (case convert ftoa out maxlen k flags width precision va1 s of Inl e \<Rightarrow> Inl e
                     | Inr (va2, s2) \<Rightarrow> vsnprintf_loop ftoa out maxlen fmt2 va2 s2)))"
  by pat_completeness auto
termination
  by (relation "measure (\<lambda>(ftoa, out, maxlen, fmt, va, s). length fmt)") (auto dest: parse_spec_shorter)

text \<open>\<open>maxlen - 1U\<close> wraps for a buffer of no bytes.  The count is returned as an \<open>int\<close>.\<close>

definition vsnprintf :: "ftoa \<Rightarrow> 'b out_fct_type \<Rightarrow> 'b \<Rightarrow> nat \<Rightarrow> string \<Rightarrow> va_arg list \<Rightarrow> (int \<times> 'b) res" where
  "vsnprintf ftoa out buffer maxlen format va =
     res_bind (vsnprintf_loop ftoa out maxlen format va (buffer, 0)) (\<lambda>(b, idx).
       Inr (sint (of_nat idx :: u32), out CHR 0x00 (if idx < maxlen then idx else (maxlen + 2 ^ 64 - 1) mod 2 ^ 64) maxlen b))"

definition SIZE_MAX :: nat where "SIZE_MAX = 2 ^ 64 - 1"

definition printf :: "ftoa \<Rightarrow> bool \<Rightarrow> string \<Rightarrow> string \<Rightarrow> va_arg list \<Rightarrow> (int \<times> string) res" where
  "printf ftoa ctty sent format va = vsnprintf ftoa (out_char ctty) sent SIZE_MAX format va"

definition sprintf :: "ftoa \<Rightarrow> (nat \<Rightarrow> char) \<Rightarrow> string \<Rightarrow> va_arg list \<Rightarrow> (int \<times> (nat \<Rightarrow> char)) res" where
  "sprintf ftoa buffer format va = vsnprintf ftoa out_buffer buffer SIZE_MAX format va"

text \<open>A null pointer as the buffer selects the output function that does nothing.\<close>

definition snprintf :: "ftoa \<Rightarrow> (nat \<Rightarrow> char) option \<Rightarrow> nat \<Rightarrow> string \<Rightarrow> va_arg list \<Rightarrow> (int \<times> (nat \<Rightarrow> char) option) res" where
  "snprintf ftoa buffer cnt format va =
     (case buffer of None \<Rightarrow> vsnprintf ftoa out_null None cnt format va
      | Some b \<Rightarrow> res_bind (vsnprintf ftoa out_buffer b cnt format va) (\<lambda>(r, b1). Inr (r, Some b1)))"

definition fctprintf :: "ftoa \<Rightarrow> (char \<Rightarrow> 'b \<Rightarrow> 'b) \<Rightarrow> 'b \<Rightarrow> string \<Rightarrow> va_arg list \<Rightarrow> (int \<times> 'b) res" where
  "fctprintf ftoa fct arg format va = vsnprintf ftoa (out_fct fct) arg SIZE_MAX format va"

end
