(* ===== verification/Printf_Properties.thy ===== *)
theory Printf_Properties
  imports Printf
begin

text \<open>
  What formatted output prints: the characters of a call do not depend on where they go, a buffer gets as many of them as fit, and
  integers are printed as numerals that denote them.
\<close>

section \<open>The characters of a call\<close>

text \<open>An output function that keeps the characters.\<close>

definition keep :: "string out_fct_type" where
  "keep c idx maxlen l = l @ [c]"

lemma puts_simps [simp]:
  "puts out n [] s = s" "puts out n (c # cs) s = puts out n cs (put out n c s)" "puts out n (xs @ ys) s = puts out n ys (puts out n xs s)"
  by (simp_all add: puts_def)

lemma snd_puts [simp]: "snd (puts out n cs s) = snd s + length cs"
  by (induction cs arbitrary: s) (auto simp: put_def split: prod.splits)

lemma puts_keep [simp]: "puts keep n cs (l, i) = (l @ cs, i + length cs)"
  by (induction cs arbitrary: l i) (auto simp: put_def keep_def)

lemma put_keep [simp]: "put keep n c (l, i) = (l @ [c], i + 1)"
  by (simp add: put_def keep_def)

lemma out_rev_puts: "out_rev out n buf width flags s = puts out n (fst (out_rev keep 0 buf width flags ([], 0))) s"
  by (simp add: out_rev_def Let_def)

lemma ntoa_long_puts:
  "ntoa_long out n val neg base prec width flags s = puts out n (fst (ntoa_long keep 0 val neg base prec width flags ([], 0))) s"
  unfolding ntoa_long_def ntoa_format_def Let_def case_prod_beta by (rule out_rev_puts)

lemma padded_puts: "padded out n flags width l cs s = puts out n (fst (padded keep 0 flags width l cs ([], 0))) s"
  by (simp add: padded_def Let_def)

lemma convert_str_puts: "convert_str out n flags width precision p s = puts out n (fst (convert_str keep 0 flags width precision p ([], 0))) s"
  unfolding convert_str_def Let_def by (rule padded_puts)

definition convert_text :: "ftoa \<Rightarrow> char \<Rightarrow> u32 \<Rightarrow> nat \<Rightarrow> nat \<Rightarrow> va_arg list \<Rightarrow> (va_arg list \<times> string) res" where
  "convert_text ftoa c flags width precision va =
     res_bind (convert ftoa keep 0 c flags width precision va ([], 0)) (\<lambda>(va1, txt, i). Inr (va1, txt))"

lemma res_bind_assoc: "res_bind (res_bind r f) g = res_bind r (\<lambda>x. res_bind (f x) g)"
  by (cases r) simp_all

lemma convert_int_puts:
  "convert_int out n c flags width precision va s =
    res_bind (convert_int keep 0 c flags width precision va ([], 0)) (\<lambda>(va1, txt, i). Inr (va1, puts out n txt s))"
  unfolding convert_int_def Let_def
  by (auto simp: res_bind_assoc case_prod_beta ntoa_long_puts [of out] intro!: arg_cong2 [where f = res_bind])

lemma convert_puts:
  "convert ftoa out n c flags width precision va s =
    res_bind (convert_text ftoa c flags width precision va) (\<lambda>(va1, txt). Inr (va1, puts out n txt s))"
  unfolding convert_text_def convert_def
  by (auto simp: res_bind_assoc case_prod_beta convert_int_puts [of out] ntoa_long_puts [of out] padded_puts [of out] convert_str_puts [of out]
      intro!: arg_cong2 [where f = res_bind])

text \<open>The characters of a whole call.\<close>

function printed :: "ftoa \<Rightarrow> string \<Rightarrow> va_arg list \<Rightarrow> string res" where
  "printed ftoa [] va = Inr []"
| "printed ftoa (c # fmt) va =
     (if c \<noteq> CHR ''%'' then res_bind (printed ftoa fmt va) (\<lambda>t. Inr (c # t))
      else case parse_spec fmt va of Inl e \<Rightarrow> Inl e
           | Inr (flags, width, precision, fmt1, va1) \<Rightarrow>
               (case fmt1 of [] \<Rightarrow> Inl (Panic ''format read past its end'')
                | k # fmt2 \<Rightarrow>
                    (case convert_text ftoa k flags width precision va1 of Inl e \<Rightarrow> Inl e
                     | Inr (va2, t1) \<Rightarrow> res_bind (printed ftoa fmt2 va2) (\<lambda>t. Inr (t1 @ t)))))"
  by pat_completeness auto
termination
  by (relation "measure (\<lambda>(ftoa, fmt, va). length fmt)") (auto dest: parse_spec_shorter)

lemma vsnprintf_loop_prints: "vsnprintf_loop ftoa out n fmt va s = res_bind (printed ftoa fmt va) (\<lambda>t. Inr (puts out n t s))"
proof (induction ftoa fmt va arbitrary: s rule: printed.induct)
  case (1 ftoa va)
  show ?case by simp
next
  case (2 ftoa c fmt va)
  show ?case
    using 2 by (auto simp: convert_puts [of ftoa out] res_bind_assoc split: sum.splits list.splits)
qed

section \<open>Buffers\<close>

text \<open>What a buffer of \<open>n\<close> bytes holds of a text: its beginning and a terminator.\<close>

definition fitted :: "string \<Rightarrow> nat \<Rightarrow> (nat \<Rightarrow> char) \<Rightarrow> nat \<Rightarrow> char" where
  "fitted t n b i =
     (let e = min (length t) (n - 1) in if n = 0 then b i else if i < e then t ! i else if i = e then CHR 0x00 else b i)"

lemma puts_out_buffer: "puts out_buffer n t (b, k) = ((\<lambda>i. if k \<le> i \<and> i < k + length t \<and> i < n then t ! (i - k) else b i), k + length t)"
proof (induction t arbitrary: b k)
  case Nil
  show ?case by (auto simp: fun_eq_iff)
next
  case (Cons c t)
  have "put out_buffer n c (b, k) = (if k < n then b(k := c) else b, k + 1)" by (simp add: put_def out_buffer_def)
  then show ?case unfolding puts_simps by (auto simp: Cons.IH fun_eq_iff nth_Cons')
qed

lemma puts_out_null: "puts out_null n t (b, k) = (b, k + length t)"
  by (induction t arbitrary: k) (auto simp: put_def out_null_def)

lemma puts_out_char: "puts (out_char True) n t (l, k) = (l @ filter (\<lambda>c. c \<noteq> CHR 0x00) t, k + length t)"
  by (induction t arbitrary: l k) (auto simp: put_def out_char_def)

lemma last_index: "0 < n \<Longrightarrow> n < 2 ^ 64 \<Longrightarrow> (n + 2 ^ 64 - 1) mod 2 ^ 64 = n - (1 :: nat)"
proof -
  assume n: "0 < n" "n < 2 ^ 64"
  then have "n + 2 ^ 64 - 1 = n - 1 + 2 ^ 64" by linarith
  then have "(n + 2 ^ 64 - 1) mod 2 ^ 64 = (n - 1) mod 2 ^ 64" by (simp only: mod_add_self2)
  also have "\<dots> = n - 1" using n by (intro mod_less) linarith
  finally show ?thesis .
qed

lemma terminated_buffer:
  assumes "n < 2 ^ 64"
  shows "out_buffer CHR 0x00 (if length t < n then length t else (n + 2 ^ 64 - 1) mod 2 ^ 64) n (fst (puts out_buffer n t (b, 0))) = fitted t n b"
proof (cases "n = 0")
  case True
  then show ?thesis by (auto simp: out_buffer_def fitted_def fun_eq_iff puts_out_buffer)
next
  case False
  then have "(n + 2 ^ 64 - 1) mod 2 ^ 64 = n - 1" using assms by (intro last_index) simp_all
  then show ?thesis using False by (auto simp only: out_buffer_def puts_out_buffer fitted_def fun_eq_iff fst_conv Let_def split: if_splits) auto
qed

text \<open>C14: The text a format prints depends on the format and the arguments only.  \<open>snprintf\<close> leaves in a buffer of any size the beginning of
  that text that fits and a terminator behind it, touches no byte outside the buffer and nothing behind the terminator, and returns the length
  of the whole text; without a buffer it only counts, and \<open>printf\<close> sends the whole text to the debug device.  A call faults for
  all of them or for none.\<close>

theorem snprintf_fits_buffer:
  "snprintf ftoa (Some b) (unat (n :: u64)) fmt va =
     res_bind (printed ftoa fmt va) (\<lambda>t. Inr (sint (of_nat (length t) :: u32), Some (fitted t (unat n) b))) \<and>
   snprintf ftoa None (unat n) fmt va = res_bind (printed ftoa fmt va) (\<lambda>t. Inr (sint (of_nat (length t) :: u32), None)) \<and>
   printf ftoa True sent fmt va =
     res_bind (printed ftoa fmt va) (\<lambda>t. Inr (sint (of_nat (length t) :: u32), sent @ filter (\<lambda>c. c \<noteq> CHR 0x00) t))"
proof (intro conjI)
  have n: "unat n < 2 ^ 64" using unsigned_less [of n] by simp
  show "snprintf ftoa (Some b) (unat n) fmt va =
     res_bind (printed ftoa fmt va) (\<lambda>t. Inr (sint (of_nat (length t) :: u32), Some (fitted t (unat n) b)))"
    unfolding terminated_buffer [OF n, symmetric]
    by (simp add: snprintf_def vsnprintf_def vsnprintf_loop_prints res_bind_assoc case_prod_beta)
  show "snprintf ftoa None (unat n) fmt va = res_bind (printed ftoa fmt va) (\<lambda>t. Inr (sint (of_nat (length t) :: u32), None))"
    by (simp add: snprintf_def vsnprintf_def vsnprintf_loop_prints res_bind_assoc puts_out_null) (simp add: out_null_def)
  show "printf ftoa True sent fmt va =
     res_bind (printed ftoa fmt va) (\<lambda>t. Inr (sint (of_nat (length t) :: u32), sent @ filter (\<lambda>c. c \<noteq> CHR 0x00) t))"
    by (simp add: printf_def vsnprintf_def vsnprintf_loop_prints res_bind_assoc puts_out_char) (simp add: out_char_def)
qed

section \<open>Numerals\<close>

definition digit_value :: "char \<Rightarrow> nat" where
  "digit_value c = (let k = of_char c in if k \<le> 57 then k - 48 else if k \<le> 70 then k - 55 else k - 87)"

definition numeral_value :: "nat \<Rightarrow> string \<Rightarrow> nat" where
  "numeral_value base t = foldl (\<lambda>v c. base * v + digit_value c) 0 t"

text \<open>No superfluous zeros in front.\<close>

definition canonical :: "string \<Rightarrow> bool" where
  "canonical t \<longleftrightarrow> t \<noteq> [] \<and> (hd t = CHR ''0'' \<longrightarrow> t = ''0'')"

lemma digit_value_char: "d < 16 \<Longrightarrow> digit_value (digit_char flags d) = d"
  by (auto simp: digit_value_def digit_char_def Let_def)

lemma char_of_48: "char_of (48 :: nat) = CHR ''0''"
  by (simp add: char_of_eq_iff)

lemma digit_char_zero: "d < 16 \<Longrightarrow> digit_char flags d = CHR ''0'' \<longleftrightarrow> d = 0"
  using digit_value_char [of d flags] by (auto simp: digit_value_def digit_char_def char_of_48)

lemma numeral_value_snoc: "numeral_value base (t @ [c]) = base * numeral_value base t + digit_value c"
  by (simp add: numeral_value_def)

lemma ntoa_digits_value:
  assumes "2 \<le> base" and "base \<le> 16"
  shows "val < base ^ n \<Longrightarrow> numeral_value base (rev (ntoa_digits n val base flags)) = val"
proof (induction n arbitrary: val)
  case 0
  then show ?case by (simp add: numeral_value_def)
next
  case (Suc n)
  have d: "digit_value (digit_char flags (val mod base)) = val mod base"
    using assms mod_less_divisor [of base val] by (intro digit_value_char) linarith
  have "val div base < base ^ n" using Suc.prems assms(1) by (simp add: less_mult_imp_div_less mult.commute)
  then have "numeral_value base (rev (ntoa_digits n (val div base) base flags)) = val div base" by (rule Suc.IH)
  then show ?case using d by (auto simp: numeral_value_snoc) (simp add: numeral_value_def mod_eq_self_iff_div_eq_0)
qed

lemma ntoa_digits_nonempty: "0 < n \<Longrightarrow> ntoa_digits n val base flags \<noteq> []"
  by (cases n) simp_all

lemma ntoa_digits_last:
  assumes "2 \<le> base" and "base \<le> 16"
  shows "val < base ^ n \<Longrightarrow> val \<noteq> 0 \<Longrightarrow> last (ntoa_digits n val base flags) \<noteq> CHR ''0''"
proof (induction n arbitrary: val)
  case 0
  then show ?case by simp
next
  case (Suc n)
  show ?case
  proof (cases "val div base = 0")
    case True
    then have "val < base" using assms(1) by (simp add: div_eq_0_iff)
    then show ?thesis using Suc.prems(2) True assms by (simp add: digit_char_zero)
  next
    case False
    have b: "val div base < base ^ n" using Suc.prems(1) assms(1) by (simp add: less_mult_imp_div_less mult.commute)
    then have "0 < n" using False by (cases n) simp_all
    then show ?thesis using Suc.IH [OF b False] ntoa_digits_nonempty [of n "val div base" base flags] False by simp
  qed
qed

lemma ntoa_digits_zero: "0 < n \<Longrightarrow> ntoa_digits n 0 base flags = ''0''"
  by (cases n) (simp_all add: digit_char_def char_of_48)

lemma ntoa_digits_canonical:
  assumes "2 \<le> base" and "base \<le> 16" and "val < base ^ n" and "0 < n"
  shows "canonical (rev (ntoa_digits n val base flags))"
proof (cases "val = 0")
  case True
  then show ?thesis using assms(4) by (simp add: ntoa_digits_zero canonical_def)
next
  case False
  then show ?thesis using ntoa_digits_last [OF assms(1-3) False] ntoa_digits_nonempty [OF assms(4)] by (simp add: canonical_def hd_rev)
qed

lemma ntoa_digits_length:
  assumes "2 \<le> base"
  shows "val < base ^ k \<Longrightarrow> 0 < k \<Longrightarrow> length (ntoa_digits n val base flags) \<le> k"
proof (induction n arbitrary: val k)
  case 0
  then show ?case by simp
next
  case (Suc n)
  show ?case
  proof (cases "val div base = 0")
    case True
    then show ?thesis using Suc.prems by simp
  next
    case False
    obtain j where j: "k = Suc j" using Suc.prems(2) by (cases k) simp_all
    have b: "val div base < base ^ j" using Suc.prems(1) assms unfolding j by (simp add: less_mult_imp_div_less mult.commute)
    then have "0 < j" using False by (cases j) simp_all
    then show ?thesis using Suc.IH [OF b] False j by simp
  qed
qed

lemma ntoa_long_plain:
  assumes "flags = 0 \<or> flags = FLAGS_UPPERCASE" and "\<not> neg \<or> room (ntoa_digits PRINTF_NTOA_BUFFER_SIZE val base flags)"
  shows "fst (ntoa_long keep 0 val neg base 0 0 flags ([], 0)) =
    (if neg then ''-'' else []) @ rev (ntoa_digits PRINTF_NTOA_BUFFER_SIZE val base flags)"
proof -
  have f: "\<not> has flags FLAGS_LEFT" "\<not> has flags FLAGS_ZEROPAD" "\<not> has flags FLAGS_PLUS" "\<not> has flags FLAGS_SPACE" "\<not> has flags FLAGS_HASH"
      "\<not> has flags FLAGS_PRECISION" "flags AND NOT FLAGS_HASH = flags"
    using assms(1) by (auto simp: has_def flag_defs)
  show ?thesis using assms(2) by (auto simp: ntoa_long_def ntoa_format_def out_rev_def pad_to_def Let_def f)
qed

text \<open>A single conversion without flags, width and precision.\<close>

lemma printed_plain:
  assumes "c \<notin> set ''0-+ #*.lhtjz''" and "\<not> is_digit c"
  shows "printed ftoa [CHR ''%'', c] va = res_bind (convert_text ftoa c 0 0 0 va) (\<lambda>(va1, t). Inr t)"
proof -
  have "parse_spec [c] va = Inr (0, 0, 0, [c], va)"
    using assms by (simp add: parse_spec_def parse_width_def parse_precision_def parse_length_def)
  then show ?thesis by (cases "convert_text ftoa c 0 0 0 va") (auto split: prod.splits)
qed

lemma printed_unsigned:
  assumes "c \<in> set ''uxXob''"
  shows "printed ftoa [CHR ''%'', c] [VInt x] =
    Inr (rev (ntoa_digits PRINTF_NTOA_BUFFER_SIZE (unat x) (int_base c) (if c = CHR ''X'' then FLAGS_UPPERCASE else 0)))"
proof -
  let ?f = "if c = CHR ''X'' then FLAGS_UPPERCASE else 0 :: u32"
  have c: "c \<notin> set ''0-+ #*.lhtjz''" "\<not> is_digit c" "int_conversion c" "c \<noteq> CHR ''i''" "c \<noteq> CHR ''d''"
    using assms by (auto simp: is_digit_def int_conversion_def)
  have f: "int_flags c 0 = ?f" using c(4,5) by (simp add: int_flags_def Let_def has_def flag_defs)
  have g: "\<not> has ?f FLAGS_LONG_LONG" "\<not> has ?f FLAGS_LONG" "\<not> has ?f FLAGS_CHAR" "\<not> has ?f FLAGS_SHORT"
    by (simp_all add: has_def flag_defs)
  have "fst (ntoa_long keep 0 (unat x) False (int_base c) 0 0 ?f ([], 0)) = rev (ntoa_digits PRINTF_NTOA_BUFFER_SIZE (unat x) (int_base c) ?f)"
    by (subst ntoa_long_plain) simp_all
  then show ?thesis unfolding printed_plain [OF c(1,2)] convert_text_def convert_def convert_int_def f Let_def
    using c(3-5) g by (simp add: va_int_def case_prod_beta)
qed

lemma magnitude32_sint: "magnitude32 (sint (x :: u32)) = nat \<bar>sint x\<bar>"
proof -
  have b: "- 2147483648 \<le> sint x" "sint x < 2147483648" using sint_greater_eq [of x] sint_less [of x] by simp_all
  have a: "(if sint x > 0 then sint x else 0 - sint x) = \<bar>sint x\<bar>" by simp
  have "uint (word_of_int \<bar>sint x\<bar> :: u32) = \<bar>sint x\<bar> mod 4294967296" by (simp add: uint_word_of_int)
  also have "\<dots> = \<bar>sint x\<bar>" using b by (intro mod_pos_pos_trivial) linarith+
  finally show ?thesis unfolding magnitude32_def a unat_eq_nat_uint by simp
qed

lemma printed_signed:
  "printed ftoa ''%d'' [VInt x] =
    Inr ((if sint x < 0 then ''-'' else []) @ rev (ntoa_digits PRINTF_NTOA_BUFFER_SIZE (nat \<bar>sint x\<bar>) 10 0))"
proof -
  have "nat \<bar>sint x\<bar> < 10 ^ 10" using sint_greater_eq [of x] sint_less [of x] by simp
  then have r: "room (ntoa_digits PRINTF_NTOA_BUFFER_SIZE (nat \<bar>sint x\<bar>) 10 0)"
    using ntoa_digits_length [of 10 "nat \<bar>sint x\<bar>" 10 PRINTF_NTOA_BUFFER_SIZE 0] by (simp add: room_def PRINTF_NTOA_BUFFER_SIZE_def)
  have f: "int_flags CHR ''d'' 0 = 0" "int_base CHR ''d'' = 10" by (simp_all add: int_flags_def int_base_def Let_def has_def)
  have c: "int_conversion CHR ''d''" by (simp add: int_conversion_def)
  have "fst (ntoa_long keep 0 (nat \<bar>sint x\<bar>) (sint x < 0) 10 0 0 0 ([], 0)) =
      (if sint x < 0 then ''-'' else []) @ rev (ntoa_digits PRINTF_NTOA_BUFFER_SIZE (nat \<bar>sint x\<bar>) 10 0)"
    using r by (intro ntoa_long_plain) simp_all
  moreover have "printed ftoa ''%d'' [VInt x] = res_bind (convert_text ftoa CHR ''d'' 0 0 0 [VInt x]) (\<lambda>(va1, t). Inr t)"
    by (rule printed_plain) (simp_all add: is_digit_def)
  ultimately show ?thesis
    using c by (simp add: convert_text_def convert_def convert_int_def f Let_def has_def va_int_def magnitude32_sint case_prod_beta)
qed



end
