(* ===== verification/Time.thy ===== *)
theory Time
  imports Pit Printf_Properties "HOL-Library.Signed_Division"
begin

text \<open>
  Calendar time, modules/libraries/std/time.c, on the tick counter of the timer and the formatted output.  Values of type \<open>long\<close> and \<open>int\<close>
  are integers, cut to their width where they are stored.  A buffer is a function of the offset; a null pointer is \<open>None\<close>.
\<close>

section \<open>Clocks\<close>

record timeval =
  tv_sec :: int
  tv_usec :: int

record timespec =
  ts_sec :: int
  ts_nsec :: int

definition time :: "('c, 'x) pit_scheme \<Rightarrow> int option \<Rightarrow> int \<times> int option" where
  "time w tloc = (sint (get_epoch w), map_option (\<lambda>_. sint (get_epoch w)) tloc)"

definition timeval_now :: "('c, 'x) pit_scheme \<Rightarrow> timeval option \<Rightarrow> timeval option res" where
  "timeval_now w tv =
     (case tv of None \<Rightarrow> Inr None
      | Some _ \<Rightarrow>
          res_bind (ticks_to_ns w (get_ticks_since_boot w)) (\<lambda>ticks_ns.
            let seconds = ticks_ns div 1000000000; nanoseconds = ticks_ns mod 1000000000
            in Inr (Some \<lparr>tv_sec = sint (seconds + get_epoch w), tv_usec = sint (nanoseconds div 1000)\<rparr>)))"

definition timespec_now :: "('c, 'x) pit_scheme \<Rightarrow> timespec option \<Rightarrow> timespec option res" where
  "timespec_now w ts =
     (case ts of None \<Rightarrow> Inr None
      | Some t \<Rightarrow> res_bind (timeval_now w (Some \<lparr>tv_sec = 0, tv_usec = 0\<rparr>)) (\<lambda>tv.
          Inr (map_option (\<lambda>v. \<lparr>ts_sec = tv_sec v, ts_nsec = tv_usec v * 1000\<rparr>) tv)))"

definition clock_res :: "timespec option \<Rightarrow> timespec option" where
  "clock_res ts = map_option (\<lambda>_. \<lparr>ts_sec = 0, ts_nsec = sint get_resolution\<rparr>) ts"

definition epoch_to_timespec :: "u32 \<Rightarrow> timespec" where
  "epoch_to_timespec epoch = \<lparr>ts_sec = int (unat epoch), ts_nsec = 0\<rparr>"

section \<open>The calendar\<close>

record tm =
  tm_sec :: int
  tm_min :: int
  tm_hour :: int
  tm_mday :: int
  tm_mon :: int
  tm_year :: int
  tm_wday :: int
  tm_yday :: int
  tm_isdst :: int

definition cut_int :: "int \<Rightarrow> int" where
  "cut_int v = sint (word_of_int v :: u32)"

definition localtime :: "int \<Rightarrow> tm" where
  "localtime t =
     \<lparr>tm_sec = cut_int (t smod 60), tm_min = cut_int ((t sdiv 60) smod 60), tm_hour = cut_int ((t sdiv 3600) smod 24),
      tm_mday = cut_int ((t sdiv 86400) smod 30), tm_mon = cut_int ((t sdiv 2592000) smod 12),
      tm_year = cut_int ((t sdiv 31104000) + 70), tm_wday = cut_int ((t sdiv 86400) smod 7),
      tm_yday = cut_int ((t sdiv 86400) smod 365), tm_isdst = 0\<rparr>"

definition days :: "string list" where
  "days = [''Sun'', ''Mon'', ''Tue'', ''Wed'', ''Thu'', ''Fri'', ''Sat'']"

definition months :: "string list" where
  "months = [''Jan'', ''Feb'', ''Mar'', ''Apr'', ''May'', ''Jun'', ''Jul'', ''Aug'', ''Sep'', ''Oct'', ''Nov'', ''Dec'']"

text \<open>Copying three characters to \<open>s + i\<close>, and a number printed there into a field of a given size.\<close>

definition put_label :: "string list \<Rightarrow> int \<Rightarrow> (nat \<Rightarrow> char) \<Rightarrow> nat \<Rightarrow> (nat \<Rightarrow> char) res" where
  "put_label names k s i =
     (if 0 \<le> k \<and> k < int (length names)
      then Inr (\<lambda>j. if i \<le> j \<and> j < i + 3 then names ! nat k ! (j - i) else s j)
      else Inl (Panic ''array index out of bounds''))"

definition put_number :: "ftoa \<Rightarrow> nat \<Rightarrow> string \<Rightarrow> int \<Rightarrow> (nat \<Rightarrow> char) \<Rightarrow> nat \<Rightarrow> (nat \<Rightarrow> char) res" where
  "put_number ftoa sz fmt v s i =
     res_bind (snprintf ftoa (Some (\<lambda>k. s (i + k))) sz fmt [VInt (word_of_int v)]) (\<lambda>(r, b).
       Inr (case b of None \<Rightarrow> s | Some b1 \<Rightarrow> (\<lambda>j. if j < i then s j else b1 (j - i))))"

definition strftime_field :: "ftoa \<Rightarrow> tm \<Rightarrow> char \<Rightarrow> (nat \<Rightarrow> char) \<Rightarrow> nat \<Rightarrow> ((nat \<Rightarrow> char) \<times> nat) res" where
  "strftime_field ftoa t c s i =
     (if c = CHR ''a'' then res_bind (put_label days (tm_wday t) s i) (\<lambda>s1. Inr (s1, i + 3))
      else if c = CHR ''b'' then res_bind (put_label months (tm_mon t) s i) (\<lambda>s1. Inr (s1, i + 3))
      else if c = CHR ''d'' then res_bind (put_number ftoa 3 ''%02d'' (tm_mday t) s i) (\<lambda>s1. Inr (s1, i + 2))
      else if c = CHR ''H'' then res_bind (put_number ftoa 3 ''%02d'' (tm_hour t) s i) (\<lambda>s1. Inr (s1, i + 2))
      else if c = CHR ''M'' then res_bind (put_number ftoa 3 ''%02d'' (tm_min t) s i) (\<lambda>s1. Inr (s1, i + 2))
      else if c = CHR ''S'' then res_bind (put_number ftoa 3 ''%02d'' (tm_sec t) s i) (\<lambda>s1. Inr (s1, i + 2))
      else if c = CHR ''Y'' then res_bind (put_number ftoa 5 ''%04d'' (cut_int (tm_year t + 1900)) s i) (\<lambda>s1. Inr (s1, i + 4))
      else if c = CHR ''Z'' then res_bind (put_label [''CET''] 0 s i) (\<lambda>s1. Inr (s1, i + 3))
      else Inr (s(i := c), i + 1))"

text \<open>\<open>max\<close> is only compared with the offset before a conversion is written.\<close>

fun strftime_loop :: "ftoa \<Rightarrow> tm \<Rightarrow> nat \<Rightarrow> string \<Rightarrow> (nat \<Rightarrow> char) \<Rightarrow> nat \<Rightarrow> ((nat \<Rightarrow> char) \<times> nat) res" where
  "strftime_loop ftoa t mx [] s i = Inr (s, i)"
| "strftime_loop ftoa t mx [c] s i =
     (if i \<ge> mx then Inr (s, i)
      else if c = CHR ''%'' then Inl (Panic ''format read past its end'')
      else Inr (s(i := c), i + 1))"
| "strftime_loop ftoa t mx (c # d # fmt) s i =
     (if i \<ge> mx then Inr (s, i)
      else if c = CHR ''%'' then (case strftime_field ftoa t d s i of Inl e \<Rightarrow> Inl e | Inr (s1, i1) \<Rightarrow> strftime_loop ftoa t mx fmt s1 i1)
      else strftime_loop ftoa t mx (d # fmt) (s(i := c)) (i + 1))"

definition strftime :: "ftoa \<Rightarrow> (nat \<Rightarrow> char) \<Rightarrow> nat \<Rightarrow> string \<Rightarrow> tm \<Rightarrow> (nat \<times> (nat \<Rightarrow> char)) res" where
  "strftime ftoa s mx fmt t = res_bind (strftime_loop ftoa t mx fmt s 0) (\<lambda>(s1, i). Inr (i, s1(i := CHR 0x00)))"

section \<open>Where the calendar differs from its interface\<close>

text \<open>The fields stay in the ranges the code divides by; the day of the month starts at 0 and months have 30 days.\<close>

lemma cut_int_small: "0 \<le> v \<Longrightarrow> v < 2147483648 \<Longrightarrow> cut_int v = v"
  by (simp add: cut_int_def sint_sbintrunc' signed_take_bit_int_eq_self)

lemma localtime_fields:
  assumes "0 \<le> t"
  shows "tm_sec (localtime t) = t mod 60" "tm_min (localtime t) = t div 60 mod 60" "tm_hour (localtime t) = t div 3600 mod 24"
    "tm_mday (localtime t) = t div 86400 mod 30" "tm_mon (localtime t) = t div 2592000 mod 12" "tm_wday (localtime t) = t div 86400 mod 7"
proof -
  have s: "a sdiv b = a div b" "a smod b = a mod b" if "0 \<le> a" "0 < b" for a b :: int
    using that by (cases "a = 0"; simp add: signed_divide_int_def signed_modulo_int_def)+
  have c: "cut_int (a mod b) = a mod b" if "0 < b" "b \<le> 60" for a b :: int
  proof (rule cut_int_small)
    show "0 \<le> a mod b" using that(1) by simp
    show "a mod b < 2147483648" using pos_mod_bound [OF that(1), of a] that(2) by linarith
  qed
  show "tm_sec (localtime t) = t mod 60" "tm_min (localtime t) = t div 60 mod 60" "tm_hour (localtime t) = t div 3600 mod 24"
    "tm_mday (localtime t) = t div 86400 mod 30" "tm_mon (localtime t) = t div 2592000 mod 12" "tm_wday (localtime t) = t div 86400 mod 7"
    using assms by (simp_all add: localtime_def s c pos_imp_zdiv_nonneg_iff)
qed

text \<open>The time of day counts the time since boot twice: \<open>get_epoch\<close> contains it already.\<close>

lemma timeval_counts_uptime_twice:
  assumes "ticks_to_ns w (timer_ticks w) = Inr ns"
  shows "timeval_now w (Some tv) =
    Inr (Some \<lparr>tv_sec = sint (boot_epoch w + ticks_to_seconds w (timer_ticks w) + ns div 1000000000), tv_usec = sint (ns mod 1000000000 div 1000)\<rparr>)"
  using assms by (simp add: timeval_now_def get_ticks_since_boot_def get_epoch_def add.commute)

text \<open>A field that does not fit is written all the same: one byte of room takes three characters and the terminator.\<close>

lemma strftime_overruns: "strftime ftoa s 1 ''%a'' (localtime 0) = Inr (3, s(0 := CHR ''S'', 1 := CHR ''u'', 2 := CHR ''n'', 3 := CHR 0x00))"
proof -
  have w: "tm_wday (localtime 0) = 0" using localtime_fields(6) [of 0] by simp
  have "put_label days 0 s 0 = Inr (s(0 := CHR ''S'', 1 := CHR ''u'', 2 := CHR ''n''))"
    by (auto simp: put_label_def days_def fun_eq_iff numeral_3_eq_3 less_Suc_eq)
  then show ?thesis by (simp add: strftime_def strftime_field_def w)
qed

end
