(* ===== verification/Spec2Isabelle.thy ===== *)
theory Spec2Isabelle
  imports Pmm Concurrency Buddy_Properties Strings Line_Discipline Vfs_Properties Account Paging_Properties Vmarea Partition_Table Ext2_Flush
    Waiting Md5_Spec Time
begin

text \<open>
  A verification library for the omen kernel, a small Unix-like kernel for x86-64 written in C.  Paths below are relative to
  src/src.  Each theory translates one part of the kernel, in the order of its source, and proves what makes it correct, or
  where it departs from what its interface promises.

  \<^bold>\<open>Conventions.\<close>  \<open>Omen_Prelude\<close> holds the vocabulary.  Integers of the code are words of their width (\<open>u8\<close>, \<open>u16\<close>, \<open>u32\<close>, \<open>u64\<close>), on
  which arithmetic wraps; an \<open>int\<close> whose range cannot matter is a HOL integer.  A structure is a record with the fields of the
  C structure, global variables are fields of the state record of their file, and an operation returns the new state.
  An operation that can fail fatally has the type \<open>'a res\<close>: \<open>Inl (Panic m)\<close> is a call of panic (modules/apps/panic/panic.c) or an
  access the code makes outside its objects, \<open>Inl Spin\<close> a busy wait for something no one will change.  A null pointer is \<open>None\<close>
  where the code tests for it.  Loops over a counter are recursions on lists of indices; a loop the code does not bound is a
  \<open>partial_function\<close> into \<open>option\<close>, \<open>None\<close> meaning that it never ends, and the theorems about such loops say that
  they end.  There is no fuel anywhere.  Interfaces between parts are locales, each interpreted on the model of the code that provides it.

  \<^bold>\<open>Memory.\<close>  At boot \<open>pmm_init\<close> gives the largest usable region to the bitfield allocator, which hands out pages; the virtual
  memory manager takes pages for page tables and for the nodes of its accounting; a process has a list of areas that is engraved
  into its page tables.
  \<^item> \<open>Bitmap\<close> (include/omen/libraries/basic/bitmap.h) and the contract \<open>bit_array\<close> of a set of bits; \<open>Block_Allocator\<close> the contract
    \<open>block_allocator\<close>: used cells, blocks, and what follows for every sequence of allocations and releases.
  \<^item> \<open>Bitfield_Allocator\<close> (modules/libraries/allocators/bitfield_allocator.c): live blocks are disjoint, the search finds a run of pages
    exactly when there is one in the part it scans, a release restores what an allocation took.  \<open>Pmm\<close> (modules/managers/mem/pmm.c): the region
    chosen is a largest one; a release gives back the first page only.
  \<^item> \<open>Linked_List\<close> (include/omen/libraries/basic/linked_list.h), pointers in a heap, refines operations on sequences; contract \<open>intrusive_list\<close>.
  \<^item> \<open>Buddy\<close> (modules/libraries/allocators/buddy_allocator.c), \<open>Buddy_Tree\<close> (the abstract tree of blocks), \<open>Buddy_Relation\<close>,
    \<open>Buddy_Refinement\<close> and \<open>Buddy_Contract\<close> (free lists, split bits and pair bits implement the tree, which is a \<open>block_allocator\<close>), and
    \<open>Buddy_Properties\<close> (disjointness, the round trip of a block, the accounting of used bytes).  Levels are at most 63.
  \<^item> \<open>Account\<close> (modules/managers/mem/account.c): the lists of directories and mappings refine a table; every node owns its page.
  \<^item> \<open>Paging\<close> (modules/managers/mem/vmm.c), \<open>Paging_Walk\<close> (walks from a root, the invariant that tables form a tree),
    \<open>Paging_Map\<close> and \<open>Paging_Properties\<close>: mapping and unmapping a page changes the translation of that page and of no other.
  \<^item> \<open>Vmarea\<close> (modules/managers/cpu/vmarea.c): the search for a shared region ends and returns one that collides with no area.

  \<^bold>\<open>Libraries.\<close>
  \<^item> \<open>Concurrency\<close> (modules/libraries/concurrency/mutex.c): each primitive for one thread, then as a step relation in which any number of threads
    interleave; mutual exclusion from the contract \<open>tas_lock\<close>, the accounting of the semaphore as an invariant.
  \<^item> \<open>Strings\<close> (modules/libraries/std/strings.c and ctype.c) over a memory of bytes: copies and comparisons end and are right on terminated strings.
  \<^item> \<open>Ring\<close> (modules/managers/dev/fifo.c and modules/libraries/basic/circular_list.c): order of bytes and round trips, contract \<open>bounded_queue\<close>.
  \<^item> \<open>Md5\<close> (modules/libraries/crypto/md5.c) and \<open>Md5_Spec\<close>: for every division of a message into updates the digest is the one of RFC 1321.
  \<^item> \<open>Printf\<close> (modules/libraries/std/stdio.c) and \<open>Printf_Properties\<close>: a buffer gets the beginning of the printed text that fits, integers are printed as
    numerals that denote them.  The floating-point conversions are an argument.  \<open>Time\<close> (modules/libraries/std/time.c): clocks, calendar and
    \<open>strftime\<close>, with the places where they differ from their interface.

  \<^bold>\<open>Processes.\<close>  The timer interrupt advances alarms, whose callbacks wake threads in the sleep queues; the scheduler then
  chooses a process and a thread.
  \<^item> \<open>Process_Types\<close> (constants and the encoding of wait statuses, include/omen/managers/cpu/process.h), \<open>Pit\<close> (modules/managers/dev/pit.c, alarms and
    ticks), \<open>Sline\<close> (modules/managers/cpu/sline.c): sleeps and wake-ups refine sets of waiting threads; contract \<open>one_shot_callback\<close> of alarms.
  \<^item> \<open>Signal\<close> (modules/managers/cpu/signal.c): pending signals are delivered once, in order.
  \<^item> \<open>Process\<close> (modules/managers/cpu/process.c): the table of processes, descriptors, the scheduler, waiting, exit, creation and fork.
    \<open>Scheduler\<close>: a process that stays ready is chosen within nineteen calls and as many more as there are live processes.
    \<open>Process_Table\<close>: a step relation of kernel operations keeps the table well formed.  \<open>Waiting\<close>: what a parent learns of its children.

  \<^bold>\<open>Devices and files.\<close>  A path is split and matched against the mounts; a descriptor leads to the file system of its mount; the ext2
  driver reads and writes blocks through the disk interface, which finds a driver in the device table.
  \<^item> \<open>Line_Discipline\<close> (drivers/tty/ld/line_discipline.c): a typed line arrives complete at the carriage return.
  \<^item> \<open>Devices\<close> (modules/managers/dev/devices.c), \<open>Disk\<close> (drivers/disk): sectors written are read back, others are unchanged.
    \<open>Partition_Table\<close> (drivers/vfs/partition): scanning GPT and MBR tables.
  \<^item> \<open>Vfs_Compat\<close> (drivers/vfs/generic/vfs_compat.c): live descriptors are distinct, directory listings round trip; \<open>Vfs\<close> and
    \<open>Vfs_Properties\<close> (drivers/vfs/vfs.c and vfs_interface.c): the depth check of paths, dispatch to the mount, packing of directory entries.
  \<^item> \<open>Ext2_Base\<close>, \<open>Ext2_Block\<close>, \<open>Ext2_Inode\<close>, \<open>Ext2_Dentry\<close> and \<open>Ext2\<close> translate drivers/vfs/generic/ext2 over the bytes of a drive.
    \<open>Ext2_Layout\<close> carries its 32-bit arithmetic over to natural numbers; \<open>Ext2_Inode_Table\<close> (the table is a \<open>keyed_store\<close>),
    \<open>Ext2_Read\<close> (reading a range equals copying the bytes of the file), \<open>Ext2_Alloc\<close> (what an allocation does to the bitmap),
    \<open>Ext2_Directory\<close> (insertion appends to the list of entries) and \<open>Ext2_Flush\<close> (what a flush reaches).

  \<^bold>\<open>Hypotheses.\<close>  Well-formedness of states is an executable or inductive predicate that initial states satisfy and operations keep.
  Bounds on sizes (a region below \<open>2^60\<close> bytes, partitions whose sectors have 32-bit numbers, messages below \<open>2^64\<close> bytes) exclude wrap-around
  of addresses where the code has no check for it.  Hardware and callbacks are arguments: a drive that transfers sectors or
  fails, the memory map of the boot loader, the operations of a file system type, the address space and stacks of a new process.

  \<^bold>\<open>Not modelled.\<close>
  \<^item> Code that only drives hardware, whose effect is the behaviour of the device: modules/hal (descriptor tables, interrupt and system call entry,
    APIC, model-specific registers, context switch in assembly), drivers/acpi, ahci, pci, ps2, serial and emulated, modules/managers/dev/fb.c.
  \<^item> modules/managers/boot: runs once over the structures of the Limine loader, partly before memory is set up.
  \<^item> The system call handlers of modules/hal/arch/x86/syscall.c: they unpack registers and call the operations modelled here.
  \<^item> The adapters between descriptors and file systems (drivers/vfs/generic/ext2/generic_ext2.h, tty and fifo), the tty and fifo drivers:
    both of their sides are modelled, they forward calls.
  \<^item> modules/libraries/executables/loader.c and the initial stack of a process: they write through the page tables of another process
    while it is being built; creation takes their result as an argument.
  \<^item> The floating-point conversions of modules/libraries/std/stdio.c and the functions of math.c; modules/libraries/allocators/heap_allocator.c and
    modules/managers/mem/vdso.c, which write through the page tables in use; modules/libraries/basic/stack.c, which nothing calls.
  \<^item> Debug output, and the programs and C library under progs, which run in user space.
\<close>

end
